(* ===== verification/Prelude.thy ===== *)
theory Prelude
  imports
    Complex_Main
    "HOL-Library.Word"
    "HOL-Library.Char_ord"
    "HOL-Library.List_Lexorder"
    "HOL-Library.Product_Lexorder"
begin

text \<open>
  Shared vocabulary of the development: JavaScript strings, bytes, numbers and the small part
  of the standard library the sources use (\<^verbatim>\<open>toLowerCase\<close>, \<^verbatim>\<open>trim\<close>, \<^verbatim>\<open>split\<close>,
  \<^verbatim>\<open>indexOf\<close>, \<^verbatim>\<open>parseInt\<close>, \<^verbatim>\<open>TextEncoder\<close>, string order), with the generic lemmas the
  component theories rest on.

  A JavaScript string is a \<^typ>\<open>string\<close>: a list of code units below 256 (Latin-1). Strings
  with larger code units are outside the model. Numbers that the code only uses as integers are
  \<^typ>\<open>int\<close> or \<^typ>\<open>nat\<close>, exact below \<open>2^53\<close>.
\<close>

unbundle bit_operations_syntax

named_theorems js_defs \<open>definitions of the JavaScript library functions\<close>
named_theorems js_simps \<open>simplification rules for the JavaScript library functions\<close>

type_synonym byte = "8 word"
type_synonym bytes = "8 word list"

section \<open>Characters and case\<close>

abbreviation code :: "char \<Rightarrow> nat" where
  "code c \<equiv> of_char c"

text \<open>\<^verbatim>\<open>String.prototype.toLowerCase\<close> on Latin-1 code units.\<close>
definition js_lower_char :: "char \<Rightarrow> char" where
  "js_lower_char c =
     (let n = code c in
      if (65 \<le> n \<and> n \<le> 90) \<or> (192 \<le> n \<and> n \<le> 222 \<and> n \<noteq> 215)
      then char_of (n + 32) else c)"

definition js_lower :: "string \<Rightarrow> string" where
  "js_lower s = map js_lower_char s"

text \<open>\<^verbatim>\<open>toUpperCase\<close>: sharp s becomes two letters; the two units whose upper case lies outside
  Latin-1 (\<open>0xB5\<close>, \<open>0xFF\<close>) are left alone, they are no ASCII letter in either form.\<close>
definition js_upper_char :: "char \<Rightarrow> string" where
  "js_upper_char c =
     (let n = code c in
      if n = 223 then ''SS''
      else if (97 \<le> n \<and> n \<le> 122) \<or> (224 \<le> n \<and> n \<le> 254 \<and> n \<noteq> 247)
      then [char_of (n - 32)] else [c])"

definition js_upper :: "string \<Rightarrow> string" where
  "js_upper s = concat (map js_upper_char s)"

definition is_upper :: "char \<Rightarrow> bool" where
  "is_upper c = (65 \<le> code c \<and> code c \<le> 90)"

definition is_lower :: "char \<Rightarrow> bool" where
  "is_lower c = (97 \<le> code c \<and> code c \<le> 122)"

definition is_digit :: "char \<Rightarrow> bool" where
  "is_digit c = (48 \<le> code c \<and> code c \<le> 57)"

definition is_alnum :: "char \<Rightarrow> bool" where
  "is_alnum c = (is_upper c \<or> is_lower c \<or> is_digit c)"

text \<open>\<^verbatim>\<open>\s\<close> and the characters \<^verbatim>\<open>trim\<close> removes, in Latin-1.\<close>
definition is_space :: "char \<Rightarrow> bool" where
  "is_space c = (code c \<in> {9, 10, 11, 12, 13, 32, 160})"

lemma js_lower_char_idem [simp]: "js_lower_char (js_lower_char c) = js_lower_char c"
  by (auto simp: js_lower_char_def Let_def)

lemma js_lower_idem [simp]: "js_lower (js_lower s) = js_lower s"
  by (simp add: js_lower_def)

lemma js_lower_append [simp]: "js_lower (s @ t) = js_lower s @ js_lower t"
  by (simp add: js_lower_def)

lemma js_lower_Nil [simp]: "js_lower [] = []"
  by (simp add: js_lower_def)

lemma js_lower_Cons [simp]: "js_lower (c # s) = js_lower_char c # js_lower s"
  by (simp add: js_lower_def)

lemma length_js_lower [simp]: "length (js_lower s) = length s"
  by (simp add: js_lower_def)

lemma js_lower_eq_Nil [simp]: "js_lower s = [] \<longleftrightarrow> s = []"
  by (simp add: js_lower_def)

lemma js_lower_char_neq:
  "js_lower_char c = d \<Longrightarrow> \<not> (97 \<le> code d \<and> code d \<le> 122) \<Longrightarrow> code d < 128 \<Longrightarrow> c = d"
  by (auto simp: js_lower_char_def Let_def split: if_splits)

section \<open>Trimming, searching, splitting\<close>

definition js_trim :: "string \<Rightarrow> string" where
  "js_trim s = rev (dropWhile is_space (rev (dropWhile is_space s)))"

definition starts_with :: "'a list \<Rightarrow> 'a list \<Rightarrow> bool" where
  "starts_with p s = (take (length p) s = p)"

definition ends_with :: "'a list \<Rightarrow> 'a list \<Rightarrow> bool" where
  "ends_with p s = starts_with (rev p) (rev s)"

fun index_of :: "'a \<Rightarrow> 'a list \<Rightarrow> nat option" where
  "index_of c [] = None"
| "index_of c (x # xs) = (if x = c then Some 0 else map_option Suc (index_of c xs))"

definition last_index_of :: "'a \<Rightarrow> 'a list \<Rightarrow> nat option" where
  "last_index_of c s = map_option (\<lambda>i. length s - 1 - i) (index_of c (rev s))"

fun js_includes :: "'a list \<Rightarrow> 'a list \<Rightarrow> bool" where
  "js_includes p [] = (p = [])"
| "js_includes p (x # xs) = (starts_with p (x # xs) \<or> js_includes p xs)"

text \<open>\<^verbatim>\<open>s.split(c)\<close> for a one-character separator: never empty.\<close>
fun js_split :: "'a \<Rightarrow> 'a list \<Rightarrow> 'a list list" where
  "js_split c [] = [[]]"
| "js_split c (x # xs) =
     (if x = c then [] # js_split c xs
      else (case js_split c xs of [] \<Rightarrow> [[x]] | y # ys \<Rightarrow> (x # y) # ys))"

fun js_join :: "'a list \<Rightarrow> 'a list list \<Rightarrow> 'a list" where
  "js_join sep [] = []"
| "js_join sep [x] = x"
| "js_join sep (x # y # ys) = x @ sep @ js_join sep (y # ys)"

text \<open>\<^verbatim>\<open>s.slice(i, j)\<close> for in-range bounds.\<close>
definition js_slice :: "nat \<Rightarrow> nat \<Rightarrow> 'a list \<Rightarrow> 'a list" where
  "js_slice i j s = drop i (take j s)"

lemma starts_with_iff: "starts_with p s \<longleftrightarrow> (\<exists>t. s = p @ t)"
  by (auto simp: starts_with_def) (metis append_take_drop_id)

lemma starts_with_append [simp]: "starts_with p (p @ t)"
  by (auto simp: starts_with_iff)

lemma ends_with_iff: "ends_with p s \<longleftrightarrow> (\<exists>t. s = t @ p)"
  unfolding ends_with_def starts_with_iff by (metis rev_append rev_rev_ident)

lemma ends_with_append [simp]: "ends_with p (t @ p)"
  by (auto simp: ends_with_iff)

lemma index_of_None_iff [simp]: "index_of c s = None \<longleftrightarrow> c \<notin> set s"
  by (induction s) auto

lemma index_of_SomeD:
  "index_of c s = Some i \<Longrightarrow>
     i < length s \<and> s ! i = c \<and> c \<notin> set (take i s) \<and> s = take i s @ c # drop (Suc i) s"
  by (induction s arbitrary: i) (auto split: if_splits)

lemma index_of_append_notin: "c \<notin> set s \<Longrightarrow> index_of c (s @ c # t) = Some (length s)"
  by (induction s) auto

lemma last_index_of_None_iff [simp]: "last_index_of c s = None \<longleftrightarrow> c \<notin> set s"
  by (simp add: last_index_of_def)

lemma last_index_of_append_notin: "c \<notin> set t \<Longrightarrow> last_index_of c (s @ c # t) = Some (length s)"
  by (simp add: last_index_of_def index_of_append_notin)

lemma last_index_of_SomeD:
  assumes "last_index_of c s = Some i"
  shows "i < length s \<and> s ! i = c \<and> c \<notin> set (drop (Suc i) s) \<and> s = take i s @ c # drop (Suc i) s"
proof -
  obtain j where j: "index_of c (rev s) = Some j" and i: "i = length s - 1 - j"
    using assms by (auto simp: last_index_of_def)
  have J: "j < length s" "rev s ! j = c" "c \<notin> set (take j (rev s))"
    using index_of_SomeD [OF j] by auto
  have il: "i < length s" using J i by simp
  moreover have "s ! i = c" using J i by (simp add: rev_nth)
  moreover have "c \<notin> set (drop (Suc i) s)"
    using J i by (simp add: take_rev Suc_diff_Suc)
  ultimately show ?thesis by (metis id_take_nth_drop)
qed

lemma js_split_nonempty [simp]: "js_split c s \<noteq> []"
  by (induction s) (auto split: list.splits)

lemma js_join_Cons: "ys \<noteq> [] \<Longrightarrow> js_join sep (x # ys) = x @ sep @ js_join sep ys"
  by (cases ys) auto

lemma js_join_split [simp]: "js_join [c] (js_split c s) = s"
proof (induction s)
  case (Cons x xs)
  obtain y ys where "js_split c xs = y # ys" by (metis js_split_nonempty neq_Nil_conv)
  with Cons show ?case by (cases ys) (auto simp: js_join_Cons)
qed simp

lemma js_split_notin: "c \<notin> set s \<Longrightarrow> js_split c s = [s]"
  by (induction s) auto

lemma js_split_append_sep: "c \<notin> set s \<Longrightarrow> js_split c (s @ c # t) = s # js_split c t"
  by (induction s) auto

lemma js_split_join:
  "xs \<noteq> [] \<Longrightarrow> \<forall>x \<in> set xs. c \<notin> set x \<Longrightarrow> js_split c (js_join [c] xs) = xs"
proof (induction xs)
  case (Cons x xs)
  then show ?case
    by (cases xs) (auto simp: js_split_notin js_split_append_sep js_join_Cons)
qed simp

lemma js_split_no_sep: "x \<in> set (js_split c s) \<Longrightarrow> c \<notin> set x"
proof (induction s arbitrary: x)
  case (Cons a s)
  then show ?case by (cases "js_split c s") (auto split: if_splits)
qed simp

lemma js_join_inject:
  assumes "js_join [c] xs = js_join [c] ys" "xs \<noteq> []" "ys \<noteq> []"
    and "\<forall>x \<in> set xs. c \<notin> set x" "\<forall>x \<in> set ys. c \<notin> set x"
  shows "xs = ys"
  using assms js_split_join by metis

lemma js_trim_id:
  assumes "s \<noteq> []" "\<not> is_space (hd s)" "\<not> is_space (last s)"
  shows "js_trim s = s"
proof -
  have "dropWhile is_space s = s" using assms by (cases s) auto
  moreover have "dropWhile is_space (rev s) = rev s" using assms by (cases s rule: rev_cases) auto
  ultimately show ?thesis by (simp add: js_trim_def)
qed

section \<open>Printing and parsing integers\<close>

definition digit_char :: "nat \<Rightarrow> char" where
  "digit_char d = char_of (if d < 10 then 48 + d else 87 + d)"

text \<open>\<^verbatim>\<open>n.toString(radix)\<close> for a non-negative integer.\<close>
fun nat_to_radix :: "nat \<Rightarrow> nat \<Rightarrow> string" where
  "nat_to_radix r n =
     (if r < 2 \<or> n < r then [digit_char n]
      else nat_to_radix r (n div r) @ [digit_char (n mod r)])"

declare nat_to_radix.simps [simp del]

definition int_to_string :: "int \<Rightarrow> string" where
  "int_to_string i =
     (if i < 0 then CHR ''-'' # nat_to_radix 10 (nat (- i)) else nat_to_radix 10 (nat i))"

definition digit_value :: "char \<Rightarrow> nat option" where
  "digit_value c =
     (let n = code c in
      if 48 \<le> n \<and> n \<le> 57 then Some (n - 48)
      else if 97 \<le> n \<and> n \<le> 122 then Some (n - 87)
      else if 65 \<le> n \<and> n \<le> 90 then Some (n - 55)
      else None)"

definition radix_digit :: "nat \<Rightarrow> char \<Rightarrow> nat option" where
  "radix_digit r c = (case digit_value c of Some d \<Rightarrow> if d < r then Some d else None | None \<Rightarrow> None)"

fun digits_value :: "nat \<Rightarrow> nat \<Rightarrow> string \<Rightarrow> nat" where
  "digits_value r acc [] = acc"
| "digits_value r acc (c # cs) =
     (case radix_digit r c of None \<Rightarrow> acc | Some d \<Rightarrow> digits_value r (acc * r + d) cs)"

text \<open>\<^verbatim>\<open>parseInt(s, radix)\<close>; \<^const>\<open>None\<close> is \<^verbatim>\<open>NaN\<close>. Leading white space and one sign are
  skipped, radix 16 also skips \<^verbatim>\<open>0x\<close>, and reading stops at the first non-digit.\<close>
definition js_parseInt :: "nat \<Rightarrow> string \<Rightarrow> int option" where
  "js_parseInt r s =
     (let s1 = dropWhile is_space s;
          neg = starts_with ''-'' s1;
          s2 = (if neg \<or> starts_with ''+'' s1 then drop 1 s1 else s1);
          s3 = (if r = 16 \<and> (starts_with ''0x'' s2 \<or> starts_with ''0X'' s2) then drop 2 s2 else s2)
      in case s3 of
           [] \<Rightarrow> None
         | c # _ \<Rightarrow> (case radix_digit r c of
                      None \<Rightarrow> None
                    | Some _ \<Rightarrow> Some ((if neg then -1 else 1) * int (digits_value r 0 s3))))"

lemma code_digit_char: "d < 16 \<Longrightarrow> code (digit_char d) = (if d < 10 then 48 + d else 87 + d)"
  by (simp add: digit_char_def)

lemma radix_digit_digit_char: "d < r \<Longrightarrow> r \<le> 16 \<Longrightarrow> radix_digit r (digit_char d) = Some d"
  by (auto simp: radix_digit_def digit_value_def code_digit_char Let_def)

lemma digit_char_digit: "d < 10 \<Longrightarrow> is_digit (digit_char d)"
  by (simp add: is_digit_def code_digit_char)

lemma digits_value_snoc:
  assumes "\<forall>x \<in> set xs. radix_digit r x \<noteq> None"
  shows "digits_value r acc (xs @ [c]) = (case radix_digit r c of
           None \<Rightarrow> digits_value r acc xs | Some d \<Rightarrow> digits_value r acc xs * r + d)"
  using assms by (induction xs arbitrary: acc) (auto split: option.splits)

lemma nat_to_radix_chars:
  "2 \<le> r \<Longrightarrow> c \<in> set (nat_to_radix r n) \<Longrightarrow> \<exists>d < r. c = digit_char d"
proof (induction r n rule: nat_to_radix.induct)
  case (1 r n)
  then show ?case
    using mod_less_divisor [of r n]
    by (cases "n < r") (force simp: nat_to_radix.simps [of r n])+
qed

lemma nat_to_radix_not_Nil [simp]: "nat_to_radix r n \<noteq> []"
  by (subst nat_to_radix.simps) simp

lemma digits_value_nat_to_radix:
  "2 \<le> r \<Longrightarrow> r \<le> 16 \<Longrightarrow> digits_value r 0 (nat_to_radix r n) = n"
proof (induction r n rule: nat_to_radix.induct)
  case (1 r n)
  have ok: "\<forall>x \<in> set (nat_to_radix r m). radix_digit r x \<noteq> None" for m
    using nat_to_radix_chars [of r _ m] radix_digit_digit_char [of _ r] 1(2,3) by fastforce
  show ?case
  proof (cases "n < r")
    case True
    with 1 show ?thesis by (simp add: nat_to_radix.simps [of r n] radix_digit_digit_char)
  next
    case False
    with 1 ok show ?thesis
      by (simp add: nat_to_radix.simps [of r n] digits_value_snoc radix_digit_digit_char)
  qed
qed

lemma int_to_string_not_Nil [simp]: "int_to_string i \<noteq> []"
  by (simp add: int_to_string_def)

lemma int_to_string_chars:
  "c \<in> set (int_to_string i) \<Longrightarrow> is_digit c \<or> c = CHR ''-''"
  using nat_to_radix_chars [of 10 c "nat i"] nat_to_radix_chars [of 10 c "nat (- i)"]
  by (auto simp: int_to_string_def digit_char_digit split: if_splits)

lemma js_parseInt_nat:
  assumes "2 \<le> r" "r \<le> 10"
  shows "js_parseInt r (nat_to_radix r n) = Some (int n)"
    and "js_parseInt r (CHR ''-'' # nat_to_radix r n) = Some (- int n)"
proof -
  obtain c cs where s: "nat_to_radix r n = c # cs" by (meson neq_Nil_conv nat_to_radix_not_Nil)
  then obtain d where d: "d < r" "c = digit_char d"
    using nat_to_radix_chars [of r c n] assms by auto
  then have c: "\<not> is_space c" "c \<noteq> CHR ''-''" "c \<noteq> CHR ''+''" "radix_digit r c = Some d"
    using digit_char_digit [of d] assms
    by (auto simp: is_digit_def is_space_def radix_digit_digit_char)
  have v: "digits_value r 0 (c # cs) = n" using s digits_value_nat_to_radix [of r n] assms by simp
  have m: "\<not> is_space (CHR ''-'')" by (simp add: is_space_def)
  show "js_parseInt r (nat_to_radix r n) = Some (int n)"
    unfolding s using c v assms by (simp add: js_parseInt_def Let_def starts_with_def del: digits_value.simps)
  show "js_parseInt r (CHR ''-'' # nat_to_radix r n) = Some (- int n)"
    unfolding s using c v m assms by (simp add: js_parseInt_def Let_def starts_with_def del: digits_value.simps)
qed

lemma js_parseInt_int_to_string [simp]: "js_parseInt 10 (int_to_string i) = Some i"
  by (simp add: int_to_string_def js_parseInt_nat)

section \<open>Bytes\<close>

text \<open>\<^verbatim>\<open>new TextEncoder().encode(s)\<close>: UTF-8 of Latin-1 code units.\<close>
definition utf8_char :: "char \<Rightarrow> bytes" where
  "utf8_char c =
     (let n = code c in
      if n < 128 then [word_of_nat n]
      else [word_of_nat (192 + n div 64), word_of_nat (128 + n mod 64)])"

definition text_encode :: "string \<Rightarrow> bytes" where
  "text_encode s = concat (map utf8_char s)"

lemma unat_byte_less [simp]: "unat (b::byte) < 256"
  using unsigned_less [of b] by simp

section \<open>JSON values\<close>

text \<open>What \<^verbatim>\<open>JSON.parse\<close> returns; objects keep their members in order, the last duplicate wins.
  The parser itself belongs to the runtime. Numbers are rationals.\<close>
datatype json =
    JNull
  | JBool bool
  | JNum rat
  | JStr string
  | JArr "json list"
  | JObj "(string \<times> json) list"

definition jfield :: "json \<Rightarrow> string \<Rightarrow> json option" where
  "jfield j k = (case j of JObj ms \<Rightarrow> map_of (rev ms) k | _ \<Rightarrow> None)"

section \<open>The contract of a keyed store\<close>

text \<open>What a reader may rely on after a write: KV namespaces, header lists and counter tables
  all promise it, and the facts about sequences of writes follow from it once.\<close>
locale keyed_store =
  fixes lookup :: "'s \<Rightarrow> 'c \<Rightarrow> 'v option"
    and update :: "'s \<Rightarrow> 'k \<Rightarrow> 'v \<Rightarrow> 's"
    and canon :: "'k \<Rightarrow> 'c"
  assumes lookup_update_same: "lookup (update s k v) (canon k) = Some v"
    and lookup_update_other: "c \<noteq> canon k \<Longrightarrow> lookup (update s k v) c = lookup s c"
begin

lemma lookup_update: "lookup (update s k v) c = (if c = canon k then Some v else lookup s c)"
  by (simp add: lookup_update_same lookup_update_other)

lemma lookup_updates:
  "lookup (foldl (\<lambda>s kv. update s (fst kv) (snd kv)) s kvs) c =
     (case map_of (rev (map (\<lambda>kv. (canon (fst kv), snd kv)) kvs)) c of Some v \<Rightarrow> Some v | None \<Rightarrow> lookup s c)"
proof (induction kvs rule: rev_induct)
  case (snoc kv kvs)
  then show ?case by (cases kv) (simp add: lookup_update)
qed simp

end

section \<open>Tables with a unique index\<close>

text \<open>A table is the list of its rows. A (partial) unique index is a key function: rows with key
  \<^const>\<open>None\<close> are not indexed. \<^verbatim>\<open>INSERT ... ON CONFLICT DO NOTHING\<close> also tells whether a row was
  written.\<close>
definition unique_by :: "('r \<Rightarrow> 'k option) \<Rightarrow> 'r list \<Rightarrow> bool" where
  "unique_by key t = distinct (filter (\<lambda>k. k \<noteq> None) (map key t))"

definition insert_or_ignore :: "('r \<Rightarrow> 'k option) \<Rightarrow> 'r \<Rightarrow> 'r list \<Rightarrow> 'r list \<times> bool" where
  "insert_or_ignore key r t =
     (if key r \<noteq> None \<and> key r \<in> set (map key t) then (t, False) else (t @ [r], True))"

lemma unique_by_Nil [simp]: "unique_by key []"
  by (simp add: unique_by_def)

lemma insert_or_ignore_unique: "unique_by key t \<Longrightarrow> unique_by key (fst (insert_or_ignore key r t))"
  by (auto simp: unique_by_def insert_or_ignore_def)

lemma insert_or_ignore_mono: "x \<in> set t \<Longrightarrow> x \<in> set (fst (insert_or_ignore key r t))"
  by (auto simp: insert_or_ignore_def)

lemma unique_by_eq:
  assumes "unique_by key t" "x \<in> set t" "y \<in> set t" "key x = key y" "key x \<noteq> None"
  shows "x = y"
  using assms
proof (induction t)
  case (Cons a t)
  have "key a \<notin> key ` set t" if "key a \<noteq> None"
    using Cons.prems(1) that by (auto simp: unique_by_def)
  moreover have "unique_by key t" using Cons.prems(1) by (auto simp: unique_by_def split: if_splits)
  ultimately show ?case using Cons by (metis image_eqI set_ConsD)
qed simp

lemma unique_by_filter: "unique_by key t \<Longrightarrow> unique_by key (filter Q t)"
proof (induction t)
  case (Cons a t)
  then show ?case by (auto simp: unique_by_def split: if_splits)
qed simp

lemma unique_by_distinct:
  "unique_by key t \<Longrightarrow> \<forall>r \<in> set t. key r \<noteq> None \<Longrightarrow> distinct (map key t)"
  by (simp add: unique_by_def filter_id_conv)

text \<open>Rows whose keys lie in a small set are few.\<close>
lemma unique_by_bound:
  assumes "unique_by key t" "\<forall>r \<in> set t. key r \<in> set (map Some ks)"
  shows "length t \<le> length ks"
proof -
  have "distinct (map key t)" using assms by (intro unique_by_distinct) auto
  then have "length t = card (key ` set t)" by (metis distinct_card length_map list.set_map)
  also have "\<dots> \<le> card (set (map Some ks))" using assms(2) by (intro card_mono) auto
  also have "\<dots> \<le> length ks" by (metis card_length length_map)
  finally show ?thesis .
qed

end
