(* ===== verification/Hmac.thy ===== *)
theory Hmac
  imports Prelude "HOL-Library.Multiset"
begin

text \<open>
  The request signer and verifier of \<^verbatim>\<open>packages/hmac/src/index.ts\<close>: canonical query and
  canonical string, hex and Crockford base-32 codecs, constant-time comparison, \<open>sign\<close> and
  \<open>verify\<close>. SHA-256, HMAC-SHA-256 and the \<^verbatim>\<open>URLSearchParams\<close> parser belong to the runtime
  and are the fields of the parameter record \<open>platform\<close>. The lemmas show that the canonical
  string determines every signed part, that \<open>verify\<close> accepts exactly the headers \<open>sign\<close>
  would produce inside the clock window, and the codec round trips.
\<close>

section \<open>Data\<close>

datatype direction = Polaris_api | Polaris_webhook

primrec direction_str :: "direction \<Rightarrow> string" where
  "direction_str Polaris_api = ''polaris-api''"
| "direction_str Polaris_webhook = ''polaris-webhook''"

datatype query_value = QOne string | QMany "string list"

datatype query_input =
    QUndefined
  | QString string
  | QSearchParams "(string \<times> string) list"
  | QRecord "(string \<times> query_value) list"

datatype text_or_bytes = Text string | Raw bytes

text \<open>What the runtime provides.\<close>
record platform =
  sha256 :: "bytes \<Rightarrow> bytes"
  hmac_raw :: "bytes \<Rightarrow> bytes \<Rightarrow> bytes"
  search_params :: "string \<Rightarrow> (string \<times> string) list"

record canonical_input =
  ci_direction :: direction
  ci_method :: string
  ci_path :: string
  ci_query :: query_input
  ci_ts :: string
  ci_nonce :: string
  ci_body :: text_or_bytes

record verify_input =
  vi_direction :: direction
  vi_method :: string
  vi_path :: string
  vi_query :: query_input
  vi_headers :: "string \<Rightarrow> string option"
  vi_body :: text_or_bytes
  vi_secret :: text_or_bytes
  vi_skewSeconds :: "int option"
  vi_now :: int

datatype verify_code = Missing_header | Header_invalid | Clock_skew | Invalid_signature

datatype verify_result = VOk int string | VErr verify_code string

section \<open>Canonicalization\<close>

definition js_padStart :: "nat \<Rightarrow> char \<Rightarrow> string \<Rightarrow> string" where
  "js_padStart n c s = replicate (n - length s) c @ s"

definition hex_byte :: "byte \<Rightarrow> string" where
  "hex_byte b = js_padStart 2 (CHR ''0'') (nat_to_radix 16 (unat b))"

definition pct_byte :: "byte \<Rightarrow> string" where
  "pct_byte b = CHR ''%'' # js_upper (hex_byte b)"

definition uri_unreserved :: "char \<Rightarrow> bool" where
  "uri_unreserved c = (is_alnum c \<or> c \<in> set ''-_.!~*'' \<or> code c \<in> {39, 40, 41})"

definition js_encodeURIComponent :: "string \<Rightarrow> string" where
  "js_encodeURIComponent s =
     concat (map (\<lambda>c. if uri_unreserved c then [c] else concat (map pct_byte (utf8_char c))) s)"

text \<open>\<open>encode\<close>: the five characters \<^verbatim>\<open>!'()*\<close> are escaped as well.\<close>
definition encode_rfc3986 :: "string \<Rightarrow> string" where
  "encode_rfc3986 s =
     concat (map (\<lambda>c. if code c \<in> {33, 39, 40, 41, 42}
                      then CHR ''%'' # js_upper (nat_to_radix 16 (code c)) else [c])
       (js_encodeURIComponent s))"

definition query_params :: "platform \<Rightarrow> query_input \<Rightarrow> (string \<times> string) list" where
  "query_params P q =
     (case q of
        QUndefined \<Rightarrow> []
      | QString s \<Rightarrow> if s = [] then [] else search_params P (if starts_with ''?'' s then drop 1 s else s)
      | QSearchParams ps \<Rightarrow> ps
      | QRecord kvs \<Rightarrow>
          concat (map (\<lambda>(k, v). case v of QOne x \<Rightarrow> [(k, x)] | QMany xs \<Rightarrow> map (\<lambda>x. (k, x)) xs) kvs))"

definition canonicalQuery :: "platform \<Rightarrow> query_input \<Rightarrow> string" where
  "canonicalQuery P q =
     js_join ''&''
       (map (\<lambda>(k, v). encode_rfc3986 (js_lower k) @ ''='' @ encode_rfc3986 v)
         (sort_key (\<lambda>(k, v). (js_lower k, v)) (query_params P q)))"

definition toHex :: "bytes \<Rightarrow> string" where
  "toHex bs = foldl (\<lambda>out b. out @ hex_byte b) [] bs"

definition sha256Hex :: "platform \<Rightarrow> bytes \<Rightarrow> string" where
  "sha256Hex P bs = toHex (sha256 P bs)"

definition toBytes :: "text_or_bytes \<Rightarrow> bytes" where
  "toBytes x = (case x of Text s \<Rightarrow> text_encode s | Raw b \<Rightarrow> b)"

text \<open>\<open>assertNoCrlf\<close>: \<^const>\<open>Some\<close> is the message of the exception it throws.\<close>
fun assertNoCrlf_scan :: "string \<Rightarrow> string \<Rightarrow> string option" where
  "assertNoCrlf_scan name [] = None"
| "assertNoCrlf_scan name (ch # rest) =
     (let c = code ch in
      if c = 10 \<or> c = 13 \<or> c = 0 \<or> c = 9 \<or> c = 32
      then Some (''hmac: '' @ name @ '' contains whitespace or control character'')
      else if c > 126 then Some (''hmac: '' @ name @ '' non-ASCII'')
      else assertNoCrlf_scan name rest)"

definition assertNoCrlf :: "string \<Rightarrow> string \<Rightarrow> string option" where
  "assertNoCrlf name v =
     (if v = [] then Some (''hmac: '' @ name @ '' empty'') else assertNoCrlf_scan name v)"

definition buildCanonical :: "platform \<Rightarrow> canonical_input \<Rightarrow> string + string" where
  "buildCanonical P ci =
     (case assertNoCrlf ''ts'' (ci_ts ci) of Some e \<Rightarrow> Inl e | None \<Rightarrow>
      case assertNoCrlf ''nonce'' (ci_nonce ci) of Some e \<Rightarrow> Inl e | None \<Rightarrow>
      let bodyHash = sha256Hex P (toBytes (ci_body ci));
          method = js_upper (ci_method ci)
      in if method = [] \<or> \<not> list_all is_upper method then Inl ''hmac: invalid HTTP method''
         else if \<not> starts_with ''/'' (ci_path ci) then Inl ''hmac: path must start with /''
         else Inr (js_join [CHR 0x0A]
                [direction_str (ci_direction ci), method, ci_path ci, canonicalQuery P (ci_query ci),
                 ci_ts ci, ci_nonce ci, bodyHash]))"

section \<open>Codecs and comparison\<close>

fun fromHex_pairs :: "string \<Rightarrow> bytes option" where
  "fromHex_pairs (a # b # rest) =
     (case js_parseInt 16 [a, b] of
        None \<Rightarrow> None
      | Some v \<Rightarrow> map_option ((#) (word_of_int v)) (fromHex_pairs rest))"
| "fromHex_pairs _ = Some []"

definition fromHex :: "string \<Rightarrow> string + bytes" where
  "fromHex hex =
     (if length hex mod 2 \<noteq> 0 then Inl ''hmac: odd hex length''
      else case fromHex_pairs hex of None \<Rightarrow> Inl ''hmac: invalid hex'' | Some b \<Rightarrow> Inr b)"

definition constantTimeEqual :: "bytes \<Rightarrow> bytes \<Rightarrow> bool" where
  "constantTimeEqual a b =
     (if length a \<noteq> length b then False
      else foldl (\<lambda>acc i. acc OR ((a ! i) XOR (b ! i))) 0 [0 ..< length a] = 0)"

definition CROCKFORD :: string where
  "CROCKFORD = ''0123456789ABCDEFGHJKMNPQRSTVWXYZ''"

text \<open>The inner \<^verbatim>\<open>while (bits >= 5)\<close> loop, on JavaScript's 32-bit accumulator.\<close>
function crockford_emit :: "32 word \<Rightarrow> nat \<Rightarrow> string \<Rightarrow> nat \<times> string" where
  "crockford_emit acc bits out =
     (if bits \<ge> 5
      then crockford_emit acc (bits - 5)
             (out @ [CROCKFORD ! unat (signed_drop_bit (bits - 5) acc AND 31)])
      else (bits, out))"
  by pat_completeness auto
termination by (relation "measure (\<lambda>(_, bits, _). bits)") auto

declare crockford_emit.simps [simp del]

fun crockford_loop :: "bytes \<Rightarrow> 32 word \<Rightarrow> nat \<Rightarrow> string \<Rightarrow> 32 word \<times> nat \<times> string" where
  "crockford_loop [] acc bits out = (acc, bits, out)"
| "crockford_loop (b # bs) acc bits out =
     (let acc' = push_bit 8 acc OR ucast b;
          (bits', out') = crockford_emit acc' (bits + 8) out
      in crockford_loop bs acc' bits' out')"

definition crockford32 :: "bytes \<Rightarrow> string" where
  "crockford32 bs =
     (let (acc, bits, out) = crockford_loop bs 0 0 []
      in if bits > 0 then out @ [CROCKFORD ! unat (push_bit (5 - bits) acc AND 31)] else out)"

text \<open>\<open>generateNonce\<close> and \<open>generateSecret\<close>, of the random bytes drawn.\<close>
definition generateNonce :: "bytes \<Rightarrow> string" where
  "generateNonce rnd = crockford32 (take 15 rnd)"

definition generateSecret :: "bytes \<Rightarrow> string" where
  "generateSecret rnd = crockford32 (take 32 rnd)"

section \<open>Sign and verify\<close>

definition hmacSha256 :: "platform \<Rightarrow> bytes \<Rightarrow> bytes \<Rightarrow> bytes" where
  "hmacSha256 P secret data = hmac_raw P secret data"

definition secretBytes :: "text_or_bytes \<Rightarrow> bytes" where
  "secretBytes x = (case x of Text s \<Rightarrow> text_encode s | Raw b \<Rightarrow> b)"

definition sign :: "platform \<Rightarrow> canonical_input \<Rightarrow> text_or_bytes \<Rightarrow> string + string" where
  "sign P ci secret =
     (case buildCanonical P ci of
        Inl e \<Rightarrow> Inl e
      | Inr canonical \<Rightarrow> Inr (toHex (hmacSha256 P (secretBytes secret) (text_encode canonical))))"

definition is_hex_lower :: "char \<Rightarrow> bool" where
  "is_hex_lower c = (is_digit c \<or> (97 \<le> code c \<and> code c \<le> 102))"

definition SIG_HEX_RE :: "string \<Rightarrow> bool" where
  "SIG_HEX_RE s = (s \<noteq> [] \<and> list_all is_hex_lower s)"

definition verify_canonical :: "verify_input \<Rightarrow> string \<Rightarrow> string \<Rightarrow> canonical_input" where
  "verify_canonical vi ts nonce =
     \<lparr> ci_direction = vi_direction vi, ci_method = vi_method vi, ci_path = vi_path vi,
       ci_query = vi_query vi, ci_ts = ts, ci_nonce = nonce, ci_body = vi_body vi \<rparr>"

definition header_or_empty :: "verify_input \<Rightarrow> string \<Rightarrow> string" where
  "header_or_empty vi h = (case vi_headers vi h of None \<Rightarrow> [] | Some v \<Rightarrow> v)"

definition verify :: "platform \<Rightarrow> verify_input \<Rightarrow> verify_result" where
  "verify P vi =
    (let skew = (case vi_skewSeconds vi of None \<Rightarrow> 300 | Some s \<Rightarrow> s) * 1000;
         now = vi_now vi;
         tsHeader = header_or_empty vi ''x-polaris-ts'';
         nonceHeader = header_or_empty vi ''x-polaris-nonce'';
         sigHeader = header_or_empty vi ''x-polaris-sig''
     in if tsHeader = [] then VErr Missing_header ''X-Polaris-Ts missing''
        else if nonceHeader = [] then VErr Missing_header ''X-Polaris-Nonce missing''
        else if sigHeader = [] then VErr Missing_header ''X-Polaris-Sig missing''
        else case assertNoCrlf ''X-Polaris-Ts'' tsHeader of Some e \<Rightarrow> VErr Header_invalid e | None \<Rightarrow>
        case assertNoCrlf ''X-Polaris-Nonce'' nonceHeader of Some e \<Rightarrow> VErr Header_invalid e | None \<Rightarrow>
        case assertNoCrlf ''X-Polaris-Sig'' sigHeader of Some e \<Rightarrow> VErr Header_invalid e | None \<Rightarrow>
        if \<not> SIG_HEX_RE sigHeader then VErr Invalid_signature ''signature format''
        else case js_parseInt 10 tsHeader of
          None \<Rightarrow> VErr Header_invalid ''ts not an integer''
        | Some ts \<Rightarrow>
          if int_to_string ts \<noteq> tsHeader then VErr Header_invalid ''ts not an integer''
          else if \<bar>now - ts\<bar> > skew
          then VErr Clock_skew (''|now-ts|>'' @ int_to_string (skew div 1000) @ ''s'')
          else if length nonceHeader < 16 \<or> length nonceHeader > 128
          then VErr Header_invalid ''nonce length''
          else case buildCanonical P (verify_canonical vi tsHeader nonceHeader) of
            Inl e \<Rightarrow> VErr Header_invalid e
          | Inr canonical \<Rightarrow>
            (let expected = hmacSha256 P (secretBytes (vi_secret vi)) (text_encode canonical)
             in case fromHex sigHeader of
                  Inl _ \<Rightarrow> VErr Invalid_signature ''sig hex invalid''
                | Inr provided \<Rightarrow>
                    if \<not> constantTimeEqual expected provided
                    then VErr Invalid_signature ''hmac mismatch''
                    else VOk ts nonceHeader))"

section \<open>Codec lemmas\<close>

lemma constantTimeEqual_fold:
  "(foldl (\<lambda>acc i. acc OR ((a ! i) XOR (b ! i))) k [0 ..< n] = (0::8 word)) \<longleftrightarrow>
     k = 0 \<and> (\<forall>i < n. a ! i = b ! i)"
proof (induction n)
  case (Suc n)
  have "x OR y = 0 \<longleftrightarrow> x = 0 \<and> y = 0" for x y :: "8 word"
    by (auto simp: bit_eq_iff bit_or_iff)
  moreover have "x XOR y = 0 \<longleftrightarrow> x = y" for x y :: "8 word"
    by (simp add: bit_eq_iff bit_xor_iff)
  ultimately show ?case using Suc by (auto simp: less_Suc_eq)
qed simp

lemma constantTimeEqual_iff [simp]: "constantTimeEqual a b \<longleftrightarrow> a = b"
  unfolding constantTimeEqual_def constantTimeEqual_fold list_eq_iff_nth_eq by auto

lemma toHex_concat: "toHex bs = concat (map hex_byte bs)"
proof -
  have "foldl (\<lambda>out b. out @ hex_byte b) acc bs = acc @ concat (map hex_byte bs)" for acc
    by (induction bs arbitrary: acc) auto
  then show ?thesis by (simp add: toHex_def)
qed

lemma nat_to_radix_16:
  "n < 256 \<Longrightarrow> nat_to_radix 16 n =
     (if n < 16 then [digit_char n] else [digit_char (n div 16), digit_char (n mod 16)])"
  using less_mult_imp_div_less [of n 16 16]
  by (simp add: nat_to_radix.simps [of 16 n] nat_to_radix.simps [of 16 "n div 16"])

lemma hex_byte_eq:
  "hex_byte b = [digit_char (unat b div 16), digit_char (unat b mod 16)]"
proof -
  have "unat b < 256" by simp
  moreover have "digit_char 0 = CHR ''0''" by code_simp
  ultimately show ?thesis
    by (simp add: hex_byte_def js_padStart_def nat_to_radix_16)
qed

lemma digit_char_hex: "d < 16 \<Longrightarrow> is_hex_lower (digit_char d)"
  by (auto simp: is_hex_lower_def is_digit_def code_digit_char)

lemma is_hex_lower_not_special:
  assumes "is_hex_lower c"
  shows "\<not> is_space c" "c \<noteq> CHR ''-''" "c \<noteq> CHR ''+''" "c \<noteq> CHR ''x''" "c \<noteq> CHR ''X''"
  using assms by (auto simp: is_hex_lower_def is_digit_def is_space_def)

lemma js_parseInt_hex_pair:
  assumes "d < 16" "e < 16"
  shows "js_parseInt 16 [digit_char d, digit_char e] = Some (int (d * 16 + e))"
proof -
  note s = is_hex_lower_not_special [OF digit_char_hex [OF assms(1)]]
    is_hex_lower_not_special [OF digit_char_hex [OF assms(2)]]
  show ?thesis using assms s
    by (simp add: js_parseInt_def Let_def starts_with_def radix_digit_digit_char)
qed

lemma fromHex_pairs_toHex: "fromHex_pairs (concat (map hex_byte bs)) = Some bs"
proof (induction bs)
  case (Cons b bs)
  have "unat b < 256" by simp
  then have "unat b div 16 < 16" by (simp add: less_mult_imp_div_less)
  with Cons show ?case
    by (simp add: hex_byte_eq js_parseInt_hex_pair flip: of_nat_mult of_nat_add)
qed simp

lemma length_toHex: "length (toHex bs) = 2 * length bs"
  by (induction bs) (auto simp: toHex_concat hex_byte_eq)

lemma fromHex_toHex_lemma: "fromHex (toHex bs) = Inr bs"
  by (simp add: fromHex_def length_toHex) (simp add: toHex_concat fromHex_pairs_toHex)

section \<open>The canonical query\<close>

definition query_char :: "char \<Rightarrow> bool" where
  "query_char c = (is_alnum c \<or> code c \<in> {45, 46, 95, 126})"

definition enc1 :: "char \<Rightarrow> string" where
  "enc1 c = (if query_char c then [c] else concat (map pct_byte (utf8_char c)))"

definition upper_digit :: "nat \<Rightarrow> char" where
  "upper_digit d = char_of (if d < 10 then 48 + d else 55 + d)"

lemma code_upper_digit: "d < 16 \<Longrightarrow> code (upper_digit d) = (if d < 10 then 48 + d else 55 + d)"
  by (simp add: upper_digit_def)

lemma upper_digit_inject: "d < 16 \<Longrightarrow> e < 16 \<Longrightarrow> upper_digit d = upper_digit e \<longleftrightarrow> d = e"
  by (auto simp: code_upper_digit simp flip: of_char_eq_iff [where 'a = nat] split: if_splits)

lemma upper_digit_alnum: "d < 16 \<Longrightarrow> is_alnum (upper_digit d)"
  by (auto simp: is_alnum_def is_digit_def is_upper_def code_upper_digit)

lemma js_upper_digit_char: "d < 16 \<Longrightarrow> js_upper_char (digit_char d) = [upper_digit d]"
  by (auto simp: js_upper_char_def Let_def code_digit_char upper_digit_def digit_char_def)

lemma pct_byte_eq:
  "pct_byte b = [CHR ''%'', upper_digit (unat b div 16), upper_digit (unat b mod 16)]"
  using less_mult_imp_div_less [of "unat b" 16 16]
  by (simp add: pct_byte_def hex_byte_eq js_upper_def js_upper_digit_char)

lemma pct_byte_inject:
  assumes "pct_byte a @ x = pct_byte b @ y"
  shows "a = b \<and> x = y"
proof -
  have lt: "unat w div 16 < 16" for w :: byte
    using less_mult_imp_div_less [of "unat w" 16 16] by simp
  have "unat a div 16 = unat b div 16" "unat a mod 16 = unat b mod 16" and xy: "x = y"
    using assms lt by (auto simp: pct_byte_eq upper_digit_inject)
  then have "unat a = unat b" by (metis div_mult_mod_eq)
  then show ?thesis using xy by (simp add: word_unat_eq_iff)
qed

lemma pct_not_query: "\<not> query_char (CHR ''%'')"
  by (simp add: query_char_def is_alnum_def is_upper_def is_lower_def is_digit_def)

lemma utf8_cases:
  "utf8_char c = [word_of_nat (code c)] \<and> code c < 128 \<or>
   utf8_char c = [word_of_nat (192 + code c div 64), word_of_nat (128 + code c mod 64)] \<and> \<not> code c < 128"
  by (auto simp: utf8_char_def Let_def)

lemma unat_byte_of_nat [simp]: "n < 256 \<Longrightarrow> unat (word_of_nat n :: byte) = n"
  by (simp add: unsigned_of_nat take_bit_nat_eq_self)

lemma word_of_nat_byte_inject: "m < 256 \<Longrightarrow> n < 256 \<Longrightarrow> (word_of_nat m :: byte) = word_of_nat n \<longleftrightarrow> m = n"
  by (metis unat_byte_of_nat)

lemma utf8_prefix_free:
  assumes "utf8_char c @ x = utf8_char d @ y"
  shows "c = d \<and> x = y"
proof -
  have c: "code c < 256" "192 + code c div 64 < 256" "128 + code c mod 64 < 256"
    and d: "code d < 256" "192 + code d div 64 < 256" "128 + code d mod 64 < 256"
    using less_mult_imp_div_less [of "code c" 4 64] less_mult_imp_div_less [of "code d" 4 64]
      mod_less_divisor [of 64 "code c"] mod_less_divisor [of 64 "code d"] by auto
  consider "code c < 128" "code d < 128" | "\<not> code c < 128" "\<not> code d < 128"
    | "code c < 128" "\<not> code d < 128" | "\<not> code c < 128" "code d < 128" by blast
  then have "code c = code d \<and> x = y"
  proof cases
    case 2
    then have "code c div 64 = code d div 64" "code c mod 64 = code d mod 64" "x = y"
      using assms c d by (simp_all add: utf8_char_def Let_def word_of_nat_byte_inject del: of_nat_add)
    then show ?thesis by (metis div_mult_mod_eq)
  qed (use assms c d in \<open>simp_all add: utf8_char_def Let_def word_of_nat_byte_inject del: of_nat_add\<close>)
  then show ?thesis by simp
qed

lemma text_encode_inject: "text_encode s = text_encode t \<longleftrightarrow> s = t"
proof
  have ne: "utf8_char c \<noteq> []" for c using utf8_cases [of c] by auto
  show "text_encode s = text_encode t \<Longrightarrow> s = t"
  proof (induction s arbitrary: t)
    case Nil then show ?case by (cases t) (auto simp: text_encode_def ne)
  next
    case (Cons c s)
    then obtain d t' where "t = d # t'" by (cases t) (auto simp: text_encode_def ne)
    with Cons show ?case by (auto simp: text_encode_def dest!: utf8_prefix_free)
  qed
qed simp

lemma enc1_prefix_free:
  assumes "enc1 c @ x = enc1 d @ y"
  shows "c = d \<and> x = y"
proof -
  have hd: "\<exists>z. concat (map pct_byte (utf8_char e)) = CHR ''%'' # z" for e
    using utf8_cases [of e] by (auto simp: pct_byte_eq)
  consider "query_char c" "query_char d" | "\<not> query_char c" "\<not> query_char d"
    using assms hd [of c] hd [of d] pct_not_query by (auto simp: enc1_def split: if_splits)
  then show ?thesis
  proof cases
    case 1 then show ?thesis using assms by (simp add: enc1_def)
  next
    case 2
    have "code c = code d \<and> x = y"
      using assms 2 utf8_cases [of c] utf8_cases [of d]
      by (auto simp: enc1_def dest!: pct_byte_inject)
        (metis append_Cons append_Nil utf8_prefix_free)+
    then show ?thesis by simp
  qed
qed

lemma pct_repl:
  "code c \<in> {33, 39, 40, 41, 42} \<Longrightarrow>
     CHR ''%'' # js_upper (nat_to_radix 16 (code c)) = concat (map pct_byte (utf8_char c))"
  by (auto simp: utf8_char_def Let_def pct_byte_def hex_byte_def js_padStart_def nat_to_radix_16)

lemma set_pct_byte: "c \<in> set (pct_byte b) \<Longrightarrow> c = CHR ''%'' \<or> is_alnum c"
  using less_mult_imp_div_less [of "unat b" 16 16] by (auto simp: pct_byte_eq upper_digit_alnum)

lemma is_alnum_not_special: "is_alnum c \<Longrightarrow> code c \<notin> {10, 33, 37, 38, 39, 40, 41, 42, 61}"
  by (auto simp: is_alnum_def is_upper_def is_lower_def is_digit_def)

lemma encode_rfc3986_enc1: "encode_rfc3986 s = concat (map enc1 s)"
proof (induction s)
  case (Cons a s)
  let ?r = "\<lambda>c. if code c \<in> {33, 39, 40, 41, 42}
                  then CHR ''%'' # js_upper (nat_to_radix 16 (code c)) else [c]"
  have keep: "concat (map ?r (concat (map pct_byte bs))) = concat (map pct_byte bs)" for bs
  proof -
    have "code c \<notin> {33, 39, 40, 41, 42}" if "c \<in> set (concat (map pct_byte bs))" for c
      using that set_pct_byte is_alnum_not_special by fastforce
    then have "map ?r (concat (map pct_byte bs)) = map (\<lambda>c. [c]) (concat (map pct_byte bs))"
      by (intro map_cong refl) simp
    then show ?thesis by (simp only: concat_map_singleton map_ident)
  qed
  have "concat (map ?r (if uri_unreserved a then [a] else concat (map pct_byte (utf8_char a)))) = enc1 a"
  proof (cases "uri_unreserved a")
    case True
    then have "query_char a \<or> code a \<in> {33, 39, 40, 41, 42}"
      by (auto simp: uri_unreserved_def query_char_def)
    moreover have "query_char a \<Longrightarrow> code a \<notin> {33, 39, 40, 41, 42}"
      by (auto simp: query_char_def is_alnum_def is_upper_def is_lower_def is_digit_def)
    ultimately show ?thesis using True pct_repl by (auto simp: enc1_def simp del: concat_map_singleton)
  next
    case False
    then have "\<not> query_char a"
      by (auto simp: uri_unreserved_def query_char_def simp flip: of_char_eq_iff [where 'a = nat])
    with False keep show ?thesis by (simp add: enc1_def)
  qed
  with Cons show ?case by (simp add: encode_rfc3986_def js_encodeURIComponent_def)
qed (simp add: encode_rfc3986_def js_encodeURIComponent_def)

lemma encode_chars: "c \<in> set (encode_rfc3986 s) \<Longrightarrow> query_char c \<or> c = CHR ''%''"
  by (auto simp: encode_rfc3986_enc1 enc1_def query_char_def dest!: set_pct_byte split: if_splits)

lemma encode_no_special:
  "c \<in> set (encode_rfc3986 s) \<Longrightarrow> c \<noteq> CHR ''&'' \<and> c \<noteq> CHR ''='' \<and> c \<noteq> CHR 0x0A"
  by (drule encode_chars) (auto simp: query_char_def is_alnum_def is_upper_def is_lower_def is_digit_def)

lemma encode_inject: "encode_rfc3986 s = encode_rfc3986 t \<longleftrightarrow> s = t"
proof
  have ne: "enc1 c \<noteq> []" for c
    using utf8_cases [of c] by (auto simp: enc1_def pct_byte_eq)
  show "encode_rfc3986 s = encode_rfc3986 t \<Longrightarrow> s = t"
  proof (induction s arbitrary: t)
    case Nil then show ?case by (cases t) (auto simp: encode_rfc3986_enc1 ne)
  next
    case (Cons c s)
    then obtain d t' where "t = d # t'" by (cases t) (auto simp: encode_rfc3986_enc1 ne)
    with Cons show ?case by (auto simp: encode_rfc3986_enc1 dest!: enc1_prefix_free)
  qed
qed simp

definition render_pair :: "string \<times> string \<Rightarrow> string" where
  "render_pair kv = encode_rfc3986 (fst kv) @ ''='' @ encode_rfc3986 (snd kv)"

definition lower_key :: "string \<times> string \<Rightarrow> string \<times> string" where
  "lower_key kv = (js_lower (fst kv), snd kv)"

lemma append_sep_inject:
  "c \<notin> set a \<Longrightarrow> c \<notin> set b \<Longrightarrow> a @ c # x = b @ c # y \<longleftrightarrow> a = b \<and> x = y"
  by (metis append_eq_append_conv index_of_append_notin list.inject option.inject)

lemma render_pair_inject: "render_pair p = render_pair q \<longleftrightarrow> p = q"
proof -
  have "CHR ''='' \<notin> set (encode_rfc3986 x)" for x using encode_no_special by blast
  then show ?thesis
    by (simp add: render_pair_def append_sep_inject encode_inject prod_eq_iff)
qed

lemma inj_render_pair: "inj render_pair"
  by (simp add: inj_def render_pair_inject)

lemma map_sort_key: "map f (sort_key f xs) = sort (map f xs)"
  by (metis map_eq_conv list.map_id mset_map mset_sort properties_for_sort sorted_map sorted_sort_key)

lemma canonicalQuery_alt:
  "canonicalQuery P q = js_join ''&'' (map render_pair (sort (map lower_key (query_params P q))))"
proof -
  have "(\<lambda>(k, v). (js_lower k, v)) = lower_key" by (auto simp: lower_key_def)
  moreover have "(\<lambda>(k, v). encode_rfc3986 (js_lower k) @ ''='' @ encode_rfc3986 v) = render_pair \<circ> lower_key"
    by (auto simp: lower_key_def render_pair_def)
  ultimately show ?thesis
    by (simp add: canonicalQuery_def map_sort_key flip: map_map)
qed

lemma js_join_no: "c \<in> set (js_join sep xs) \<Longrightarrow> c \<in> set sep \<or> (\<exists>x \<in> set xs. c \<in> set x)"
  by (induction sep xs rule: js_join.induct) auto

lemma render_pair_no [simp]:
  "CHR ''&'' \<notin> set (render_pair p)" "CHR 0x0A \<notin> set (render_pair p)"
  using encode_no_special [of "CHR ''&''"] encode_no_special [of "CHR 0x0A"]
  by (auto simp: render_pair_def)

lemma canonicalQuery_no_lf [simp]: "CHR 0x0A \<notin> set (canonicalQuery P q)"
  unfolding canonicalQuery_alt using js_join_no by fastforce

lemma canonicalQuery_inject_lemma:
  "canonicalQuery P q = canonicalQuery P q' \<longleftrightarrow>
     mset (map lower_key (query_params P q)) = mset (map lower_key (query_params P q'))"
    (is "?L \<longleftrightarrow> mset ?a = mset ?b")
proof
  assume L: ?L
  have ne: "render_pair x \<noteq> []" for x by (simp add: render_pair_def)
  have "map render_pair (sort ?a) = map render_pair (sort ?b)"
  proof (cases "?a = [] \<or> ?b = []")
    case True
    have emp: "js_join ''&'' (map render_pair (sort zs)) = [] \<longleftrightarrow> zs = []" for zs
    proof (cases "sort zs")
      case Nil
      then show ?thesis by (metis list.size(3) length_sort length_0_conv js_join.simps(1) list.map(1))
    next
      case (Cons y ys)
      then have "zs \<noteq> []" by auto
      with Cons ne show ?thesis by (cases ys) auto
    qed
    show ?thesis using L True emp unfolding canonicalQuery_alt by metis
  next
    case False
    then have "sort ?a \<noteq> []" "sort ?b \<noteq> []" by (metis length_sort length_0_conv)+
    then show ?thesis using L unfolding canonicalQuery_alt
      by (intro js_join_inject [of "CHR ''&''"]) (simp_all add: image_iff)
  qed
  then have "sort ?a = sort ?b" by (rule map_injective) (rule inj_render_pair)
  then show "mset ?a = mset ?b" by (metis mset_sort)
next
  assume "mset ?a = mset ?b"
  then have "sort ?a = sort ?b" by (metis mset_sort properties_for_sort sorted_sort)
  then show ?L by (simp add: canonicalQuery_alt)
qed

section \<open>The canonical string\<close>

definition header_clean :: "string \<Rightarrow> bool" where
  "header_clean v = (v \<noteq> [] \<and> (\<forall>c \<in> set v. code c \<notin> {0, 9, 10, 13, 32} \<and> code c \<le> 126))"

lemma assertNoCrlf_scan_None:
  "assertNoCrlf_scan name v = None \<longleftrightarrow> (\<forall>c \<in> set v. code c \<notin> {0, 9, 10, 13, 32} \<and> code c \<le> 126)"
  by (induction v) (auto simp: Let_def)

lemma assertNoCrlf_None [simp]: "assertNoCrlf name v = None \<longleftrightarrow> header_clean v"
  by (simp add: assertNoCrlf_def header_clean_def assertNoCrlf_scan_None)

lemma assertNoCrlf_clean [simp]: "header_clean v \<Longrightarrow> assertNoCrlf name v = None"
  by simp

lemma header_clean_no_lf: "header_clean v \<Longrightarrow> CHR 0x0A \<notin> set v"
  by (auto simp: header_clean_def)

lemma toHex_chars: "c \<in> set (toHex bs) \<Longrightarrow> is_hex_lower c"
  using less_mult_imp_div_less [of _ 16 16]
  by (auto simp: toHex_concat hex_byte_eq intro!: digit_char_hex)

lemma hex_no_lf: "CHR 0x0A \<notin> set (toHex bs)"
  using toHex_chars [of "CHR 0x0A"] by (auto simp: is_hex_lower_def is_digit_def)

definition canonical_parts :: "platform \<Rightarrow> canonical_input \<Rightarrow> string list" where
  "canonical_parts P ci =
     [direction_str (ci_direction ci), js_upper (ci_method ci), ci_path ci,
      canonicalQuery P (ci_query ci), ci_ts ci, ci_nonce ci, sha256Hex P (toBytes (ci_body ci))]"

definition canonical_ok :: "canonical_input \<Rightarrow> bool" where
  "canonical_ok ci =
     (header_clean (ci_ts ci) \<and> header_clean (ci_nonce ci) \<and> js_upper (ci_method ci) \<noteq> [] \<and>
      list_all is_upper (js_upper (ci_method ci)) \<and> starts_with ''/'' (ci_path ci))"

lemma buildCanonical_Inr:
  "buildCanonical P ci = Inr s \<longleftrightarrow> canonical_ok ci \<and> s = js_join [CHR 0x0A] (canonical_parts P ci)"
proof (cases "header_clean (ci_ts ci) \<and> header_clean (ci_nonce ci)")
  case True
  then show ?thesis
    by (auto simp: buildCanonical_def Let_def canonical_ok_def canonical_parts_def)
next
  case False
  then have "assertNoCrlf ''ts'' (ci_ts ci) \<noteq> None \<or> assertNoCrlf ''nonce'' (ci_nonce ci) \<noteq> None"
    by simp
  with False show ?thesis
    by (auto simp: buildCanonical_def canonical_ok_def split: option.splits)
qed

lemma append_sep_inject_right:
  "c \<notin> set x \<Longrightarrow> c \<notin> set y \<Longrightarrow> a @ c # x = b @ c # y \<longleftrightarrow> a = b \<and> x = y"
  by (metis append_eq_append_conv last_index_of_append_notin list.inject option.inject)

lemma join7_inject:
  fixes c :: 'a
  assumes "js_join [c] [a1, a2, p, a4, a5, a6, a7] = js_join [c] [b1, b2, q, b4, b5, b6, b7]"
    and "\<forall>x \<in> set [a1, a2, a4, a5, a6, a7, b1, b2, b4, b5, b6, b7]. c \<notin> set x"
  shows "[a1, a2, p, a4, a5, a6, a7] = [b1, b2, q, b4, b5, b6, b7]"
proof -
  have "a1 = b1 \<and> a2 = b2 \<and> p @ c # a4 @ c # a5 @ c # a6 @ c # a7 = q @ c # b4 @ c # b5 @ c # b6 @ c # b7"
    using assms by (simp add: append_sep_inject)
  moreover from this
  have "(((p @ c # a4) @ c # a5) @ c # a6) @ c # a7 = (((q @ c # b4) @ c # b5) @ c # b6) @ c # b7"
    by simp
  then have "p = q \<and> a4 = b4 \<and> a5 = b5 \<and> a6 = b6 \<and> a7 = b7"
    using assms(2) append_sep_inject_right [of c] by (metis list.set_intros)
  ultimately show ?thesis by simp
qed

lemma canonical_inject_lemma:
  assumes "buildCanonical P a = Inr s" "buildCanonical P b = Inr s"
  shows "canonical_parts P a = canonical_parts P b"
proof -
  have ok: "canonical_ok a" "canonical_ok b"
    and eq: "js_join [CHR 0x0A] (canonical_parts P a) = js_join [CHR 0x0A] (canonical_parts P b)"
    using assms by (auto simp: buildCanonical_Inr)
  have dir: "CHR 0x0A \<notin> set (direction_str d)" for d by (cases d) auto
  have up: "CHR 0x0A \<notin> set m" if "list_all is_upper m" for m
    using that by (auto simp: list_all_iff is_upper_def)
  show ?thesis
    unfolding canonical_parts_def
    by (rule join7_inject [OF eq [unfolded canonical_parts_def]])
      (use ok dir up in \<open>auto simp: canonical_ok_def header_clean_no_lf sha256Hex_def hex_no_lf\<close>)
qed

section \<open>Crockford base 32\<close>

definition byte_bits :: "byte \<Rightarrow> bool list" where
  "byte_bits b = map (bit b) (rev [0 ..< 8])"

definition bits_value :: "bool list \<Rightarrow> nat" where
  "bits_value bs = horner_sum of_bool 2 (rev bs)"

fun chunks5 :: "bool list \<Rightarrow> bool list list" where
  "chunks5 [] = []"
| "chunks5 (a # b # c # d # e # rest) = [a, b, c, d, e] # chunks5 rest"
| "chunks5 short = [short @ replicate (5 - length short) False]"

text \<open>RFC 4648-style reference: the bit string in groups of five, the last one padded with zeros.\<close>
definition crockford_spec :: "bytes \<Rightarrow> string" where
  "crockford_spec bs = map (\<lambda>ch. CROCKFORD ! bits_value ch) (chunks5 (concat (map byte_bits bs)))"

definition low_bits :: "nat \<Rightarrow> 32 word \<Rightarrow> bool list" where
  "low_bits n w = map (bit w) (rev [0 ..< n])"

lemma and_31: "(x::32 word) AND 31 = take_bit 5 x"
proof -
  have "(31::32 word) = mask 5" by (simp add: mask_eq_exp_minus_1)
  then show ?thesis by (simp add: take_bit_eq_mask)
qed

lemma unat_take_bit_5:
  "unat (take_bit 5 w :: 32 word) = bits_value (map (bit w) (rev [0 ..< 5]))"
proof -
  have "unat (take_bit 5 w) = take_bit 5 (unat w)"
    by (simp add: unsigned_take_bit_eq)
  also have "\<dots> = horner_sum of_bool 2 (map (bit (unat w)) [0 ..< 5])"
    by (simp add: horner_sum_bit_eq_take_bit)
  also have "map (bit (unat w)) [0 ..< 5] = map (bit w) [0 ..< 5]"
    by (rule map_cong) (auto simp: bit_unsigned_iff)
  finally show ?thesis by (simp add: bits_value_def rev_map)
qed

lemma unat_shifted_bits:
  assumes "k + 5 \<le> 32"
  shows "unat (signed_drop_bit k w AND 31 :: 32 word) = bits_value (map (bit w) (rev [k ..< k + 5]))"
proof -
  have "map (bit (signed_drop_bit k w)) (rev [0 ..< 5]) = map (bit w) (rev [k ..< k + 5])"
    using assms by (intro nth_equalityI) (auto simp: rev_nth bit_signed_drop_bit_iff add.commute)
  then show ?thesis by (simp only: and_31 unat_take_bit_5)
qed

lemma low_bits_split: "k \<le> n \<Longrightarrow> low_bits n w = map (bit w) (rev [k ..< n]) @ low_bits k w"
  using upt_add_eq_append [of 0 k "n - k"] by (simp add: low_bits_def)

lemma low_bits_push:
  assumes "n + 8 \<le> 32"
  shows "low_bits (n + 8) (push_bit 8 acc OR ucast b) = low_bits n acc @ byte_bits b"
proof -
  let ?w = "push_bit 8 acc OR ucast b :: 32 word"
  have bits: "bit ?w i = (if i < 8 then bit b i else bit acc (i - 8))" if "i < 32" for i
    using that by (auto simp: bit_or_iff bit_push_bit_iff bit_unsigned_iff dest: bit_imp_le_length)
  have "map (bit ?w) (rev [8 ..< n + 8]) = low_bits n acc"
    using assms bits by (intro nth_equalityI) (auto simp: low_bits_def rev_nth)
  moreover have "low_bits 8 ?w = byte_bits b"
    using bits by (simp add: low_bits_def byte_bits_def)
  ultimately show ?thesis using low_bits_split [of 8 "n + 8" ?w] by simp
qed

abbreviation enc5 :: "bool list \<Rightarrow> char" where
  "enc5 ch \<equiv> CROCKFORD ! bits_value ch"

lemma crockford_emit_chunks:
  assumes "bits \<le> 32" "crockford_emit acc bits out = (bits', out')"
  shows "bits' < 5 \<and> (\<exists>chs. out' = out @ map enc5 chs \<and> (\<forall>ch \<in> set chs. length ch = 5) \<and>
           concat chs @ low_bits bits' acc = low_bits bits acc)"
  using assms
proof (induction acc bits out arbitrary: bits' out' rule: crockford_emit.induct)
  case (1 acc bits out)
  show ?case
  proof (cases "bits \<ge> 5")
    case True
    let ?ch = "map (bit acc) (rev [bits - 5 ..< bits])"
    have "out @ [CROCKFORD ! unat (signed_drop_bit (bits - 5) acc AND 31)] = out @ [enc5 ?ch]"
      using unat_shifted_bits [of "bits - 5" acc] 1 True by simp
    then have e: "crockford_emit acc (bits - 5) (out @ [enc5 ?ch]) = (bits', out')"
      using 1(3) True by (simp add: crockford_emit.simps [of acc bits])
    have "bits - 5 \<le> 32" using 1(2) by simp
    note IH = 1(1) [OF True this]
    obtain chs where "bits' < 5" "out' = (out @ [enc5 ?ch]) @ map enc5 chs"
        "\<forall>ch \<in> set chs. length ch = 5" "concat chs @ low_bits bits' acc = low_bits (bits - 5) acc"
      using IH [of bits' out'] e unat_shifted_bits [of "bits - 5" acc] 1(2) True by auto
    then show ?thesis
      using True low_bits_split [of "bits - 5" bits acc]
      by (intro conjI exI [of _ "?ch # chs"]) auto
  next
    case False
    then show ?thesis using 1 by (auto simp: crockford_emit.simps [of acc bits] intro: exI [of _ "[]"])
  qed
qed

lemma crockford_loop_chunks:
  assumes "bits < 5" "crockford_loop bs acc bits out = (acc', bits', out')"
  shows "bits' < 5 \<and> (\<exists>chs. out' = out @ map enc5 chs \<and> (\<forall>ch \<in> set chs. length ch = 5) \<and>
           concat chs @ low_bits bits' acc' = low_bits bits acc @ concat (map byte_bits bs))"
  using assms
proof (induction bs arbitrary: acc bits out)
  case (Cons b bs)
  let ?acc = "push_bit 8 acc OR ucast b :: 32 word"
  obtain bits1 out1 where e: "crockford_emit ?acc (bits + 8) out = (bits1, out1)" by fastforce
  obtain chs1 where 1: "bits1 < 5" "out1 = out @ map enc5 chs1" "\<forall>ch \<in> set chs1. length ch = 5"
      "concat chs1 @ low_bits bits1 ?acc = low_bits bits acc @ byte_bits b"
    using crockford_emit_chunks [OF _ e] low_bits_push [of bits acc b] Cons.prems by auto
  obtain chs where 2: "bits' < 5" "out' = out1 @ map enc5 chs" "\<forall>ch \<in> set chs. length ch = 5"
      "concat chs @ low_bits bits' acc' = low_bits bits1 ?acc @ concat (map byte_bits bs)"
    using Cons.IH [OF 1(1), of ?acc out1] Cons.prems e by (auto simp: Let_def)
  have "concat (chs1 @ chs) @ low_bits bits' acc' = low_bits bits acc @ concat (map byte_bits (b # bs))"
    using 1(4) 2(4) by simp
  then show ?case using 1 2 by (intro conjI exI [of _ "chs1 @ chs"]) auto
qed (auto intro: exI [of _ "[]"])

lemma length_5_cases: "length xs = 5 \<longleftrightarrow> (\<exists>a b c d e. xs = [a, b, c, d, e])"
  by (auto simp: length_Suc_conv numeral_eq_Suc)

lemma chunks5_append: "\<forall>ch \<in> set chs. length ch = 5 \<Longrightarrow> chunks5 (concat chs @ r) = chs @ chunks5 r"
  by (induction chs) (auto simp: length_5_cases)

lemma chunks5_short: "r \<noteq> [] \<Longrightarrow> length r < 5 \<Longrightarrow> chunks5 r = [r @ replicate (5 - length r) False]"
  by (cases r rule: chunks5.cases) auto

lemma crockford_tail:
  assumes "0 < n" "n < 5"
  shows "unat (push_bit (5 - n) acc AND 31 :: 32 word) = bits_value (low_bits n acc @ replicate (5 - n) False)"
proof -
  have "map (bit (push_bit (5 - n) acc)) (rev [0 ..< 5]) = low_bits n acc @ replicate (5 - n) False"
    using assms
    by (intro nth_equalityI) (auto simp: rev_nth low_bits_def nth_append bit_push_bit_iff)
  then show ?thesis by (simp only: and_31 unat_take_bit_5)
qed

lemma crockford32_refines: "crockford32 bs = crockford_spec bs"
proof -
  obtain acc bits out where l: "crockford_loop bs 0 0 [] = (acc, bits, out)" by (metis prod_cases3)
  obtain chs where c: "bits < 5" "out = map enc5 chs" "\<forall>ch \<in> set chs. length ch = 5"
      "concat chs @ low_bits bits acc = concat (map byte_bits bs)"
    using crockford_loop_chunks [OF _ l] by (auto simp: low_bits_def)
  have "chunks5 (concat (map byte_bits bs)) = chs @ chunks5 (low_bits bits acc)"
    using chunks5_append [OF c(3)] c(4) by metis
  moreover have "chunks5 (low_bits bits acc) =
      (if bits > 0 then [low_bits bits acc @ replicate (5 - bits) False] else [])"
    using c(1) chunks5_short [of "low_bits bits acc"] by (auto simp: low_bits_def)
  ultimately show ?thesis
    using c l by (simp add: crockford32_def crockford_spec_def crockford_tail)
qed

lemma length_chunks5: "length (chunks5 bs) = (length bs + 4) div 5"
  by (induction bs rule: chunks5.induct) (auto simp: div_add_self2 [symmetric])

lemma length_crockford32: "length (crockford32 bs) = (8 * length bs + 4) div 5"
proof -
  have "length (concat (map byte_bits bs)) = 8 * length bs"
    by (induction bs) (auto simp: byte_bits_def)
  then show ?thesis by (simp add: crockford32_refines crockford_spec_def length_chunks5)
qed

lemma chunks5_length: "ch \<in> set (chunks5 bs) \<Longrightarrow> length ch = 5"
  by (induction bs rule: chunks5.induct) auto

lemma bits_value_less: "bits_value bs < 2 ^ length bs"
  using horner_sum_of_bool_2_less [of "rev bs"] by (simp add: bits_value_def)

lemma set_crockford32: "c \<in> set (crockford32 bs) \<Longrightarrow> c \<in> set CROCKFORD"
proof -
  assume "c \<in> set (crockford32 bs)"
  then obtain ch where "ch \<in> set (chunks5 (concat (map byte_bits bs)))" "c = enc5 ch"
    by (auto simp: crockford32_refines crockford_spec_def)
  moreover from this have "bits_value ch < 32" using bits_value_less [of ch] chunks5_length by force
  moreover have "length CROCKFORD = 32" by (simp add: CROCKFORD_def)
  ultimately show ?thesis using nth_mem by metis
qed

section \<open>Verification\<close>

lemma is_hex_lower_digit:
  assumes "is_hex_lower c"
  obtains d where "d < 16" "c = digit_char d"
proof
  let ?d = "if code c \<le> 57 then code c - 48 else code c - 87"
  show "?d < 16" using assms by (auto simp: is_hex_lower_def is_digit_def)
  then show "c = digit_char ?d"
    using assms by (auto simp: is_hex_lower_def is_digit_def code_digit_char
        simp flip: of_char_eq_iff [where 'a = nat])
qed

lemma toHex_fromHex_pairs:
  "list_all is_hex_lower s \<Longrightarrow> even (length s) \<Longrightarrow> fromHex_pairs s = Some b \<Longrightarrow> toHex b = s"
proof (induction s arbitrary: b rule: fromHex_pairs.induct)
  case (1 x y rest)
  obtain d e where de: "d < 16" "x = digit_char d" "e < 16" "y = digit_char e"
    using 1 is_hex_lower_digit by (metis list.pred_inject(2))
  then obtain b' where b': "fromHex_pairs rest = Some b'" "b = word_of_int (int (d * 16 + e)) # b'"
    using 1 by (auto simp: js_parseInt_hex_pair)
  have "unat (word_of_int (int (d * 16 + e)) :: byte) = d * 16 + e"
    using de by (simp only: of_int_of_nat_eq) (simp del: of_nat_add of_nat_mult)
  then have "hex_byte (word_of_int (int (d * 16 + e))) = [x, y]"
    using de by (simp add: hex_byte_eq del: of_nat_add of_nat_mult of_int_of_nat_eq)
  moreover have "toHex b' = rest"
    using 1 de b' js_parseInt_hex_pair [of d e] by (metis even_Suc length_Cons list.pred_inject(2))
  ultimately show ?case using b' by (simp add: toHex_concat)
qed (auto simp: toHex_concat)

lemma toHex_fromHex: "SIG_HEX_RE s \<Longrightarrow> fromHex s = Inr b \<Longrightarrow> toHex b = s"
  by (auto simp: SIG_HEX_RE_def fromHex_def even_iff_mod_2_eq_zero
      split: if_splits option.splits intro: toHex_fromHex_pairs)

lemma SIG_HEX_RE_toHex [simp]: "SIG_HEX_RE (toHex b) \<longleftrightarrow> b \<noteq> []"
  using length_toHex [of b] by (auto simp: SIG_HEX_RE_def list_all_iff toHex_chars)

lemma is_hex_lower_clean: "is_hex_lower c \<Longrightarrow> code c \<notin> {0, 9, 10, 13, 32} \<and> code c \<le> 126"
  by (auto simp: is_hex_lower_def is_digit_def)

lemma header_clean_toHex [simp]: "b \<noteq> [] \<Longrightarrow> header_clean (toHex b)"
  using length_toHex [of b] toHex_chars is_hex_lower_clean
  by (auto simp: header_clean_def)

lemma header_clean_int [simp]: "header_clean (int_to_string i)"
proof -
  have "code c \<notin> {0, 9, 10, 13, 32} \<and> code c \<le> 126" if "c \<in> set (int_to_string i)" for c
    using int_to_string_chars [OF that] by (auto simp: is_digit_def)
  then show ?thesis by (simp add: header_clean_def)
qed

definition verify_skew :: "verify_input \<Rightarrow> int" where
  "verify_skew vi = (case vi_skewSeconds vi of None \<Rightarrow> 300 | Some s \<Rightarrow> s) * 1000"

lemma header_or_empty_Some:
  "header_or_empty vi h = v \<and> v \<noteq> [] \<longleftrightarrow> vi_headers vi h = Some v \<and> v \<noteq> []"
  by (auto simp: header_or_empty_def split: option.splits)

lemma verify_ok_D:
  assumes "verify P vi = VOk ts nonce"
  shows "\<exists>tsH sig c. tsH = int_to_string ts \<and> vi_headers vi ''x-polaris-ts'' = Some tsH \<and>
     vi_headers vi ''x-polaris-nonce'' = Some nonce \<and> vi_headers vi ''x-polaris-sig'' = Some sig \<and>
     SIG_HEX_RE sig \<and> \<bar>vi_now vi - ts\<bar> \<le> verify_skew vi \<and> 16 \<le> length nonce \<and> length nonce \<le> 128 \<and>
     buildCanonical P (verify_canonical vi tsH nonce) = Inr c \<and>
     fromHex sig = Inr (hmacSha256 P (secretBytes (vi_secret vi)) (text_encode c))"
proof -
  define sig where "sig = header_or_empty vi ''x-polaris-sig''"
  note [split] = if_splits option.splits sum.splits
  have *: "header_or_empty vi ''x-polaris-ts'' = int_to_string ts"
    "header_or_empty vi ''x-polaris-nonce'' = nonce" "nonce \<noteq> []" "sig \<noteq> []" "SIG_HEX_RE sig"
    "int_to_string ts \<noteq> []"
    "\<bar>vi_now vi - ts\<bar> \<le> verify_skew vi" "16 \<le> length nonce" "length nonce \<le> 128"
    "\<exists>c. buildCanonical P (verify_canonical vi (int_to_string ts) nonce) = Inr c \<and>
      fromHex sig = Inr (hmacSha256 P (secretBytes (vi_secret vi)) (text_encode c))"
    using assms unfolding verify_def Let_def sig_def verify_skew_def by auto
  show ?thesis
    using * header_or_empty_Some [of vi "''x-polaris-ts''"] header_or_empty_Some [of vi "''x-polaris-nonce''"]
      header_or_empty_Some [of vi "''x-polaris-sig''"] by (metis sig_def)
qed

lemma verify_ok_I:
  assumes "vi_headers vi ''x-polaris-ts'' = Some (int_to_string ts)"
    "vi_headers vi ''x-polaris-nonce'' = Some nonce"
    "vi_headers vi ''x-polaris-sig'' = Some (toHex tag)" "tag \<noteq> []"
    "\<bar>vi_now vi - ts\<bar> \<le> verify_skew vi" "16 \<le> length nonce" "length nonce \<le> 128"
    "buildCanonical P (verify_canonical vi (int_to_string ts) nonce) = Inr c"
    "tag = hmacSha256 P (secretBytes (vi_secret vi)) (text_encode c)"
  shows "verify P vi = VOk ts nonce"
proof -
  have "header_clean nonce" using assms(8)
    by (simp add: buildCanonical_Inr canonical_ok_def verify_canonical_def)
  moreover have "int_to_string ts \<noteq> []" "toHex tag \<noteq> []" "nonce \<noteq> []"
    using header_clean_int [of ts] header_clean_toHex [OF assms(4)] \<open>header_clean nonce\<close>
    unfolding header_clean_def by auto
  ultimately show ?thesis
    using assms unfolding verify_def Let_def
    by (simp add: header_or_empty_def fromHex_toHex_lemma verify_skew_def)
qed

section \<open>Properties\<close>

text \<open>C1. \<open>verify\<close> accepts a request exactly when the timestamp header is the decimal form of a
  time within the allowed skew of now, the nonce has between 16 and 128 characters, and the
  signature header is the one \<open>sign\<close> computes for the same request and secret.\<close>
theorem verify_accepts_iff:
  assumes "\<forall>k d. hmac_raw P k d \<noteq> []"
  shows "verify P vi = VOk ts nonce \<longleftrightarrow>
     vi_headers vi ''x-polaris-ts'' = Some (int_to_string ts) \<and>
     vi_headers vi ''x-polaris-nonce'' = Some nonce \<and>
     \<bar>vi_now vi - ts\<bar> \<le> verify_skew vi \<and> 16 \<le> length nonce \<and> length nonce \<le> 128 \<and>
     (\<exists>sig. vi_headers vi ''x-polaris-sig'' = Some sig \<and>
        sign P (verify_canonical vi (int_to_string ts) nonce) (vi_secret vi) = Inr sig)"
    (is "?L \<longleftrightarrow> ?R")
proof
  assume ?L
  then show ?R using toHex_fromHex by (auto dest!: verify_ok_D simp: sign_def)
next
  assume ?R
  then show ?L using assms
    by (auto simp: sign_def hmacSha256_def split: sum.splits intro!: verify_ok_I)
qed

definition demo_platform :: platform where
  "demo_platform = \<lparr> sha256 = (\<lambda>b. [word_of_nat (length b)]),
     hmac_raw = (\<lambda>k d. [word_of_nat (length k), word_of_nat (length d)]),
     search_params = (\<lambda>s. [(s, [])]) \<rparr>"

definition demo_request :: verify_input where
  "demo_request = \<lparr> vi_direction = Polaris_api, vi_method = ''post'', vi_path = ''/v1/m'',
     vi_query = QUndefined,
     vi_headers = (\<lambda>h. if h = ''x-polaris-ts'' then Some ''1000''
                    else if h = ''x-polaris-nonce'' then Some ''0123456789ABCDEF''
                    else if h = ''x-polaris-sig'' then Some ''0330'' else None),
     vi_body = Text ''hi'', vi_secret = Text ''key'', vi_skewSeconds = None, vi_now = 2000 \<rparr>"

lemma verify_accepts_iff_witness:
  "(\<forall>k d. hmac_raw demo_platform k d \<noteq> []) \<and> verify demo_platform demo_request = VOk 1000 ''0123456789ABCDEF''"
proof -
  have h: "\<forall>k d. hmac_raw demo_platform k d \<noteq> []" by (simp add: demo_platform_def)
  have i: "int_to_string 1000 = ''1000''" by code_simp
  have "sign demo_platform (verify_canonical demo_request ''1000'' ''0123456789ABCDEF'')
      (vi_secret demo_request) = Inr ''0330''" by code_simp
  then show ?thesis
    using verify_accepts_iff [OF h, of demo_request 1000 "''0123456789ABCDEF''"] h
    by (simp add: i) (simp add: demo_request_def verify_skew_def)
qed



text \<open>Two query inputs have the same canonical query exactly when they carry the same multiset
  of (lower-cased key, value) pairs: the order of parameters never matters, and no two different
  multisets are confused by the escaping.\<close>
theorem canonicalQuery_iff_same_params:
  "canonicalQuery P q = canonicalQuery P q' \<longleftrightarrow>
     mset (map lower_key (query_params P q)) = mset (map lower_key (query_params P q'))"
  by (rule canonicalQuery_inject_lemma)

text \<open>The hex codec loses nothing: decoding an encoded byte string gives it back, and every
  string that has the signature shape and decodes is re-encoded to itself.\<close>
theorem hex_round_trip:
  "fromHex (toHex b) = Inr b \<and> (SIG_HEX_RE s \<and> fromHex s = Inr b' \<longrightarrow> toHex b' = s)"
  using toHex_fromHex by (auto simp: fromHex_toHex_lemma)

lemma hex_round_trip_witness:
  "SIG_HEX_RE ''00ff'' \<and> fromHex ''00ff'' = Inr [0, 255] \<and> toHex [0, 255] = ''00ff''"
proof -
  have "SIG_HEX_RE ''00ff''" "fromHex ''00ff'' = Inr [0, 255]" by code_simp+
  then show ?thesis using hex_round_trip [of "[]" "''00ff''" "[0, 255]"] by blast
qed

text \<open>The shift-register implementation of Crockford base 32 on a 32-bit accumulator computes
  the reference encoding: five-bit groups of the bit string, the last one padded with zeros.\<close>
theorem crockford32_equiv_spec:
  "crockford32 bs = map (\<lambda>ch. CROCKFORD ! bits_value ch) (chunks5 (concat (map byte_bits bs)))"
  using crockford32_refines by (simp add: crockford_spec_def)

lemma CROCKFORD_clean: "c \<in> set CROCKFORD \<Longrightarrow> code c \<notin> {0, 9, 10, 13, 32} \<and> code c \<le> 126"
  by (auto simp: CROCKFORD_def)

lemma generateNonce_clean:
  "15 \<le> length rnd \<Longrightarrow> header_clean (generateNonce rnd) \<and> length (generateNonce rnd) = 24"
  using set_crockford32 CROCKFORD_clean length_crockford32 [of "take 15 rnd"]
  by (auto simp: header_clean_def generateNonce_def min_absorb2)

text \<open>What a client produces with \<open>generateNonce\<close> and \<open>sign\<close> is accepted: for a well-formed
  method and path, the request carrying the current time, a fresh nonce and the computed signature
  passes \<open>verify\<close> as long as the clocks differ by at most the allowed skew.\<close>
theorem signed_request_accepted:
  assumes "\<forall>k d. hmac_raw P k d \<noteq> []" "15 \<le> length rnd"
    and "js_upper (vi_method vi) \<noteq> []" "list_all is_upper (js_upper (vi_method vi))"
    and "starts_with ''/'' (vi_path vi)"
    and "vi_headers vi ''x-polaris-ts'' = Some (int_to_string ts)"
    and "vi_headers vi ''x-polaris-nonce'' = Some (generateNonce rnd)"
    and "\<bar>vi_now vi - ts\<bar> \<le> verify_skew vi"
  shows "\<exists>sig. sign P (verify_canonical vi (int_to_string ts) (generateNonce rnd)) (vi_secret vi) = Inr sig \<and>
     (vi_headers vi ''x-polaris-sig'' = Some sig \<longrightarrow> verify P vi = VOk ts (generateNonce rnd))"
proof -
  let ?ci = "verify_canonical vi (int_to_string ts) (generateNonce rnd)"
  have ok: "canonical_ok ?ci"
    using assms generateNonce_clean by (simp add: canonical_ok_def verify_canonical_def)
  define c where "c = js_join [CHR 0x0A] (canonical_parts P ?ci)"
  have c: "buildCanonical P ?ci = Inr c" using ok by (simp add: buildCanonical_Inr c_def)
  let ?tag = "hmacSha256 P (secretBytes (vi_secret vi)) (text_encode c)"
  have "sign P ?ci (vi_secret vi) = Inr (toHex ?tag)" using c by (simp add: sign_def)
  moreover have "verify P vi = VOk ts (generateNonce rnd)"
    if "vi_headers vi ''x-polaris-sig'' = Some (toHex ?tag)"
    using assms c generateNonce_clean [of rnd] that
    by (intro verify_ok_I [of vi ts "generateNonce rnd" ?tag P c]) (auto simp: hmacSha256_def)
  ultimately show ?thesis by blast
qed

definition demo_fresh :: verify_input where
  "demo_fresh = demo_request \<lparr> vi_headers := (\<lambda>h. if h = ''x-polaris-ts'' then Some ''1000''
                    else if h = ''x-polaris-nonce'' then Some (generateNonce (replicate 15 7))
                    else if h = ''x-polaris-sig'' then Some ''0338'' else None) \<rparr>"

lemma signed_request_accepted_witness:
  "verify demo_platform demo_fresh = VOk 1000 (generateNonce (replicate 15 7))"
proof -
  have i: "int_to_string 1000 = ''1000''" by code_simp
  have s: "sign demo_platform (verify_canonical demo_fresh (int_to_string 1000) (generateNonce (replicate 15 7)))
      (vi_secret demo_fresh) = Inr ''0338''" by code_simp
  have "\<forall>k d. hmac_raw demo_platform k d \<noteq> []" "(15::nat) \<le> length (replicate 15 (7::8 word))"
    "js_upper (vi_method demo_fresh) \<noteq> []" "list_all is_upper (js_upper (vi_method demo_fresh))"
    "starts_with ''/'' (vi_path demo_fresh)"
    "vi_headers demo_fresh ''x-polaris-ts'' = Some (int_to_string 1000)"
    "vi_headers demo_fresh ''x-polaris-nonce'' = Some (generateNonce (replicate 15 7))"
    "\<bar>vi_now demo_fresh - 1000\<bar> \<le> verify_skew demo_fresh"
    by (simp add: demo_platform_def) (code_simp | simp add: demo_fresh_def i)+
  from signed_request_accepted [OF this]
  show ?thesis unfolding s by (simp add: demo_fresh_def)
qed

end
