(* ===== verification/Ids.thy ===== *)
theory Ids
  imports Hmac
begin

text \<open>
  Identifiers and bearer strings: \<^verbatim>\<open>packages/ids/src/index.ts\<close> (\<open>ulid\<close>, \<open>requestId\<close>) and
  \<^verbatim>\<open>services/api/src/lib/parse-bearer.ts\<close> (\<open>parseBearer\<close>, \<open>prefixForType\<close>, \<open>formatBearer\<close>).
  Random bytes are arguments. The lemmas show that ULIDs sort by time, and that parsing a bearer
  inverts formatting it, also for the identifiers and secrets the program itself generates.
\<close>

section \<open>ULIDs\<close>

definition ENCODING :: string where
  "ENCODING = ''0123456789ABCDEFGHJKMNPQRSTVWXYZ''"

definition TIME_LEN :: nat where "TIME_LEN = 10"
definition RAND_LEN :: nat where "RAND_LEN = 16"

text \<open>The loop that prepends one base-32 digit per round.\<close>
fun ulid_time :: "nat \<Rightarrow> nat \<Rightarrow> string \<Rightarrow> string" where
  "ulid_time 0 t out = out"
| "ulid_time (Suc k) t out = ulid_time k (t div 32) (ENCODING ! (t mod 32) # out)"

definition byte_at :: "bytes \<Rightarrow> nat \<Rightarrow> byte" where
  "byte_at rnd i = (if i < length rnd then rnd ! i else 0)"

definition ulid :: "int \<Rightarrow> bytes \<Rightarrow> string + string" where
  "ulid now rnd =
     (if now < 0 then Inl ''ulid: bad time''
      else Inr (ulid_time TIME_LEN (nat now) [] @
             map (\<lambda>i. ENCODING ! (unat (byte_at rnd i) mod 32)) [0 ..< RAND_LEN]))"

definition requestId :: "bytes \<Rightarrow> string" where
  "requestId rnd = ''req_'' @ concat (map hex_byte (take 12 rnd))"

definition base32_digits :: "nat \<Rightarrow> nat \<Rightarrow> string" where
  "base32_digits k t = map (\<lambda>i. ENCODING ! (t div 32 ^ i mod 32)) (rev [0 ..< k])"

lemma base32_digits_Suc: "base32_digits (Suc k) t = base32_digits k (t div 32) @ [ENCODING ! (t mod 32)]"
proof -
  have "rev [0 ..< Suc k] = map Suc (rev [0 ..< k]) @ [0]"
    by (metis map_Suc_upt rev_map rev.simps(2) upt_conv_Cons zero_less_Suc)
  moreover have "(\<lambda>i. ENCODING ! (t div 32 ^ Suc i mod 32)) = (\<lambda>i. ENCODING ! (t div 32 div 32 ^ i mod 32))"
    by (simp add: div_mult2_eq)
  ultimately show ?thesis by (simp add: base32_digits_def comp_def del: upt_Suc)
qed

lemma ulid_time_eq: "ulid_time k t out = base32_digits k t @ out"
proof (induction k arbitrary: t out)
  case (Suc k)
  then show ?case by (simp add: base32_digits_Suc)
qed (simp add: base32_digits_def)

lemma ENCODING_strict: "i < j \<Longrightarrow> j < 32 \<Longrightarrow> ENCODING ! i < ENCODING ! j"
proof -
  have "sorted_wrt (<) ENCODING" unfolding ENCODING_def by code_simp
  moreover have "length ENCODING = 32" by (simp add: ENCODING_def)
  ultimately show "i < j \<Longrightarrow> j < 32 \<Longrightarrow> ENCODING ! i < ENCODING ! j"
    by (simp add: sorted_wrt_iff_nth_less)
qed

lemma list_less_append_same: "xs < ys \<Longrightarrow> length xs = length ys \<Longrightarrow> xs @ us < ys @ (vs :: 'a::linorder list)"
proof (induction xs ys rule: list_induct2')
  case (4 x xs y ys)
  then show ?case by (auto simp: list_less_def)
qed (auto simp: list_less_def)

lemma base32_digits_mono:
  assumes "s < t" "t < 32 ^ k"
  shows "base32_digits k s < base32_digits k t"
  using assms
proof (induction k arbitrary: s t)
  case (Suc k)
  show ?case
  proof (cases "s div 32 = t div 32")
    case True
    then have "s mod 32 < t mod 32" using Suc.prems by (metis div_mult_mod_eq nat_add_left_cancel_less)
    then have "ENCODING ! (s mod 32) < ENCODING ! (t mod 32)" by (intro ENCODING_strict) auto
    then have "xs @ [ENCODING ! (s mod 32)] < xs @ [ENCODING ! (t mod 32)]" for xs
      by (induction xs) auto
    then show ?thesis using True by (simp add: base32_digits_Suc)
  next
    case False
    then have "s div 32 < t div 32" using Suc.prems by (meson div_le_mono le_neq_implies_less less_imp_le)
    moreover have "t div 32 < 32 ^ k" using Suc.prems(2) by (simp add: less_mult_imp_div_less mult.commute)
    ultimately have "base32_digits k (s div 32) < base32_digits k (t div 32)" by (rule Suc.IH)
    then show ?thesis
      unfolding base32_digits_Suc by (rule list_less_append_same) (simp add: base32_digits_def)
  qed
qed simp

lemma ENCODING_CROCKFORD: "ENCODING = CROCKFORD"
  by (simp add: ENCODING_def CROCKFORD_def)

lemma length_CROCKFORD [simp]: "length CROCKFORD = 32"
  by (simp add: CROCKFORD_def)

lemma set_ENCODING_nth: "n < 32 \<Longrightarrow> ENCODING ! n \<in> set CROCKFORD"
  by (simp add: ENCODING_CROCKFORD)

lemma ulid_Inr:
  assumes "ulid now rnd = Inr s"
  shows "length s = 26" "set s \<subseteq> set CROCKFORD" "take 10 s = base32_digits 10 (nat now)"
proof -
  have s: "s = base32_digits 10 (nat now) @ map (\<lambda>i. ENCODING ! (unat (byte_at rnd i) mod 32)) [0 ..< 16]"
    using assms by (auto simp: ulid_def ulid_time_eq TIME_LEN_def RAND_LEN_def split: if_splits)
  show "length s = 26" "take 10 s = base32_digits 10 (nat now)" by (simp_all add: s base32_digits_def)
  show "set s \<subseteq> set CROCKFORD" by (auto simp: s base32_digits_def intro!: set_ENCODING_nth simp del: upt_Suc)
qed

section \<open>Bearer strings\<close>

datatype BearerType = Rest | Mcp | Cli

record ParsedBearer =
  pb_type :: BearerType
  pb_prefix :: string
  pb_kid :: string
  pb_secret :: string

definition BEARER_PREFIXES :: "(string \<times> BearerType) list" where
  "BEARER_PREFIXES = [(''pmtk_'', Rest), (''pmmcp_'', Mcp), (''pmcli_'', Cli)]"

definition KID_LENGTH :: nat where "KID_LENGTH = 26"
definition SECRET_MIN_LENGTH :: nat where "SECRET_MIN_LENGTH = 32"
definition SECRET_MAX_LENGTH :: nat where "SECRET_MAX_LENGTH = 64"

text \<open>\<^verbatim>\<open>/^[0-9A-HJKMNP-TV-Z]+$/\<close>\<close>
definition CROCKFORD_REGEX :: "string \<Rightarrow> bool" where
  "CROCKFORD_REGEX s = (s \<noteq> [] \<and>
     list_all (\<lambda>c. is_digit c \<or> (65 \<le> code c \<and> code c \<le> 72) \<or> code c = 74 \<or> code c = 75 \<or> code c = 77
       \<or> code c = 78 \<or> (80 \<le> code c \<and> code c \<le> 84) \<or> (86 \<le> code c \<and> code c \<le> 90)) s)"

definition parse_after_prefix :: "string \<Rightarrow> BearerType \<Rightarrow> string \<Rightarrow> ParsedBearer option" where
  "parse_after_prefix prefix type rest =
     (case index_of (CHR ''.'') rest of
        None \<Rightarrow> None
      | Some dot \<Rightarrow>
          if dot = 0 \<or> dot = length rest - 1 then None
          else let kid = take dot rest; secret = drop (dot + 1) rest in
            if length kid \<noteq> KID_LENGTH then None
            else if length secret < SECRET_MIN_LENGTH \<or> length secret > SECRET_MAX_LENGTH then None
            else if \<not> CROCKFORD_REGEX kid then None
            else if \<not> CROCKFORD_REGEX secret then None
            else Some \<lparr> pb_type = type, pb_prefix = prefix, pb_kid = kid, pb_secret = secret \<rparr>)"

fun parse_prefixes :: "(string \<times> BearerType) list \<Rightarrow> string \<Rightarrow> ParsedBearer option" where
  "parse_prefixes [] s = None"
| "parse_prefixes ((prefix, type) # ps) s =
     (if \<not> starts_with prefix s then parse_prefixes ps s
      else parse_after_prefix prefix type (drop (length prefix) s))"

definition parseBearer :: "string option \<Rightarrow> ParsedBearer option" where
  "parseBearer bearer =
     (case bearer of
        None \<Rightarrow> None
      | Some b \<Rightarrow> (let trimmed = js_trim b in
          if trimmed = [] then None else parse_prefixes BEARER_PREFIXES trimmed))"

definition prefixForType :: "BearerType \<Rightarrow> string" where
  "prefixForType t =
     (case find (\<lambda>(p, ty). ty = t) BEARER_PREFIXES of Some (p, _) \<Rightarrow> p | None \<Rightarrow> [])"

definition formatBearer :: "BearerType \<Rightarrow> string \<Rightarrow> string \<Rightarrow> string" where
  "formatBearer type kid secret = prefixForType type @ kid @ ''.'' @ secret"

definition valid_parts :: "string \<Rightarrow> string \<Rightarrow> bool" where
  "valid_parts kid secret =
     (length kid = 26 \<and> 32 \<le> length secret \<and> length secret \<le> 64 \<and>
      set kid \<subseteq> set CROCKFORD \<and> set secret \<subseteq> set CROCKFORD)"

lemma prefixForType_eq [simp]:
  "prefixForType Rest = ''pmtk_''" "prefixForType Mcp = ''pmmcp_''" "prefixForType Cli = ''pmcli_''"
  by (simp_all add: prefixForType_def BEARER_PREFIXES_def)

lemma CROCKFORD_REGEX_iff: "CROCKFORD_REGEX s \<longleftrightarrow> s \<noteq> [] \<and> set s \<subseteq> set CROCKFORD"
proof -
  have "(is_digit c \<or> (65 \<le> code c \<and> code c \<le> 72) \<or> code c = 74 \<or> code c = 75 \<or> code c = 77
       \<or> code c = 78 \<or> (80 \<le> code c \<and> code c \<le> 84) \<or> (86 \<le> code c \<and> code c \<le> 90)) \<longleftrightarrow>
     c \<in> set CROCKFORD" for c
  proof -
    have "list_all (\<lambda>n. ((48 \<le> n \<and> n \<le> 57) \<or> (65 \<le> n \<and> n \<le> 72) \<or> n = 74 \<or> n = 75 \<or> n = 77
       \<or> n = 78 \<or> (80 \<le> n \<and> n \<le> 84) \<or> (86 \<le> n \<and> n \<le> 90)) = (n \<in> set (map code CROCKFORD))) [0 ..< 256]"
      by code_simp
    then have "((48 \<le> code c \<and> code c \<le> 57) \<or> (65 \<le> code c \<and> code c \<le> 72) \<or> code c = 74 \<or> code c = 75
       \<or> code c = 77 \<or> code c = 78 \<or> (80 \<le> code c \<and> code c \<le> 84) \<or> (86 \<le> code c \<and> code c \<le> 90)) =
       (code c \<in> set (map code CROCKFORD))"
      unfolding list_all_iff by (drule_tac bspec [of _ _ "code c"]) simp_all
    moreover have "code c \<in> set (map code CROCKFORD) \<longleftrightarrow> c \<in> set CROCKFORD" by auto
    ultimately show ?thesis unfolding is_digit_def by blast
  qed
  then show ?thesis by (auto simp: CROCKFORD_REGEX_def list_all_iff)
qed

lemma CROCKFORD_no: "c \<in> set CROCKFORD \<Longrightarrow> c \<noteq> CHR ''.'' \<and> \<not> is_space c"
  by (auto simp: CROCKFORD_def is_space_def)

lemma parse_after_prefix_iff:
  "parse_after_prefix p t rest = Some r \<longleftrightarrow>
     (\<exists>kid secret. rest = kid @ ''.'' @ secret \<and> valid_parts kid secret \<and>
        r = \<lparr> pb_type = t, pb_prefix = p, pb_kid = kid, pb_secret = secret \<rparr>)"
    (is "?L \<longleftrightarrow> ?R")
proof
  assume ?L
  then obtain dot where d: "index_of (CHR ''.'') rest = Some dot"
      "valid_parts (take dot rest) (drop (Suc dot) rest)"
      "r = \<lparr> pb_type = t, pb_prefix = p, pb_kid = take dot rest, pb_secret = drop (Suc dot) rest \<rparr>"
    by (auto simp: parse_after_prefix_def Let_def CROCKFORD_REGEX_iff valid_parts_def KID_LENGTH_def
        SECRET_MIN_LENGTH_def SECRET_MAX_LENGTH_def split: option.splits if_splits)
  moreover have "rest = take dot rest @ ''.'' @ drop (Suc dot) rest"
    using index_of_SomeD [OF d(1)] by simp
  ultimately show ?R by blast
next
  assume ?R
  then obtain kid secret where k: "rest = kid @ ''.'' @ secret" "valid_parts kid secret"
      "r = \<lparr> pb_type = t, pb_prefix = p, pb_kid = kid, pb_secret = secret \<rparr>" by blast
  have "CHR ''.'' \<notin> set kid" using k(2) CROCKFORD_no by (auto simp: valid_parts_def)
  then have "index_of (CHR ''.'') rest = Some (length kid)"
    using index_of_append_notin [of "CHR ''.''" kid secret] k(1) by simp
  moreover have "kid \<noteq> []" "secret \<noteq> []" using k(2) by (auto simp: valid_parts_def)
  ultimately show ?L
    using k by (auto simp: parse_after_prefix_def Let_def CROCKFORD_REGEX_iff valid_parts_def KID_LENGTH_def
        SECRET_MIN_LENGTH_def SECRET_MAX_LENGTH_def)
qed

lemma parse_prefixes_iff:
  "parse_prefixes BEARER_PREFIXES s = Some r \<longleftrightarrow>
     s = formatBearer (pb_type r) (pb_kid r) (pb_secret r) \<and> pb_prefix r = prefixForType (pb_type r) \<and>
     valid_parts (pb_kid r) (pb_secret r)"
proof (cases "pb_type r")
  case Rest
  then show ?thesis
    by (cases r) (auto simp: BEARER_PREFIXES_def parse_after_prefix_iff formatBearer_def starts_with_iff)
next
  case Mcp
  then show ?thesis
    by (cases r) (auto simp: BEARER_PREFIXES_def parse_after_prefix_iff formatBearer_def starts_with_iff)
next
  case Cli
  then show ?thesis
    by (cases r) (auto simp: BEARER_PREFIXES_def parse_after_prefix_iff formatBearer_def starts_with_iff)
qed


lemma js_trim_formatBearer:
  assumes "valid_parts kid secret"
  shows "js_trim (formatBearer t kid secret) = formatBearer t kid secret"
proof (rule js_trim_id)
  have "secret \<noteq> []" "set secret \<subseteq> set CROCKFORD" using assms by (auto simp: valid_parts_def)
  then have "secret \<noteq> []" "last secret \<in> set CROCKFORD" using last_in_set by blast+
  then show "\<not> is_space (last (formatBearer t kid secret))"
    using CROCKFORD_no by (simp add: formatBearer_def)
  show "formatBearer t kid secret \<noteq> []" "\<not> is_space (hd (formatBearer t kid secret))"
    by (cases t; simp add: formatBearer_def is_space_def)+
qed

section \<open>Properties\<close>

text \<open>ULIDs sort by creation time: for two times below \<open>32^10\<close> ms the later identifier is the
  greater string, whatever the random bytes.\<close>
theorem ulid_sorted_by_time:
  assumes "ulid now rnd = Inr a" "ulid now' rnd' = Inr b" "now < now'" "now' < 32 ^ 10"
  shows "a < b"
proof -
  have "0 \<le> now" using assms(1) by (auto simp: ulid_def split: if_splits)
  then have "nat now < nat now'" "nat now' < 32 ^ 10" using assms(3,4) by (auto simp: nat_less_iff)
  then have "take 10 a < take 10 b"
    using ulid_Inr(3) [OF assms(1)] ulid_Inr(3) [OF assms(2)] base32_digits_mono [of "nat now" "nat now'" 10]
    by simp
  then have "take 10 a @ drop 10 a < take 10 b @ drop 10 b"
    using ulid_Inr(1) [OF assms(1)] ulid_Inr(1) [OF assms(2)] by (intro list_less_append_same) auto
  then show ?thesis by simp
qed

lemma ulid_sorted_by_time_witness:
  "\<exists>a b. ulid 1700000000000 (replicate 16 255) = Inr a \<and> ulid 1700000000001 (replicate 16 0) = Inr b \<and> a < b"
proof -
  obtain a b where "ulid 1700000000000 (replicate 16 255) = Inr a" "ulid 1700000000001 (replicate 16 0) = Inr b"
    by (simp add: ulid_def)
  then show ?thesis using ulid_sorted_by_time [of 1700000000000 _ a 1700000000001 _ b] by auto
qed

text \<open>\<open>parseBearer\<close> succeeds exactly on (white-space padded) output of \<open>formatBearer\<close> with a
  26-character key id and a secret of 32 to 64 characters over the Crockford alphabet, and returns
  those parts together with the prefix of the type.\<close>
theorem parseBearer_iff_format:
  "parseBearer (Some b) = Some r \<longleftrightarrow>
     js_trim b = formatBearer (pb_type r) (pb_kid r) (pb_secret r) \<and>
     pb_prefix r = prefixForType (pb_type r) \<and> valid_parts (pb_kid r) (pb_secret r)"
proof (cases "js_trim b = []")
  case True
  then show ?thesis by (cases "pb_type r") (auto simp: parseBearer_def formatBearer_def)
next
  case False
  then show ?thesis by (simp add: parseBearer_def parse_prefixes_iff)
qed

text \<open>The credentials the program mints can be parsed back: a bearer formatted from a ULID key
  id and a generated 256-bit secret yields the same type, key id and secret.\<close>
theorem minted_bearer_parses:
  assumes "ulid now rnd = Inr kid" "32 \<le> length srnd"
  shows "parseBearer (Some (formatBearer t kid (generateSecret srnd))) =
     Some \<lparr> pb_type = t, pb_prefix = prefixForType t, pb_kid = kid, pb_secret = generateSecret srnd \<rparr>"
proof -
  have "valid_parts kid (generateSecret srnd)"
    using ulid_Inr [OF assms(1)] length_crockford32 [of "take 32 srnd"] set_crockford32 [of _ "take 32 srnd"] assms(2)
    by (auto simp: valid_parts_def generateSecret_def min_absorb2)
  moreover from this have "formatBearer t kid (generateSecret srnd) \<noteq> []" by (cases t) (auto simp: formatBearer_def)
  ultimately show ?thesis by (simp add: parseBearer_def js_trim_formatBearer parse_prefixes_iff)
qed

lemma minted_bearer_parses_witness:
  "\<exists>kid. ulid 1700000000000 [] = Inr kid \<and> parseBearer (Some (formatBearer Mcp kid (generateSecret (replicate 32 9)))) =
     Some \<lparr> pb_type = Mcp, pb_prefix = prefixForType Mcp, pb_kid = kid, pb_secret = generateSecret (replicate 32 9) \<rparr>"
proof -
  obtain kid where "ulid 1700000000000 [] = Inr kid" by (simp add: ulid_def)
  then show ?thesis using minted_bearer_parses [of 1700000000000 "[]" kid "replicate 32 9" Mcp] by simp
qed

end
