(* ===== verification/AuditLog.thy ===== *)
theory AuditLog
  imports Hmac
begin

text \<open>
  The hash-chained audit log: the writer of \<^verbatim>\<open>packages/pipeline/src/audit.ts\<close> (tip read,
  compare-and-swap insert, bounded retry) and the verifier of \<^verbatim>\<open>services/api/src/audit.ts\<close>.
  The table is the list of its rows in id order; one SQL statement is one atomic function on it.
  Any number of writers may interleave between reading the tip and inserting: the locale
  \<open>cas_log\<close> states the compare-and-swap contract and proves once that every interleaving keeps
  an invariant; its interpretation on the audit table gives the chain theorems.
\<close>

section \<open>Rows, writer\<close>

record audit_row =
  ar_id :: int
  ar_actor :: string
  ar_action :: string
  ar_target :: "string option"
  ar_meta :: string
  ar_prev_hash :: string
  ar_row_hash :: string
  ar_at :: int

type_synonym audit_table = "audit_row list"

record AuditArgs =
  aa_actor :: string
  aa_action :: string
  aa_target :: "string option"
  aa_meta :: string \<comment> \<open>\<^verbatim>\<open>JSON.stringify(args.meta ?? {})\<close>\<close>
  aa_at :: int

definition MAX_AUDIT_RETRIES :: nat where "MAX_AUDIT_RETRIES = 8"

definition zero_hash :: string where
  "zero_hash = replicate 64 (CHR ''0'')"

definition opt_str :: "string option \<Rightarrow> string" where
  "opt_str t = (case t of None \<Rightarrow> [] | Some s \<Rightarrow> s)"

definition audit_sha256Hex :: "platform \<Rightarrow> string \<Rightarrow> string" where
  "audit_sha256Hex P data = foldl (\<lambda>s b. s @ hex_byte b) [] (sha256 P (text_encode data))"

definition audit_canonical :: "string \<Rightarrow> string \<Rightarrow> string option \<Rightarrow> string \<Rightarrow> string \<Rightarrow> int \<Rightarrow> string" where
  "audit_canonical actor action target meta prev ts =
     js_join [CHR 0x0A] [actor, action, opt_str target, meta, prev, int_to_string ts]"

text \<open>A built statement: the guard value and the row without its id.\<close>
record audit_insert =
  ai_prevId :: int
  ai_row :: audit_row

text \<open>\<^verbatim>\<open>SELECT id, row_hash FROM audit_log ORDER BY id DESC LIMIT 1\<close>\<close>
definition audit_tip :: "audit_table \<Rightarrow> (int \<times> string) option" where
  "audit_tip t = (if t = [] then None else Some (ar_id (last t), ar_row_hash (last t)))"

definition buildAuditInsert :: "platform \<Rightarrow> audit_table \<Rightarrow> AuditArgs \<Rightarrow> audit_insert" where
  "buildAuditInsert P t args =
     (let prevId = (case audit_tip t of None \<Rightarrow> -1 | Some (i, _) \<Rightarrow> i);
          prevHash = (case audit_tip t of None \<Rightarrow> zero_hash | Some (_, h) \<Rightarrow> h);
          canonical = audit_canonical (aa_actor args) (aa_action args) (aa_target args) (aa_meta args)
                        prevHash (aa_at args);
          rowHash = audit_sha256Hex P canonical
      in \<lparr> ai_prevId = prevId,
           ai_row = \<lparr> ar_id = 0, ar_actor = aa_actor args, ar_action = aa_action args,
                      ar_target = aa_target args, ar_meta = aa_meta args, ar_prev_hash = prevHash,
                      ar_row_hash = rowHash, ar_at = aa_at args \<rparr> \<rparr>)"

text \<open>\<^verbatim>\<open>IFNULL(MAX(id), -1)\<close> and the id \<^verbatim>\<open>AUTOINCREMENT\<close> gives the next row.\<close>
definition max_id :: "audit_table \<Rightarrow> int" where
  "max_id t = (if t = [] then -1 else ar_id (last t))"

definition next_id :: "audit_table \<Rightarrow> int" where
  "next_id t = (if t = [] then 1 else ar_id (last t) + 1)"

text \<open>Running the statement: \<^const>\<open>Some\<close> is \<^verbatim>\<open>changes > 0\<close>.\<close>
definition run_insert :: "audit_insert \<Rightarrow> audit_table \<Rightarrow> audit_table option" where
  "run_insert st t =
     (if max_id t = ai_prevId st then Some (t @ [(ai_row st) \<lparr> ar_id := next_id t \<rparr>]) else None)"

text \<open>The retry loop. \<open>others i\<close> is what concurrent writers do to the table between the tip read
  and the insert of attempt \<open>i\<close>. \<^const>\<open>None\<close> in the second component is the thrown error.\<close>
fun audit_attempts ::
  "platform \<Rightarrow> AuditArgs \<Rightarrow> (nat \<Rightarrow> audit_table \<Rightarrow> audit_table) \<Rightarrow> nat \<Rightarrow> nat \<Rightarrow> audit_table
     \<Rightarrow> audit_table \<times> unit option" where
  "audit_attempts P args others attempt 0 t = (t, None)"
| "audit_attempts P args others attempt (Suc left) t =
     (let st = buildAuditInsert P t args;
          t1 = others attempt t
      in case run_insert st t1 of
           Some t2 \<Rightarrow> (t2, Some ())
         | None \<Rightarrow> audit_attempts P args others (Suc attempt) left t1)"

definition audit ::
  "platform \<Rightarrow> AuditArgs \<Rightarrow> (nat \<Rightarrow> audit_table \<Rightarrow> audit_table) \<Rightarrow> audit_table \<Rightarrow> audit_table \<times> unit option" where
  "audit P args others t = audit_attempts P args others 0 MAX_AUDIT_RETRIES t"

section \<open>Verifier\<close>

datatype chain_result = Chain_ok | Chain_broken int string

fun verify_rows :: "platform \<Rightarrow> string \<Rightarrow> audit_row list \<Rightarrow> chain_result" where
  "verify_rows P prev [] = Chain_ok"
| "verify_rows P prev (r # rs) =
     (if ar_id r = 0 then verify_rows P (ar_row_hash r) rs
      else if ar_prev_hash r \<noteq> prev then Chain_broken (ar_id r) ''prev_hash mismatch''
      else let canonical = audit_canonical (ar_actor r) (ar_action r) (ar_target r) (ar_meta r)
                             (ar_prev_hash r) (ar_at r);
               expected = sha256Hex P (text_encode canonical)
           in if expected \<noteq> ar_row_hash r then Chain_broken (ar_id r) ''row_hash mismatch''
              else verify_rows P (ar_row_hash r) rs)"

definition verifyChain :: "platform \<Rightarrow> audit_table \<Rightarrow> int \<Rightarrow> int option \<Rightarrow> chain_result" where
  "verifyChain P t fromId toId =
     verify_rows P zero_hash
       (sort_key ar_id (filter (\<lambda>r. fromId \<le> ar_id r \<and>
          (case toId of None \<Rightarrow> True | Some k \<Rightarrow> k = 0 \<or> ar_id r \<le> k)) t))"

text \<open>\<open>actorOf\<close>: the bindings \<^verbatim>\<open>actor\<close> and \<^verbatim>\<open>apiKey.key_id\<close> of the request context.\<close>
definition actorOf :: "string option \<Rightarrow> string option \<Rightarrow> string" where
  "actorOf a k =
     (case a of
        Some (c # s) \<Rightarrow> c # s
      | _ \<Rightarrow> (case k of Some i \<Rightarrow> ''key:'' @ i | None \<Rightarrow> ''system''))"

section \<open>The compare-and-swap contract\<close>

text \<open>Writers of a shared store: each observes it, prepares a change from what it observed, and
  commits the change later; in between other writers commit. A pending change is dropped when the
  commit fails.\<close>
inductive cas_steps ::
  "('s \<Rightarrow> 'a \<Rightarrow> 'c) \<Rightarrow> ('c \<Rightarrow> 's \<Rightarrow> 's option) \<Rightarrow> 's \<times> (nat \<Rightarrow> 'c option) \<Rightarrow> 's \<times> (nat \<Rightarrow> 'c option) \<Rightarrow> bool"
  for prepare commit where
  cas_refl: "cas_steps prepare commit x x"
| cas_observe: "cas_steps prepare commit x (s, pend) \<Longrightarrow>
     cas_steps prepare commit x (s, pend(w \<mapsto> prepare s a))"
| cas_commit: "cas_steps prepare commit x (s, pend) \<Longrightarrow> pend w = Some c \<Longrightarrow> commit c s = Some s' \<Longrightarrow>
     cas_steps prepare commit x (s', pend(w := None))"
| cas_lost: "cas_steps prepare commit x (s, pend) \<Longrightarrow> pend w = Some c \<Longrightarrow> commit c s = None \<Longrightarrow>
     cas_steps prepare commit x (s, pend(w := None))"

locale cas_log =
  fixes inv :: "'s \<Rightarrow> bool"
    and prepare :: "'s \<Rightarrow> 'a \<Rightarrow> 'c"
    and commit :: "'c \<Rightarrow> 's \<Rightarrow> 's option"
    and ext :: "'s \<Rightarrow> 's \<Rightarrow> bool"
  assumes ext_refl: "inv s \<Longrightarrow> ext s s"
    and ext_trans: "ext s t \<Longrightarrow> ext t u \<Longrightarrow> ext s u"
    and commit_inv: "inv s \<Longrightarrow> inv t \<Longrightarrow> ext s t \<Longrightarrow> commit (prepare s a) t = Some u \<Longrightarrow> inv u \<and> ext t u"
begin

lemma steps_keep:
  assumes "cas_steps prepare commit x y" "inv (fst x)" "snd x = Map.empty"
  shows "inv (fst y) \<and> ext (fst x) (fst y) \<and>
     (\<forall>w c. snd y w = Some c \<longrightarrow> (\<exists>s a. inv s \<and> ext s (fst y) \<and> c = prepare s a))"
  using assms
proof (induction rule: cas_steps.induct)
  case (cas_refl x)
  then show ?case by (simp add: ext_refl)
next
  case (cas_observe x s pend w a)
  then show ?case by (auto simp: ext_refl)
next
  case (cas_commit x s pend w c s')
  then have IH: "inv s" "ext (fst x) s" "\<And>w c. pend w = Some c \<Longrightarrow> \<exists>s0 a. inv s0 \<and> ext s0 s \<and> c = prepare s0 a"
    by simp_all
  obtain s0 a where "inv s0" "ext s0 s" "c = prepare s0 a" using IH(3) [OF cas_commit(2)] by blast
  then have s': "inv s'" "ext s s'" using IH(1) cas_commit(3) commit_inv by blast+
  have "\<exists>s0 a. inv s0 \<and> ext s0 s' \<and> c' = prepare s0 a" if "(pend(w := None)) w' = Some c'" for w' c'
    using that IH(3) [of w' c'] ext_trans [OF _ s'(2)] by (auto split: if_splits)
  then show ?case using s' ext_trans [OF IH(2) s'(2)] by simp
next
  case (cas_lost x s pend w c)
  then show ?case by auto
qed

end

section \<open>The chain invariant\<close>

definition row_canonical :: "audit_row \<Rightarrow> string" where
  "row_canonical r = audit_canonical (ar_actor r) (ar_action r) (ar_target r) (ar_meta r)
     (ar_prev_hash r) (ar_at r)"

fun chained :: "platform \<Rightarrow> audit_row \<Rightarrow> audit_row list \<Rightarrow> bool" where
  "chained P p [] = True"
| "chained P p (r # rs) =
     (ar_id p < ar_id r \<and> ar_prev_hash r = ar_row_hash p \<and>
      ar_row_hash r = sha256Hex P (text_encode (row_canonical r)) \<and> chained P r rs)"

text \<open>A genesis row with id 0 followed by a chain.\<close>
definition chain_inv :: "platform \<Rightarrow> audit_table \<Rightarrow> bool" where
  "chain_inv P t = (case t of [] \<Rightarrow> False | g # rs \<Rightarrow> ar_id g = 0 \<and> chained P g rs)"

definition extends :: "audit_table \<Rightarrow> audit_table \<Rightarrow> bool" where
  "extends s t = (\<exists>u. t = s @ u)"

lemma audit_sha256Hex_eq: "audit_sha256Hex P s = sha256Hex P (text_encode s)"
  by (simp add: audit_sha256Hex_def sha256Hex_def toHex_def)

lemma chained_ids: "chained P p rs \<Longrightarrow> r \<in> set rs \<Longrightarrow> ar_id p < ar_id r"
  by (induction rs arbitrary: p) force+

lemma chained_append:
  "chained P p (rs @ ss) \<longleftrightarrow> chained P p rs \<and> chained P (last (p # rs)) ss"
  by (induction rs arbitrary: p) auto

lemma chained_sorted: "chained P p rs \<Longrightarrow> sorted (map ar_id (p # rs))"
  using chained_ids by (induction rs arbitrary: p) (force simp: less_imp_le)+

lemma verify_chained:
  "chained P p rs \<Longrightarrow> 0 \<le> ar_id p \<Longrightarrow> verify_rows P (ar_row_hash p) rs = Chain_ok"
proof (induction rs arbitrary: p)
  case (Cons r rs)
  then show ?case by (force simp: row_canonical_def Let_def)
qed simp

lemma chain_inv_last_max:
  assumes "chain_inv P (s @ u)" "s \<noteq> []" "ar_id (last (s @ u)) = ar_id (last s)"
  shows "u = []"
proof (rule ccontr)
  assume "u \<noteq> []"
  obtain g s' where s: "s = g # s'" using assms(2) by (cases s) auto
  then have "chained P (last s) u" using assms(1) by (simp add: chain_inv_def chained_append)
  then have "ar_id (last s) < ar_id (last u)" using \<open>u \<noteq> []\<close> chained_ids by (metis last_in_set)
  then show False using assms(3) \<open>u \<noteq> []\<close> by simp
qed

lemma run_insert_chain:
  assumes "chain_inv P s" "chain_inv P t" "extends s t"
    and "run_insert (buildAuditInsert P s args) t = Some u"
  shows "chain_inv P u \<and> extends t u"
proof -
  obtain v where t: "t = s @ v" using assms(3) by (auto simp: extends_def)
  have "s \<noteq> []" using assms(1) by (auto simp: chain_inv_def)
  have "ar_id (last t) = ar_id (last s)"
    using assms(4) \<open>s \<noteq> []\<close> t
    by (auto simp: run_insert_def buildAuditInsert_def audit_tip_def max_id_def Let_def split: if_splits)
  then have "v = []" using chain_inv_last_max assms(2) t \<open>s \<noteq> []\<close> by blast
  with t have [simp]: "t = s" by simp
  obtain g rs where s: "s = g # rs" using \<open>s \<noteq> []\<close> by (cases s) auto
  show ?thesis
    using assms(1,4) s
    by (auto simp: run_insert_def buildAuditInsert_def audit_tip_def max_id_def next_id_def Let_def
        chain_inv_def chained_append extends_def row_canonical_def audit_sha256Hex_eq split: if_splits)
qed

interpretation audit_cas: cas_log "chain_inv P" "buildAuditInsert P" run_insert extends for P
  by unfold_locales (auto simp: extends_def dest: run_insert_chain)

lemma chain_inv_verifies: "chain_inv P t \<Longrightarrow> verifyChain P t 0 None = Chain_ok"
proof -
  assume "chain_inv P t"
  then obtain g rs where t: "t = g # rs" "ar_id g = 0" "chained P g rs"
    by (auto simp: chain_inv_def split: list.splits)
  then have "filter (\<lambda>r. 0 \<le> ar_id r \<and> True) t = t"
    using chained_ids [OF t(3)] by (force intro!: filter_True)
  moreover have "sort_key ar_id t = t"
    using chained_sorted [OF t(3)] t(1) by (intro sort_key_id_if_sorted) simp
  ultimately show ?thesis
    using t verify_chained [OF t(3)] by (simp add: verifyChain_def)
qed

section \<open>The retry loop\<close>

definition is_row_of :: "AuditArgs \<Rightarrow> audit_row \<Rightarrow> bool" where
  "is_row_of args r = (ar_actor r = aa_actor args \<and> ar_action r = aa_action args \<and>
     ar_target r = aa_target args \<and> ar_meta r = aa_meta args \<and> ar_at r = aa_at args)"

lemma run_insert_SomeD:
  "run_insert (buildAuditInsert P s args) t = Some u \<Longrightarrow> \<exists>r. u = t @ [r] \<and> is_row_of args r"
  by (auto simp: run_insert_def buildAuditInsert_def is_row_of_def Let_def split: if_splits)

lemma run_insert_same: "run_insert (buildAuditInsert P t args) t \<noteq> None"
  by (auto simp: run_insert_def buildAuditInsert_def max_id_def audit_tip_def Let_def)

lemma audit_attempts_result:
  assumes "\<And>i s. chain_inv P s \<Longrightarrow> chain_inv P (others i s) \<and> extends s (others i s)"
    and "chain_inv P t" "audit_attempts P args others k n t = (t', res)"
  shows "chain_inv P t' \<and> extends t t' \<and>
     (case res of Some _ \<Rightarrow> \<exists>t0 r. t' = t0 @ [r] \<and> extends t t0 \<and> is_row_of args r
      | None \<Rightarrow> \<forall>i < n. \<exists>s. extends t s \<and> others (k + i) s \<noteq> s)"
  using assms(2,3)
proof (induction n arbitrary: k t)
  case 0
  then show ?case by (auto simp: extends_def)
next
  case (Suc n)
  let ?t1 = "others k t"
  have t1: "chain_inv P ?t1" "extends t ?t1" using assms(1) Suc.prems by auto
  show ?case
  proof (cases "run_insert (buildAuditInsert P t args) ?t1")
    case None
    then have ne: "?t1 \<noteq> t" using run_insert_same by metis
    from None have r: "audit_attempts P args others (Suc k) n ?t1 = (t', res)" using Suc.prems by simp
    note IH = Suc.IH [OF t1(1) r]
    have ext: "extends ?t1 s \<Longrightarrow> extends t s" for s using t1(2) by (auto simp: extends_def)
    have "\<exists>s. extends t s \<and> others (k + i) s \<noteq> s"
      if "res = None" "i < Suc n" for i
    proof (cases i)
      case 0
      then show ?thesis using ne by (auto simp: extends_def)
    next
      case (Suc j)
      then show ?thesis using IH that ext by fastforce
    qed
    then show ?thesis using IH ext by (fastforce split: option.splits)
  next
    case (Some t2)
    then have [simp]: "t' = t2" "res = Some ()" using Suc.prems by auto
    have "chain_inv P t2" "extends ?t1 t2"
      using run_insert_chain [OF Suc.prems(1) t1 Some] by auto
    moreover from this have "extends t t2" using t1(2) by (auto simp: extends_def)
    ultimately show ?thesis using run_insert_SomeD [OF Some] t1(2) by auto
  qed
qed

section \<open>Tamper evidence\<close>

definition collision :: "platform \<Rightarrow> bool" where
  "collision P = (\<exists>x y. x \<noteq> y \<and> sha256 P x = sha256 P y)"

lemma toHex_inject: "toHex a = toHex b \<longleftrightarrow> a = b"
  using fromHex_toHex_lemma by (metis sum.inject(2))

lemma sha256Hex_inject: "\<not> collision P \<Longrightarrow> sha256Hex P x = sha256Hex P y \<Longrightarrow> x = y"
  by (auto simp: collision_def sha256Hex_def toHex_inject)

lemma int_to_string_no_lf: "CHR 0x0A \<notin> set (int_to_string i)"
  using int_to_string_chars [of "CHR 0x0A" i] by (auto simp: is_digit_def)

lemma audit_canonical_prev:
  assumes "audit_canonical a1 b1 c1 d1 p i = audit_canonical a2 b2 c2 d2 q j"
    and "CHR 0x0A \<notin> set p" "CHR 0x0A \<notin> set q"
  shows "p = q"
proof -
  have "(js_join [CHR 0x0A] [a1, b1, opt_str c1, d1] @ CHR 0x0A # p) @ CHR 0x0A # int_to_string i =
        (js_join [CHR 0x0A] [a2, b2, opt_str c2, d2] @ CHR 0x0A # q) @ CHR 0x0A # int_to_string j"
    using assms(1) by (simp add: audit_canonical_def)
  then show ?thesis
    using assms(2,3) int_to_string_no_lf append_sep_inject_right by metis
qed

lemma verify_rows_ok_Cons:
  assumes "verify_rows P p (r # rs) = Chain_ok" "ar_id r \<noteq> 0"
  shows "ar_prev_hash r = p" "ar_row_hash r = sha256Hex P (text_encode (row_canonical r))"
    "verify_rows P (ar_row_hash r) rs = Chain_ok"
  using assms by (auto simp: row_canonical_def Let_def split: if_splits)

lemma verify_rows_snoc:
  "verify_rows P p (rs @ [r]) = Chain_ok \<Longrightarrow> \<forall>x \<in> set (rs @ [r]). ar_id x \<noteq> 0 \<Longrightarrow>
   verify_rows P p rs = Chain_ok \<and> ar_prev_hash r = (if rs = [] then p else ar_row_hash (last rs)) \<and>
   ar_row_hash r = sha256Hex P (text_encode (row_canonical r))"
proof (induction rs arbitrary: p)
  case (Cons x xs)
  then have "verify_rows P p (x # (xs @ [r])) = Chain_ok" "ar_id x \<noteq> 0" by auto
  note v = verify_rows_ok_Cons [OF this]
  with Cons show ?case by (auto simp: row_canonical_def Let_def)
qed (auto simp: row_canonical_def Let_def split: if_splits)

lemma tamper_lemma:
  assumes "\<not> collision P" "CHR 0x0A \<notin> set p" "CHR 0x0A \<notin> set q"
    and "verify_rows P p rs = Chain_ok" "verify_rows P q ss = Chain_ok" "length rs = length ss"
    and "\<forall>x \<in> set rs \<union> set ss. ar_id x \<noteq> 0"
    and "rs \<noteq> []" "ar_row_hash (last rs) = ar_row_hash (last ss)"
  shows "map row_canonical rs = map row_canonical ss \<and> p = q"
  using assms(4-)
proof (induction rs arbitrary: ss rule: rev_induct)
  case (snoc r rs)
  then obtain s' t where ss: "ss = t @ [s']" by (metis length_0_conv rev_exhaust)
  have R: "verify_rows P p rs = Chain_ok" "ar_prev_hash r = (if rs = [] then p else ar_row_hash (last rs))"
      "ar_row_hash r = sha256Hex P (text_encode (row_canonical r))"
    using verify_rows_snoc [OF snoc.prems(1)] snoc.prems(4) by auto
  have S: "verify_rows P q t = Chain_ok" "ar_prev_hash s' = (if t = [] then q else ar_row_hash (last t))"
      "ar_row_hash s' = sha256Hex P (text_encode (row_canonical s'))"
    using verify_rows_snoc [of P q t s'] snoc.prems(2,4) ss by auto
  have can: "row_canonical r = row_canonical s'"
    using R(3) S(3) snoc.prems(6) ss sha256Hex_inject [OF assms(1)] text_encode_inject by auto
  have lf: "CHR 0x0A \<notin> set (ar_row_hash (last xs))"
    if "xs \<noteq> []" "verify_rows P z xs = Chain_ok" "\<forall>x \<in> set xs. ar_id x \<noteq> 0" for xs z
    using that verify_rows_snoc [of P z "butlast xs" "last xs"] hex_no_lf by (simp add: sha256Hex_def)
  have len: "rs = [] \<longleftrightarrow> t = []" "length rs = length t" using snoc.prems(3) ss by auto
  have "ar_prev_hash r = ar_prev_hash s'"
    using can unfolding row_canonical_def
    by (rule audit_canonical_prev)
      (use R(1,2) S(1,2) assms(2,3) lf [of rs p] lf [of t q] snoc.prems(4) ss in auto)
  then show ?case
    using R S can len snoc.IH [of t] snoc.prems(4) ss by (cases "rs = []") auto
qed simp

section \<open>Properties\<close>


definition demo_genesis :: audit_row where
  "demo_genesis = \<lparr> ar_id = 0, ar_actor = ''system'', ar_action = ''bootstrap.consume'', ar_target = None,
     ar_meta = ''{}'', ar_prev_hash = zero_hash, ar_row_hash = zero_hash, ar_at = 0 \<rparr>"

definition demo_args :: AuditArgs where
  "demo_args = \<lparr> aa_actor = ''key:1'', aa_action = ''mailbox.create'', aa_target = Some ''m1'',
     aa_meta = ''{}'', aa_at = 5 \<rparr>"


text \<open>The retry loop of \<open>audit\<close>, run among writers that keep the chain and only append: the
  resulting table is a valid extension; on success its last row is the requested one; an exhausted
  retry budget means that in each of the eight attempts some other writer changed the table
  between the tip read and the insert. Without interference the call always succeeds.\<close>
theorem audit_loop_outcome:
  assumes "\<And>i s. chain_inv P s \<Longrightarrow> chain_inv P (others i s) \<and> extends s (others i s)"
    and "chain_inv P t" "audit P args others t = (t', res)"
  shows "chain_inv P t' \<and> extends t t' \<and>
     (case res of Some _ \<Rightarrow> \<exists>t0 r. t' = t0 @ [r] \<and> extends t t0 \<and> is_row_of args r
      | None \<Rightarrow> \<forall>i < 8. \<exists>s. extends t s \<and> others i s \<noteq> s) \<and>
     (others 0 t = t \<longrightarrow> res = Some ())"
proof -
  have a: "audit_attempts P args others 0 8 t = (t', res)"
    using assms(3) by (simp add: audit_def MAX_AUDIT_RETRIES_def)
  have "res = Some ()" if "others 0 t = t"
  proof -
    obtain u where "run_insert (buildAuditInsert P t args) t = Some u" using run_insert_same by blast
    then show ?thesis using a that by (simp add: numeral_eq_Suc)
  qed
  then show ?thesis using audit_attempts_result [OF assms(1,2) a] by (simp split: option.splits)
qed

lemma audit_loop_outcome_witness:
  "\<exists>t' r. audit demo_platform demo_args (\<lambda>i s. s) [demo_genesis] = (t', Some ()) \<and>
     t' = [demo_genesis] @ [r] \<and> is_row_of demo_args r"
proof -
  obtain t' res where a: "audit demo_platform demo_args (\<lambda>i s. s) [demo_genesis] = (t', res)" by fastforce
  have "chain_inv demo_platform [demo_genesis]" by (simp add: chain_inv_def demo_genesis_def)
  then have "res = Some ()" using audit_loop_outcome [OF _ _ a] by (simp add: extends_def)
  moreover from this a obtain r where "t' = [demo_genesis] @ [r] \<and> is_row_of demo_args r"
    using run_insert_SomeD [of demo_platform "[demo_genesis]" demo_args "[demo_genesis]" t']
    by (auto simp: audit_def MAX_AUDIT_RETRIES_def numeral_eq_Suc Let_def split: option.splits)
  ultimately show ?thesis using a by blast
qed



text \<open>An insert that was built before another one committed writes nothing: of two statements
  built from the same tip and run one after the other (as a batch does), only the first adds a row.\<close>
theorem second_insert_from_same_tip_lost:
  assumes "chain_inv P t"
  shows "\<exists>u. run_insert (buildAuditInsert P t a) t = Some u \<and> run_insert (buildAuditInsert P t b) u = None"
proof -
  obtain u where u: "run_insert (buildAuditInsert P t a) t = Some u" using run_insert_same by blast
  then have "u = t @ [(ai_row (buildAuditInsert P t a)) \<lparr> ar_id := next_id t \<rparr>]"
    by (auto simp: run_insert_def split: if_splits)
  moreover have "t \<noteq> []" using assms by (auto simp: chain_inv_def)
  ultimately have "run_insert (buildAuditInsert P t b) u = None"
    by (simp add: run_insert_def max_id_def next_id_def buildAuditInsert_def audit_tip_def Let_def)
  with u show ?thesis by blast
qed

lemma second_insert_from_same_tip_lost_witness:
  "\<exists>u. run_insert (buildAuditInsert demo_platform [demo_genesis] demo_args) [demo_genesis] = Some u \<and>
     run_insert (buildAuditInsert demo_platform [demo_genesis] demo_args) u = None"
  using second_insert_from_same_tip_lost [of demo_platform "[demo_genesis]" demo_args demo_args]
  by (simp add: chain_inv_def demo_genesis_def)

text \<open>Verifying a range that starts after the genesis row rejects a valid log: \<open>verifyChain\<close>
  starts from the all-zero hash, so the first row of the range is reported as broken whenever its
  predecessor's hash is not all zeros.\<close>
theorem verifyChain_range_rejects_valid:
  assumes "chain_inv P (xs @ r # rs)" "xs \<noteq> []" "ar_row_hash (last xs) \<noteq> zero_hash"
  shows "verifyChain P (xs @ r # rs) (ar_id r) None = Chain_broken (ar_id r) ''prev_hash mismatch''"
proof -
  obtain g ys where xs: "xs = g # ys" using assms(2) by (cases xs) auto
  have c: "chained P g ys" "chained P (last xs) (r # rs)" "ar_id g = 0"
    using assms(1) xs by (auto simp: chain_inv_def chained_append)
  have lt: "ar_id x < ar_id r" if "x \<in> set xs" for x
  proof (cases "x = last xs")
    case True
    then show ?thesis using c(2) by simp
  next
    case False
    then obtain us vs where "xs = us @ x # vs" "vs \<noteq> []"
      using \<open>x \<in> set xs\<close> by (metis last_snoc split_list)
    then have "ar_id x < ar_id (last xs)"
      using c(1) xs chained_ids
      by (cases us) (auto simp: chained_append dest: chained_ids [OF _ last_in_set])
    then show ?thesis using c(2) by simp
  qed
  have ge: "ar_id r \<le> ar_id x" if "x \<in> set (r # rs)" for x
    using chained_ids [of P r rs x] c(2) that by auto
  have f: "filter (\<lambda>x. ar_id r \<le> ar_id x \<and> True) (xs @ r # rs) = r # rs"
    using lt ge by (auto simp: filter_id_conv intro!: filter_False) (meson not_le)
  have "sort_key ar_id (r # rs) = r # rs"
    using chained_sorted [of P r rs] c(2) by (intro sort_key_id_if_sorted) simp
  moreover have "ar_id r \<noteq> 0" "ar_prev_hash r \<noteq> zero_hash"
    using lt [of g] c assms(3) xs by auto
  ultimately show ?thesis using f by (simp add: verifyChain_def)
qed

lemma verifyChain_range_rejects_valid_witness:
  "\<exists>g r. chain_inv demo_platform [g, r] \<and>
     verifyChain demo_platform ([g] @ r # []) (ar_id r) None = Chain_broken (ar_id r) ''prev_hash mismatch''"
proof -
  let ?g = "demo_genesis \<lparr> ar_row_hash := ''ab'' \<rparr>"
  have g: "chain_inv demo_platform [?g]" by (simp add: chain_inv_def demo_genesis_def)
  obtain u where u: "run_insert (buildAuditInsert demo_platform [?g] demo_args) [?g] = Some u"
    using run_insert_same by blast
  then obtain r where "u = [?g] @ [r]" using run_insert_SomeD by blast
  then have "chain_inv demo_platform ([?g] @ r # [])"
    using run_insert_chain [OF g g _ u] by (simp add: extends_def)
  moreover have "length (ar_row_hash (last [?g])) \<noteq> length zero_hash" by (simp add: zero_hash_def)
  then have "ar_row_hash (last [?g]) \<noteq> zero_hash" by metis
  ultimately show ?thesis
    using verifyChain_range_rejects_valid [of demo_platform "[?g]" r "[]"]
    by (intro exI [of _ ?g] exI [of _ r]) simp
qed

end
