(* ===== verification/Mime.thy ===== *)
theory Mime
  imports Prelude
begin

text \<open>
  The strict MIME front end of \<^verbatim>\<open>packages/mime/src\<close>: \<open>parseStrict\<close>, \<open>serialize\<close> and the header
  accessors (\<^verbatim>\<open>canonicalize.ts\<close>), the sender allow-list (\<^verbatim>\<open>sender-policy.ts\<close>) and address
  normalization (\<^verbatim>\<open>address-norm.ts\<close>). The UTF-8 \<^verbatim>\<open>TextDecoder\<close> and the host name of
  \<^verbatim>\<open>new URL(...)\<close> are parameters. Errors carry the code of the thrown exception; the texts of the
  messages are not modelled.
\<close>

section \<open>Canonicalizer: data\<close>

datatype mime_error =
    Nul_byte | Bare_cr | Bare_lf | No_boundary | Headers_too_large | Header_too_long
  | Orphan_continuation | Malformed_header | Invalid_header_name | Too_many_headers
  | Forbidden_header | Duplicate_singleton

definition MAX_HEADER_LINE :: nat where "MAX_HEADER_LINE = 998"
definition MAX_HEADERS :: nat where "MAX_HEADERS = 256"
definition MAX_TOTAL_HEADER_BYTES :: nat where "MAX_TOTAL_HEADER_BYTES = 64 * 1024"

definition SINGLETON_HEADERS :: "string list" where
  "SINGLETON_HEADERS =
     [''date'', ''from'', ''sender'', ''reply-to'', ''to'', ''cc'', ''bcc'', ''message-id'',
      ''in-reply-to'', ''references'', ''subject'', ''return-path'', ''mime-version'',
      ''content-type'', ''content-transfer-encoding'']"

definition TRANSPORT_FORBIDDEN_HEADERS :: "string list" where
  "TRANSPORT_FORBIDDEN_HEADERS =
     [''received'', ''return-path'', ''dkim-signature'', ''authentication-results'', ''arc-seal'',
      ''arc-message-signature'', ''arc-authentication-results'', ''resent-date'', ''resent-from'',
      ''resent-sender'', ''resent-to'', ''resent-cc'', ''resent-bcc'', ''resent-message-id'',
      ''content-transfer-encoding'', ''feedback-id'', ''cfbl-address'', ''cfbl-feedback-id'',
      ''tls-required'', ''tls-report-domain'', ''tls-report-submitter'']"

record Header =
  h_nameLc :: string
  h_name :: string
  h_value :: string

record ParsedMime =
  pm_headers :: "Header list"
  pm_body :: bytes

section \<open>Canonicalizer: operations\<close>

text \<open>First pass: the index of the CR that ends the blank line, or the first violation.\<close>
fun scan_boundary :: "nat \<Rightarrow> bytes \<Rightarrow> mime_error + nat" where
  "scan_boundary i [] = Inl No_boundary"
| "scan_boundary i (b # rest) =
     (if b = 0 then Inl Nul_byte
      else if b = 13 then
        (case rest of
           c # rest' \<Rightarrow>
             if c \<noteq> 10 then Inl Bare_cr
             else if take 2 rest' = [13, 10] then Inr (i + 2)
             else scan_boundary (i + 2) rest'
         | [] \<Rightarrow> Inl Bare_cr)
      else if b = 10 then Inl Bare_lf
      else scan_boundary (i + 1) rest)"

fun split_crlf :: "string \<Rightarrow> string list" where
  "split_crlf [] = [[]]"
| "split_crlf [c] = [[c]]"
| "split_crlf (c # d # rest) =
     (if c = CHR 0x0D \<and> d = CHR 0x0A then [] # split_crlf rest
      else (case split_crlf (d # rest) of [] \<Rightarrow> [[c]] | y # ys \<Rightarrow> (c # y) # ys))"

definition mk_header :: "string \<times> string \<Rightarrow> Header" where
  "mk_header nv = \<lparr> h_nameLc = js_lower (fst nv), h_name = fst nv, h_value = snd nv \<rparr>"

definition push_cur :: "Header list \<Rightarrow> (string \<times> string) option \<Rightarrow> Header list" where
  "push_cur headers cur = (case cur of None \<Rightarrow> headers | Some nv \<Rightarrow> headers @ [mk_header nv])"

definition valid_header_name :: "string \<Rightarrow> bool" where
  "valid_header_name n = (n \<noteq> [] \<and> list_all (\<lambda>c. 33 \<le> code c \<and> code c \<le> 126) n)"

fun parse_lines :: "string list \<Rightarrow> Header list \<Rightarrow> (string \<times> string) option \<Rightarrow> mime_error + Header list" where
  "parse_lines [] headers cur = Inr (push_cur headers cur)"
| "parse_lines (line # rest) headers cur =
     (if line = [] then parse_lines rest headers cur
      else if length line > MAX_HEADER_LINE then Inl Header_too_long
      else if hd line = CHR '' '' \<or> hd line = CHR 0x09 then
        (case cur of
           None \<Rightarrow> Inl Orphan_continuation
         | Some (n, v) \<Rightarrow> parse_lines rest headers (Some (n, v @ '' '' @ js_trim line)))
      else
        let headers' = push_cur headers cur in
        (case index_of (CHR '':'') line of
           None \<Rightarrow> Inl Malformed_header
         | Some 0 \<Rightarrow> Inl Malformed_header
         | Some (Suc k) \<Rightarrow>
             let name = js_trim (take (Suc k) line); value = js_trim (drop (Suc (Suc k)) line) in
             if \<not> valid_header_name name then Inl Invalid_header_name
             else if length headers' \<ge> MAX_HEADERS then Inl Too_many_headers
             else parse_lines rest headers' (Some (name, value))))"

definition parseHeaders :: "(bytes \<Rightarrow> string) \<Rightarrow> bytes \<Rightarrow> mime_error + Header list" where
  "parseHeaders decode bs = parse_lines (split_crlf (decode bs)) [] None"

fun header_policy :: "string list \<Rightarrow> Header list \<Rightarrow> mime_error option" where
  "header_policy seen [] = None"
| "header_policy seen (h # hs) =
     (if h_nameLc h \<in> set TRANSPORT_FORBIDDEN_HEADERS then Some Forbidden_header
      else if h_nameLc h \<in> set SINGLETON_HEADERS then
        (if h_nameLc h \<in> set seen then Some Duplicate_singleton
         else header_policy (h_nameLc h # seen) hs)
      else header_policy seen hs)"

definition enforceHeaderPolicy :: "Header list \<Rightarrow> mime_error option" where
  "enforceHeaderPolicy hs = header_policy [] hs"

definition parseStrict :: "(bytes \<Rightarrow> string) \<Rightarrow> bytes \<Rightarrow> mime_error + ParsedMime" where
  "parseStrict decode input =
     (case scan_boundary 0 input of
        Inl e \<Rightarrow> Inl e
      | Inr crlfBoundary \<Rightarrow>
          let headerBytes = take crlfBoundary input in
          if length headerBytes > MAX_TOTAL_HEADER_BYTES then Inl Headers_too_large
          else case parseHeaders decode headerBytes of
            Inl e \<Rightarrow> Inl e
          | Inr headers \<Rightarrow>
              (case enforceHeaderPolicy headers of
                 Some e \<Rightarrow> Inl e
               | None \<Rightarrow> Inr \<lparr> pm_headers = headers, pm_body = drop (crlfBoundary + 2) input \<rparr>))"

definition serialize :: "ParsedMime \<Rightarrow> bytes" where
  "serialize p =
     text_encode
       (js_join [CHR 0x0D, CHR 0x0A] (map (\<lambda>h. h_name h @ '': '' @ h_value h) (pm_headers p)) @
        [CHR 0x0D, CHR 0x0A, CHR 0x0D, CHR 0x0A])
     @ pm_body p"

definition getHeader :: "ParsedMime \<Rightarrow> string \<Rightarrow> string option" where
  "getHeader p nameLc = map_option h_value (find (\<lambda>h. h_nameLc h = nameLc) (pm_headers p))"

fun set_first :: "string \<Rightarrow> string \<Rightarrow> string \<Rightarrow> Header list \<Rightarrow> Header list option" where
  "set_first nameLc name v [] = None"
| "set_first nameLc name v (h # hs) =
     (if h_nameLc h = nameLc then Some (h \<lparr> h_value := v, h_name := name \<rparr> # hs)
      else map_option ((#) h) (set_first nameLc name v hs))"

definition setHeader :: "ParsedMime \<Rightarrow> string \<Rightarrow> string \<Rightarrow> ParsedMime" where
  "setHeader p name v =
     (let nameLc = js_lower name in
      case set_first nameLc name v (pm_headers p) of
        Some hs \<Rightarrow> p \<lparr> pm_headers := hs \<rparr>
      | None \<Rightarrow> p \<lparr> pm_headers := \<lparr> h_nameLc = nameLc, h_name = name, h_value = v \<rparr> # pm_headers p \<rparr>)"

section \<open>Sender policy\<close>

datatype sender_error =
    Missing_from | Multi_mailbox_from | From_not_allowed | Sender_not_allowed
  | Multi_mailbox_reply_to | Reply_to_not_allowed

fun split_addresses :: "string \<Rightarrow> string list \<Rightarrow> string \<Rightarrow> nat \<Rightarrow> bool \<Rightarrow> string list" where
  "split_addresses [] out buf depth inQuote = (if js_trim buf \<noteq> [] then out @ [js_trim buf] else out)"
| "split_addresses (ch # s) out buf depth inQuote =
     (let q = (if code ch = 34 then \<not> inQuote else inQuote) in
      if \<not> q then
        (if ch = CHR ''<'' then split_addresses s out (buf @ [ch]) (depth + 1) q
         else if ch = CHR ''>'' then split_addresses s out (buf @ [ch]) (depth - 1) q
         else if ch = CHR '','' \<and> depth = 0 then split_addresses s (out @ [js_trim buf]) [] depth q
         else split_addresses s out (buf @ [ch]) depth q)
      else split_addresses s out (buf @ [ch]) depth q)"

definition splitAddressList :: "string \<Rightarrow> string list" where
  "splitAddressList s = split_addresses s [] [] 0 False"

definition addr_char :: "char \<Rightarrow> bool" where
  "addr_char c = (\<not> is_space c \<and> c \<noteq> CHR ''<'' \<and> c \<noteq> CHR ''>'' \<and> code c \<noteq> 34)"

text \<open>\<^verbatim>\<open>/^[^\s<>"]+@[^\s<>"]+$/\<close>: some \<^verbatim>\<open>@\<close> that is neither first nor last.\<close>
definition normalizeAddr :: "string \<Rightarrow> string option" where
  "normalizeAddr s =
     (let trimmed = js_lower (js_trim s) in
      if list_all addr_char trimmed \<and> CHR ''@'' \<in> set (butlast (tl trimmed)) then Some trimmed else None)"

definition extractAddrSpec :: "string \<Rightarrow> string option" where
  "extractAddrSpec mailbox =
     (case (last_index_of (CHR ''<'') mailbox, last_index_of (CHR ''>'') mailbox) of
        (Some a, Some e) \<Rightarrow> if e > a then normalizeAddr (js_slice (a + 1) e mailbox) else normalizeAddr mailbox
      | _ \<Rightarrow> normalizeAddr mailbox)"

definition extractSingleAddress :: "string \<Rightarrow> string option" where
  "extractSingleAddress headerValue =
     (if CHR '';'' \<in> set headerValue then None
      else case splitAddressList headerValue of [p] \<Rightarrow> extractAddrSpec p | _ \<Rightarrow> None)"

definition header_text :: "ParsedMime \<Rightarrow> string \<Rightarrow> string" where
  "header_text mime n = (case getHeader mime n of None \<Rightarrow> [] | Some v \<Rightarrow> v)"

definition check_sender :: "string list \<Rightarrow> ParsedMime \<Rightarrow> sender_error option" where
  "check_sender allowed mime =
     (let v = header_text mime ''sender'' in
      if v = [] then None
      else case extractSingleAddress v of
        Some a \<Rightarrow> if a \<in> set allowed then None else Some Sender_not_allowed
      | None \<Rightarrow> Some Sender_not_allowed)"

definition check_reply_to :: "string list \<Rightarrow> ParsedMime \<Rightarrow> sender_error option" where
  "check_reply_to allowed mime =
     (let v = header_text mime ''reply-to'' in
      if v = [] then None
      else case extractSingleAddress v of
        None \<Rightarrow> Some Multi_mailbox_reply_to
      | Some a \<Rightarrow> if a \<in> set allowed then None else Some Reply_to_not_allowed)"

text \<open>\<^const>\<open>None\<close> is normal return, \<^const>\<open>Some\<close> the code of the thrown error.\<close>
definition enforceSenderPolicy :: "ParsedMime \<Rightarrow> string list \<Rightarrow> sender_error option" where
  "enforceSenderPolicy mime allowedSenders =
     (let allowed = map js_lower allowedSenders; v = header_text mime ''from'' in
      if v = [] then Some Missing_from
      else case extractSingleAddress v of
        None \<Rightarrow> Some Multi_mailbox_from
      | Some a \<Rightarrow>
          if a \<notin> set allowed then Some From_not_allowed
          else case check_sender allowed mime of
            Some e \<Rightarrow> Some e
          | None \<Rightarrow> check_reply_to allowed mime)"

section \<open>Address normalization\<close>

datatype address_error = No_at | Multi_at | Empty_local | Empty_domain | Idn_failed

record NormalizedAddress =
  na_localPart :: string
  na_domain :: string
  na_full :: string

definition strip_trailing_dots :: "string \<Rightarrow> string" where
  "strip_trailing_dots s = rev (dropWhile (\<lambda>c. c = CHR ''.'') (rev s))"

text \<open>\<open>hostname d\<close> is \<^verbatim>\<open>new URL('http://' + d).hostname\<close>, \<^const>\<open>None\<close> when it throws.\<close>
definition normalizeAddress :: "(string \<Rightarrow> string option) \<Rightarrow> string \<Rightarrow> address_error + NormalizedAddress" where
  "normalizeAddress hostname addr =
     (if addr = [] then Inl Empty_local
      else case index_of (CHR ''@'') addr of
        None \<Rightarrow> Inl No_at
      | Some ix \<Rightarrow>
          if CHR ''@'' \<in> set (drop (ix + 1) addr) then Inl Multi_at
          else
            let local = js_trim (take ix addr);
                domain = strip_trailing_dots (js_lower (js_trim (drop (ix + 1) addr)))
            in if local = [] then Inl Empty_local
               else if domain = [] then Inl Empty_domain
               else case hostname domain of
                 None \<Rightarrow> Inl Idn_failed
               | Some d \<Rightarrow> Inr \<lparr> na_localPart = local, na_domain = d, na_full = local @ ''@'' @ d \<rparr>)"

definition addressesEqual :: "(string \<Rightarrow> string option) \<Rightarrow> string \<Rightarrow> string \<Rightarrow> bool" where
  "addressesEqual hostname a b =
     (case (normalizeAddress hostname a, normalizeAddress hostname b) of
        (Inr na, Inr nb) \<Rightarrow>
          js_lower (na_localPart na) = js_lower (na_localPart nb) \<and> na_domain na = na_domain nb
      | _ \<Rightarrow> False)"

definition norm_candidate :: "(string \<Rightarrow> string option) \<Rightarrow> string \<Rightarrow> string" where
  "norm_candidate hostname c =
     (case normalizeAddress hostname (''x@'' @ c) of Inr n \<Rightarrow> na_domain n | Inl _ \<Rightarrow> js_lower c)"

definition longestSuffixMatch :: "(string \<Rightarrow> string option) \<Rightarrow> string \<Rightarrow> string list \<Rightarrow> string option" where
  "longestSuffixMatch hostname recipientDomain candidateDomains =
     (case normalizeAddress hostname (''x@'' @ recipientDomain) of
        Inl _ \<Rightarrow> None
      | Inr n \<Rightarrow>
          find (\<lambda>c. na_domain n = c \<or> ends_with (''.'' @ c) (na_domain n))
            (sort_key (\<lambda>c. - int (length c)) (map (norm_candidate hostname) candidateDomains)))"

text \<open>For evaluation: short header sections need no comparison with the large bound.\<close>
lemma parseStrict_code [code]:
  "parseStrict decode input =
     (case scan_boundary 0 input of
        Inl e \<Rightarrow> Inl e
      | Inr crlfBoundary \<Rightarrow>
          let headerBytes = take crlfBoundary input in
          if (if length headerBytes \<le> 99 then False else length headerBytes > MAX_TOTAL_HEADER_BYTES) then Inl Headers_too_large
          else case parseHeaders decode headerBytes of
            Inl e \<Rightarrow> Inl e
          | Inr headers \<Rightarrow>
              (case enforceHeaderPolicy headers of
                 Some e \<Rightarrow> Inl e
               | None \<Rightarrow> Inr \<lparr> pm_headers = headers, pm_body = drop (crlfBoundary + 2) input \<rparr>))"
proof -
  have "(if n \<le> 99 then False else n > MAX_TOTAL_HEADER_BYTES) = (n > MAX_TOTAL_HEADER_BYTES)" for n
    by (simp add: MAX_TOTAL_HEADER_BYTES_def)
  then show ?thesis by (simp only: parseStrict_def)
qed

section \<open>What a successful parse guarantees\<close>

definition header_wf :: "Header \<Rightarrow> bool" where
  "header_wf h = (h_nameLc h = js_lower (h_name h) \<and> valid_header_name (h_name h))"

lemma parse_lines_wf:
  assumes "parse_lines ls hs cur = Inr out" "\<forall>h \<in> set hs. header_wf h"
    and "case cur of None \<Rightarrow> length hs \<le> 256 | Some (n, v) \<Rightarrow> valid_header_name n \<and> length hs < 256"
  shows "(\<forall>h \<in> set out. header_wf h) \<and> length out \<le> 256"
  using assms
proof (induction ls hs cur rule: parse_lines.induct)
  case (1 hs cur)
  then show ?case by (auto simp: push_cur_def mk_header_def header_wf_def split: option.splits)
next
  case (2 line rest hs cur)
  show ?case
  proof (cases "line = [] \<or> length line > MAX_HEADER_LINE \<or> hd line = CHR '' '' \<or> hd line = CHR 0x09")
    case True
    then show ?thesis using 2(1) 2(2) 2(4-) by (auto split: if_splits option.splits)
  next
    case False
    define hs' where "hs' = push_cur hs cur"
    have wf': "\<forall>h \<in> set hs'. header_wf h"
      using 2(5,6) by (auto simp: hs'_def push_cur_def mk_header_def header_wf_def split: option.splits)
    obtain k where k: "index_of (CHR '':'') line = Some (Suc k)"
        "valid_header_name (js_trim (take (Suc k) line))" "length hs' < 256"
        "parse_lines rest hs' (Some (js_trim (take (Suc k) line), js_trim (drop (Suc (Suc k)) line))) = Inr out"
      using 2(4) False by (auto simp: Let_def hs'_def MAX_HEADERS_def split: if_splits option.splits nat.splits)
    show ?thesis
      using 2(3) [OF _ _ _ hs'_def k(1) refl refl refl] False k wf'
      by (auto simp: hs'_def [symmetric] MAX_HEADERS_def)
  qed
qed

lemma header_policy_None:
  "header_policy seen hs = None \<longleftrightarrow>
     (\<forall>h \<in> set hs. h_nameLc h \<notin> set TRANSPORT_FORBIDDEN_HEADERS) \<and>
     distinct (filter (\<lambda>n. n \<in> set SINGLETON_HEADERS) (map h_nameLc hs)) \<and>
     (\<forall>h \<in> set hs. h_nameLc h \<in> set SINGLETON_HEADERS \<longrightarrow> h_nameLc h \<notin> set seen)"
proof (induction hs arbitrary: seen)
  case (Cons a hs)
  have mem: "h \<in> set hs \<Longrightarrow> h_nameLc h = h_nameLc a \<Longrightarrow> h_nameLc a \<in> h_nameLc ` set hs" for h
    by (metis image_eqI)
  show ?case using Cons.IH [of seen] Cons.IH [of "h_nameLc a # seen"] mem by auto
qed simp

fun crlf_clean :: "bytes \<Rightarrow> bool" where
  "crlf_clean [] = True"
| "crlf_clean (b # rest) =
     (b \<noteq> 0 \<and> b \<noteq> 10 \<and>
      (if b = 13 then (case rest of [] \<Rightarrow> False | c # r \<Rightarrow> c = 10 \<and> crlf_clean r) else crlf_clean rest))"

lemma scan_boundary_Inr:
  "scan_boundary i input = Inr k \<Longrightarrow>
     \<exists>h body. input = h @ [13, 10] @ body \<and> k = i + length h \<and> crlf_clean h \<and> 2 \<le> length h \<and>
       (\<forall>body'. scan_boundary i (h @ [13, 10] @ body') = Inr k)"
proof (induction i input rule: scan_boundary.induct)
  case (2 i b rest)
  consider (cr) rest' where "b = 13" "rest = 10 # rest'" | (plain) "b \<noteq> 0" "b \<noteq> 13" "b \<noteq> 10"
    using 2(3) by (auto split: if_splits list.splits)
  then show ?case
  proof cases
    case cr
    show ?thesis
    proof (cases "take 2 rest' = [13, 10]")
      case True
      then obtain body where "rest' = [13, 10] @ body" by (metis append_take_drop_id)
      then show ?thesis using cr 2(3)
        by (intro exI [of _ "[13, 10]"] exI [of _ body]) auto
    next
      case False
      then have "scan_boundary (i + 2) rest' = Inr k" using 2(3) cr by simp
      then obtain h body where h: "rest' = h @ [13, 10] @ body" "k = i + 2 + length h" "crlf_clean h"
          "2 \<le> length h" "\<forall>body'. scan_boundary (i + 2) (h @ [13, 10] @ body') = Inr k"
        using 2(1) cr False by auto
      have "take 2 (h @ [13, 10] @ body') \<noteq> [13, 10]" for body'
        using h(1,4) False by simp
      then show ?thesis using cr h
        by (intro exI [of _ "13 # 10 # h"] exI [of _ body]) auto
    qed
  next
    case plain
    then obtain h body where h: "rest = h @ [13, 10] @ body" "k = i + 1 + length h" "crlf_clean h"
          "2 \<le> length h" "\<forall>body'. scan_boundary (i + 1) (h @ [13, 10] @ body') = Inr k"
      using 2 by auto
    then show ?thesis using plain by (intro exI [of _ "b # h"] exI [of _ body]) auto
  qed
qed simp

section \<open>Round trip\<close>

definition CRLF :: string where "CRLF = [CHR 0x0D, CHR 0x0A]"

definition header_line :: "Header \<Rightarrow> string" where
  "header_line h = h_name h @ '': '' @ h_value h"

definition header_section :: "ParsedMime \<Rightarrow> string" where
  "header_section p = js_join CRLF (map header_line (pm_headers p)) @ CRLF"

definition line_safe :: "string \<Rightarrow> bool" where
  "line_safe l = (\<forall>c \<in> set l. code c \<noteq> 0 \<and> code c \<noteq> 10 \<and> code c \<noteq> 13)"

text \<open>Messages that fit the limits of the parser, one header per line.\<close>
definition mime_wf :: "ParsedMime \<Rightarrow> bool" where
  "mime_wf p =
     ((\<forall>h \<in> set (pm_headers p). header_wf h \<and> CHR '':'' \<notin> set (h_name h) \<and> js_trim (h_value h) = h_value h \<and>
         line_safe (h_value h) \<and> length (header_line h) \<le> MAX_HEADER_LINE) \<and>
      length (pm_headers p) \<le> MAX_HEADERS \<and>
      length (text_encode (header_section p)) \<le> MAX_TOTAL_HEADER_BYTES \<and>
      enforceHeaderPolicy (pm_headers p) = None)"

lemma text_encode_append [simp]: "text_encode (s @ t) = text_encode s @ text_encode t"
  by (simp add: text_encode_def)

lemma text_encode_Nil [simp]: "text_encode [] = []"
  by (simp add: text_encode_def)

lemma text_encode_CRLF [simp]: "text_encode CRLF = [13, 10]"
  by (simp add: text_encode_def CRLF_def utf8_char_def)

lemma utf8_byte_safe:
  assumes "b \<in> set (utf8_char c)" "code c \<noteq> 0" "code c \<noteq> 10" "code c \<noteq> 13"
  shows "b \<noteq> 0 \<and> b \<noteq> 10 \<and> b \<noteq> 13"
proof -
  consider "code c < 128" "unat b = code c" | "128 \<le> unat b"
  proof (cases "code c < 128")
    case True
    then have "unat b = code c" using assms(1)
      by (simp add: utf8_char_def Let_def unsigned_of_nat take_bit_nat_eq_self)
    with True that show ?thesis by blast
  next
    case False
    have "192 + code c div 64 < 256" "128 + code c mod 64 < 256"
      using less_mult_imp_div_less [of "code c" 4 64] mod_less_divisor [of 64 "code c"] by auto
    then have "unat b = 192 + code c div 64 \<or> unat b = 128 + code c mod 64"
      using assms(1) False
      by (auto simp: utf8_char_def Let_def unsigned_of_nat take_bit_nat_eq_self simp del: of_nat_add)
    with that show ?thesis by linarith
  qed
  then show ?thesis using assms(2-) by cases auto
qed

lemma scan_safe:
  "line_safe l \<Longrightarrow> scan_boundary i (text_encode l @ rest) = scan_boundary (i + length (text_encode l)) rest"
proof -
  have plain: "\<forall>b \<in> set bs. b \<noteq> 0 \<and> b \<noteq> 10 \<and> b \<noteq> 13 \<Longrightarrow>
      scan_boundary j (bs @ rest) = scan_boundary (j + length bs) rest" for bs j
    by (induction bs arbitrary: j) auto
  assume "line_safe l"
  then show ?thesis
    using utf8_byte_safe by (intro plain) (fastforce simp: text_encode_def line_safe_def)
qed

lemma text_encode_hd_safe:
  assumes "line_safe l" "l \<noteq> []"
  shows "\<exists>b bs. text_encode l = b # bs \<and> b \<noteq> 13"
proof -
  obtain c l' where l: "l = c # l'" using assms(2) by (cases l) auto
  have "utf8_char c \<noteq> []" by (simp add: utf8_char_def Let_def)
  then obtain b bs where u: "utf8_char c = b # bs" by (meson neq_Nil_conv)
  have "b \<noteq> 13" using utf8_byte_safe [of b c] u assms(1) l by (auto simp: line_safe_def)
  then show ?thesis using l u by (simp add: text_encode_def)
qed

lemma scan_join:
  assumes "\<forall>l \<in> set ls. line_safe l \<and> l \<noteq> []"
  shows "scan_boundary i (text_encode (js_join CRLF ls @ CRLF) @ [13, 10] @ body) =
         Inr (i + length (text_encode (js_join CRLF ls @ CRLF)))"
  using assms
proof (induction ls arbitrary: i)
  case Nil
  then show ?case by simp
next
  case (Cons l ls)
  show ?case
  proof (cases ls)
    case Nil
    then show ?thesis using Cons.prems scan_safe [of l i] by simp
  next
    case (Cons m ms)
    obtain b bs where b: "text_encode m = b # bs" "b \<noteq> 13"
      using text_encode_hd_safe [of m] Cons.prems Cons by auto
    define rest where "rest = text_encode (js_join CRLF ls @ CRLF) @ [13, 10] @ body"
    have hd: "\<exists>cs. rest = b # cs"
      using b Cons by (cases ms) (auto simp: rest_def)
    then have "scan_boundary i (text_encode l @ [13, 10] @ rest) =
        scan_boundary (i + length (text_encode l) + 2) rest"
      using Cons.prems scan_safe [of l i] b(2) by auto
    then show ?thesis
      using Cons.IH [of "i + length (text_encode l) + 2"] Cons.prems Cons by (simp add: rest_def)
  qed
qed

lemma split_crlf_line:
  "line_safe l \<Longrightarrow> split_crlf (l @ CRLF @ rest) = l # split_crlf rest"
proof (induction l rule: induct_list012)
  case (3 c d l)
  then show ?case by (cases "split_crlf (d # l @ CRLF @ rest)") (auto simp: line_safe_def CRLF_def)
qed (auto simp: line_safe_def CRLF_def)

lemma split_crlf_join:
  "\<forall>l \<in> set ls. line_safe l \<Longrightarrow> ls \<noteq> [] \<Longrightarrow> split_crlf (js_join CRLF ls @ CRLF) = ls @ [[]]"
proof (induction ls)
  case (Cons l ls)
  then show ?case
    using split_crlf_line [of l "[]"] split_crlf_line [of l "js_join CRLF ls @ CRLF"]
    by (cases ls) auto
qed simp

lemma valid_name_char:
  assumes "valid_header_name n" "c \<in> set n"
  shows "\<not> is_space c" "code c \<noteq> 0 \<and> code c \<noteq> 10 \<and> code c \<noteq> 13"
  using assms by (auto simp: valid_header_name_def list_all_iff is_space_def)

lemma header_line_safe: "header_wf h \<Longrightarrow> line_safe (h_value h) \<Longrightarrow> line_safe (header_line h) \<and> header_line h \<noteq> []"
  using valid_name_char(2) [of "h_name h"] by (auto simp: header_line_def line_safe_def header_wf_def)

lemma parse_one_line:
  assumes "header_wf h" "CHR '':'' \<notin> set (h_name h)" "js_trim (h_value h) = h_value h"
    and "length (header_line h) \<le> MAX_HEADER_LINE" "length (push_cur hs cur) < MAX_HEADERS"
  shows "parse_lines (header_line h # rest) hs cur =
         parse_lines rest (push_cur hs cur) (Some (h_name h, h_value h))"
proof -
  have n: "h_name h \<noteq> []" "valid_header_name (h_name h)"
    using assms(1) by (auto simp: header_wf_def valid_header_name_def)
  have sp: "\<not> is_space (hd (h_name h))" "\<not> is_space (last (h_name h))"
    using valid_name_char(1) [OF n(2)] n(1) by auto
  have hd: "hd (header_line h) = hd (h_name h)" using n(1) by (simp add: header_line_def)
  have ix: "index_of (CHR '':'') (header_line h) = Some (length (h_name h))"
    using index_of_append_notin [OF assms(2)] by (simp add: header_line_def)
  obtain k where k: "length (h_name h) = Suc k" using n(1) by (cases "h_name h") auto
  have tr: "js_trim (take (Suc k) (header_line h)) = h_name h"
    using js_trim_id [OF n(1) sp] k by (simp add: header_line_def)
  have dv: "js_trim (drop (Suc (Suc k)) (header_line h)) = h_value h"
    using assms(3) k by (simp add: header_line_def js_trim_def is_space_def)
  have "hd (header_line h) \<noteq> CHR '' ''" "hd (header_line h) \<noteq> CHR 0x09" "header_line h \<noteq> []"
    using hd sp by (auto simp: is_space_def header_line_def)
  then show ?thesis
    using ix k tr dv n(2) assms(4,5) by (simp add: Let_def)
qed

lemma parse_lines_section:
  assumes "\<forall>h \<in> set hs. header_wf h \<and> CHR '':'' \<notin> set (h_name h) \<and> js_trim (h_value h) = h_value h \<and>
      length (header_line h) \<le> MAX_HEADER_LINE"
    and "length (push_cur acc cur) + length hs \<le> MAX_HEADERS"
  shows "parse_lines (map header_line hs @ [[]]) acc cur = Inr (push_cur acc cur @ hs)"
  using assms
proof (induction hs arbitrary: acc cur)
  case (Cons h hs)
  have mk: "mk_header (h_name h, h_value h) = h"
    using Cons.prems(1) by (cases h) (auto simp: mk_header_def header_wf_def)
  then have p: "push_cur (push_cur acc cur) (Some (h_name h, h_value h)) = push_cur acc cur @ [h]"
    by (simp add: push_cur_def)
  show ?case
    using Cons.prems parse_one_line [of h acc cur "map header_line hs @ [[]]"]
      Cons.IH [of "push_cur acc cur" "Some (h_name h, h_value h)"] p by simp
qed simp

lemma parse_serialize_lemma:
  assumes "mime_wf p" "decode (text_encode (header_section p)) = header_section p"
  shows "parseStrict decode (serialize p) = Inr p"
proof -
  let ?ls = "map header_line (pm_headers p)"
  have safe: "\<forall>l \<in> set ?ls. line_safe l \<and> l \<noteq> []"
    using assms(1) header_line_safe by (auto simp: mime_wf_def)
  have ser: "serialize p = text_encode (header_section p) @ [13, 10] @ pm_body p"
  proof -
    have "text_encode [CHR 0x0D, CHR 0x0A, CHR 0x0D, CHR 0x0A] = [13, 10, 13, 10]"
      by (simp add: text_encode_def utf8_char_def)
    then show ?thesis
      by (simp add: serialize_def header_section_def CRLF_def [symmetric])
        (simp add: header_line_def [abs_def] CRLF_def)
  qed
  have sc: "scan_boundary 0 (serialize p) = Inr (length (text_encode (header_section p)))"
    unfolding ser header_section_def using scan_join [OF safe, of 0] by simp
  have "parse_lines (split_crlf (header_section p)) [] None = Inr (pm_headers p)"
  proof (cases "pm_headers p = []")
    case True
    then show ?thesis by (simp add: header_section_def CRLF_def push_cur_def)
  next
    case False
    then have "split_crlf (header_section p) = ?ls @ [[]]"
      unfolding header_section_def using safe by (intro split_crlf_join) auto
    then show ?thesis
      using parse_lines_section [of "pm_headers p" "[]" None] assms(1) by (simp add: mime_wf_def push_cur_def)
  qed
  then have "parseHeaders decode (text_encode (header_section p)) = Inr (pm_headers p)"
    by (simp add: parseHeaders_def assms(2))
  then show ?thesis
    using sc assms(1) unfolding parseStrict_def ser by (simp add: mime_wf_def)
qed

section \<open>Header access as a keyed store\<close>

lemma set_first_None: "set_first n name v hs = None \<longleftrightarrow> (\<forall>h \<in> set hs. h_nameLc h \<noteq> n)"
  by (induction hs) auto

lemma set_first_find:
  "set_first n name v hs = Some hs' \<Longrightarrow>
     map_option h_value (find (\<lambda>h. h_nameLc h = m) hs') =
       (if m = n then Some v else map_option h_value (find (\<lambda>h. h_nameLc h = m) hs))"
  by (induction hs arbitrary: hs') (auto split: if_splits)

interpretation header_store: keyed_store getHeader setHeader js_lower
proof
  show "getHeader (setHeader s k v) (js_lower k) = Some v" for s k v
    using set_first_find [of "js_lower k" k v "pm_headers s" _ "js_lower k"]
    by (auto simp: getHeader_def setHeader_def Let_def simp del: map_option_eq_Some split: option.splits)
  show "getHeader (setHeader s k v) c = getHeader s c" if "c \<noteq> js_lower k" for s k v c
    using set_first_find [of "js_lower k" k v "pm_headers s" _ c] that
    by (auto simp: getHeader_def setHeader_def Let_def simp del: map_option_eq_Some split: option.splits)
qed

section \<open>Singleton headers and the sender policy\<close>

lemma distinct_filter_unique:
  assumes "distinct (filter Q (map f xs))" "x \<in> set xs" "Q (f x)"
  shows "filter (\<lambda>z. f z = f x) xs = [x]"
  using assms
proof (induction xs)
  case (Cons a xs)
  have no: "f a \<notin> f ` set xs" if "Q (f a)" using Cons.prems(1) that by auto
  show ?case
  proof (cases "a = x")
    case True
    then have "\<forall>z \<in> set xs. f z \<noteq> f x" using no Cons.prems(3) by (metis image_eqI)
    then show ?thesis using True by simp
  next
    case False
    then have "x \<in> set xs" using Cons.prems(2) by simp
    moreover from this have "f a \<noteq> f x" using no Cons.prems(3) by (metis image_eqI)
    ultimately show ?thesis using Cons by (simp split: if_splits)
  qed
qed simp

lemma find_filter: "find Q xs = (case filter Q xs of [] \<Rightarrow> None | x # _ \<Rightarrow> Some x)"
  by (induction xs) auto

lemma singleton_getHeader:
  assumes "header_policy [] (pm_headers p) = None" "h \<in> set (pm_headers p)" "h_nameLc h \<in> set SINGLETON_HEADERS"
  shows "getHeader p (h_nameLc h) = Some (h_value h)"
proof -
  have "filter (\<lambda>z. h_nameLc z = h_nameLc h) (pm_headers p) = [h]"
    using assms by (intro distinct_filter_unique [where Q = "\<lambda>n. n \<in> set SINGLETON_HEADERS"])
      (auto simp: header_policy_None)
  then show ?thesis by (simp add: getHeader_def find_filter)
qed

lemma enforceSenderPolicy_None:
  assumes "enforceSenderPolicy p allowed = None" "n \<in> {''from'', ''sender'', ''reply-to''}"
    and "getHeader p n = Some v" "v \<noteq> []"
  shows "\<exists>a. extractSingleAddress v = Some a \<and> a \<in> set (map js_lower allowed)"
  using assms
  by (auto simp: enforceSenderPolicy_def check_sender_def check_reply_to_def header_text_def Let_def
      split: option.splits if_splits)

lemma parseStrict_InrD:
  assumes "parseStrict decode input = Inr p"
  obtains h where "input = h @ [13, 10] @ pm_body p" "crlf_clean h" "length h \<le> MAX_TOTAL_HEADER_BYTES"
    "parseHeaders decode h = Inr (pm_headers p)" "enforceHeaderPolicy (pm_headers p) = None"
    "\<And>body. parseStrict decode (h @ [13, 10] @ body) = Inr (p \<lparr> pm_body := body \<rparr>)"
proof -
  obtain k where k: "scan_boundary 0 input = Inr k"
    using assms by (auto simp: parseStrict_def split: sum.splits)
  obtain h body where h: "input = h @ [13, 10] @ body" "k = length h" "crlf_clean h"
      "\<forall>body'. scan_boundary 0 (h @ [13, 10] @ body') = Inr k"
    using scan_boundary_Inr [OF k] by auto
  have p: "length h \<le> MAX_TOTAL_HEADER_BYTES" "parseHeaders decode h = Inr (pm_headers p)"
      "enforceHeaderPolicy (pm_headers p) = None" "p = \<lparr> pm_headers = pm_headers p, pm_body = body \<rparr>"
    using assms k h(1,2) by (auto simp: parseStrict_def Let_def split: sum.splits if_splits option.splits)
  then have "pm_body p = body" by (metis ParsedMime.select_convs(2))
  moreover have "parseStrict decode (h @ [13, 10] @ b) = Inr (p \<lparr> pm_body := b \<rparr>)" for b
    using h(2,4) p by (cases p) (auto simp: parseStrict_def)
  ultimately show ?thesis using that h p by blast
qed

section \<open>Properties\<close>


definition ascii_decode :: "bytes \<Rightarrow> string" where
  "ascii_decode bs = map (\<lambda>b. char_of (unat b)) bs"

definition demo_mime :: ParsedMime where
  "demo_mime = \<lparr> pm_headers = [\<lparr> h_nameLc = ''from'', h_name = ''From'', h_value = ''Ann <ann@x.org>'' \<rparr>,
       \<lparr> h_nameLc = ''subject'', h_name = ''Subject'', h_value = ''Hi'' \<rparr>], pm_body = [104, 0, 10] \<rparr>"

lemma demo_mime_wf: "mime_wf demo_mime"
proof -
  have "list_all (\<lambda>h. header_wf h \<and> CHR '':'' \<notin> set (h_name h) \<and> js_trim (h_value h) = h_value h \<and> line_safe (h_value h))
      (pm_headers demo_mime)" "map (\<lambda>h. length (header_line h)) (pm_headers demo_mime) = [21, 11]"
    "length (text_encode (header_section demo_mime)) = 36" "enforceHeaderPolicy (pm_headers demo_mime) = None"
    by code_simp+
  moreover have "length (pm_headers demo_mime) = 2" by (simp add: demo_mime_def)
  moreover have "\<forall>h \<in> set (pm_headers demo_mime). length (header_line h) \<in> set [21, 11]"
    unfolding calculation(2) [symmetric] by simp
  ultimately show ?thesis
    unfolding mime_wf_def list_all_iff MAX_HEADER_LINE_def MAX_HEADERS_def MAX_TOTAL_HEADER_BYTES_def by fastforce
qed

lemma demo_mime_decodes: "ascii_decode (text_encode (header_section demo_mime)) = header_section demo_mime"
  by code_simp

lemma demo_mime_parses: "parseStrict ascii_decode (serialize demo_mime) = Inr demo_mime"
  using demo_mime_wf demo_mime_decodes by (rule parse_serialize_lemma)


text \<open>C30. Serializing a message that fits the limits and parsing it again gives it back unchanged.\<close>
theorem parse_serialize:
  assumes "mime_wf p" "decode (text_encode (header_section p)) = header_section p"
  shows "parseStrict decode (serialize p) = Inr p"
  using assms by (rule parse_serialize_lemma)

lemma parse_serialize_witness:
  "mime_wf demo_mime \<and> parseStrict ascii_decode (serialize demo_mime) = Inr demo_mime"
  using parse_serialize [where decode = ascii_decode, OF demo_mime_wf demo_mime_decodes] demo_mime_wf by blast

text \<open>The body is not inspected: whenever a message parses, every other byte sequence after the
  same header section, NUL bytes and bare CR or LF included, parses too and is returned verbatim.\<close>
theorem parse_never_checks_body:
  assumes "parseStrict decode input = Inr p"
  shows "\<exists>h. input = h @ [13, 10] @ pm_body p \<and>
     (\<forall>body. parseStrict decode (h @ [13, 10] @ body) = Inr (p \<lparr> pm_body := body \<rparr>))"
  using parseStrict_InrD [OF assms] by metis

lemma parse_never_checks_body_witness:
  "\<exists>h. serialize demo_mime = h @ [13, 10] @ pm_body demo_mime \<and>
     parseStrict ascii_decode (h @ [13, 10] @ [0, 13, 0, 10]) = Inr (demo_mime \<lparr> pm_body := [0, 13, 0, 10] \<rparr>)"
  using parse_never_checks_body [OF demo_mime_parses] by blast

text \<open>Sender policy on a parsed message: if both \<open>parseStrict\<close> and \<open>enforceSenderPolicy\<close> accept,
  then every header named From, Sender or Reply-To in the message, however it is cased, is empty or
  holds exactly one mailbox, and that address is in the allow list; and there is a From header.
  A second From cannot be smuggled in.\<close>
theorem sender_policy_sound:
  assumes "parseStrict decode input = Inr p" "enforceSenderPolicy p allowed = None"
  shows "(\<forall>h \<in> set (pm_headers p). js_lower (h_name h) \<in> {''from'', ''sender'', ''reply-to''} \<and> h_value h \<noteq> [] \<longrightarrow>
       (\<exists>a. extractSingleAddress (h_value h) = Some a \<and> a \<in> set (map js_lower allowed))) \<and>
     (\<exists>h \<in> set (pm_headers p). js_lower (h_name h) = ''from'' \<and> h_value h \<noteq> [])"
proof -
  have wf: "\<forall>h \<in> set (pm_headers p). h_nameLc h = js_lower (h_name h)"
    and pol: "header_policy [] (pm_headers p) = None"
    using parse_lines_wf [of _ "[]" None "pm_headers p"] parseStrict_InrD [OF assms(1)]
    by (metis enforceHeaderPolicy_def header_wf_def parseHeaders_def empty_iff list.set(1) list.size(3) le0 option.simps(4))+
  have each: "\<exists>a. extractSingleAddress (h_value h) = Some a \<and> a \<in> set (map js_lower allowed)"
    if "h \<in> set (pm_headers p)" "js_lower (h_name h) \<in> {''from'', ''sender'', ''reply-to''}" "h_value h \<noteq> []" for h
  proof -
    have "h_nameLc h \<in> set SINGLETON_HEADERS" "h_nameLc h \<in> {''from'', ''sender'', ''reply-to''}"
      using that wf by (auto simp: SINGLETON_HEADERS_def)
    then show ?thesis
      using enforceSenderPolicy_None [OF assms(2)] singleton_getHeader [OF pol] that by blast
  qed
  have "header_text p ''from'' \<noteq> []"
    using assms(2) by (auto simp: enforceSenderPolicy_def Let_def split: if_splits)
  then obtain h where h: "h \<in> set (pm_headers p)" "h_nameLc h = ''from''" "h_value h \<noteq> []"
    by (auto simp: header_text_def getHeader_def find_Some_iff split: option.splits) (metis nth_mem)
  then have "\<exists>h \<in> set (pm_headers p). js_lower (h_name h) = ''from'' \<and> h_value h \<noteq> []"
    using wf by (intro bexI [of _ h]) auto
  then show ?thesis using each by (intro conjI ballI impI) simp_all
qed

lemma sender_policy_sound_witness:
  "enforceSenderPolicy demo_mime [''Ann@X.org''] = None \<and>
   (\<exists>h \<in> set (pm_headers demo_mime). js_lower (h_name h) = ''from'' \<and> h_value h \<noteq> [])"
proof -
  have e: "enforceSenderPolicy demo_mime [''Ann@X.org''] = None" by code_simp
  show ?thesis by (rule conjI [OF e conjunct2 [OF sender_policy_sound [OF demo_mime_parses e]]])
qed

text \<open>Header updates: after any sequence of \<open>setHeader\<close> calls, \<open>getHeader\<close> returns for each
  lower-cased name the last value written under any casing of it, and otherwise what was there.\<close>
theorem setHeader_last_write_wins:
  "getHeader (foldl (\<lambda>p kv. setHeader p (fst kv) (snd kv)) p kvs) n =
     (case map_of (rev (map (\<lambda>kv. (js_lower (fst kv), snd kv)) kvs)) n of
        Some v \<Rightarrow> Some v | None \<Rightarrow> getHeader p n)"
  by (rule header_store.lookup_updates)

lemma sorted_find_max:
  assumes "find Q (sort_key (\<lambda>c. - int (length c)) cs) = Some c"
  shows "c \<in> set cs \<and> Q c \<and> (\<forall>c' \<in> set cs. Q c' \<longrightarrow> length c' \<le> length c)"
proof -
  let ?s = "sort_key (\<lambda>c. - int (length c)) cs"
  obtain i where i: "i < length ?s" "Q (?s ! i)" "c = ?s ! i" "\<forall>j < i. \<not> Q (?s ! j)"
    using assms by (auto simp: find_Some_iff)
  have "length c' \<le> length c" if "c' \<in> set cs" "Q c'" for c'
  proof -
    have "c' \<in> set ?s" using that(1) by simp
    then obtain j where j: "j < length ?s" "?s ! j = c'" unfolding in_set_conv_nth by blast
    then have "i \<le> j" using i(4) that(2) by (metis not_le)
    then show ?thesis
      using sorted_nth_mono [of "map (\<lambda>c. - int (length c)) ?s" i j] i(1,3) j sorted_sort_key
      by (simp del: length_sort)
  qed
  moreover have "c \<in> set ?s" unfolding i(3) using i(1) by (rule nth_mem)
  ultimately show ?thesis using i(2,3) by simp
qed

text \<open>\<open>longestSuffixMatch\<close> returns a normalized candidate that equals the recipient's domain or
  is a suffix of it at a label boundary, and no matching candidate is longer; it returns nothing for a
  valid domain only when no candidate matches.\<close>
theorem longestSuffixMatch_correct:
  assumes "normalizeAddress hostname (''x@'' @ d) = Inr n"
  shows "case longestSuffixMatch hostname d cands of
       Some c \<Rightarrow> c \<in> set (map (norm_candidate hostname) cands) \<and>
         (na_domain n = c \<or> ends_with (''.'' @ c) (na_domain n)) \<and>
         (\<forall>c' \<in> set (map (norm_candidate hostname) cands).
            na_domain n = c' \<or> ends_with (''.'' @ c') (na_domain n) \<longrightarrow> length c' \<le> length c)
     | None \<Rightarrow> (\<forall>c' \<in> set (map (norm_candidate hostname) cands).
            na_domain n \<noteq> c' \<and> \<not> ends_with (''.'' @ c') (na_domain n))"
proof (cases "longestSuffixMatch hostname d cands")
  case None
  then have "\<forall>c' \<in> set (map (norm_candidate hostname) cands).
      \<not> (na_domain n = c' \<or> ends_with (''.'' @ c') (na_domain n))"
    using assms by (auto simp: longestSuffixMatch_def find_None_iff)
  then show ?thesis by (simp add: None)
next
  case (Some c)
  then have "find (\<lambda>c. na_domain n = c \<or> ends_with (''.'' @ c) (na_domain n))
      (sort_key (\<lambda>c. - int (length c)) (map (norm_candidate hostname) cands)) = Some c"
    using assms by (simp add: longestSuffixMatch_def)
  from sorted_find_max [OF this] show ?thesis by (simp add: Some)
qed

lemma longestSuffixMatch_correct_witness:
  "longestSuffixMatch Some ''a.Mail.acme.com'' [''acme.com'', ''mail.acme.com'', ''me.com''] = Some ''mail.acme.com'' \<and>
   length (norm_candidate Some ''acme.com'') \<le> length ''mail.acme.com''"
proof -
  have "normalizeAddress Some (''x@'' @ ''a.Mail.acme.com'') =
      Inr \<lparr> na_localPart = ''x'', na_domain = ''a.mail.acme.com'', na_full = ''x@a.mail.acme.com'' \<rparr>" by code_simp
  moreover have "longestSuffixMatch Some ''a.Mail.acme.com'' [''acme.com'', ''mail.acme.com'', ''me.com''] = Some ''mail.acme.com''"
    by code_simp
  moreover have "norm_candidate Some ''acme.com'' = ''acme.com''" "norm_candidate Some ''mail.acme.com'' = ''mail.acme.com''"
    "norm_candidate Some ''me.com'' = ''me.com''" "ends_with ''.acme.com'' ''a.mail.acme.com''" by code_simp+
  ultimately show ?thesis
    using longestSuffixMatch_correct [of Some "''a.Mail.acme.com''" _ "[''acme.com'', ''mail.acme.com'', ''me.com'']"]
    by simp
qed

end
