(* ===== verification/Suppressions.thy ===== *)
theory Suppressions
  imports Prelude
begin

text \<open>
  The suppression list of \<^verbatim>\<open>packages/suppressions/src\<close>: address normalization, scope candidates and
  expiry (\<^verbatim>\<open>index.ts\<close>), and the recipient and sender look-ups (\<^verbatim>\<open>d1.ts\<close>) on a table whose partial
  unique index is that of the schema (\<^verbatim>\<open>services/api/migrations/0001_init.sql\<close>). The host name of
  \<^verbatim>\<open>new URL(...)\<close> and \<^verbatim>\<open>Date.parse\<close> are parameters; Unicode NFC is the identity on Latin-1.
\<close>

section \<open>Data\<close>

datatype EntityType = Recipient | Sender

datatype Scope = Global | Domain | Mailbox | Sender_address

datatype Reason =
    Hard_bounce | Spam_complaint | Unsubscribe | Manual | Arf_complaint | Phishing_report
  | Sender_abuse_threshold | Role_account | Invalid

datatype Source =
    Cf_email_service | Arf_inbox | One_click | Source_cli | Panel | Import | Sender_threshold_cron
  | Llm_triage

datatype Severity = Info | Warn | Critical

primrec severity_str :: "Severity \<Rightarrow> string" where
  "severity_str Info = ''info''"
| "severity_str Warn = ''warn''"
| "severity_str Critical = ''critical''"

record NormAddress =
  sn_normalized :: string
  sn_local :: string
  sn_domain :: string

record SuppressionRecord =
  sr_id :: string
  sr_entity_type :: EntityType
  sr_address_normalized :: string
  sr_scope :: Scope
  sr_scope_target :: "string option"
  sr_reason :: Reason
  sr_source :: Source
  sr_severity :: Severity
  sr_created_at :: string
  sr_expires_at :: "string option"
  sr_disabled_at :: "string option"

record EnforcementContext =
  ec_senderAddress :: "string option"
  ec_senderAddressId :: "string option"
  ec_mailboxId :: "string option"
  ec_domainId :: "string option"

section \<open>Normalization\<close>

definition GMAIL_EQUIVALENT_DOMAINS :: "string list" where
  "GMAIL_EQUIVALENT_DOMAINS = [''gmail.com'', ''googlemail.com'']"

definition is_ascii :: "string \<Rightarrow> bool" where
  "is_ascii s = (s \<noteq> [] \<and> list_all (\<lambda>c. code c < 128) s)"

definition strip_angles :: "string \<Rightarrow> string" where
  "strip_angles raw =
     (if starts_with ''<'' raw \<and> ends_with ''>'' raw then js_trim (butlast (tl raw)) else raw)"

definition gmail_local :: "string \<Rightarrow> string" where
  "gmail_local l =
     filter (\<lambda>c. c \<noteq> CHR ''.'')
       (case index_of (CHR ''+'') l of None \<Rightarrow> l | Some i \<Rightarrow> take i l)"

text \<open>\<open>hostname d\<close> is \<^verbatim>\<open>new URL('http://' + d).hostname\<close>.\<close>
definition normalizeAddress :: "(string \<Rightarrow> string option) \<Rightarrow> string option \<Rightarrow> NormAddress option" where
  "normalizeAddress hostname input =
     (case input of None \<Rightarrow> None | Some inp \<Rightarrow>
      if js_trim inp = [] then None
      else let raw = strip_angles (js_trim inp) in
      if raw = [] then None
      else case last_index_of (CHR ''@'') raw of
        None \<Rightarrow> None
      | Some ix \<Rightarrow>
          if ix = 0 \<or> ix = length raw - 1 then None
          else let localRaw = take ix raw; domainRaw = drop (ix + 1) raw;
                   lowerLocal = (if is_ascii localRaw then js_lower localRaw else localRaw)
               in case hostname (js_lower domainRaw) of
                    None \<Rightarrow> None
                  | Some domain \<Rightarrow>
                      if domain = [] then None
                      else let gm = domain \<in> set GMAIL_EQUIVALENT_DOMAINS;
                               canonicalLocal = (if gm then gmail_local lowerLocal else lowerLocal);
                               domain' = (if gm then ''gmail.com'' else domain)
                           in if canonicalLocal = [] then None
                              else Some \<lparr> sn_normalized = canonicalLocal @ ''@'' @ domain',
                                          sn_local = localRaw, sn_domain = domain' \<rparr>)"

section \<open>Scopes, expiry, look-ups\<close>

definition nonempty_opt :: "string option \<Rightarrow> string option" where
  "nonempty_opt x = (case x of Some (c # s) \<Rightarrow> Some (c # s) | _ \<Rightarrow> None)"

definition scope_candidate :: "Scope \<Rightarrow> string option \<Rightarrow> (Scope \<times> string option) list" where
  "scope_candidate sc x = (case nonempty_opt x of None \<Rightarrow> [] | Some s \<Rightarrow> [(sc, Some s)])"

definition senderScopeCandidates :: "EnforcementContext \<Rightarrow> (Scope \<times> string option) list" where
  "senderScopeCandidates ctx =
     [(Global, None)] @ scope_candidate Domain (ec_domainId ctx) @
     scope_candidate Mailbox (ec_mailboxId ctx) @ scope_candidate Sender_address (ec_senderAddressId ctx)"

definition isActive :: "(string \<Rightarrow> int option) \<Rightarrow> string option \<Rightarrow> int \<Rightarrow> bool" where
  "isActive date_parse expiresAt nowMs =
     (case expiresAt of
        None \<Rightarrow> True
      | Some e \<Rightarrow> (case date_parse e of None \<Rightarrow> True | Some t \<Rightarrow> t > nowMs))"

definition coalesce :: "string option \<Rightarrow> string" where
  "coalesce x = (case x of None \<Rightarrow> [] | Some s \<Rightarrow> s)"

text \<open>The key of the partial unique index \<^verbatim>\<open>... WHERE disabled_at IS NULL\<close>.\<close>
definition suppression_key :: "SuppressionRecord \<Rightarrow> (EntityType \<times> string \<times> Scope \<times> string) option" where
  "suppression_key r =
     (if sr_disabled_at r = None
      then Some (sr_entity_type r, sr_address_normalized r, sr_scope r, coalesce (sr_scope_target r))
      else None)"

text \<open>The \<^verbatim>\<open>WHERE\<close> clause of both look-ups.\<close>
definition suppression_match ::
  "EntityType \<Rightarrow> string \<Rightarrow> (Scope \<times> string option) list \<Rightarrow> SuppressionRecord \<Rightarrow> bool" where
  "suppression_match et addr scopes r =
     (sr_entity_type r = et \<and> sr_address_normalized r = addr \<and> sr_disabled_at r = None \<and>
      list_ex (\<lambda>(sc, tgt). sr_scope r = sc \<and> coalesce (sr_scope_target r) = coalesce tgt) scopes)"

text \<open>\<^verbatim>\<open>ORDER BY severity DESC, created_at DESC LIMIT 8\<close>: both columns are text.\<close>
definition suppression_select ::
  "EntityType \<Rightarrow> string \<Rightarrow> (Scope \<times> string option) list \<Rightarrow> SuppressionRecord list \<Rightarrow> SuppressionRecord list" where
  "suppression_select et addr scopes t =
     take 8 (rev (sort_key (\<lambda>r. (severity_str (sr_severity r), sr_created_at r))
       (filter (suppression_match et addr scopes) t)))"

definition checkRecipientSuppression ::
  "(string \<Rightarrow> string option) \<Rightarrow> (string \<Rightarrow> int option) \<Rightarrow> SuppressionRecord list \<Rightarrow> string
     \<Rightarrow> EnforcementContext \<Rightarrow> int \<Rightarrow> SuppressionRecord option" where
  "checkRecipientSuppression hostname date_parse t recipient ctx nowMs =
     (case normalizeAddress hostname (Some recipient) of
        None \<Rightarrow> None
      | Some n \<Rightarrow>
          find (\<lambda>r. isActive date_parse (sr_expires_at r) nowMs)
            (suppression_select Recipient (sn_normalized n) (senderScopeCandidates ctx) t))"

definition checkSenderSuppression ::
  "(string \<Rightarrow> string option) \<Rightarrow> (string \<Rightarrow> int option) \<Rightarrow> SuppressionRecord list
     \<Rightarrow> EnforcementContext \<Rightarrow> int \<Rightarrow> SuppressionRecord option" where
  "checkSenderSuppression hostname date_parse t ctx nowMs =
     (case nonempty_opt (ec_senderAddress ctx) of
        None \<Rightarrow> None
      | Some a \<Rightarrow>
          (case normalizeAddress hostname (Some a) of
             None \<Rightarrow> None
           | Some n \<Rightarrow>
               find (\<lambda>r. isActive date_parse (sr_expires_at r) nowMs)
                 (suppression_select Sender (sn_normalized n) (senderScopeCandidates ctx) t)))"

section \<open>The look-ups are complete\<close>

lemma scope_candidates_few: "length (senderScopeCandidates ctx) \<le> 4"
  by (auto simp: senderScopeCandidates_def scope_candidate_def split: option.splits)

lemma matches_few:
  assumes "unique_by suppression_key t" "length scopes \<le> 8"
  shows "length (filter (suppression_match et addr scopes) t) \<le> 8"
proof -
  let ?ks = "map (\<lambda>(sc, tgt). (et, addr, sc, coalesce tgt)) scopes"
  have "length (filter (suppression_match et addr scopes) t) \<le> length ?ks"
  proof (rule unique_by_bound)
    show "unique_by suppression_key (filter (suppression_match et addr scopes) t)"
      using assms(1) by (rule unique_by_filter)
    show "\<forall>r \<in> set (filter (suppression_match et addr scopes) t). suppression_key r \<in> set (map Some ?ks)"
      by (force simp: suppression_match_def suppression_key_def list_ex_iff)
  qed
  then show ?thesis using assms(2) by simp
qed

lemma set_suppression_select:
  assumes "unique_by suppression_key t"
  shows "set (suppression_select et addr (senderScopeCandidates ctx) t) =
     {r \<in> set t. suppression_match et addr (senderScopeCandidates ctx) r}"
proof -
  have "length (filter (suppression_match et addr (senderScopeCandidates ctx)) t) \<le> 8"
    using matches_few [OF assms] scope_candidates_few [of ctx] by (meson dual_order.trans numeral_le_iff semiring_norm(68,71,76))
  then show ?thesis by (simp add: suppression_select_def take_all)
qed

lemma find_iff_set: "(\<exists>r. find Q xs = Some r) \<longleftrightarrow> (\<exists>r \<in> set xs. Q r)"
  by (metis find_None_iff not_None_eq)

lemma find_SomeD: "find Q xs = Some r \<Longrightarrow> r \<in> set xs \<and> Q r"
  by (metis find_Some_iff nth_mem)

lemma find_rev_sort_max:
  assumes "find Q (rev (sort_key f xs)) = Some r" "r' \<in> set xs" "Q r'"
  shows "f r' \<le> f r"
proof -
  let ?s = "rev (sort_key f xs)"
  obtain i where i: "i < length ?s" "r = ?s ! i" "\<forall>j < i. \<not> Q (?s ! j)"
    using assms(1) by (auto simp: find_Some_iff)
  have "r' \<in> set ?s" using assms(2) by simp
  then obtain j where j: "j < length ?s" "r' = ?s ! j" unfolding in_set_conv_nth by metis
  then have ij: "i \<le> j" using i(3) assms(3) by (metis not_le)
  let ?k = "sort_key f xs"
  have "f (?k ! (length ?k - Suc j)) \<le> f (?k ! (length ?k - Suc i))"
    using sorted_nth_mono [of "map f ?k" "length ?k - Suc j" "length ?k - Suc i"] ij i(1) j(1) sorted_sort_key
    by simp
  then show ?thesis using i(1,2) j by (simp add: rev_nth)
qed

section \<open>Normalization is idempotent\<close>

definition addr_clean :: "string \<Rightarrow> bool" where
  "addr_clean s = list_all (\<lambda>c. 33 \<le> code c \<and> code c \<le> 126 \<and> code c \<noteq> 60 \<and> code c \<noteq> 62) s"

text \<open>What the code relies on of URL host names: they are lower-case printable ASCII without
  \<^verbatim>\<open>@\<close>, and a host name is its own host name.\<close>
definition host_ok :: "(string \<Rightarrow> string option) \<Rightarrow> bool" where
  "host_ok hostname =
     ((\<forall>d h. hostname d = Some h \<longrightarrow> h \<noteq> [] \<longrightarrow>
         hostname h = Some h \<and> js_lower h = h \<and> addr_clean h \<and> CHR ''@'' \<notin> set h) \<and>
      hostname ''gmail.com'' = Some ''gmail.com'')"

lemma js_lower_fixed: "js_lower s = s \<longleftrightarrow> (\<forall>c \<in> set s. js_lower_char c = c)"
  by (induction s) auto

lemma addr_clean_trim:
  assumes "addr_clean s" shows "js_trim s = s" "strip_angles s = s"
proof -
  have c: "\<not> is_space c" "c \<noteq> CHR ''<''" if "c \<in> set s" for c
    using assms that by (auto simp: addr_clean_def list_all_iff is_space_def)
  show "js_trim s = s"
  proof (cases "s = []")
    case False
    then show ?thesis using c(1) by (intro js_trim_id) auto
  qed (simp add: js_trim_def)
  have "\<not> starts_with ''<'' s" using c(2) [of "hd s"] by (cases s) (auto simp: starts_with_def)
  then show "strip_angles s = s" by (simp add: strip_angles_def)
qed

lemma addr_clean_ascii: "addr_clean s \<Longrightarrow> s \<noteq> [] \<Longrightarrow> is_ascii s"
  by (auto simp: addr_clean_def is_ascii_def list_all_iff)

lemma addr_clean_lower: "addr_clean s \<Longrightarrow> addr_clean (js_lower s)"
proof -
  have "33 \<le> code (js_lower_char c) \<and> code (js_lower_char c) \<le> 126 \<and> code (js_lower_char c) \<noteq> 60 \<and> code (js_lower_char c) \<noteq> 62"
    if "33 \<le> code c \<and> code c \<le> 126 \<and> code c \<noteq> 60 \<and> code c \<noteq> 62" for c
    using that by (simp add: js_lower_char_def Let_def)
  then show "addr_clean s \<Longrightarrow> addr_clean (js_lower s)"
    by (simp add: addr_clean_def js_lower_def list_all_iff)
qed

lemma set_gmail_local: "set (gmail_local l) \<subseteq> set l - {CHR ''.''}"
  by (auto simp: gmail_local_def split: option.splits dest: in_set_takeD)

lemma gmail_local_no_plus: "CHR ''+'' \<notin> set (gmail_local l)"
  by (auto simp: gmail_local_def split: option.splits dest: index_of_SomeD)

lemma gmail_local_idem: "gmail_local (gmail_local l) = gmail_local l"
proof -
  have "index_of (CHR ''+'') (gmail_local l) = None" using gmail_local_no_plus by simp
  moreover have "filter (\<lambda>c. c \<noteq> CHR ''.'') (gmail_local l) = gmail_local l"
    using set_gmail_local by (auto simp: filter_id_conv)
  ultimately show ?thesis by (simp only: gmail_local_def [of "gmail_local l"] option.case)
qed

lemma normalizeAddress_split:
  assumes "l \<noteq> []" "d \<noteq> []" "CHR ''@'' \<notin> set d" "addr_clean (l @ ''@'' @ d)"
  shows "normalizeAddress hostname (Some (l @ ''@'' @ d)) =
     (case hostname (js_lower d) of
        None \<Rightarrow> None
      | Some h \<Rightarrow>
          if h = [] then None
          else let gm = h \<in> set GMAIL_EQUIVALENT_DOMAINS;
                   cl = (if gm then gmail_local (js_lower l) else js_lower l);
                   dom = (if gm then ''gmail.com'' else h)
               in if cl = [] then None
                  else Some \<lparr> sn_normalized = cl @ ''@'' @ dom, sn_local = l, sn_domain = dom \<rparr>)"
proof -
  let ?raw = "l @ ''@'' @ d"
  have raw: "strip_angles (js_trim ?raw) = ?raw" "js_trim ?raw \<noteq> []"
    using addr_clean_trim [OF assms(4)] by auto
  have ix: "last_index_of (CHR ''@'') ?raw = Some (length l)"
    using last_index_of_append_notin [OF assms(3)] by simp
  have "addr_clean l" using assms(4) by (simp add: addr_clean_def)
  then have "is_ascii l" using addr_clean_ascii assms(1) by blast
  moreover have "length l \<noteq> 0" "length l \<noteq> length ?raw - 1" using assms(1,2) by auto
  ultimately show ?thesis
    using raw ix unfolding normalizeAddress_def by (simp add: Let_def)
qed

lemma addr_split_last:
  assumes "last_index_of (CHR ''@'') raw = Some ix"
  shows "raw = take ix raw @ ''@'' @ drop (Suc ix) raw" "CHR ''@'' \<notin> set (drop (Suc ix) raw)"
  using last_index_of_SomeD [OF assms] by simp_all

lemma normalize_idem_lemma:
  assumes "host_ok hostname" "addr_clean inp" "normalizeAddress hostname (Some inp) = Some n"
  shows "map_option sn_normalized (normalizeAddress hostname (Some (sn_normalized n))) = Some (sn_normalized n)"
proof -
  have raw: "strip_angles (js_trim inp) = inp" using addr_clean_trim [OF assms(2)] by simp
  obtain ix where ix: "last_index_of (CHR ''@'') inp = Some ix" "ix \<noteq> 0" "ix \<noteq> length inp - 1"
    using assms(3) raw unfolding normalizeAddress_def
    by (auto simp: Let_def split: option.splits if_splits)
  define l d where "l = take ix inp" and "d = drop (Suc ix) inp"
  have inp: "inp = l @ ''@'' @ d" "CHR ''@'' \<notin> set d" "l \<noteq> []" "d \<noteq> []"
    using addr_split_last [OF ix(1)] ix last_index_of_SomeD [OF ix(1)] by (auto simp: l_def d_def)
  obtain h where h: "hostname (js_lower d) = Some h" "h \<noteq> []"
    and n: "n = (let gm = h \<in> set GMAIL_EQUIVALENT_DOMAINS;
                   cl = (if gm then gmail_local (js_lower l) else js_lower l);
                   dom = (if gm then ''gmail.com'' else h)
               in \<lparr> sn_normalized = cl @ ''@'' @ dom, sn_local = l, sn_domain = dom \<rparr>)"
    and clne: "(if h \<in> set GMAIL_EQUIVALENT_DOMAINS then gmail_local (js_lower l) else js_lower l) \<noteq> []"
    using assms(3) normalizeAddress_split [OF inp(3,4,2), of hostname] assms(2) inp(1)
    by (auto simp: Let_def split: option.splits if_splits)
  define gm where "gm = (h \<in> set GMAIL_EQUIVALENT_DOMAINS)"
  define cl where "cl = (if gm then gmail_local (js_lower l) else js_lower l)"
  define dom where "dom = (if gm then ''gmail.com'' else h)"
  have nn: "sn_normalized n = cl @ ''@'' @ dom" by (simp add: n Let_def gm_def cl_def dom_def)
  have hok: "hostname h = Some h" "js_lower h = h" "addr_clean h" "CHR ''@'' \<notin> set h"
    "hostname ''gmail.com'' = Some ''gmail.com''"
    using assms(1) h by (auto simp: host_ok_def)
  have gl: "js_lower ''gmail.com'' = ''gmail.com''" by code_simp
  have dom: "hostname dom = Some dom" "js_lower dom = dom" "addr_clean dom" "CHR ''@'' \<notin> set dom" "dom \<noteq> []"
      "dom \<in> set GMAIL_EQUIVALENT_DOMAINS \<longleftrightarrow> gm" "gm \<Longrightarrow> dom = ''gmail.com''"
    using hok gl h(2) by (auto simp: dom_def gm_def addr_clean_def GMAIL_EQUIVALENT_DOMAINS_def)
  have sub: "set cl \<subseteq> set (js_lower l)" using set_gmail_local by (auto simp: cl_def)
  have lowf: "\<forall>c \<in> set (js_lower l). js_lower_char c = c" using js_lower_fixed js_lower_idem by blast
  then have low: "js_lower cl = cl" using sub js_lower_fixed by blast
  have "addr_clean (js_lower l)"
    using assms(2) inp(1) addr_clean_lower by (simp add: addr_clean_def)
  then have "addr_clean cl" using sub by (auto simp: addr_clean_def list_all_iff)
  then have "addr_clean (cl @ ''@'' @ dom)" using dom(3) by (simp add: addr_clean_def)
  moreover have "cl \<noteq> []" using clne by (simp add: cl_def gm_def)
  moreover have "gm \<Longrightarrow> gmail_local cl = cl" by (simp add: cl_def gmail_local_idem)
  ultimately have "normalizeAddress hostname (Some (cl @ ''@'' @ dom)) =
      Some \<lparr> sn_normalized = cl @ ''@'' @ dom, sn_local = cl, sn_domain = dom \<rparr>"
    using normalizeAddress_split [of cl dom hostname] dom low by (auto simp: Let_def)
  then show ?thesis by (simp add: nn)
qed

section \<open>Properties\<close>

text \<open>The specification of a look-up: an enabled, unexpired row for the address in one of the scopes.\<close>
definition suppression_hit ::
  "(string \<Rightarrow> int option) \<Rightarrow> EntityType \<Rightarrow> string \<Rightarrow> EnforcementContext \<Rightarrow> int \<Rightarrow> SuppressionRecord list
     \<Rightarrow> SuppressionRecord \<Rightarrow> bool" where
  "suppression_hit date_parse et addr ctx nowMs t r =
     (r \<in> set t \<and> suppression_match et addr (senderScopeCandidates ctx) r \<and>
      isActive date_parse (sr_expires_at r) nowMs)"

text \<open>A recipient look-up misses nothing and invents nothing: on a table that respects the unique
  index, it finds a row exactly when some enabled, unexpired row for the normalized address matches one
  of the scope candidates, and the row it returns is such a row. In particular \<^verbatim>\<open>LIMIT 8\<close> never hides
  a match.\<close>
theorem recipient_lookup_complete:
  assumes "unique_by suppression_key t" "normalizeAddress hostname (Some recipient) = Some n"
  shows "(checkRecipientSuppression hostname date_parse t recipient ctx nowMs = None \<longleftrightarrow> (\<forall>r. \<not> suppression_hit date_parse Recipient (sn_normalized n) ctx nowMs t r)) \<and>
     (\<forall>r. checkRecipientSuppression hostname date_parse t recipient ctx nowMs = Some r \<longrightarrow> suppression_hit date_parse Recipient (sn_normalized n) ctx nowMs t r)"
  using find_SomeD [of _ "suppression_select Recipient (sn_normalized n) (senderScopeCandidates ctx) t"]
  by (auto simp: checkRecipientSuppression_def assms(2) suppression_hit_def find_None_iff set_suppression_select [OF assms(1)])

definition demo_row :: "Severity \<Rightarrow> Scope \<Rightarrow> string option \<Rightarrow> SuppressionRecord" where
  "demo_row sev sc tgt = \<lparr> sr_id = ''s'', sr_entity_type = Recipient, sr_address_normalized = ''a@x.org'',
     sr_scope = sc, sr_scope_target = tgt, sr_reason = Manual, sr_source = Panel, sr_severity = sev,
     sr_created_at = ''2026'', sr_expires_at = None, sr_disabled_at = None \<rparr>"

definition demo_ctx :: EnforcementContext where
  "demo_ctx = \<lparr> ec_senderAddress = Some ''b@y.org'', ec_senderAddressId = None, ec_mailboxId = Some ''m'',
     ec_domainId = Some ''d'' \<rparr>"

definition demo_table :: "SuppressionRecord list" where
  "demo_table = [demo_row Critical Global None, demo_row Info Mailbox (Some ''m'')]"

lemma recipient_lookup_complete_witness:
  "unique_by suppression_key demo_table \<and>
   checkRecipientSuppression Some (\<lambda>_. None) demo_table '' A@x.org'' demo_ctx 0 \<noteq> None"
proof -
  have u: "unique_by suppression_key demo_table" by code_simp
  have n: "normalizeAddress Some (Some '' A@x.org'') =
      Some \<lparr> sn_normalized = ''a@x.org'', sn_local = ''A'', sn_domain = ''x.org'' \<rparr>" by code_simp
  have "demo_row Critical Global None \<in> set demo_table"
    "suppression_match Recipient ''a@x.org'' (senderScopeCandidates demo_ctx) (demo_row Critical Global None)"
    "isActive (\<lambda>_. None) (sr_expires_at (demo_row Critical Global None)) 0" by code_simp+
  then show ?thesis using recipient_lookup_complete [OF u n, of "\<lambda>_. None" demo_ctx 0] u
    by (auto simp: suppression_hit_def)
qed

text \<open>The same for the sender look-up, on the sender's own address.\<close>
theorem sender_lookup_complete:
  assumes "unique_by suppression_key t" "ec_senderAddress ctx = Some a" "normalizeAddress hostname (Some a) = Some n"
  shows "(checkSenderSuppression hostname date_parse t ctx nowMs = None \<longleftrightarrow> (\<forall>r. \<not> suppression_hit date_parse Sender (sn_normalized n) ctx nowMs t r)) \<and>
     (\<forall>r. checkSenderSuppression hostname date_parse t ctx nowMs = Some r \<longrightarrow> suppression_hit date_parse Sender (sn_normalized n) ctx nowMs t r)"
proof -
  have "a \<noteq> []" using assms(3) by (auto simp: normalizeAddress_def js_trim_def)
  then have "nonempty_opt (ec_senderAddress ctx) = Some a" using assms(2) by (cases a) (auto simp: nonempty_opt_def)
  then show ?thesis
    using find_SomeD [of _ "suppression_select Sender (sn_normalized n) (senderScopeCandidates ctx) t"]
    by (auto simp: checkSenderSuppression_def assms(3) suppression_hit_def find_None_iff set_suppression_select [OF assms(1)])
qed

lemma sender_lookup_complete_witness:
  "checkSenderSuppression Some (\<lambda>_. None) demo_table demo_ctx 0 = None"
proof -
  have u: "unique_by suppression_key demo_table" by code_simp
  have n: "normalizeAddress Some (Some ''b@y.org'') =
      Some \<lparr> sn_normalized = ''b@y.org'', sn_local = ''b'', sn_domain = ''y.org'' \<rparr>" by code_simp
  have a: "ec_senderAddress demo_ctx = Some ''b@y.org''" by (simp add: demo_ctx_def)
  have "\<forall>r \<in> set demo_table. \<not> suppression_match Sender ''b@y.org'' (senderScopeCandidates demo_ctx) r" by code_simp
  then show ?thesis using sender_lookup_complete [OF u a n, of "\<lambda>_. None" 0]
    by (auto simp: suppression_hit_def)
qed

text \<open>The look-up orders severities as text, so it returns the most severe row last: a critical
  row is returned only when every matching active row is critical.\<close>
theorem critical_returned_only_if_all_critical:
  assumes "unique_by suppression_key t" "normalizeAddress hostname (Some recipient) = Some n"
    and "checkRecipientSuppression hostname date_parse t recipient ctx nowMs = Some r" "sr_severity r = Critical"
    and "r' \<in> set t" "suppression_match Recipient (sn_normalized n) (senderScopeCandidates ctx) r'"
    and "isActive date_parse (sr_expires_at r') nowMs"
  shows "sr_severity r' = Critical"
proof -
  let ?f = "\<lambda>r. (severity_str (sr_severity r), sr_created_at r)"
  let ?xs = "filter (suppression_match Recipient (sn_normalized n) (senderScopeCandidates ctx)) t"
  have "length ?xs \<le> 8" using matches_few [OF assms(1)] scope_candidates_few [of ctx] by simp
  then have "find (\<lambda>r. isActive date_parse (sr_expires_at r) nowMs) (rev (sort_key ?f ?xs)) = Some r"
    using assms(2,3) by (simp add: checkRecipientSuppression_def suppression_select_def)
  from find_rev_sort_max [OF this, of r'] assms(5-7) have "?f r' \<le> ?f r" by simp
  then have "severity_str (sr_severity r') \<le> ''critical''" using assms(4) by auto
  then show ?thesis by (cases "sr_severity r'") (auto simp: less_eq_char_def)
qed

lemma critical_returned_only_if_all_critical_witness:
  "checkRecipientSuppression Some (\<lambda>_. None) [demo_row Critical Global None] ''a@x.org'' demo_ctx 0 =
     Some (demo_row Critical Global None) \<and> sr_severity (demo_row Critical Global None) = Critical"
proof -
  have u: "unique_by suppression_key [demo_row Critical Global None]" by code_simp
  have n: "normalizeAddress Some (Some ''a@x.org'') =
      Some \<lparr> sn_normalized = ''a@x.org'', sn_local = ''a'', sn_domain = ''x.org'' \<rparr>" by code_simp
  have c: "checkRecipientSuppression Some (\<lambda>_. None) [demo_row Critical Global None] ''a@x.org'' demo_ctx 0 =
      Some (demo_row Critical Global None)" by code_simp
  have "sr_severity (demo_row Critical Global None) = Critical"
    "suppression_match Recipient ''a@x.org'' (senderScopeCandidates demo_ctx) (demo_row Critical Global None)"
    "isActive (\<lambda>_. None) (sr_expires_at (demo_row Critical Global None)) 0" by code_simp+
  then show ?thesis using critical_returned_only_if_all_critical [OF u n c] c by auto
qed

text \<open>Normalization is idempotent on printable ASCII addresses: the key under which a row is stored
  is found again when the stored key itself is looked up, Gmail tags and dots included.\<close>
theorem normalizeAddress_idempotent:
  assumes "host_ok hostname" "addr_clean inp" "normalizeAddress hostname (Some inp) = Some n"
  shows "map_option sn_normalized (normalizeAddress hostname (Some (sn_normalized n))) = Some (sn_normalized n)"
  using assms by (rule normalize_idem_lemma)

definition demo_hostname :: "string \<Rightarrow> string option" where
  "demo_hostname d = (if d = ''googlemail.com'' then Some ''googlemail.com''
     else if d = ''gmail.com'' then Some ''gmail.com'' else None)"

lemma normalizeAddress_idempotent_witness:
  "host_ok demo_hostname \<and>
   map_option sn_normalized (normalizeAddress demo_hostname (Some ''j.smith@gmail.com'')) = Some ''jsmith@gmail.com'' \<and>
   map_option sn_normalized (normalizeAddress demo_hostname (Some ''jsmith@gmail.com'')) = Some ''jsmith@gmail.com''"
proof -
  have h: "host_ok demo_hostname"
    by (auto simp: host_ok_def demo_hostname_def addr_clean_def js_lower_fixed js_lower_char_def)
  have c: "addr_clean ''j.smith@gmail.com''" by code_simp
  have n: "normalizeAddress demo_hostname (Some ''j.smith@gmail.com'') =
      Some \<lparr> sn_normalized = ''jsmith@gmail.com'', sn_local = ''j.smith'', sn_domain = ''gmail.com'' \<rparr>" by code_simp
  show ?thesis using normalizeAddress_idempotent [OF h c n] h n by simp
qed

end
