(* ===== verification/Policy.thy ===== *)
theory Policy
  imports Suppressions
begin

text \<open>
  Types, bands, configuration and dispatch of the policy engine
  (\<^verbatim>\<open>packages/policy-engine/src/{types,bands,config,dispatch}.ts\<close>). Scores and thresholds are
  integers. The evidence text of a reason is not modelled: no decision depends on it.
\<close>

section \<open>Types\<close>

datatype pdirection = Inbound | Outbound

datatype StreamType = Transactional | Marketing | Agent | Stream_inbound

datatype Verdict = Pass | Pass_warn | Hold | Block

record HeuristicReason =
  hr_code :: string
  hr_score :: int

datatype llm_label = Phishing | Malware | Spam | Label_marketing | Legitimate

datatype budget_state = Budget_ok | Over_budget | Binding_absent | Budget_error

record LlmOutcome =
  lo_invoked :: bool
  lo_label :: "llm_label option"
  lo_confidence :: "rat option"
  lo_delta :: "int option"
  lo_budget_state :: budget_state

datatype Band = Band_pass | Band_pass_warn | Band_uncertain | Band_hold | Band_block_decisive

record PolicyDecision =
  pd_verdict :: Verdict
  pd_total_score :: int
  pd_reasons :: "HeuristicReason list"
  pd_llm :: LlmOutcome
  pd_decision_id :: string
  pd_band :: Band

datatype SpfResult = Spf_pass | Spf_fail | Spf_softfail | Spf_neutral | Spf_none | Spf_temperror | Spf_permerror

datatype DkimResult =
  Dkim_pass | Dkim_fail | Dkim_none | Dkim_policy | Dkim_neutral | Dkim_temperror | Dkim_permerror

datatype DmarcResult = Dmarc_pass | Dmarc_fail | Dmarc_none

datatype DmarcPolicy = P_none | P_quarantine | P_reject

record AuthResults =
  au_spf :: "SpfResult option"
  au_dkim :: "(DkimResult \<times> string option) option" \<comment> \<open>result and signing domain\<close>
  au_dmarc :: "DmarcResult option"
  au_dmarc_policy :: "DmarcPolicy option"

datatype promotion_state =
  Ps_none | Ps_quarantine_ready | Ps_quarantine | Ps_reject_ready | Ps_reject | Ps_paused

record PolicyBands =
  pb_pass_min :: int
  pb_pass_warn_max :: int
  pb_uncertain_max :: int
  pb_hold_max :: int

definition DEFAULT_BANDS :: PolicyBands where
  "DEFAULT_BANDS = \<lparr> pb_pass_min = 0, pb_pass_warn_max = -1, pb_uncertain_max = -5, pb_hold_max = -15 \<rparr>"

record PolicyConfig =
  pc_bands :: PolicyBands
  pc_weights :: "string \<Rightarrow> int option"

record SenderCtx =
  sc_mailbox_id :: "string option"
  sc_domain_id :: "string option"
  sc_address :: string
  sc_abuse_tier :: "int option"
  sc_dmarc_promotion_state :: "promotion_state option"

record ReceiverCtx =
  rc_address :: string
  rc_mailbox_id :: "string option"
  rc_domain_id :: "string option"

record MessageCtx =
  mc_raw_headers :: string
  mc_headers :: "string \<Rightarrow> string option"
  mc_body_preview :: string
  mc_content_types :: "string list"
  mc_attachment_filenames :: "string list"
  mc_in_reply_to :: "string option"
  mc_html_only :: bool

section \<open>Bands\<close>

definition BLOCK_DECISIVE_THRESHOLD :: int where "BLOCK_DECISIVE_THRESHOLD = -25"

definition classifyBand :: "int \<Rightarrow> PolicyBands \<Rightarrow> Band" where
  "classifyBand score bands =
     (if score \<le> BLOCK_DECISIVE_THRESHOLD then Band_block_decisive
      else if score \<le> pb_hold_max bands then Band_hold
      else if score \<le> pb_uncertain_max bands then Band_uncertain
      else if score \<le> pb_pass_warn_max bands then Band_pass_warn
      else Band_pass)"

primrec bandToVerdict :: "Band \<Rightarrow> pdirection \<Rightarrow> Verdict" where
  "bandToVerdict Band_pass d = Pass"
| "bandToVerdict Band_pass_warn d = Pass_warn"
| "bandToVerdict Band_uncertain d = Hold"
| "bandToVerdict Band_hold d = Hold"
| "bandToVerdict Band_block_decisive d = Block"

section \<open>Configuration\<close>

text \<open>A parsed \<^verbatim>\<open>config_json\<close>: the numeric fields that are present.\<close>
record PartialConfig =
  pp_pass_min :: "int option"
  pp_pass_warn_max :: "int option"
  pp_uncertain_max :: "int option"
  pp_hold_max :: "int option"
  pp_weights :: "string \<Rightarrow> int option"

datatype config_scope = Cfg_global | Cfg_domain | Cfg_mailbox

record ConfigRow =
  cr_scope_type :: config_scope
  cr_scope_target :: "string option"
  cr_config_json :: string

definition over :: "'a \<Rightarrow> 'a option \<Rightarrow> 'a" where
  "over a x = (case x of None \<Rightarrow> a | Some b \<Rightarrow> b)"

definition mergeConfig :: "PolicyConfig \<Rightarrow> PartialConfig \<Rightarrow> PolicyConfig" where
  "mergeConfig into layer =
     \<lparr> pc_bands =
         \<lparr> pb_pass_min = over (pb_pass_min (pc_bands into)) (pp_pass_min layer),
           pb_pass_warn_max = over (pb_pass_warn_max (pc_bands into)) (pp_pass_warn_max layer),
           pb_uncertain_max = over (pb_uncertain_max (pc_bands into)) (pp_uncertain_max layer),
           pb_hold_max = over (pb_hold_max (pc_bands into)) (pp_hold_max layer) \<rparr>,
       pc_weights = pc_weights into ++ pp_weights layer \<rparr>"

definition jint :: "json option \<Rightarrow> int option" where
  "jint j = (case j of Some (JNum q) \<Rightarrow> Some \<lfloor>q\<rfloor> | _ \<Rightarrow> None)"

text \<open>\<open>parsePartial\<close>, of the value \<^verbatim>\<open>JSON.parse\<close> returned. Thresholds and weights are whole numbers.\<close>
definition parsePartial :: "json \<Rightarrow> PartialConfig" where
  "parsePartial j =
     (let bands = (case jfield j ''bands'' of Some (JObj b) \<Rightarrow> JObj b | _ \<Rightarrow> JObj []);
          weights = (case jfield j ''weights'' of Some (JObj w) \<Rightarrow> JObj w | _ \<Rightarrow> JObj [])
      in \<lparr> pp_pass_min = jint (jfield bands ''pass_min''),
           pp_pass_warn_max = jint (jfield bands ''pass_warn_max''),
           pp_uncertain_max = jint (jfield bands ''uncertain_max''),
           pp_hold_max = jint (jfield bands ''hold_max''),
           pp_weights = (\<lambda>k. jint (jfield weights k)) \<rparr>)"

text \<open>One layer; \<^const>\<open>None\<close> when \<^verbatim>\<open>JSON.parse\<close> (the parameter) throws.\<close>
definition apply_layer ::
  "(string \<Rightarrow> json option) \<Rightarrow> ConfigRow option \<Rightarrow> PolicyConfig option \<Rightarrow> PolicyConfig option" where
  "apply_layer json_parse row cfg =
     (case (cfg, row) of
        (Some c, Some r) \<Rightarrow> map_option (\<lambda>j. mergeConfig c (parsePartial j)) (json_parse (cr_config_json r))
      | _ \<Rightarrow> cfg)"

definition loadPolicyConfig ::
  "(string \<Rightarrow> json option) \<Rightarrow> ConfigRow list \<Rightarrow> string option \<Rightarrow> string option \<Rightarrow> PolicyConfig option" where
  "loadPolicyConfig json_parse rows domain_id mailbox_id =
     (let c0 = Some \<lparr> pc_bands = DEFAULT_BANDS, pc_weights = Map.empty \<rparr>;
          row = (\<lambda>sc tgt. case nonempty_opt tgt of None \<Rightarrow> None
                   | Some t \<Rightarrow> find (\<lambda>r. cr_scope_type r = sc \<and> cr_scope_target r = Some t) rows);
          c1 = apply_layer json_parse (find (\<lambda>r. cr_scope_type r = Cfg_global) rows) c0;
          c2 = apply_layer json_parse (row Cfg_domain domain_id) c1
      in apply_layer json_parse (row Cfg_mailbox mailbox_id) c2)"

section \<open>Dispatch\<close>

datatype Outcome =
    Deliver | Deliver_with_warning_header | Send | Send_with_warning | Send_with_caller_warning
  | Queue_for_moderation | Bounce_with_reasons | Drop_with_forensic_row

record OutcomeSpec =
  os_outcome :: Outcome
  os_alert :: bool
  os_alert_severity :: Severity
  os_credit_sender_abuse :: bool

definition ENTRY :: "Outcome \<Rightarrow> bool \<Rightarrow> Severity \<Rightarrow> bool \<Rightarrow> OutcomeSpec" where
  "ENTRY out al sev cr = \<lparr> os_outcome = out, os_alert = al, os_alert_severity = sev, os_credit_sender_abuse = cr \<rparr>"

definition TABLE :: "((pdirection \<times> StreamType \<times> Verdict) \<times> OutcomeSpec) list" where
  "TABLE =
    [((Inbound, Stream_inbound, Pass), ENTRY Deliver False Info False),
     ((Inbound, Stream_inbound, Pass_warn), ENTRY Deliver_with_warning_header False Info False),
     ((Inbound, Stream_inbound, Hold), ENTRY Queue_for_moderation True Warn False),
     ((Inbound, Stream_inbound, Block), ENTRY Drop_with_forensic_row True Critical False),
     ((Outbound, Transactional, Pass), ENTRY Send False Info False),
     ((Outbound, Transactional, Pass_warn), ENTRY Send_with_warning False Info False),
     ((Outbound, Transactional, Hold), ENTRY Queue_for_moderation True Warn False),
     ((Outbound, Transactional, Block), ENTRY Bounce_with_reasons True Critical False),
     ((Outbound, Marketing, Pass), ENTRY Send False Info False),
     ((Outbound, Marketing, Pass_warn), ENTRY Send_with_warning False Info False),
     ((Outbound, Marketing, Hold), ENTRY Queue_for_moderation True Warn False),
     ((Outbound, Marketing, Block), ENTRY Bounce_with_reasons True Critical True),
     ((Outbound, Agent, Pass), ENTRY Send False Info False),
     ((Outbound, Agent, Pass_warn), ENTRY Send_with_caller_warning False Info False),
     ((Outbound, Agent, Hold), ENTRY Queue_for_moderation True Warn False),
     ((Outbound, Agent, Block), ENTRY Bounce_with_reasons True Critical False)]"

text \<open>\<^const>\<open>None\<close> is the thrown error.\<close>
definition lookupOutcome :: "pdirection \<Rightarrow> StreamType \<Rightarrow> Verdict \<Rightarrow> OutcomeSpec option" where
  "lookupOutcome direction stream_type verdict =
     (let normalizedStream = (if direction = Inbound then Stream_inbound else stream_type)
      in map_of TABLE (direction, normalizedStream, verdict))"

section \<open>Lemmas\<close>

text \<open>Severity of a verdict: the higher, the stricter.\<close>
primrec verdict_rank :: "Verdict \<Rightarrow> nat" where
  "verdict_rank Pass = 0"
| "verdict_rank Pass_warn = 1"
| "verdict_rank Hold = 2"
| "verdict_rank Block = 3"

definition score_verdict :: "int \<Rightarrow> PolicyBands \<Rightarrow> pdirection \<Rightarrow> Verdict" where
  "score_verdict s bands d = bandToVerdict (classifyBand s bands) d"

lemma score_verdict_antimono:
  "s \<le> t \<Longrightarrow> verdict_rank (score_verdict t bands d) \<le> verdict_rank (score_verdict s bands d)"
  by (simp add: score_verdict_def classifyBand_def)

lemma score_verdict_default:
  "score_verdict s DEFAULT_BANDS d =
     (if s \<le> -25 then Block else if s \<le> -5 then Hold else if s \<le> -1 then Pass_warn else Pass)"
  by (simp add: score_verdict_def classifyBand_def DEFAULT_BANDS_def BLOCK_DECISIVE_THRESHOLD_def)

text \<open>Lower scores never get a milder verdict, whatever thresholds an operator configured (even
  inconsistent ones), and a message is blocked exactly at \<open>-25\<close> or below: no configuration can turn
  a block into a delivery or make a mild score block.\<close>
theorem verdict_monotone_block_fixed:
  "(s \<le> t \<longrightarrow> verdict_rank (bandToVerdict (classifyBand t bands) d) \<le> verdict_rank (bandToVerdict (classifyBand s bands) d)) \<and>
   (bandToVerdict (classifyBand s bands) d = Block \<longleftrightarrow> s \<le> -25)"
  by (simp add: classifyBand_def BLOCK_DECISIVE_THRESHOLD_def)

lemma verdict_monotone_block_fixed_witness:
  "bandToVerdict (classifyBand (-30) DEFAULT_BANDS) Inbound = Block \<and>
   verdict_rank (bandToVerdict (classifyBand 3 DEFAULT_BANDS) Inbound) \<le> verdict_rank (bandToVerdict (classifyBand (-30) DEFAULT_BANDS) Inbound)"
  using verdict_monotone_block_fixed [of "-30" 3 DEFAULT_BANDS Inbound] by linarith



text \<open>Configuration layers: with a global, a domain and a mailbox row that all parse, each threshold
  and each weight comes from the most specific layer that sets it, and from the built-in default when
  none does.\<close>
theorem config_most_specific_wins:
  assumes "find (\<lambda>r. cr_scope_type r = Cfg_global) rows = Some g"
    and "find (\<lambda>r. cr_scope_type r = Cfg_domain \<and> cr_scope_target r = Some dm) rows = Some d"
    and "find (\<lambda>r. cr_scope_type r = Cfg_mailbox \<and> cr_scope_target r = Some mb) rows = Some m"
    and "dm \<noteq> []" "mb \<noteq> []"
    and "json_parse (cr_config_json g) = Some jg" "json_parse (cr_config_json d) = Some jd"
    and "json_parse (cr_config_json m) = Some jm"
    and "pg = parsePartial jg" "pd = parsePartial jd" "pm = parsePartial jm"
  shows "\<exists>c. loadPolicyConfig json_parse rows (Some dm) (Some mb) = Some c \<and>
     pb_hold_max (pc_bands c) = over (over (over (-15) (pp_hold_max pg)) (pp_hold_max pd)) (pp_hold_max pm) \<and>
     pb_uncertain_max (pc_bands c) = over (over (over (-5) (pp_uncertain_max pg)) (pp_uncertain_max pd)) (pp_uncertain_max pm) \<and>
     pb_pass_warn_max (pc_bands c) = over (over (over (-1) (pp_pass_warn_max pg)) (pp_pass_warn_max pd)) (pp_pass_warn_max pm) \<and>
     pc_weights c = Map.empty ++ pp_weights pg ++ pp_weights pd ++ pp_weights pm"
proof -
  have "nonempty_opt (Some dm) = Some dm" "nonempty_opt (Some mb) = Some mb"
    using assms(4,5) by (cases dm; cases mb; simp add: nonempty_opt_def)+
  then show ?thesis
    using assms by (simp add: loadPolicyConfig_def apply_layer_def mergeConfig_def DEFAULT_BANDS_def)
qed

definition demo_json :: "string \<Rightarrow> json option" where
  "demo_json s = Some (if s = ''d'' then JObj [(''bands'', JObj [(''hold_max'', JNum (-9))])] else JNull)"

definition demo_rows :: "ConfigRow list" where
  "demo_rows =
     [\<lparr> cr_scope_type = Cfg_global, cr_scope_target = None, cr_config_json = ''g'' \<rparr>,
      \<lparr> cr_scope_type = Cfg_domain, cr_scope_target = Some ''D'', cr_config_json = ''d'' \<rparr>,
      \<lparr> cr_scope_type = Cfg_mailbox, cr_scope_target = Some ''M'', cr_config_json = ''m'' \<rparr>]"

definition demo_row_of :: "config_scope \<Rightarrow> string option \<Rightarrow> string \<Rightarrow> ConfigRow" where
  "demo_row_of sc t j = \<lparr> cr_scope_type = sc, cr_scope_target = t, cr_config_json = j \<rparr>"

lemma config_most_specific_wins_witness:
  "\<exists>c. loadPolicyConfig demo_json demo_rows (Some ''D'') (Some ''M'') = Some c \<and> pb_hold_max (pc_bands c) = -9"
proof -
  have f: "find (\<lambda>r. cr_scope_type r = Cfg_global) demo_rows = Some (demo_row_of Cfg_global None ''g'')"
    "find (\<lambda>r. cr_scope_type r = Cfg_domain \<and> cr_scope_target r = Some ''D'') demo_rows =
       Some (demo_row_of Cfg_domain (Some ''D'') ''d'')"
    "find (\<lambda>r. cr_scope_type r = Cfg_mailbox \<and> cr_scope_target r = Some ''M'') demo_rows =
       Some (demo_row_of Cfg_mailbox (Some ''M'') ''m'')"
    by (simp_all add: demo_rows_def demo_row_of_def)
  have j: "demo_json (cr_config_json (demo_row_of Cfg_global None ''g'')) = Some JNull"
    "demo_json (cr_config_json (demo_row_of Cfg_domain (Some ''D'') ''d'')) =
       Some (JObj [(''bands'', JObj [(''hold_max'', JNum (-9))])])"
    "demo_json (cr_config_json (demo_row_of Cfg_mailbox (Some ''M'') ''m'')) = Some JNull"
    by (simp_all add: demo_json_def demo_row_of_def)
  show ?thesis
    using config_most_specific_wins [OF f _ _ j refl refl refl]
    by (auto simp: parsePartial_def jfield_def jint_def over_def Let_def)
qed

end
