(* ===== verification/Heuristics.thy ===== *)
theory Heuristics
  imports Policy
begin

text \<open>
  The heuristics of the policy engine: \<^verbatim>\<open>packages/policy-engine/src/heuristics\<close>. One definition per
  heuristic file, in registry order, over the shared helpers of \<^verbatim>\<open>helpers.ts\<close> and a small
  backtracking matcher for the regular expressions they use. A heuristic abstains, fires with a
  reason, or throws (a database query fails). The tables it reads are the fields of \<open>policy_db\<close>;
  \<^verbatim>\<open>new URL(...).hostname\<close> and \<^verbatim>\<open>Date.parse\<close> are parameters in \<open>policy_env\<close>.
\<close>

section \<open>Regular expressions\<close>

text \<open>Greedy and lazy repetition occur only on character classes in the sources.\<close>
datatype re =
    RChar "char \<Rightarrow> bool"
  | REps
  | RSeq re re
  | RAlt re re
  | RStar "char \<Rightarrow> bool"
  | RLazy "char \<Rightarrow> bool"
  | RBound

type_synonym pos = "string \<times> string" \<comment> \<open>text before (reversed) and after\<close>

definition word_char :: "char \<Rightarrow> bool" where
  "word_char c = (is_alnum c \<or> c = CHR ''_'')"

definition at_boundary :: "pos \<Rightarrow> bool" where
  "at_boundary p =
     ((case fst p of [] \<Rightarrow> False | c # _ \<Rightarrow> word_char c) \<noteq> (case snd p of [] \<Rightarrow> False | c # _ \<Rightarrow> word_char c))"

fun greedy_star :: "(char \<Rightarrow> bool) \<Rightarrow> string \<Rightarrow> string \<Rightarrow> pos list" where
  "greedy_star P b [] = [(b, [])]"
| "greedy_star P b (c # cs) = (if P c then greedy_star P (c # b) cs @ [(b, c # cs)] else [(b, c # cs)])"

text \<open>All ways to match at a position, in the order backtracking tries them.\<close>
fun re_run :: "re \<Rightarrow> pos \<Rightarrow> pos list" where
  "re_run (RChar P) (b, []) = []"
| "re_run (RChar P) (b, c # cs) = (if P c then [(c # b, cs)] else [])"
| "re_run REps p = [p]"
| "re_run (RSeq r s) p = concat (map (re_run s) (re_run r p))"
| "re_run (RAlt r s) p = re_run r p @ re_run s p"
| "re_run (RStar P) (b, cs) = greedy_star P b cs"
| "re_run (RLazy P) (b, cs) = rev (greedy_star P b cs)"
| "re_run RBound p = (if at_boundary p then [p] else [])"

fun positions :: "string \<Rightarrow> string \<Rightarrow> pos list" where
  "positions b [] = [(b, [])]"
| "positions b (c # cs) = (b, c # cs) # positions (c # b) cs"

definition re_test :: "re \<Rightarrow> string \<Rightarrow> bool" where
  "re_test r s = list_ex (\<lambda>p. re_run r p \<noteq> []) (positions [] s)"

fun re_seq :: "re list \<Rightarrow> re" where
  "re_seq [] = REps"
| "re_seq [r] = r"
| "re_seq (r # rs) = RSeq r (re_seq rs)"

fun re_alts :: "re list \<Rightarrow> re" where
  "re_alts [] = RChar (\<lambda>_. False)"
| "re_alts [r] = r"
| "re_alts (r # rs) = RAlt r (re_alts rs)"

text \<open>A case-insensitive literal, \<^verbatim>\<open>\s+\<close>, a word list between word boundaries.\<close>
definition lit :: "string \<Rightarrow> re" where
  "lit s = re_seq (map (\<lambda>x. RChar (\<lambda>c. js_lower_char c = x)) s)"

definition ws1 :: re where "ws1 = RSeq (RChar is_space) (RStar is_space)"

definition ropt :: "re \<Rightarrow> re" where "ropt r = RAlt r REps"

fun spaced :: "re list \<Rightarrow> re" where
  "spaced [] = REps"
| "spaced [r] = r"
| "spaced (r # rs) = RSeq r (RSeq ws1 (spaced rs))"

definition bounded :: "re list \<Rightarrow> re" where
  "bounded rs = RSeq RBound (RSeq (spaced rs) RBound)"

section \<open>Inputs\<close>

record message_row =
  mr_mailbox_id :: string
  mr_direction :: string
  mr_header_message_id :: string
  mr_from_addr :: string

record policy_db =
  db_available :: bool \<comment> \<open>when false every query throws\<close>
  db_suppressions :: "SuppressionRecord list"
  db_sender_blocks :: "(string \<times> string) list" \<comment> \<open>mailbox id, normalized sender\<close>
  db_principals :: "string list" \<comment> \<open>display names\<close>
  db_messages :: "message_row list"
  db_mail_domains :: "(string \<times> string option) list" \<comment> \<open>id, DKIM selector\<close>

record policy_env =
  pe_url_hostname :: "string \<Rightarrow> string option" \<comment> \<open>\<^verbatim>\<open>new URL(u).hostname\<close>\<close>
  pe_date_parse :: "string \<Rightarrow> int option"
  pe_now_ms :: int
  pe_now_iso :: string
  pe_db :: policy_db

record PolicyInput =
  pi_direction :: pdirection
  pi_stream_type :: StreamType
  pi_sender :: SenderCtx
  pi_receiver :: ReceiverCtx
  pi_message :: MessageCtx
  pi_auth :: AuthResults
  pi_env :: policy_env

datatype heuristic_result = Abstain | Fired HeuristicReason | Threw

type_synonym heuristic = "PolicyInput \<Rightarrow> heuristic_result"

definition fired :: "string \<Rightarrow> int \<Rightarrow> heuristic_result" where
  "fired c s = Fired \<lparr> hr_code = c, hr_score = s \<rparr>"

definition header :: "PolicyInput \<Rightarrow> string \<Rightarrow> string option" where
  "header i n = mc_headers (pi_message i) n"

definition truthy :: "string option \<Rightarrow> bool" where
  "truthy x = (nonempty_opt x \<noteq> None)"

definition host_of_env :: "policy_env \<Rightarrow> string \<Rightarrow> string option" where
  "host_of_env e d = pe_url_hostname e (''http://'' @ d)"

text \<open>\<^verbatim>\<open>normalizeAddress\<close> of the suppressions package, in this environment.\<close>
definition norm_addr :: "PolicyInput \<Rightarrow> string option \<Rightarrow> string option" where
  "norm_addr i x = map_option sn_normalized (normalizeAddress (host_of_env (pi_env i)) x)"

text \<open>A query against the database: throws when it is not available.\<close>
definition query :: "PolicyInput \<Rightarrow> (policy_db \<Rightarrow> heuristic_result) \<Rightarrow> heuristic_result" where
  "query i f = (if db_available (pe_db (pi_env i)) then f (pe_db (pi_env i)) else Threw)"

section \<open>Helpers\<close>

definition registrableDomain :: "string option \<Rightarrow> string option" where
  "registrableDomain host =
     (case nonempty_opt host of
        None \<Rightarrow> None
      | Some h \<Rightarrow>
          let l = js_lower h; l' = (if ends_with ''.'' l then butlast l else l); parts = js_split (CHR ''.'') l'
          in if length parts < 2 then None else Some (js_join ''.'' (drop (length parts - 2) parts)))"

record parsed_address =
  pa_address :: "string option"
  pa_local :: "string option"
  pa_domain :: "string option"
  pa_display_name :: "string option"

text \<open>The captures of \<^verbatim>\<open>/^"?([^"<]*)"?\s*<([^>]+)>$/\<close>, first match in backtracking order.\<close>
definition angled_match :: "string \<Rightarrow> (string \<times> string) option" where
  "angled_match s =
     (let q = ropt (RChar (\<lambda>c. code c = 34));
          ms = [(take (length (snd p1) - length (snd p2)) (snd p1), butlast (snd p3)).
                  p1 \<leftarrow> re_run q ([], s),
                  p2 \<leftarrow> re_run (RStar (\<lambda>c. code c \<noteq> 34 \<and> c \<noteq> CHR ''<'')) p1,
                  p3 \<leftarrow> re_run (re_seq [q, RStar is_space, RChar (\<lambda>c. c = CHR ''<'')]) p2,
                  length (snd p3) \<ge> 2 \<and> last (snd p3) = CHR ''>'' \<and> CHR ''>'' \<notin> set (butlast (snd p3))]
      in case ms of [] \<Rightarrow> None | m # _ \<Rightarrow> Some m)"

definition parseAddress :: "string option \<Rightarrow> parsed_address" where
  "parseAddress value =
     (case nonempty_opt value of
        None \<Rightarrow> \<lparr> pa_address = None, pa_local = None, pa_domain = None, pa_display_name = None \<rparr>
      | Some v \<Rightarrow>
          let trimmed = js_trim v;
              (display_name, address) =
                (case angled_match trimmed of
                   Some (g1, g2) \<Rightarrow> (nonempty_opt (Some (js_trim g1)), js_lower (js_trim g2))
                 | None \<Rightarrow> (None, js_lower trimmed))
          in (case last_index_of (CHR ''@'') address of
                None \<Rightarrow> \<lparr> pa_address = Some address, pa_local = None, pa_domain = None, pa_display_name = display_name \<rparr>
              | Some k \<Rightarrow> \<lparr> pa_address = Some address, pa_local = Some (take k address),
                           pa_domain = Some (drop (k + 1) address), pa_display_name = display_name \<rparr>))"

definition PROTECTED_BRANDS :: "(string \<times> string list) list" where
  "PROTECTED_BRANDS =
     [(''paypal'', [''paypal.com'']),
      (''microsoft'', [''microsoft.com'', ''outlook.com'', ''live.com'']),
      (''google'', [''google.com'', ''gmail.com'']),
      (''apple'', [''apple.com'', ''icloud.com'']),
      (''amazon'', [''amazon.com'']),
      (''docusign'', [''docusign.com'', ''docusign.net'']),
      (''dropbox'', [''dropbox.com'']),
      (''github'', [''github.com'']),
      (''stripe'', [''stripe.com'']),
      (''slack'', [''slack.com'', ''slack-mail.com'']),
      (''netflix'', [''netflix.com'']),
      (''meta'', [''facebook.com'', ''fb.com'', ''instagram.com'']),
      (''linkedin'', [''linkedin.com'']),
      (''chase'', [''chase.com'']),
      (''wellsfargo'', [''wellsfargo.com'']),
      (''usps'', [''usps.com'']),
      (''fedex'', [''fedex.com'']),
      (''irs'', [''irs.gov''])]"

text \<open>One cell of the rolling-buffer distance: extends the row \<open>v1\<close> and its minimum \<open>best\<close>.\<close>
definition dl_step :: "string \<Rightarrow> string \<Rightarrow> nat \<Rightarrow> nat list \<Rightarrow> nat list \<Rightarrow> nat list \<times> nat \<Rightarrow> nat \<Rightarrow> nat list \<times> nat" where
  "dl_step a b i v0 v2 acc j =
     (let cost = (if a ! i = b ! j then 0 else 1);
          x = min (fst acc ! j + 1) (min (v0 ! (j + 1) + 1) (v0 ! j + cost));
          y = (if i > 0 \<and> j > 0 \<and> a ! i = b ! (j - 1) \<and> a ! (i - 1) = b ! j
               then min x (v2 ! (j - 1) + 1) else x)
      in (fst acc @ [y], min (snd acc) y))"

text \<open>One row: \<^verbatim>\<open>v1\<close> and \<^verbatim>\<open>best\<close> after the inner loop.\<close>
definition dl_row :: "string \<Rightarrow> string \<Rightarrow> nat \<Rightarrow> nat list \<Rightarrow> nat list \<Rightarrow> nat list \<times> nat" where
  "dl_row a b i v0 v2 = foldl (dl_step a b i v0 v2) ([i + 1], i + 1) [0 ..< length b]"

text \<open>The outer loop; \<open>left\<close> rows remain. \<^const>\<open>None\<close> for \<open>max\<close> is \<^verbatim>\<open>Infinity\<close>.\<close>
fun dl_rows :: "string \<Rightarrow> string \<Rightarrow> nat option \<Rightarrow> nat \<Rightarrow> nat \<Rightarrow> nat list \<Rightarrow> nat list \<Rightarrow> nat" where
  "dl_rows a b mx i 0 v0 v2 = v0 ! length b"
| "dl_rows a b mx i (Suc left) v0 v2 =
     (let (v1, best) = dl_row a b i v0 v2 in
      case mx of
        Some m \<Rightarrow> if best > m then m + 1 else dl_rows a b mx (Suc i) left v1 v0
      | None \<Rightarrow> dl_rows a b mx (Suc i) left v1 v0)"

definition damerauLevenshtein :: "string \<Rightarrow> string \<Rightarrow> nat option \<Rightarrow> nat" where
  "damerauLevenshtein a b mx =
     (if a = b then 0
      else if (case mx of Some m \<Rightarrow> \<bar>int (length a) - int (length b)\<bar> > int m | None \<Rightarrow> False)
      then (case mx of Some m \<Rightarrow> m + 1 | None \<Rightarrow> 0)
      else if a = [] then length b
      else if b = [] then length a
      else dl_rows a b mx 0 (length a) [0 ..< length b + 1] (replicate (length b + 1) 0))"

text \<open>The Latin-1 entries of the confusables map.\<close>
definition CONFUSABLE_MAP :: "char \<Rightarrow> char option" where
  "CONFUSABLE_MAP c =
     (if c = CHR ''0'' then Some (CHR ''o'') else if c = CHR ''1'' then Some (CHR ''l'')
      else if c = CHR ''5'' then Some (CHR ''s'') else None)"

definition skeleton :: "string \<Rightarrow> string" where
  "skeleton s = map (\<lambda>c. case CONFUSABLE_MAP c of Some d \<Rightarrow> d | None \<Rightarrow> c) (js_lower s)"

text \<open>The loop leaves early on the first mix; the flags only grow, so the result is whether both end up set.\<close>
fun mixed_scan :: "string \<Rightarrow> bool \<Rightarrow> bool \<Rightarrow> bool" where
  "mixed_scan [] hasLatin hasOther = False"
| "mixed_scan (c # cs) hasLatin hasOther =
     (let cp = code c;
          l = (hasLatin \<or> (65 \<le> cp \<and> cp \<le> 90) \<or> (97 \<le> cp \<and> cp \<le> 122));
          latin = ((65 \<le> cp \<and> cp \<le> 90) \<or> (97 \<le> cp \<and> cp \<le> 122));
          o' = (hasOther \<or> (\<not> latin \<and> cp \<ge> 128))
      in if l \<and> o' then True else mixed_scan cs l o')"

definition isMixedScript :: "string \<Rightarrow> bool" where
  "isMixedScript host =
     (let stripped = filter (\<lambda>c. \<not> (is_digit c \<or> c = CHR ''.'' \<or> c = CHR ''-'' \<or> c = CHR ''_'')) host
      in if stripped = [] then False else mixed_scan stripped False False)"

definition punycodeDecode :: "policy_env \<Rightarrow> string \<Rightarrow> string" where
  "punycodeDecode e host =
     (if \<not> js_includes ''xn--'' host then host
      else case pe_url_hostname e (''http://'' @ host) of Some h \<Rightarrow> h | None \<Rightarrow> host)"

section \<open>Inbound heuristics: authentication, suppression, abuse\<close>

definition authDmarcPass :: heuristic where
  "authDmarcPass i = (if au_dmarc (pi_auth i) \<noteq> Some Dmarc_pass then Abstain else fired ''auth_dmarc_pass'' 3)"

definition authDmarcFail :: heuristic where
  "authDmarcFail i = (if au_dmarc (pi_auth i) \<noteq> Some Dmarc_fail then Abstain else fired ''auth_dmarc_fail'' (-5))"

definition authDmarcRejectPolicyFail :: heuristic where
  "authDmarcRejectPolicyFail i =
     (if au_dmarc (pi_auth i) \<noteq> Some Dmarc_fail then Abstain
      else if au_dmarc_policy (pi_auth i) \<noteq> Some P_reject then Abstain
      else fired ''auth_dmarc_reject_policy_fail'' (-8))"

definition authSpfSoftfail :: heuristic where
  "authSpfSoftfail i =
     (if au_spf (pi_auth i) \<noteq> Some Spf_softfail \<and> au_spf (pi_auth i) \<noteq> Some Spf_neutral then Abstain
      else fired ''auth_spf_softfail'' (-2))"

definition authDkimFail :: heuristic where
  "authDkimFail i =
     (if map_option fst (au_dkim (pi_auth i)) \<noteq> Some Dkim_fail then Abstain else fired ''auth_dkim_fail'' (-5))"

definition dkimAlignedAuthor :: heuristic where
  "dkimAlignedAuthor i =
     (case au_dkim (pi_auth i) of
        Some (Dkim_pass, sd) \<Rightarrow>
          (let signing = registrableDomain sd;
               author = registrableDomain (pa_domain (parseAddress (header i ''from'')))
           in if \<not> truthy signing \<or> \<not> truthy author \<or> signing \<noteq> author then Abstain
              else fired ''dkim_aligned_author'' 2)
      | _ \<Rightarrow> Abstain)"

text \<open>\<^verbatim>\<open>expires_at IS NULL OR expires_at > ?\<close> compares ISO text.\<close>
definition active_suppression :: "PolicyInput \<Rightarrow> EntityType \<Rightarrow> string \<Rightarrow> policy_db \<Rightarrow> bool" where
  "active_suppression i et addr db =
     list_ex (\<lambda>r. sr_entity_type r = et \<and> sr_address_normalized r = addr \<and>
        (case sr_expires_at r of None \<Rightarrow> True | Some e \<Rightarrow> e > pe_now_iso (pi_env i)) \<and> sr_disabled_at r = None)
      (db_suppressions db)"

definition in_suppressionRecipient :: heuristic where
  "in_suppressionRecipient i =
     (case norm_addr i (header i ''from'') of
        None \<Rightarrow> Abstain
      | Some from_addr \<Rightarrow> query i (\<lambda>db. if active_suppression i Sender from_addr db
                                    then fired ''suppression_recipient'' (-20) else Abstain))"

definition inboundSenderBlocked :: heuristic where
  "inboundSenderBlocked i =
     (case nonempty_opt (rc_mailbox_id (pi_receiver i)) of
        None \<Rightarrow> Abstain
      | Some mb \<Rightarrow>
          (case norm_addr i (header i ''from'') of
             None \<Rightarrow> Abstain
           | Some from_addr \<Rightarrow> query i (\<lambda>db. if (mb, from_addr) \<in> set (db_sender_blocks db)
                                         then fired ''inbound_sender_blocked'' (-20) else Abstain)))"

definition in_senderAbuseTier :: heuristic where
  "in_senderAbuseTier i =
     (case sc_abuse_tier (pi_sender i) of
        None \<Rightarrow> Abstain
      | Some tier \<Rightarrow> if tier \<le> 0 then Abstain else fired ''sender_abuse_tier'' (-2 * tier))"

section \<open>Inbound heuristics: content\<close>

definition OUT_PATTERNS :: "re list" where
  "OUT_PATTERNS =
     [bounded [lit ''urgent''],
      bounded [lit ''verify'', lit ''your'', lit ''account''],
      bounded [lit ''account'', lit ''suspended''],
      bounded [lit ''payroll'', lit ''update''],
      bounded [lit ''unusual'', re_seq [lit ''sign'', ropt (RChar (\<lambda>c. c = CHR ''-'' \<or> c = CHR '' '')), lit ''in'']],
      bounded [lit ''password'', re_alts [lit ''reset'', lit ''expired'']],
      bounded [lit ''action'', lit ''required''],
      bounded [lit ''click'', lit ''here'', lit ''to'', re_alts [lit ''verify'', lit ''confirm'']]]"

definition PATTERNS :: "re list" where
  "PATTERNS = OUT_PATTERNS @ [bounded [lit ''invoice'', lit ''overdue''], bounded [lit ''wire'', lit ''transfer'']]"

definition in_phishyTermsSubject :: heuristic where
  "in_phishyTermsSubject i =
     (let subject = coalesce (header i ''subject'') in
      if \<not> list_ex (\<lambda>p. re_test p subject) PATTERNS then Abstain else fired ''phishy_terms_subject'' (-3))"

definition quote_char :: "char \<Rightarrow> bool" where
  "quote_char c = (code c = 34 \<or> code c = 39)"

text \<open>One match of the anchor pattern at a position: the link target, the text, where it ends.\<close>
definition anchor_at :: "pos \<Rightarrow> (string \<times> string \<times> pos) option" where
  "anchor_at p0 =
     (let ms = [(take (length (snd p1) - length (snd p2)) (snd p1),
                 take (length (snd p3) - length (snd p4)) (snd p3), p5).
         p1 \<leftarrow> re_run (re_seq [lit ''<a'', RBound, RStar (\<lambda>c. c \<noteq> CHR ''>''), RBound, lit ''href'', RStar is_space,
                              lit ''='', RStar is_space, RChar quote_char]) p0,
         p2 \<leftarrow> re_run (RSeq (RChar (\<lambda>c. \<not> quote_char c)) (RStar (\<lambda>c. \<not> quote_char c))) p1,
         p3 \<leftarrow> re_run (re_seq [RChar quote_char, RStar (\<lambda>c. c \<noteq> CHR ''>''), lit ''>'']) p2,
         p4 \<leftarrow> re_run (RLazy (\<lambda>_. True)) p3,
         p5 \<leftarrow> re_run (lit ''</a>'') p4]
      in case ms of [] \<Rightarrow> None | m # _ \<Rightarrow> Some m)"

text \<open>\<^verbatim>\<open>matchAll\<close>: every round consumes a character, so the length of the text is enough fuel.\<close>
fun anchors :: "nat \<Rightarrow> pos \<Rightarrow> (string \<times> string) list" where
  "anchors 0 p = []"
| "anchors (Suc n) p =
     (case anchor_at p of
        Some (href, txt, p') \<Rightarrow> (href, txt) # anchors n p'
      | None \<Rightarrow> (case snd p of [] \<Rightarrow> [] | c # cs \<Rightarrow> anchors n (c # fst p, cs)))"

text \<open>\<^verbatim>\<open>/https?:\/\/([^\s<"']+)/i\<close>, the capture of the leftmost match.\<close>
definition url_in_text :: "string \<Rightarrow> string option" where
  "url_in_text s =
     (let ms = [takeWhile (\<lambda>c. \<not> (is_space c \<or> c = CHR ''<'' \<or> quote_char c)) (snd p1).
         p0 \<leftarrow> positions [] s,
         p1 \<leftarrow> re_run (re_seq [lit ''http'', ropt (lit ''s''), lit ''://'']) p0,
         re_run (RChar (\<lambda>c. \<not> (is_space c \<or> c = CHR ''<'' \<or> quote_char c))) p1 \<noteq> []]
      in case ms of [] \<Rightarrow> None | m # _ \<Rightarrow> Some m)"

definition hostOf :: "policy_env \<Rightarrow> string \<Rightarrow> string option" where
  "hostOf e url = nonempty_opt (map_option js_lower (pe_url_hostname e url))"

definition anchor_mismatch :: "policy_env \<Rightarrow> string \<times> string \<Rightarrow> bool" where
  "anchor_mismatch e m =
     (case hostOf e (fst m) of
        None \<Rightarrow> False
      | Some hrefHost \<Rightarrow>
          (case url_in_text (js_trim (snd m)) of
             None \<Rightarrow> False
           | Some u \<Rightarrow>
               (case hostOf e (''http://'' @ u) of
                  None \<Rightarrow> False
                | Some textHost \<Rightarrow>
                    (case (registrableDomain (Some hrefHost), registrableDomain (Some textHost)) of
                       (Some a, Some b) \<Rightarrow> a \<noteq> [] \<and> b \<noteq> [] \<and> a \<noteq> b
                     | _ \<Rightarrow> False))))"

definition url_anchor_mismatch :: "int \<Rightarrow> heuristic" where
  "url_anchor_mismatch score i =
     (let body = mc_body_preview (pi_message i) in
      if body = [] \<or> \<not> js_includes ''<a'' body then Abstain
      else if \<not> list_ex (anchor_mismatch (pi_env i)) (anchors (length body + 1) ([], body)) then Abstain
      else fired ''url_anchor_mismatch'' score)"

definition in_urlAnchorMismatch :: heuristic where
  "in_urlAnchorMismatch = url_anchor_mismatch (-5)"

text \<open>The loop over the brands: the first brand named in the display name decides.\<close>
definition spoof_brand :: "int \<Rightarrow> heuristic" where
  "spoof_brand score i =
     (let from = parseAddress (header i ''from'') in
      case (nonempty_opt (pa_display_name from), nonempty_opt (pa_domain from)) of
        (Some dn, Some dm) \<Rightarrow>
          (case registrableDomain (Some dm) of
             None \<Rightarrow> Abstain
           | Some fromDomain \<Rightarrow>
               if fromDomain = [] then Abstain
               else (case find (\<lambda>(brand, ds). js_includes brand (js_lower dn)) PROTECTED_BRANDS of
                  None \<Rightarrow> Abstain
                | Some (brand, domains) \<Rightarrow>
                    if fromDomain \<in> set domains then Abstain else fired ''display_name_spoof_brand'' score))
      | _ \<Rightarrow> Abstain)"

definition in_displayNameSpoofBrand :: heuristic where
  "in_displayNameSpoofBrand = spoof_brand (-5)"

text \<open>SQLite's \<^verbatim>\<open>LOWER\<close> folds ASCII letters only.\<close>
definition sql_lower :: "string \<Rightarrow> string" where
  "sql_lower s = map (\<lambda>c. if is_upper c then char_of (code c + 32) else c) s"

definition displayNameSpoofInternal :: heuristic where
  "displayNameSpoofInternal i =
     (let from = parseAddress (header i ''from'') in
      case (nonempty_opt (pa_display_name from), nonempty_opt (pa_domain from)) of
        (Some dn, Some dm) \<Rightarrow>
          if truthy (sc_domain_id (pi_sender i)) then Abstain
          else let display = js_trim dn in
            if length display < 3 then Abstain
            else query i (\<lambda>db. if list_ex (\<lambda>n. sql_lower n = sql_lower display) (db_principals db)
                               then fired ''display_name_spoof_internal'' (-7) else Abstain)
      | _ \<Rightarrow> Abstain)"

definition idnMixedScriptFrom :: heuristic where
  "idnMixedScriptFrom i =
     (case nonempty_opt (pa_domain (parseAddress (header i ''from''))) of
        None \<Rightarrow> Abstain
      | Some d \<Rightarrow> if \<not> isMixedScript (punycodeDecode (pi_env i) d) then Abstain
                 else fired ''idn_mixed_script_from'' (-5))"

text \<open>Both brand loops run over all brand domains in table order and stop at the first decision.\<close>
fun skeleton_scan :: "string \<Rightarrow> string list \<Rightarrow> heuristic_result" where
  "skeleton_scan fromReg [] = Abstain"
| "skeleton_scan fromReg (legit # ls) =
     (if fromReg = legit then Abstain
      else if skeleton legit = skeleton fromReg \<and> legit \<noteq> fromReg
      then fired ''idn_skeleton_brand_collision'' (-7)
      else skeleton_scan fromReg ls)"

definition brand_domains :: "string list" where
  "brand_domains = concat (map snd PROTECTED_BRANDS)"

definition from_registrable :: "PolicyInput \<Rightarrow> string option" where
  "from_registrable i =
     (case nonempty_opt (pa_domain (parseAddress (header i ''from''))) of
        None \<Rightarrow> None
      | Some d \<Rightarrow> nonempty_opt (registrableDomain (Some (punycodeDecode (pi_env i) d))))"

definition idnSkeletonBrandCollision :: heuristic where
  "idnSkeletonBrandCollision i =
     (case from_registrable i of None \<Rightarrow> Abstain | Some fromReg \<Rightarrow> skeleton_scan fromReg brand_domains)"

fun typosquat_scan :: "string \<Rightarrow> string list \<Rightarrow> heuristic_result" where
  "typosquat_scan fromReg [] = Abstain"
| "typosquat_scan fromReg (legit # ls) =
     (if fromReg = legit then Abstain
      else let distance = damerauLevenshtein fromReg legit (Some 2) in
        if distance > 0 \<and> distance \<le> 2 then fired ''typosquat_levenshtein_2_brand'' (-5)
        else typosquat_scan fromReg ls)"

definition typosquatLevenshtein2Brand :: heuristic where
  "typosquatLevenshtein2Brand i =
     (case from_registrable i of None \<Rightarrow> Abstain | Some fromReg \<Rightarrow> typosquat_scan fromReg brand_domains)"

definition replyToDomainMismatch :: heuristic where
  "replyToDomainMismatch i =
     (case nonempty_opt (header i ''reply-to'') of
        None \<Rightarrow> Abstain
      | Some rt \<Rightarrow>
          let fromReg = registrableDomain (pa_domain (parseAddress (header i ''from'')));
              replyReg = registrableDomain (pa_domain (parseAddress (Some rt)))
          in if \<not> truthy fromReg \<or> \<not> truthy replyReg \<or> fromReg = replyReg then Abstain
             else fired ''reply_to_domain_mismatch'' (-4))"

definition MONEY_LEXICON :: "re list" where
  "MONEY_LEXICON =
     [bounded [lit ''wire'', lit ''transfer''],
      bounded [lit ''gift'', RSeq (lit ''card'') (ropt (lit ''s''))],
      bounded [RSeq (lit ''crypto'') (ropt (lit ''currency''))],
      bounded [lit ''bitcoin''],
      bounded [lit ''invoice''],
      bounded [lit ''payment'', re_alts [lit ''due'', lit ''info'', lit ''details'']],
      bounded [lit ''quick'', lit ''favor''],
      bounded [lit ''are'', lit ''you'', re_alts [lit ''at'', lit ''in''], re_alts [lit ''your'', lit ''the''],
               re_alts [lit ''desk'', lit ''office'']],
      bounded [lit ''overdue''],
      bounded [RSeq (lit ''remit'') (ropt (lit ''tance''))]]"

definition firstContactFinancialIntent :: heuristic where
  "firstContactFinancialIntent i =
     (case nonempty_opt (rc_mailbox_id (pi_receiver i)) of
        None \<Rightarrow> Abstain
      | Some mb \<Rightarrow>
          (case norm_addr i (header i ''from'') of
             None \<Rightarrow> Abstain
           | Some from_addr \<Rightarrow>
               let txt = coalesce (header i ''subject'') @ [CHR 0x0A] @ mc_body_preview (pi_message i) in
               if \<not> list_ex (\<lambda>p. re_test p txt) MONEY_LEXICON then Abstain
               else query i (\<lambda>db.
                 if list_ex (\<lambda>m. mr_mailbox_id m = mb \<and> mr_direction m = ''in'' \<and>
                      mr_header_message_id m \<noteq> [] \<and> mr_from_addr m = from_addr) (db_messages db)
                 then Abstain else fired ''first_contact_financial_intent'' (-3))))"

definition forgedRecipients :: heuristic where
  "forgedRecipients i =
     (let envelope = js_lower (rc_address (pi_receiver i)) in
      if envelope = [] then Abstain
      else let vs = List.map_filter nonempty_opt [header i ''to'', header i ''cc''];
               claimed = List.map_filter (\<lambda>v. nonempty_opt (pa_address (parseAddress (Some v))))
                           (concat (map (js_split (CHR '','')) vs))
           in if claimed = [] then Abstain
              else if envelope \<in> set claimed then Abstain
              else fired ''forged_recipients'' (-3))"

definition EXEC_EXTENSIONS :: "string list" where
  "EXEC_EXTENSIONS = [''.exe'', ''.scr'', ''.vbs'', ''.js'', ''.iso'', ''.lnk'', ''.bat'', ''.cmd'', ''.ps1'', ''.jar'',
     ''.msi'', ''.dll'', ''.com'', ''.pif'', ''.application'']"

definition EXEC_MIME_TYPES :: "string list" where
  "EXEC_MIME_TYPES = [''application/x-msdownload'', ''application/x-msdos-program'', ''application/x-msi'',
     ''application/x-iso9660-image'']"

definition attachment_executable :: "int \<Rightarrow> heuristic" where
  "attachment_executable score i =
     (let filenameHit = find (\<lambda>f. list_ex (\<lambda>ext. ends_with ext (js_lower f)) EXEC_EXTENSIONS)
                          (mc_attachment_filenames (pi_message i));
          mimeHit = find (\<lambda>t. js_lower t \<in> set EXEC_MIME_TYPES) (mc_content_types (pi_message i))
      in if \<not> truthy filenameHit \<and> \<not> truthy mimeHit then Abstain else fired ''attachment_executable'' score)"

definition in_attachmentExecutable :: heuristic where
  "in_attachmentExecutable = attachment_executable (-10)"

text \<open>\<^verbatim>\<open>/\.(pdf|doc|...|html?)\.(exe|...|pif)$/i\<close>\<close>
definition SUSPICIOUS_DOUBLE :: "string \<Rightarrow> bool" where
  "SUSPICIOUS_DOUBLE f =
     list_ex (\<lambda>a. list_ex (\<lambda>b. ends_with (''.'' @ a @ ''.'' @ b) (js_lower f))
        [''exe'', ''scr'', ''vbs'', ''js'', ''bat'', ''cmd'', ''com'', ''pif''])
      [''pdf'', ''doc'', ''docx'', ''xls'', ''xlsx'', ''jpg'', ''png'', ''htm'', ''html'']"

definition attachment_double_extension :: "int \<Rightarrow> heuristic" where
  "attachment_double_extension score i =
     (if \<not> list_ex SUSPICIOUS_DOUBLE (mc_attachment_filenames (pi_message i)) then Abstain
      else fired ''attachment_double_extension'' score)"

definition in_attachmentDoubleExtension :: heuristic where
  "in_attachmentDoubleExtension = attachment_double_extension (-7)"

definition MACRO_EXTENSIONS :: "string list" where
  "MACRO_EXTENSIONS = [''.docm'', ''.xlsm'', ''.pptm'', ''.dotm'', ''.xltm'']"

definition attachment_macro_office :: "int \<Rightarrow> heuristic" where
  "attachment_macro_office score i =
     (if \<not> list_ex (\<lambda>f. list_ex (\<lambda>ext. ends_with ext (js_lower f)) MACRO_EXTENSIONS)
            (mc_attachment_filenames (pi_message i)) then Abstain
      else fired ''attachment_macro_office'' score)"

definition in_attachmentMacroOffice :: heuristic where
  "in_attachmentMacroOffice = attachment_macro_office (-5)"

definition mimeHtmlOnlyNoText :: heuristic where
  "mimeHtmlOnlyNoText i = (if \<not> mc_html_only (pi_message i) then Abstain else fired ''mime_html_only_no_text'' (-1))"

text \<open>\<^verbatim>\<open>/^received:/gim\<close>: line starts follow CR or LF.\<close>
definition received_count :: "string \<Rightarrow> nat" where
  "received_count s =
     length (filter (\<lambda>p. (case fst p of [] \<Rightarrow> True | c # _ \<Rightarrow> code c = 10 \<or> code c = 13) \<and>
        re_run (lit ''received:'') p \<noteq> []) (positions [] s))"

definition headerReceivedCount :: heuristic where
  "headerReceivedCount i =
     (if received_count (mc_raw_headers (pi_message i)) \<le> 12 then Abstain else fired ''header_received_count'' (-2))"

text \<open>\<^verbatim>\<open>/^<([^@>]+)@([^>]+)>$/\<close>: the right-hand side of the message id.\<close>
definition MID_RE :: "string \<Rightarrow> string option" where
  "MID_RE s =
     (case s of
        c # rest \<Rightarrow>
          if c \<noteq> CHR ''<'' \<or> rest = [] \<or> last rest \<noteq> CHR ''>'' then None
          else let body = butlast rest in
            if CHR ''>'' \<in> set body then None
            else (case index_of (CHR ''@'') body of
                    None \<Rightarrow> None
                  | Some k \<Rightarrow> if k = 0 \<or> k = length body - 1 then None else Some (drop (k + 1) body))
      | [] \<Rightarrow> None)"

definition headerMessageIdSane :: heuristic where
  "headerMessageIdSane i =
     (case nonempty_opt (header i ''message-id'') of
        None \<Rightarrow> Abstain
      | Some mid \<Rightarrow>
          (case MID_RE (js_trim mid) of
             None \<Rightarrow> Abstain
           | Some rhs \<Rightarrow>
               let fromDomain = registrableDomain (pa_domain (parseAddress (header i ''from'')));
                   ridReg = registrableDomain (Some (js_lower rhs))
               in if \<not> truthy fromDomain \<or> \<not> truthy ridReg \<or> fromDomain \<noteq> ridReg then Abstain
                  else fired ''header_message_id_sane'' 1))"

definition headerMessageIdMissing :: heuristic where
  "headerMessageIdMissing i =
     (if truthy (header i ''message-id'') then Abstain else fired ''header_message_id_missing'' (-2))"

definition FUTURE_WINDOW_MS :: int where "FUTURE_WINDOW_MS = 24 * 60 * 60 * 1000"

definition headerInvalidDate :: heuristic where
  "headerInvalidDate i =
     (case nonempty_opt (header i ''date'') of
        None \<Rightarrow> Abstain
      | Some d \<Rightarrow>
          (case pe_date_parse (pi_env i) d of
             None \<Rightarrow> fired ''header_invalid_date'' (-2)
           | Some t \<Rightarrow> if t - pe_now_ms (pi_env i) > FUTURE_WINDOW_MS then fired ''header_invalid_date'' (-2)
                      else Abstain))"

definition listIdPresent :: heuristic where
  "listIdPresent i = (if \<not> truthy (header i ''list-id'') then Abstain else fired ''list_id_present'' 2)"

definition listUnsubPresent :: heuristic where
  "listUnsubPresent i = (if \<not> truthy (header i ''list-unsubscribe'') then Abstain else fired ''list_unsub_present'' 2)"

section \<open>Outbound heuristics\<close>

definition out_suppressionRecipient :: heuristic where
  "out_suppressionRecipient i =
     (case norm_addr i (Some (rc_address (pi_receiver i))) of
        None \<Rightarrow> Abstain
      | Some t \<Rightarrow> query i (\<lambda>db. if active_suppression i Recipient t db
                                    then fired ''suppression_recipient'' (-20) else Abstain))"

definition suppressionSender :: heuristic where
  "suppressionSender i =
     (case norm_addr i (Some (sc_address (pi_sender i))) of
        None \<Rightarrow> Abstain
      | Some f \<Rightarrow> query i (\<lambda>db. if active_suppression i Sender f db
                                    then fired ''suppression_sender'' (-20) else Abstain))"

definition out_senderAbuseTier :: heuristic where
  "out_senderAbuseTier i =
     (case sc_abuse_tier (pi_sender i) of
        None \<Rightarrow> Abstain
      | Some tier \<Rightarrow> if tier \<le> 0 then Abstain else fired ''sender_abuse_tier'' (-3 * tier))"

definition streamMarketingNoUnsub :: heuristic where
  "streamMarketingNoUnsub i =
     (if pi_stream_type i \<noteq> Marketing then Abstain
      else if truthy (header i ''list-unsubscribe'') then Abstain
      else fired ''stream_marketing_no_unsub'' (-15))"

definition out_phishyTermsSubject :: heuristic where
  "out_phishyTermsSubject i =
     (let subject = coalesce (header i ''subject'') in
      if \<not> list_ex (\<lambda>p. re_test p subject) OUT_PATTERNS then Abstain else fired ''phishy_terms_subject'' (-5))"

definition out_displayNameSpoofBrand :: heuristic where
  "out_displayNameSpoofBrand = spoof_brand (-10)"

definition out_urlAnchorMismatch :: heuristic where
  "out_urlAnchorMismatch = url_anchor_mismatch (-7)"

definition ROLE_LOCAL_PARTS :: "string list" where
  "ROLE_LOCAL_PARTS = [''postmaster'', ''abuse'', ''security'', ''noreply'', ''no-reply'', ''donotreply'',
     ''do-not-reply'', ''mailer-daemon'', ''admin'', ''root'', ''hostmaster'']"

definition recipientRoleAccount :: heuristic where
  "recipientRoleAccount i =
     (case nonempty_opt (pa_local (parseAddress (Some (rc_address (pi_receiver i))))) of
        None \<Rightarrow> Abstain
      | Some l \<Rightarrow> if l \<notin> set ROLE_LOCAL_PARTS then Abstain else fired ''recipient_role_account'' (-3))"

definition out_attachmentExecutable :: heuristic where
  "out_attachmentExecutable = attachment_executable (-20)"

definition out_attachmentDoubleExtension :: heuristic where
  "out_attachmentDoubleExtension = attachment_double_extension (-15)"

definition out_attachmentMacroOffice :: heuristic where
  "out_attachmentMacroOffice = attachment_macro_office (-4)"

definition dmarcAlignmentOk :: heuristic where
  "dmarcAlignmentOk i =
     (if sc_dmarc_promotion_state (pi_sender i) \<notin> {Some Ps_quarantine, Some Ps_reject, Some Ps_reject_ready} then Abstain
      else fired ''dmarc_alignment_ok'' 3)"

definition dkimSignedPolaris :: heuristic where
  "dkimSignedPolaris i =
     (case nonempty_opt (sc_domain_id (pi_sender i)) of
        None \<Rightarrow> Abstain
      | Some d \<Rightarrow> query i (\<lambda>db.
          case map_of (db_mail_domains db) d of
            Some (Some sel) \<Rightarrow> if sel \<noteq> [] \<and> starts_with ''polaris'' sel then fired ''dkim_signed_polaris'' 2 else Abstain
          | _ \<Rightarrow> Abstain))"

definition agentSelfReplyChain :: heuristic where
  "agentSelfReplyChain i =
     (if pi_stream_type i \<noteq> Agent then Abstain
      else case nonempty_opt (mc_in_reply_to (pi_message i)) of
        None \<Rightarrow> Abstain
      | Some irt \<Rightarrow> query i (\<lambda>db.
          case find (\<lambda>m. mr_header_message_id m = irt) (db_messages db) of
            None \<Rightarrow> Abstain
          | Some parent \<Rightarrow>
              if mr_direction parent \<noteq> ''in'' then Abstain
              else (case nonempty_opt (sc_mailbox_id (pi_sender i)) of
                      Some mb \<Rightarrow> if mr_mailbox_id parent \<noteq> mb then Abstain else fired ''agent_self_reply_chain'' 3
                    | None \<Rightarrow> fired ''agent_self_reply_chain'' 3)))"

section \<open>Registry\<close>

definition INBOUND_HEURISTICS :: "heuristic list" where
  "INBOUND_HEURISTICS =
     [authDmarcPass, authDmarcFail, authDmarcRejectPolicyFail, authSpfSoftfail, authDkimFail, dkimAlignedAuthor,
      in_suppressionRecipient, inboundSenderBlocked, in_senderAbuseTier, in_phishyTermsSubject,
      in_urlAnchorMismatch, in_displayNameSpoofBrand, displayNameSpoofInternal, idnMixedScriptFrom,
      idnSkeletonBrandCollision, typosquatLevenshtein2Brand, replyToDomainMismatch,
      firstContactFinancialIntent, forgedRecipients, in_attachmentExecutable, in_attachmentDoubleExtension,
      in_attachmentMacroOffice, mimeHtmlOnlyNoText, headerReceivedCount, headerMessageIdSane,
      headerMessageIdMissing, headerInvalidDate, listIdPresent, listUnsubPresent]"

definition OUTBOUND_HEURISTICS :: "heuristic list" where
  "OUTBOUND_HEURISTICS =
     [out_suppressionRecipient, suppressionSender, out_senderAbuseTier, streamMarketingNoUnsub,
      out_phishyTermsSubject, out_displayNameSpoofBrand, out_urlAnchorMismatch, recipientRoleAccount,
      out_attachmentExecutable, out_attachmentDoubleExtension, out_attachmentMacroOffice, dmarcAlignmentOk,
      dkimSignedPolaris, agentSelfReplyChain]"

section \<open>The edit distance\<close>

text \<open>Reference: optimal-string-alignment distance of the prefixes of length \<open>i\<close> and \<open>j\<close>.\<close>
fun osa :: "string \<Rightarrow> string \<Rightarrow> nat \<Rightarrow> nat \<Rightarrow> nat" where
  "osa a b 0 j = j"
| "osa a b (Suc i) 0 = Suc i"
| "osa a b (Suc i) (Suc j) =
     (let x = min (osa a b (Suc i) j + 1) (min (osa a b i (Suc j) + 1)
                (osa a b i j + (if a ! i = b ! j then 0 else 1)))
      in if i > 0 \<and> j > 0 \<and> a ! i = b ! (j - 1) \<and> a ! (i - 1) = b ! j
         then min x (osa a b (i - 1) (j - 1) + 1) else x)"

definition osa_row :: "string \<Rightarrow> string \<Rightarrow> nat \<Rightarrow> nat list" where
  "osa_row a b i = map (osa a b i) [0 ..< length b + 1]"

lemma osa_row_nth [simp]: "j \<le> length b \<Longrightarrow> osa_row a b i ! j = osa a b i j"
  by (simp add: osa_row_def del: upt_Suc)

lemma osa_diag_le: "osa a b (Suc i) (Suc j) \<le> osa a b i j + 1"
proof -
  have "min x (min y (osa a b i j + c)) \<le> osa a b i j + 1" if "c \<le> 1" for x y c
    using that by linarith
  then show ?thesis unfolding osa.simps Let_def by (simp add: min.coboundedI1)
qed

lemma dl_step_osa:
  assumes "v0 = osa_row a b i" "i > 0 \<Longrightarrow> v2 = osa_row a b (i - 1)" "n < length b"
    and "fst acc = map (osa a b (Suc i)) [0 ..< n + 1]"
  shows "dl_step a b i v0 v2 acc n = (fst acc @ [osa a b (Suc i) (Suc n)], min (snd acc) (osa a b (Suc i) (Suc n)))"
proof -
  have v1: "fst acc ! n = osa a b (Suc i) n" unfolding assms(4) by (simp del: upt_Suc osa.simps)
  have v0: "v0 ! (n + 1) = osa a b i (Suc n)" "v0 ! n = osa a b i n"
    using assms(1,3) by simp_all
  have v2: "v2 ! (n - 1) = osa a b (i - 1) (n - 1)" if "i > 0"
    using assms(2) [OF that] assms(3) by simp
  show ?thesis unfolding dl_step_def v1 v0 osa.simps(3) using v2 by (simp add: Let_def del: osa.simps)
qed

lemma dl_row_prefix:
  assumes "v0 = osa_row a b i" "i > 0 \<Longrightarrow> v2 = osa_row a b (i - 1)" "n \<le> length b"
  shows "foldl (dl_step a b i v0 v2) ([i + 1], i + 1) [0 ..< n] =
     (map (osa a b (Suc i)) [0 ..< n + 1], Min (osa a b (Suc i) ` {0 .. n}))"
  using assms(3)
proof (induction n)
  case (Suc n)
  have "foldl (dl_step a b i v0 v2) ([i + 1], i + 1) [0 ..< Suc n] =
      dl_step a b i v0 v2 (map (osa a b (Suc i)) [0 ..< n + 1], Min (osa a b (Suc i) ` {0 .. n})) n"
    using Suc by simp
  also have "\<dots> = (map (osa a b (Suc i)) [0 ..< n + 1] @ [osa a b (Suc i) (Suc n)],
      min (Min (osa a b (Suc i) ` {0 .. n})) (osa a b (Suc i) (Suc n)))"
    using dl_step_osa [OF assms(1,2), of n] Suc.prems by (simp del: osa.simps upt_Suc)
  also have "min (Min (osa a b (Suc i) ` {0 .. n})) (osa a b (Suc i) (Suc n)) = Min (osa a b (Suc i) ` {0 .. Suc n})"
    by (simp add: atLeast0_atMost_Suc min.commute del: osa.simps)
  finally show ?case by simp
qed simp

lemma dl_row_eq:
  assumes "v0 = osa_row a b i" "i > 0 \<Longrightarrow> v2 = osa_row a b (i - 1)"
  shows "dl_row a b i v0 v2 = (osa_row a b (Suc i), Min (osa a b (Suc i) ` {0 .. length b}))"
  unfolding dl_row_def osa_row_def [of a b "Suc i"]
  using dl_row_prefix [OF assms, of "length b"] by simp

lemma osa_row_stays_above:
  assumes "\<forall>j \<le> length b. m < osa a b k j"
  shows "j \<le> length b \<Longrightarrow> m < osa a b (Suc k) j"
proof (induction j)
  case 0
  have "m < osa a b k 0" using assms by blast
  then show ?case by (cases k) auto
next
  case (Suc j)
  have d: "m < osa a b k j" "m < osa a b k (Suc j)" "m < osa a b (Suc k) j"
    using assms Suc by auto
  have "m < osa a b (k - 1) (j - 1) + 1" if "k > 0" "j > 0"
    using d(1) that osa_diag_le [of a b "k - 1" "j - 1"] by simp
  then show ?case using d by (simp add: Let_def)
qed

lemma osa_rows_stay_above:
  assumes "\<forall>j \<le> length b. m < osa a b k j" "k \<le> k'" "j \<le> length b"
  shows "m < osa a b k' j"
proof -
  have "\<forall>j \<le> length b. m < osa a b (k + d) j" for d
    by (induction d) (use assms(1) osa_row_stays_above in auto)
  then show ?thesis using assms(2,3) by (metis le_add_diff_inverse)
qed

lemma dl_rows_result:
  assumes "v0 = osa_row a b i" "i > 0 \<Longrightarrow> v2 = osa_row a b (i - 1)"
  shows "dl_rows a b mx i k v0 v2 = osa a b (i + k) (length b) \<or>
     (\<exists>m. mx = Some m \<and> dl_rows a b mx i k v0 v2 = m + 1 \<and> m < osa a b (i + k) (length b))"
  using assms
proof (induction k arbitrary: i v0 v2)
  case (Suc k)
  let ?best = "Min (osa a b (Suc i) ` {0 .. length b})"
  have row: "dl_row a b i v0 v2 = (osa_row a b (Suc i), ?best)" using Suc.prems by (rule dl_row_eq)
  note IH = Suc.IH [of "osa_row a b (Suc i)" "Suc i" v0]
  show ?case
  proof (cases "\<exists>m. mx = Some m \<and> ?best > m")
    case True
    then obtain m where m: "mx = Some m" "?best > m" by blast
    then have "\<forall>j \<le> length b. m < osa a b (Suc i) j" by (simp del: osa.simps)
    then have "m < osa a b (i + Suc k) (length b)" by (rule osa_rows_stay_above) simp_all
    then show ?thesis using m row by simp
  next
    case False
    then have "dl_rows a b mx i (Suc k) v0 v2 = dl_rows a b mx (Suc i) k (osa_row a b (Suc i)) v0"
      using row by (auto split: option.splits)
    then show ?thesis using IH Suc.prems(1) by simp
  qed
qed simp

lemma osa_choice:
  "osa a b (Suc i) (Suc j) = osa a b (Suc i) j + 1 \<or> osa a b (Suc i) (Suc j) = osa a b i (Suc j) + 1 \<or>
   osa a b (Suc i) (Suc j) = osa a b i j + (if a ! i = b ! j then 0 else 1) \<or>
   (i > 0 \<and> j > 0 \<and> a ! i = b ! (j - 1) \<and> a ! (i - 1) = b ! j) \<and>
     osa a b (Suc i) (Suc j) = osa a b (i - 1) (j - 1) + 1"
proof -
  have ch: "r = (if c then min (min x (min y z)) t else min x (min y z)) \<Longrightarrow>
      r = x \<or> r = y \<or> r = z \<or> c \<and> r = t" for r x y z t :: nat and c
    by (auto simp: min_def split: if_splits)
  show ?thesis
    using ch [OF osa.simps(3) [of a b i j, unfolded Let_def]] by blast
qed

lemma osa_ge_diff: "j \<le> osa a b i j + i \<and> i \<le> osa a b i j + j"
proof (induction "i + j" arbitrary: i j rule: less_induct)
  case less
  show ?case
  proof (cases "i = 0 \<or> j = 0")
    case True
    then show ?thesis by (cases i) auto
  next
    case False
    then obtain k l where kl: "i = Suc k" "j = Suc l" by (metis not0_implies_Suc)
    have "l \<le> osa a b i l + i \<and> i \<le> osa a b i l + l" "j \<le> osa a b k j + k \<and> k \<le> osa a b k j + j"
      "l \<le> osa a b k l + k \<and> k \<le> osa a b k l + l"
      "k > 0 \<Longrightarrow> l > 0 \<Longrightarrow> l - 1 \<le> osa a b (k - 1) (l - 1) + (k - 1) \<and> k - 1 \<le> osa a b (k - 1) (l - 1) + (l - 1)"
      using less [of i l] less [of k j] less [of k l] less [of "k - 1" "l - 1"] kl by auto
    moreover have "osa a b i j = osa a b i l + 1 \<or> osa a b i j = osa a b k j + 1 \<or> osa a b i j = osa a b k l \<or>
        osa a b i j = osa a b k l + 1 \<or> k > 0 \<and> l > 0 \<and> osa a b i j = osa a b (k - 1) (l - 1) + 1"
      using osa_choice [of a b k l] unfolding kl by (cases "a ! k = b ! l") (auto simp del: osa.simps)
    ultimately show ?thesis unfolding kl by (elim disjE) linarith+
  qed
qed

lemma osa_same: "i \<le> length a \<Longrightarrow> osa a a i i = 0"
  by (induction i) (auto simp: Let_def)

lemma damerauLevenshtein_cases:
  "damerauLevenshtein a b mx = osa a b (length a) (length b) \<or>
   (\<exists>m. mx = Some m \<and> damerauLevenshtein a b mx = m + 1 \<and> m < osa a b (length a) (length b))"
proof -
  consider "a = b" | m where "a \<noteq> b" "mx = Some m" "\<bar>int (length a) - int (length b)\<bar> > int m"
    | "a \<noteq> b" "\<not> (case mx of Some m \<Rightarrow> \<bar>int (length a) - int (length b)\<bar> > int m | None \<Rightarrow> False)"
    by (cases mx) auto
  then show ?thesis
  proof cases
    case 1 then show ?thesis by (simp add: damerauLevenshtein_def osa_same)
  next
    case 2
    then have "m < osa a b (length a) (length b)" using osa_ge_diff [of "length b" a b "length a"] by linarith
    then show ?thesis using 2 by (simp add: damerauLevenshtein_def)
  next
    case 3
    have dl: "damerauLevenshtein a b mx =
        (if a = [] then length b else if b = [] then length a
         else dl_rows a b mx 0 (length a) [0 ..< length b + 1] (replicate (length b + 1) 0))"
      using 3 by (simp add: damerauLevenshtein_def del: upt_Suc)
    have z: "[0 ..< length b + 1] = osa_row a b 0" by (simp add: osa_row_def map_idI del: upt_Suc)
    show ?thesis
    proof (cases "a = [] \<or> b = []")
      case True
      then show ?thesis unfolding dl by (cases a) auto
    next
      case False
      then show ?thesis using dl_rows_result [of "osa_row a b 0" a b 0 _ mx "length a"] unfolding dl z by simp
    qed
  qed
qed

section \<open>Properties\<close>

text \<open>C35. The rolling-row distance with early exit agrees with the optimal-string-alignment distance:
  without a limit it is that distance; with a limit \<open>m\<close> it is at most \<open>m\<close> exactly when the distance
  is, and then it is the distance.\<close>
theorem damerauLevenshtein_correct:
  "damerauLevenshtein a b None = osa a b (length a) (length b) \<and>
   (damerauLevenshtein a b (Some m) \<le> m \<longleftrightarrow> osa a b (length a) (length b) \<le> m) \<and>
   (osa a b (length a) (length b) \<le> m \<longrightarrow> damerauLevenshtein a b (Some m) = osa a b (length a) (length b))"
  using damerauLevenshtein_cases [of a b None] damerauLevenshtein_cases [of a b "Some m"] by auto

lemma damerauLevenshtein_correct_witness:
  "osa ''ab'' ''ba'' 2 2 \<le> 1 \<and> damerauLevenshtein ''ab'' ''ba'' (Some 1) = osa ''ab'' ''ba'' 2 2"
proof -
  have "damerauLevenshtein ''ab'' ''ba'' (Some 1) \<le> 1" by code_simp
  moreover have "length ''ab'' = 2" "length ''ba'' = 2" by simp_all
  ultimately show ?thesis using damerauLevenshtein_correct [of "''ab''" "''ba''" 1] by metis
qed

definition demo_env :: policy_env where
  "demo_env = \<lparr> pe_url_hostname = (\<lambda>u. if CHR ''>'' \<in> set u then None else Some (drop 7 u)),
     pe_date_parse = (\<lambda>_. None), pe_now_ms = 0, pe_now_iso = ''2026'',
     pe_db = \<lparr> db_available = True, db_suppressions = [], db_sender_blocks = [(''m1'', ''eve@evil.com'')],
               db_principals = [], db_messages = [], db_mail_domains = [] \<rparr> \<rparr>"

definition demo_input :: "string \<Rightarrow> PolicyInput" where
  "demo_input from = \<lparr> pi_direction = Inbound, pi_stream_type = Stream_inbound,
     pi_sender = \<lparr> sc_mailbox_id = None, sc_domain_id = None, sc_address = [], sc_abuse_tier = None,
                   sc_dmarc_promotion_state = None \<rparr>,
     pi_receiver = \<lparr> rc_address = ''bob@x.org'', rc_mailbox_id = Some ''m1'', rc_domain_id = None \<rparr>,
     pi_message = \<lparr> mc_raw_headers = [], mc_headers = [''from'' \<mapsto> from, ''message-id'' \<mapsto> ''<1@y>''],
        mc_body_preview = ''hello'', mc_content_types = [], mc_attachment_filenames = [], mc_in_reply_to = None,
        mc_html_only = False \<rparr>,
     pi_auth = \<lparr> au_spf = None, au_dkim = None, au_dmarc = None, au_dmarc_policy = None \<rparr>,
     pi_env = demo_env \<rparr>"

lemma norm_addr_display_name:
  assumes "\<forall>u. CHR ''>'' \<in> set u \<longrightarrow> pe_url_hostname (pi_env i) u = None"
    and "js_trim v \<noteq> []" "\<not> starts_with ''<'' (js_trim v)" "last (js_trim v) = CHR ''>''"
  shows "norm_addr i (Some v) = None"
proof -
  let ?raw = "js_trim v"
  have raw: "strip_angles ?raw = ?raw" using assms(3) by (simp add: strip_angles_def)
  have lt: "js_lower_char (CHR ''>'') = CHR ''>''" by code_simp
  have host: "host_of_env (pi_env i) (js_lower (drop (k + 1) ?raw)) = None"
    if k: "last_index_of (CHR ''@'') ?raw = Some k" "k \<noteq> length ?raw - 1" for k
  proof -
    have "k < length ?raw" using last_index_of_SomeD [OF k(1)] by simp
    then have "drop (k + 1) ?raw \<noteq> []" using k(2) by simp
    then have "last (drop (k + 1) ?raw) \<in> set (drop (k + 1) ?raw)" "last (drop (k + 1) ?raw) = last ?raw"
      by (rule last_in_set, simp)
    then have "CHR ''>'' \<in> set (drop (k + 1) ?raw)" using assms(4) by simp
    then have "CHR ''>'' \<in> set (js_lower (drop (k + 1) ?raw))"
      unfolding js_lower_def using lt by (metis image_eqI list.set_map)
    then show ?thesis using assms(1) by (simp add: host_of_env_def)
  qed
  show ?thesis
    using assms(2) raw host unfolding norm_addr_def normalizeAddress_def
    by (auto simp: Let_def split: option.splits)
qed

text \<open>A display name defeats the block list: when the From header has the form \<^verbatim>\<open>Name <address>\<close> and
  the URL parser rejects host names containing \<^verbatim>\<open>>\<close>, the sender cannot be normalized, so the mailbox
  block list, the sender suppression list and the first-contact rule all abstain, whatever they hold.\<close>
theorem display_name_bypasses_block_list:
  assumes "\<forall>u. CHR ''>'' \<in> set u \<longrightarrow> pe_url_hostname (pi_env i) u = None"
    and "header i ''from'' = Some v"
    and "js_trim v \<noteq> []" "\<not> starts_with ''<'' (js_trim v)" "last (js_trim v) = CHR ''>''"
  shows "inboundSenderBlocked i = Abstain \<and> in_suppressionRecipient i = Abstain \<and> firstContactFinancialIntent i = Abstain"
proof -
  have "norm_addr i (header i ''from'') = None"
    unfolding assms(2) by (rule norm_addr_display_name [OF assms(1,3-5)])
  then show ?thesis
    by (simp add: inboundSenderBlocked_def in_suppressionRecipient_def firstContactFinancialIntent_def split: option.split)
qed

lemma display_name_bypasses_block_list_witness:
  "inboundSenderBlocked (demo_input ''eve@evil.com'') = fired ''inbound_sender_blocked'' (-20) \<and>
   inboundSenderBlocked (demo_input ''Eve <eve@evil.com>'') = Abstain"
proof -
  have a: "inboundSenderBlocked (demo_input ''eve@evil.com'') = fired ''inbound_sender_blocked'' (-20)" by code_simp
  have h: "\<forall>u. CHR ''>'' \<in> set u \<longrightarrow> pe_url_hostname (pi_env (demo_input ''Eve <eve@evil.com>'')) u = None"
    by (simp add: demo_input_def demo_env_def)
  have f: "header (demo_input ''Eve <eve@evil.com>'') ''from'' = Some ''Eve <eve@evil.com>''"
    by (simp add: header_def demo_input_def)
  have t: "js_trim ''Eve <eve@evil.com>'' \<noteq> []" "\<not> starts_with ''<'' (js_trim ''Eve <eve@evil.com>'')"
    "last (js_trim ''Eve <eve@evil.com>'') = CHR ''>''" by code_simp+
  show ?thesis using display_name_bypasses_block_list [OF h f t] a by blast
qed

lemma mixed_scan_ascii: "\<forall>c \<in> set s. code c < 128 \<Longrightarrow> \<not> mixed_scan s l False"
  by (induction s arbitrary: l) (auto simp: Let_def)

text \<open>Punycode hides a mixed-script domain: host names that come back from the URL parser are ASCII,
  so a From domain in Punycode form never triggers the mixed-script rule.\<close>
theorem punycode_never_mixed_script:
  assumes "\<forall>u h. pe_url_hostname (pi_env i) u = Some h \<longrightarrow> (\<forall>c \<in> set h. code c < 128)"
    and "pa_domain (parseAddress (header i ''from'')) = Some d" "\<forall>c \<in> set d. code c < 128"
  shows "idnMixedScriptFrom i = Abstain"
proof -
  have "\<forall>c \<in> set (punycodeDecode (pi_env i) d). code c < 128"
    using assms(1,3) by (auto simp: punycodeDecode_def split: option.splits)
  then have "\<not> isMixedScript (punycodeDecode (pi_env i) d)"
    unfolding isMixedScript_def Let_def using mixed_scan_ascii by simp
  then show ?thesis
    by (cases d) (simp_all add: idnMixedScriptFrom_def assms(2) nonempty_opt_def)
qed

lemma punycode_never_mixed_script_witness:
  "idnMixedScriptFrom (demo_input ''x@xn--pypal-4ve.com'' \<lparr> pi_env := demo_env \<lparr> pe_url_hostname := (\<lambda>_. Some ''xn--pypal-4ve.com'') \<rparr> \<rparr>) = Abstain"
proof (rule punycode_never_mixed_script)
  show "pa_domain (parseAddress (header (demo_input ''x@xn--pypal-4ve.com''
      \<lparr> pi_env := demo_env \<lparr> pe_url_hostname := (\<lambda>_. Some ''xn--pypal-4ve.com'') \<rparr> \<rparr>) ''from'')) = Some ''xn--pypal-4ve.com''"
    by code_simp
qed (auto simp: demo_input_def)

end
