(* ===== verification/PolicyEngine.thy ===== *)
theory PolicyEngine
  imports Heuristics Hmac
begin

text \<open>
  The engine itself: the inbound LLM tie-breaker with its daily budget and burst cap
  (\<^verbatim>\<open>packages/policy-engine/src/llm.ts\<close>), the moderation-feedback window (\<^verbatim>\<open>feedback.ts\<close>) and
  \<open>evaluatePolicy\<close> (\<^verbatim>\<open>engine.ts\<close>). The KV namespace is a map (expiry of entries is not modelled); the
  model binding, JSON parsing and printing, the clock and random bytes are parameters.
\<close>

section \<open>Environment\<close>

type_synonym kv = "string \<Rightarrow> string option"

datatype ai_result = Ai_error | Ai_response "string option" \<comment> \<open>a rejected or timed-out call, or the response text\<close>

record llm_env =
  le_ai :: "(string \<Rightarrow> string \<Rightarrow> int \<Rightarrow> ai_result) option" \<comment> \<open>model, prompt, timeout\<close>
  le_model :: "string option"
  le_daily_budget :: "string option"
  le_timeout_ms :: "string option"
  le_today :: string \<comment> \<open>ISO date\<close>
  le_now_ms :: int
  le_json_parse :: "string \<Rightarrow> json option"
  le_json_string :: "string \<Rightarrow> string" \<comment> \<open>\<^verbatim>\<open>JSON.stringify\<close> of a string\<close>

text \<open>\<^verbatim>\<open>Number(s)\<close> for decimal integers; \<^const>\<open>None\<close> is \<^verbatim>\<open>NaN\<close>.\<close>
definition js_Number :: "string \<Rightarrow> int option" where
  "js_Number s =
     (let t = js_trim s; d = (if starts_with ''-'' t then drop 1 t else t) in
      if t = [] then Some 0
      else if d \<noteq> [] \<and> list_all is_digit d then js_parseInt 10 t else None)"

text \<open>\<^verbatim>\<open>Number(x ?? '') || d\<close>\<close>
definition number_or :: "string option \<Rightarrow> int \<Rightarrow> int" where
  "number_or x d = (case js_Number (coalesce x) of None \<Rightarrow> d | Some n \<Rightarrow> if n = 0 then d else n)"

section \<open>Feedback window\<close>

datatype ModerationAction =
  Released_as_legit | Dropped_as_phishing | Dropped_as_spam | Dropped_as_marketing | Reclassified

primrec action_str :: "ModerationAction \<Rightarrow> string" where
  "action_str Released_as_legit = ''released_as_legit''"
| "action_str Dropped_as_phishing = ''dropped_as_phishing''"
| "action_str Dropped_as_spam = ''dropped_as_spam''"
| "action_str Dropped_as_marketing = ''dropped_as_marketing''"
| "action_str Reclassified = ''reclassified''"

record FeedbackExample =
  fe_id :: string
  fe_decision_id :: string
  fe_admin_id :: string
  fe_action :: string
  fe_original_verdict :: string
  fe_corrected_verdict :: "string option"
  fe_message_summary :: string
  fe_reasons :: "string list"
  fe_llm_label :: "string option"
  fe_llm_confidence :: "rat option"
  fe_admin_notes :: "string option"
  fe_created_at :: string

record ModerationFeedbackRow =
  fr_id :: string
  fr_decision_id :: string
  fr_message_id :: "string option"
  fr_admin_id :: string
  fr_action :: ModerationAction
  fr_original_verdict :: string
  fr_corrected_verdict :: "string option"
  fr_message_summary :: string
  fr_reasons_json :: string
  fr_llm_label :: "string option"
  fr_llm_confidence :: "rat option"
  fr_admin_notes :: "string option"
  fr_created_at :: string

definition FEEDBACK_KV_KEY :: string where "FEEDBACK_KV_KEY = ''policy:feedback_examples''"
definition DEFAULT_WINDOW_SIZE :: nat where "DEFAULT_WINDOW_SIZE = 20"

definition jstrings :: "json option \<Rightarrow> string list" where
  "jstrings j = (case j of Some (JArr xs) \<Rightarrow> List.map_filter (\<lambda>x. case x of JStr s \<Rightarrow> Some s | _ \<Rightarrow> None) xs | _ \<Rightarrow> [])"

definition jstring :: "json option \<Rightarrow> string option" where
  "jstring j = (case j of Some (JStr s) \<Rightarrow> Some s | _ \<Rightarrow> None)"

definition rowToExample :: "(string \<Rightarrow> json option) \<Rightarrow> ModerationFeedbackRow \<Rightarrow> FeedbackExample" where
  "rowToExample json_parse row =
     \<lparr> fe_id = fr_id row, fe_decision_id = fr_decision_id row, fe_admin_id = fr_admin_id row,
       fe_action = action_str (fr_action row), fe_original_verdict = fr_original_verdict row,
       fe_corrected_verdict = fr_corrected_verdict row, fe_message_summary = fr_message_summary row,
       fe_reasons = jstrings (json_parse (fr_reasons_json row)),
       fe_llm_label = fr_llm_label row, fe_llm_confidence = fr_llm_confidence row,
       fe_admin_notes = fr_admin_notes row, fe_created_at = fr_created_at row \<rparr>"

record RecordFeedbackInput =
  rf_decision_id :: string
  rf_message_id :: "string option"
  rf_admin_id :: string
  rf_action :: ModerationAction
  rf_original_verdict :: string
  rf_corrected_verdict :: "string option"
  rf_message_summary :: string
  rf_reasons :: "string list"
  rf_llm_label :: "string option"
  rf_llm_confidence :: "rat option"
  rf_admin_notes :: "string option"

definition recordModerationFeedback ::
  "(string list \<Rightarrow> string) \<Rightarrow> string \<Rightarrow> string \<Rightarrow> RecordFeedbackInput \<Rightarrow> ModerationFeedbackRow list \<Rightarrow> ModerationFeedbackRow list" where
  "recordModerationFeedback json_strings nowIso ident input t =
     t @ [\<lparr> fr_id = ident, fr_decision_id = rf_decision_id input, fr_message_id = rf_message_id input,
            fr_admin_id = rf_admin_id input, fr_action = rf_action input,
            fr_original_verdict = rf_original_verdict input, fr_corrected_verdict = rf_corrected_verdict input,
            fr_message_summary = take 400 (rf_message_summary input),
            fr_reasons_json = json_strings (take 3 (rf_reasons input)),
            fr_llm_label = rf_llm_label input, fr_llm_confidence = rf_llm_confidence input,
            fr_admin_notes = rf_admin_notes input, fr_created_at = nowIso \<rparr>]"

text \<open>The fields of a stored example that the prompt reads.\<close>
definition example_view :: "json \<Rightarrow> FeedbackExample" where
  "example_view j =
     \<lparr> fe_id = coalesce (jstring (jfield j ''id'')), fe_decision_id = coalesce (jstring (jfield j ''decision_id'')),
       fe_admin_id = coalesce (jstring (jfield j ''admin_id'')), fe_action = coalesce (jstring (jfield j ''action'')),
       fe_original_verdict = coalesce (jstring (jfield j ''original_verdict'')),
       fe_corrected_verdict = jstring (jfield j ''corrected_verdict''),
       fe_message_summary = coalesce (jstring (jfield j ''message_summary'')),
       fe_reasons = jstrings (jfield j ''heuristic_reasons_summary''),
       fe_llm_label = jstring (jfield j ''llm_label_at_decision''), fe_llm_confidence = None,
       fe_admin_notes = jstring (jfield j ''admin_notes''), fe_created_at = coalesce (jstring (jfield j ''created_at'')) \<rparr>"

definition loadFeedbackExamples :: "(string \<Rightarrow> json option) \<Rightarrow> kv \<Rightarrow> FeedbackExample list" where
  "loadFeedbackExamples json_parse store =
     (case nonempty_opt (store FEEDBACK_KV_KEY) of
        None \<Rightarrow> []
      | Some raw \<Rightarrow>
          (case json_parse raw of
             Some (JArr xs) \<Rightarrow> map example_view (filter (\<lambda>v. jstring (jfield v ''id'') \<noteq> None) xs)
           | _ \<Rightarrow> []))"

definition refreshFeedbackWindow ::
  "(string \<Rightarrow> json option) \<Rightarrow> (FeedbackExample list \<Rightarrow> string) \<Rightarrow> ModerationFeedbackRow list \<Rightarrow> nat \<Rightarrow> kv \<Rightarrow> kv \<times> nat" where
  "refreshFeedbackWindow json_parse json_examples t windowSize store =
     (let rows = take windowSize (rev (sort_key fr_created_at t));
          examples = map (rowToExample json_parse) rows
      in (store(FEEDBACK_KV_KEY \<mapsto> json_examples examples), length examples))"

section \<open>The tie-breaker\<close>

definition label_of :: "string \<Rightarrow> llm_label option" where
  "label_of s = map_of [(''phishing'', Phishing), (''malware'', Malware), (''spam'', Spam),
     (''marketing'', Label_marketing), (''legitimate'', Legitimate)] s"

text \<open>\<open>isValidResponse\<close>, returning what it validated.\<close>
definition isValidResponse :: "json \<Rightarrow> (llm_label \<times> rat) option" where
  "isValidResponse j =
     (case (jfield j ''label'', jfield j ''confidence'', jfield j ''rationale'') of
        (Some (JStr l), Some (JNum c), Some (JStr r)) \<Rightarrow>
          (case label_of l of
             Some lab \<Rightarrow> if 0 \<le> c \<and> c \<le> 1 then Some (lab, c) else None
           | None \<Rightarrow> None)
      | _ \<Rightarrow> None)"

definition DEFAULT_MODEL :: string where "DEFAULT_MODEL = ''@cf/meta/llama-3.1-8b-instruct''"
definition DEFAULT_DAILY_BUDGET :: int where "DEFAULT_DAILY_BUDGET = 5000"
definition DEFAULT_TIMEOUT_MS :: int where "DEFAULT_TIMEOUT_MS = 10000"
definition DEFAULT_PER_SECOND_BURST :: int where "DEFAULT_PER_SECOND_BURST = 10"

definition kv_number :: "kv \<Rightarrow> string \<Rightarrow> int option" where
  "kv_number store k = js_Number (case store k of None \<Rightarrow> ''0'' | Some v \<Rightarrow> v)"

definition budget_key :: "llm_env \<Rightarrow> string" where
  "budget_key e = ''policy:budget:'' @ le_today e"

definition budget_cap :: "llm_env \<Rightarrow> int" where
  "budget_cap e = number_or (le_daily_budget e) DEFAULT_DAILY_BUDGET"

text \<open>\<open>checkBudget\<close>: whether there is budget, the key and the count read (\<^verbatim>\<open>NaN\<close> is never below the cap).\<close>
definition checkBudget :: "llm_env \<Rightarrow> kv \<Rightarrow> bool \<times> string \<times> int" where
  "checkBudget e store =
     (let k = budget_key e in
      case kv_number store k of
        None \<Rightarrow> (False, k, 0)
      | Some current \<Rightarrow> (current < budget_cap e, k, current))"

definition burst_key :: "llm_env \<Rightarrow> string" where
  "burst_key e = ''policy:burst:'' @ int_to_string (le_now_ms e div 1000)"

text \<open>A counter that is no number passes the check and is written back as \<^verbatim>\<open>NaN\<close>.\<close>
definition checkBurst :: "llm_env \<Rightarrow> kv \<Rightarrow> bool \<times> kv" where
  "checkBurst e store =
     (case kv_number store (burst_key e) of
        Some current \<Rightarrow>
          if current \<ge> DEFAULT_PER_SECOND_BURST then (False, store)
          else (True, store(burst_key e \<mapsto> int_to_string (current + 1)))
      | None \<Rightarrow> (True, store(burst_key e \<mapsto> ''NaN'')))"

definition bumpBudget :: "string \<Rightarrow> int \<Rightarrow> kv \<Rightarrow> kv" where
  "bumpBudget k current store = store(k \<mapsto> int_to_string (current + 1))"

definition few_shot_line :: "llm_env \<Rightarrow> nat \<Rightarrow> FeedbackExample \<Rightarrow> string" where
  "few_shot_line e n ex =
     (let joined = js_join '', '' (take 3 (fe_reasons ex)); top = (if joined = [] then ''none'' else joined) in
      nat_to_radix 10 (n + 1) @ ''. SUBJECT: '' @ take 120 (le_json_string e (fe_message_summary ex)) @
      '' / top signals: '' @ top @ '' / admin verdict: '' @ fe_action ex @
      (case nonempty_opt (fe_admin_notes ex) of None \<Rightarrow> [] | Some notes \<Rightarrow> '' (notes: '' @ take 80 notes @ '')''))"

definition LF :: string where "LF = [CHR 0x0A]"

definition buildFewShotBlock :: "llm_env \<Rightarrow> FeedbackExample list \<Rightarrow> string" where
  "buildFewShotBlock e exs =
     (if exs = [] then []
      else js_join LF
        ([''Recent admin moderation decisions on similar messages (most recent first):''] @
         map (\<lambda>(n, ex). few_shot_line e n ex) (zip [0 ..< length exs] exs) @ [[]]))"

definition buildPrompt :: "llm_env \<Rightarrow> PolicyInput \<Rightarrow> FeedbackExample list \<Rightarrow> string" where
  "buildPrompt e i exs =
     js_join LF (filter (\<lambda>s. s \<noteq> [])
       [''You are an email policy classifier. Classify the email into one of:'',
        ''phishing | malware | spam | marketing | legitimate.'',
        ''Return JSON only: {label, confidence (0..1), rationale (<500 chars)}.'',
        [], buildFewShotBlock e exs, ''--- CURRENT MESSAGE ---'', ''HEADERS:'',
        take 4000 (mc_raw_headers (pi_message i)), [], ''BODY PREVIEW:'',
        take 4000 (mc_body_preview (pi_message i))])"

definition deltaFor :: "llm_label \<Rightarrow> rat \<Rightarrow> int" where
  "deltaFor label confidence =
     (if label = Phishing \<and> confidence \<ge> 4 / 5 then -20
      else if label = Phishing \<and> confidence \<ge> 1 / 2 then -12
      else if label = Malware \<and> confidence \<ge> 4 / 5 then -20
      else if label = Spam \<and> confidence \<ge> 3 / 5 then -10
      else if label = Label_marketing \<and> confidence \<ge> 3 / 5 then -3
      else if label = Legitimate \<and> confidence \<ge> 7 / 10 then 8
      else 0)"

definition no_llm :: "budget_state \<Rightarrow> LlmOutcome" where
  "no_llm b = \<lparr> lo_invoked = False, lo_label = None, lo_confidence = None, lo_delta = None, lo_budget_state = b \<rparr>"

definition llm_failed :: LlmOutcome where
  "llm_failed = \<lparr> lo_invoked = True, lo_label = None, lo_confidence = None, lo_delta = None, lo_budget_state = Budget_error \<rparr>"

definition tiebreak :: "llm_env \<Rightarrow> PolicyInput \<Rightarrow> kv \<Rightarrow> LlmOutcome \<times> kv" where
  "tiebreak e i store =
     (if pi_direction i \<noteq> Inbound then (no_llm Binding_absent, store)
      else case le_ai e of
        None \<Rightarrow> (no_llm Binding_absent, store)
      | Some run \<Rightarrow>
          (case checkBudget e store of (ok, k, current) \<Rightarrow>
           if \<not> ok then (no_llm Over_budget, store)
           else case checkBurst e store of (ok2, store1) \<Rightarrow>
             if \<not> ok2 then (no_llm Over_budget, store1)
             else
               let examples = loadFeedbackExamples (le_json_parse e) store1;
                   prompt = buildPrompt e i examples;
                   model = (case nonempty_opt (le_model e) of Some m \<Rightarrow> m | None \<Rightarrow> DEFAULT_MODEL);
                   timeoutMs = number_or (le_timeout_ms e) DEFAULT_TIMEOUT_MS
               in case run model prompt timeoutMs of
                    Ai_error \<Rightarrow> (llm_failed, store1)
                  | Ai_response resp \<Rightarrow>
                      let store2 = bumpBudget k current store1 in
                      (case le_json_parse e (case resp of None \<Rightarrow> ''{}'' | Some r \<Rightarrow> r) of
                         None \<Rightarrow> (llm_failed, store2)
                       | Some j \<Rightarrow>
                           (case isValidResponse j of
                              None \<Rightarrow> (llm_failed, store2)
                            | Some (label, confidence) \<Rightarrow>
                                (\<lparr> lo_invoked = True, lo_label = Some label, lo_confidence = Some confidence,
                                   lo_delta = Some (deltaFor label confidence), lo_budget_state = Budget_ok \<rparr>, store2)))))"

section \<open>The engine\<close>

definition makeDecisionId :: "bytes \<Rightarrow> string" where
  "makeDecisionId rnd = ''pd_'' @ toHex (take 16 rnd)"

definition applyWeightOverride :: "HeuristicReason \<Rightarrow> (string \<Rightarrow> int option) \<Rightarrow> HeuristicReason" where
  "applyWeightOverride r overrides =
     (case overrides (hr_code r) of None \<Rightarrow> r | Some w \<Rightarrow> r \<lparr> hr_score := w \<rparr>)"

definition heuristic_error :: HeuristicReason where
  "heuristic_error = \<lparr> hr_code = ''heuristic_error'', hr_score = -10 \<rparr>"

fun run_registry :: "heuristic list \<Rightarrow> PolicyInput \<Rightarrow> PolicyConfig \<Rightarrow> HeuristicReason list" where
  "run_registry [] i config = []"
| "run_registry (h # hs) i config =
     (case h i of
        Threw \<Rightarrow> heuristic_error # run_registry hs i config
      | Abstain \<Rightarrow> run_registry hs i config
      | Fired r \<Rightarrow> applyWeightOverride r (pc_weights config) # run_registry hs i config)"

definition runHeuristics :: "PolicyInput \<Rightarrow> PolicyConfig \<Rightarrow> HeuristicReason list" where
  "runHeuristics i config =
     run_registry (if pi_direction i = Inbound then INBOUND_HEURISTICS else OUTBOUND_HEURISTICS) i config"

definition score_sum :: "HeuristicReason list \<Rightarrow> int" where
  "score_sum rs = foldl (\<lambda>s r. s + hr_score r) 0 rs"

text \<open>\<open>given\<close> is the optional precomputed configuration; a failing load falls back to the defaults.\<close>
definition policy_config ::
  "PolicyConfig option \<Rightarrow> (string \<Rightarrow> json option) \<Rightarrow> ConfigRow list \<Rightarrow> PolicyInput \<Rightarrow> PolicyConfig" where
  "policy_config given json_parse rows i =
     (case given of
        Some c \<Rightarrow> c
      | None \<Rightarrow>
          (case loadPolicyConfig json_parse rows (rc_domain_id (pi_receiver i)) (rc_mailbox_id (pi_receiver i)) of
             Some c \<Rightarrow> c
           | None \<Rightarrow> \<lparr> pc_bands = DEFAULT_BANDS, pc_weights = Map.empty \<rparr>))"

definition evaluatePolicy ::
  "llm_env \<Rightarrow> PolicyConfig option \<Rightarrow> ConfigRow list \<Rightarrow> bytes \<Rightarrow> PolicyInput \<Rightarrow> kv \<Rightarrow> PolicyDecision \<times> kv" where
  "evaluatePolicy e given rows rnd i store =
     (let config = policy_config given (le_json_parse e) rows i;
          reasons = runHeuristics i config;
          heuristicScore = score_sum reasons;
          heuristicBand = classifyBand heuristicScore (pc_bands config);
          (llm, store') = (if pi_direction i = Inbound \<and> heuristicBand = Band_uncertain
                           then tiebreak e i store else (no_llm Binding_absent, store));
          use = (pi_direction i = Inbound \<and> heuristicBand = Band_uncertain \<and>
                 lo_invoked llm \<and> lo_delta llm \<noteq> None \<and> lo_budget_state llm = Budget_ok);
          finalScore = (if use then heuristicScore + the (lo_delta llm) else heuristicScore);
          finalBand = (if use then classifyBand finalScore (pc_bands config) else heuristicBand)
      in (\<lparr> pd_verdict = bandToVerdict finalBand (pi_direction i), pd_total_score = finalScore,
            pd_reasons = reasons, pd_llm = llm, pd_decision_id = makeDecisionId rnd, pd_band = finalBand \<rparr>, store'))"

section \<open>Lemmas\<close>

lemma deltaFor_range: "deltaFor l c \<in> {-20, -12, -10, -3, 0, 8}"
  by (simp add: deltaFor_def)

lemma tiebreak_cases:
  "fst (tiebreak e i store) \<in> {no_llm Binding_absent, no_llm Over_budget, llm_failed} \<or>
   (\<exists>l c. fst (tiebreak e i store) =
      \<lparr> lo_invoked = True, lo_label = Some l, lo_confidence = Some c, lo_delta = Some (deltaFor l c), lo_budget_state = Budget_ok \<rparr>)"
  by (auto simp: tiebreak_def Let_def split: option.splits ai_result.splits prod.splits)

lemma js_Number_int: "js_Number (int_to_string i) = Some i"
proof -
  have hd: "\<not> is_space (hd (int_to_string i))" "\<not> is_space (last (int_to_string i))"
    using int_to_string_chars [of "hd (int_to_string i)" i] int_to_string_chars [of "last (int_to_string i)" i]
    by (auto simp: is_digit_def is_space_def)
  then have t: "js_trim (int_to_string i) = int_to_string i" by (intro js_trim_id) auto
  have dig: "list_all is_digit (nat_to_radix 10 n)" "\<not> starts_with ''-'' (nat_to_radix 10 n)" for n
  proof -
    have c: "is_digit c" if "c \<in> set (nat_to_radix 10 n)" for c
      using nat_to_radix_chars [of 10 c n] that digit_char_digit by auto
    then show "list_all is_digit (nat_to_radix 10 n)" by (simp add: list_all_iff)
    have "hd (nat_to_radix 10 n) \<noteq> CHR ''-''" using c [of "hd (nat_to_radix 10 n)"] by (auto simp: is_digit_def)
    then show "\<not> starts_with ''-'' (nat_to_radix 10 n)"
      by (cases "nat_to_radix 10 n") (auto simp: starts_with_def)
  qed
  have "(let d = (if starts_with ''-'' (int_to_string i) then drop 1 (int_to_string i) else int_to_string i)
         in d \<noteq> [] \<and> list_all is_digit d)"
    using dig by (auto simp: int_to_string_def Let_def starts_with_def)
  then show ?thesis using t by (simp add: js_Number_def Let_def)
qed

lemma kv_number_upd: "kv_number (store(k \<mapsto> int_to_string n)) k' = (if k' = k then Some n else kv_number store k')"
  by (simp add: kv_number_def js_Number_int)

interpretation kv_store: keyed_store "\<lambda>(m :: kv) k. m k" "\<lambda>m k v. m(k \<mapsto> v)" "\<lambda>k. k"
  by unfold_locales auto

lemma burst_not_budget: "burst_key e \<noteq> budget_key e'"
  by (simp add: burst_key_def budget_key_def)

lemma checkBurst_budget: "snd (checkBurst e store) (budget_key e') = store (budget_key e')"
  using burst_not_budget [of e e'] by (auto simp: checkBurst_def kv_store.lookup_update split: option.splits)

lemma tiebreak_counter:
  assumes "kv_number store (budget_key e) = Some n"
  shows "\<exists>n'. kv_number (snd (tiebreak e i store)) (budget_key e) = Some n' \<and>
     n \<le> n' \<and> n' \<le> n + 1 \<and> (n' = n + 1 \<longrightarrow> n < budget_cap e) \<and>
     (lo_budget_state (fst (tiebreak e i store)) = Budget_ok \<longrightarrow> n' = n + 1)"
proof (cases "pi_direction i \<noteq> Inbound \<or> le_ai e = None \<or> \<not> n < budget_cap e \<or> \<not> fst (checkBurst e store)")
  case True
  have same: "kv_number (snd (checkBurst e store)) (budget_key e) = Some n"
    using assms checkBurst_budget by (simp add: kv_number_def)
  have "fst (tiebreak e i store) \<in> {no_llm Binding_absent, no_llm Over_budget} \<and>
      snd (tiebreak e i store) \<in> {store, snd (checkBurst e store)}"
    using True assms by (auto simp: tiebreak_def checkBudget_def Let_def split: option.splits prod.splits)
  then show ?thesis using same assms by (intro exI [of _ n]) (auto simp: no_llm_def)
next
  case False
  obtain run where run: "le_ai e = Some run" using False by auto
  define s1 where "s1 = snd (checkBurst e store)"
  have burst: "checkBurst e store = (True, s1)" using False by (cases "checkBurst e store") (auto simp: s1_def)
  have bud: "checkBudget e store = (True, budget_key e, n)" using assms False by (simp add: checkBudget_def Let_def)
  have same: "kv_number s1 (budget_key e) = Some n"
    using assms checkBurst_budget by (simp add: kv_number_def s1_def)
  have "snd (tiebreak e i store) = s1 \<and> fst (tiebreak e i store) = llm_failed \<or>
      snd (tiebreak e i store) = bumpBudget (budget_key e) n s1"
    using False run burst bud
    by (auto simp: tiebreak_def Let_def split: option.splits ai_result.splits)
  then show ?thesis
    using False same by (auto simp: bumpBudget_def kv_number_upd llm_failed_def)
qed

text \<open>A sequence of messages put to the tie-breaker; the environment may change from one to the next.\<close>
fun tiebreaks :: "(llm_env \<times> PolicyInput) list \<Rightarrow> kv \<Rightarrow> LlmOutcome list" where
  "tiebreaks [] store = []"
| "tiebreaks ((e, i) # rest) store =
     (case tiebreak e i store of (out, store') \<Rightarrow> out # tiebreaks rest store')"

lemma score_sum_singleton: "score_sum [r] = hr_score r"
  by (simp add: score_sum_def)

section \<open>Properties\<close>


definition demo_llm :: llm_env where
  "demo_llm = \<lparr> le_ai = None, le_model = None, le_daily_budget = None, le_timeout_ms = None, le_today = ''2026-01-01'',
     le_now_ms = 0, le_json_parse = (\<lambda>_. None), le_json_string = (\<lambda>s. s) \<rparr>"

definition demo_cfg :: PolicyConfig where
  "demo_cfg = \<lparr> pc_bands = DEFAULT_BANDS, pc_weights = Map.empty \<rparr>"

definition demo_msg :: "pdirection \<Rightarrow> PolicyInput" where
  "demo_msg d = demo_input ''u@a.b'' \<lparr> pi_direction := d \<rparr>"


text \<open>The daily budget bounds the model calls that can influence a decision: however many messages
  of one day are put to the tie-breaker, with the counter starting at \<open>n\<close>, at most \<open>cap - n\<close> of them
  get an answer that counts.\<close>
theorem llm_daily_budget_bound:
  assumes "\<forall>(e, i) \<in> set calls. le_today e = day \<and> budget_cap e = cap"
    and "kv_number store (''policy:budget:'' @ day) = Some n" "n \<le> cap"
  shows "int (length (filter (\<lambda>out. lo_budget_state out = Budget_ok) (tiebreaks calls store))) \<le> cap - n"
  using assms
proof (induction calls arbitrary: store n)
  case (Cons ei calls)
  obtain e i where ei: "ei = (e, i)" by fastforce
  then have e: "budget_key e = ''policy:budget:'' @ day" "budget_cap e = cap"
    using Cons.prems(1) by (auto simp: budget_key_def)
  obtain out store' where t: "tiebreak e i store = (out, store')" by fastforce
  obtain n' where n': "kv_number store' (budget_key e) = Some n'" "n \<le> n'" "n' = n + 1 \<longrightarrow> n < cap" "n' \<le> n + 1"
      "lo_budget_state out = Budget_ok \<longrightarrow> n' = n + 1"
    using tiebreak_counter [of store e n i] Cons.prems(2) e t by auto
  have "int (length (filter (\<lambda>out. lo_budget_state out = Budget_ok) (tiebreaks calls store'))) \<le> cap - n'"
    using Cons.IH [of store' n'] Cons.prems(1,3) n' e by auto
  then show ?case using n' ei t by auto
qed simp

lemma llm_daily_budget_bound_witness:
  "int (length (filter (\<lambda>out. lo_budget_state out = Budget_ok)
     (tiebreaks [(demo_llm, demo_msg Inbound)] (Map.empty(''policy:budget:2026-01-01'' \<mapsto> ''4999''))))) \<le> 5000 - 4999"
proof -
  have b: "budget_cap demo_llm = 5000" by code_simp
  have k: "kv_number (Map.empty(''policy:budget:2026-01-01'' \<mapsto> ''4999'')) (''policy:budget:'' @ ''2026-01-01'') = Some 4999"
    by code_simp
  show ?thesis
    by (rule llm_daily_budget_bound [OF _ k]) (auto simp: b, simp add: demo_llm_def)
qed

text \<open>A heuristic that throws does not hold the message: its synthetic score of \<open>-10\<close> can be
  outweighed by positive signals. Here the suppression look-up fails and the message still passes.\<close>
theorem heuristic_error_can_pass:
  "\<exists>i. in_suppressionRecipient i = Threw \<and>
     pd_verdict (fst (evaluatePolicy demo_llm (Some demo_cfg) [] [] i Map.empty)) = Pass"
proof -
  define i where "i = (demo_input ''u@a.b'') \<lparr>
     pi_env := demo_env \<lparr> pe_db := (pe_db demo_env) \<lparr> db_available := False \<rparr> \<rparr>,
     pi_receiver := \<lparr> rc_address = ''bob@x.org'', rc_mailbox_id = None, rc_domain_id = None \<rparr>,
     pi_message := (pi_message (demo_input ''u@a.b'')) \<lparr> mc_headers := [''from'' \<mapsto> ''u@a.b'', ''message-id'' \<mapsto> ''<1@a.b>'',
        ''list-id'' \<mapsto> ''l'', ''list-unsubscribe'' \<mapsto> ''u''] \<rparr>,
     pi_auth := \<lparr> au_spf = None, au_dkim = Some (Dkim_pass, Some ''a.b''), au_dmarc = Some Dmarc_pass, au_dmarc_policy = None \<rparr> \<rparr>"
  have "in_suppressionRecipient i = Threw" unfolding i_def by code_simp
  moreover have "runHeuristics i demo_cfg =
      [\<lparr> hr_code = ''auth_dmarc_pass'', hr_score = 3 \<rparr>, \<lparr> hr_code = ''dkim_aligned_author'', hr_score = 2 \<rparr>, heuristic_error,
       \<lparr> hr_code = ''header_message_id_sane'', hr_score = 1 \<rparr>, \<lparr> hr_code = ''list_id_present'', hr_score = 2 \<rparr>,
       \<lparr> hr_code = ''list_unsub_present'', hr_score = 2 \<rparr>]"
    unfolding i_def by code_simp
  then have "pd_verdict (fst (evaluatePolicy demo_llm (Some demo_cfg) [] [] i Map.empty)) = Pass"
    by (simp add: evaluatePolicy_def policy_config_def score_sum_def heuristic_error_def classifyBand_def
        demo_cfg_def DEFAULT_BANDS_def BLOCK_DECISIVE_THRESHOLD_def Let_def)
  ultimately show ?thesis by blast
qed

text \<open>The two heuristics documented as decisive are not: with the default bands, a block-list or
  suppression hit that is the only reason leads to moderation, not to a block.\<close>
theorem sole_block_list_hit_only_holds:
  assumes "runHeuristics i demo_cfg = [r]" "hr_score r = -20"
  shows "pd_verdict (fst (evaluatePolicy e (Some demo_cfg) rows rnd i store)) = Hold"
proof -
  have sc: "score_sum (runHeuristics i demo_cfg) = -20" using assms by (simp add: score_sum_singleton)
  have "classifyBand (-20) (pc_bands demo_cfg) = Band_hold"
    by (simp add: classifyBand_def demo_cfg_def DEFAULT_BANDS_def BLOCK_DECISIVE_THRESHOLD_def)
  then show ?thesis
    using sc by (auto simp: evaluatePolicy_def policy_config_def Let_def)
qed

lemma sole_block_list_hit_only_holds_witness:
  "\<exists>i. inboundSenderBlocked i = fired ''inbound_sender_blocked'' (-20) \<and>
     pd_verdict (fst (evaluatePolicy demo_llm (Some demo_cfg) [] [] i Map.empty)) = Hold"
proof -
  define i where "i = demo_input ''u@a.b'' \<lparr>
     pi_env := demo_env \<lparr> pe_db := (pe_db demo_env) \<lparr> db_sender_blocks := [(''m1'', ''u@a.b'')] \<rparr> \<rparr> \<rparr>"
  have b: "inboundSenderBlocked i = fired ''inbound_sender_blocked'' (-20)" unfolding i_def by code_simp
  have r: "runHeuristics i demo_cfg = [\<lparr> hr_code = ''inbound_sender_blocked'', hr_score = -20 \<rparr>]"
    unfolding i_def by code_simp
  show ?thesis using sole_block_list_hit_only_holds [OF r] b by auto
qed

end
