(* ===== verification/Guards.thy ===== *)
theory Guards
  imports Prelude
begin

text \<open>
  Three guards of the API: the revocation primitive (\<^verbatim>\<open>packages/revocation/src/index.ts\<close>) with its
  per-isolate cache, the sender-scope matcher (\<^verbatim>\<open>services/api/src/scopes.ts\<close>) and the per-minute
  rate limit (\<^verbatim>\<open>services/api/src/rate-limit.ts\<close>).

  Revocation is modelled with any number of isolates, a KV store that is eventually consistent within a
  bound, and with \<open>revocationCheck\<close> cut at its \<^verbatim>\<open>await\<close>, so that checks and revocations interleave.
\<close>

section \<open>Revocation\<close>

record CacheEntry =
  ce_value :: bool
  ce_expiresAt :: int

definition CACHE_TTL_MS :: int where "CACHE_TTL_MS = 60000"

type_synonym rcache = "string \<Rightarrow> CacheEntry option"

record RevocationEnv =
  re_revocations :: "string \<Rightarrow> string option" \<comment> \<open>\<^verbatim>\<open>KV_REVOCATIONS\<close>\<close>
  re_key_cache :: "string \<Rightarrow> string option" \<comment> \<open>\<^verbatim>\<open>KV_KEY_CACHE\<close>\<close>

text \<open>\<open>revocationCheck\<close> up to its \<^verbatim>\<open>await\<close>: the answer of the cache, if it has one.\<close>
definition revocation_hit :: "rcache \<Rightarrow> string \<Rightarrow> int \<Rightarrow> bool option" where
  "revocation_hit cache p now =
     (case cache p of
        None \<Rightarrow> None
      | Some e \<Rightarrow> if ce_expiresAt e > now then Some (ce_value e) else None)"

text \<open>... and after it, with the value read and the time taken on entry.\<close>
definition revocation_store :: "rcache \<Rightarrow> string \<Rightarrow> int \<Rightarrow> string option \<Rightarrow> rcache \<times> bool" where
  "revocation_store cache p now raw =
     (let revoked = (raw \<noteq> None) in
      (cache(p \<mapsto> \<lparr>ce_value = revoked, ce_expiresAt = now + CACHE_TTL_MS\<rparr>), revoked))"

definition revocationCheck :: "rcache \<Rightarrow> string \<Rightarrow> int \<Rightarrow> string option \<Rightarrow> rcache \<times> bool" where
  "revocationCheck cache p now raw =
     (case revocation_hit cache p now of
        Some v \<Rightarrow> (cache, v)
      | None \<Rightarrow> revocation_store cache p now raw)"

text \<open>Deletes that fail are swallowed.\<close>
definition delete_keys :: "(string \<Rightarrow> bool) \<Rightarrow> string list \<Rightarrow> (string \<Rightarrow> string option) \<Rightarrow> string \<Rightarrow> string option" where
  "delete_keys fails ks kv = foldl (\<lambda>m k. if fails k then m else m(k := None)) kv ks"

definition revoke ::
  "(string \<Rightarrow> bool) \<Rightarrow> RevocationEnv \<Rightarrow> rcache \<Rightarrow> string \<Rightarrow> int \<Rightarrow> string list option \<Rightarrow> RevocationEnv \<times> rcache" where
  "revoke fails env cache p ts keysToInvalidate =
     (env\<lparr>re_revocations := (re_revocations env)(p \<mapsto> int_to_string ts),
          re_key_cache := (case keysToInvalidate of
             None \<Rightarrow> re_key_cache env | Some ks \<Rightarrow> delete_keys fails ks (re_key_cache env))\<rparr>,
      cache(p \<mapsto> \<lparr>ce_value = True, ce_expiresAt = ts + CACHE_TTL_MS\<rparr>))"

lemma delete_keys_iff: "delete_keys fails ks kv k = (if k \<in> set ks \<and> \<not> fails k then None else kv k)"
  unfolding delete_keys_def by (induction ks arbitrary: kv) auto

text \<open>Isolates, the shared store, the history of writes to it, and the checks waiting for a read.\<close>
record rev_world =
  rw_clock :: int
  rw_env :: RevocationEnv
  rw_puts :: "(string \<times> int) list" \<comment> \<open>principal and the time its revocation landed\<close>
  rw_cache :: "nat \<Rightarrow> rcache"
  rw_pending :: "(nat \<times> string \<times> int \<times> string option) list"

text \<open>What a KV read may return: the stored value, or nothing while every write is younger than the
  propagation delay.\<close>
definition kv_may_read :: "int \<Rightarrow> rev_world \<Rightarrow> string \<Rightarrow> string option \<Rightarrow> bool" where
  "kv_may_read delay w p raw =
     (raw = re_revocations (rw_env w) p \<or>
      raw = None \<and> (\<forall>t. (p, t) \<in> set (rw_puts w) \<longrightarrow> rw_clock w < t + delay))"

inductive rev_step :: "int \<Rightarrow> rev_world \<Rightarrow> rev_world \<Rightarrow> bool" for delay where
  Tick: "rw_clock w \<le> n \<Longrightarrow> rev_step delay w (w\<lparr>rw_clock := n\<rparr>)"
| Isolate_start: "rev_step delay w (w\<lparr>rw_cache := (rw_cache w)(i := \<lambda>_. None)\<rparr>)"
| Check_read:
    "revocation_hit (rw_cache w i) p (rw_clock w) = None \<Longrightarrow> kv_may_read delay w p raw \<Longrightarrow>
     rev_step delay w (w\<lparr>rw_pending := (i, p, rw_clock w, raw) # rw_pending w\<rparr>)"
| Check_store:
    "rw_pending w = xs @ (i, p, now, raw) # ys \<Longrightarrow>
     rev_step delay w (w\<lparr>rw_pending := xs @ ys,
       rw_cache := (rw_cache w)(i := fst (revocation_store (rw_cache w i) p now raw))\<rparr>)"
| Revoke:
    "ts \<le> rw_clock w \<Longrightarrow> (env', c') = revoke fails (rw_env w) (rw_cache w i) p ts ks \<Longrightarrow>
     rev_step delay w (w\<lparr>rw_env := env', rw_puts := (p, rw_clock w) # rw_puts w,
       rw_cache := (rw_cache w)(i := c')\<rparr>)"

definition rev_init :: "int \<Rightarrow> (string \<Rightarrow> string option) \<Rightarrow> rev_world" where
  "rev_init t0 keys =
     \<lparr>rw_clock = t0, rw_env = \<lparr>re_revocations = Map.empty, re_key_cache = keys\<rparr>, rw_puts = [],
      rw_cache = (\<lambda>_ _. None), rw_pending = []\<rparr>"

definition rev_reach :: "int \<Rightarrow> rev_world \<Rightarrow> bool" where
  "rev_reach delay w = (\<exists>t0 keys. (rev_step delay)\<^sup>*\<^sup>* (rev_init t0 keys) w)"

text \<open>An answer taken at time \<open>n\<close> is justified: it is not from the future, and a negative one was taken
  before any revocation of the principal was visible everywhere.\<close>
definition justified :: "int \<Rightarrow> rev_world \<Rightarrow> string \<Rightarrow> int \<Rightarrow> bool \<Rightarrow> bool" where
  "justified delay w p n v =
     (n \<le> rw_clock w \<and> (v \<or> (\<forall>t. (p, t) \<in> set (rw_puts w) \<longrightarrow> n \<le> t + delay)))"

definition rev_inv :: "int \<Rightarrow> rev_world \<Rightarrow> bool" where
  "rev_inv delay w =
     ((\<forall>p t. (p, t) \<in> set (rw_puts w) \<longrightarrow> re_revocations (rw_env w) p \<noteq> None) \<and>
      (\<forall>i p n raw. (i, p, n, raw) \<in> set (rw_pending w) \<longrightarrow> justified delay w p n (raw \<noteq> None)) \<and>
      (\<forall>i p e. rw_cache w i p = Some e \<longrightarrow> justified delay w p (ce_expiresAt e - CACHE_TTL_MS) (ce_value e)))"

lemma rev_invI:
  assumes "\<And>p t. (p, t) \<in> set (rw_puts w) \<Longrightarrow> re_revocations (rw_env w) p \<noteq> None"
    and "\<And>i p n raw. (i, p, n, raw) \<in> set (rw_pending w) \<Longrightarrow> justified delay w p n (raw \<noteq> None)"
    and "\<And>i p e. rw_cache w i p = Some e \<Longrightarrow> justified delay w p (ce_expiresAt e - CACHE_TTL_MS) (ce_value e)"
  shows "rev_inv delay w"
  unfolding rev_inv_def using assms by blast

lemma rev_invD:
  assumes "rev_inv delay w"
  shows "(p, t) \<in> set (rw_puts w) \<Longrightarrow> re_revocations (rw_env w) p \<noteq> None"
    and "(i, p, n, raw) \<in> set (rw_pending w) \<Longrightarrow> justified delay w p n (raw \<noteq> None)"
    and "rw_cache w i p = Some e \<Longrightarrow> justified delay w p (ce_expiresAt e - CACHE_TTL_MS) (ce_value e)"
  using assms unfolding rev_inv_def by blast+

text \<open>A justification survives the clock and, as it is not from the future, a new revocation.\<close>
lemma justified_mono:
  assumes "justified delay w p n v" "rw_clock w \<le> rw_clock w'"
    and "\<And>t. (p, t) \<in> set (rw_puts w') \<Longrightarrow> (p, t) \<in> set (rw_puts w) \<or> t = rw_clock w" "0 \<le> delay"
  shows "justified delay w' p n v"
  using assms unfolding justified_def by force

lemma rev_inv_change:
  assumes inv: "rev_inv delay w" and d: "0 \<le> delay" and clk: "rw_clock w \<le> rw_clock w'"
    and puts: "\<And>p t. (p, t) \<in> set (rw_puts w') \<Longrightarrow>
      (p, t) \<in> set (rw_puts w) \<or> t = rw_clock w \<and> re_revocations (rw_env w') p \<noteq> None"
    and env: "\<And>p. re_revocations (rw_env w) p \<noteq> None \<Longrightarrow> re_revocations (rw_env w') p \<noteq> None"
    and pend: "\<And>i p n raw. (i, p, n, raw) \<in> set (rw_pending w') \<Longrightarrow>
      (i, p, n, raw) \<in> set (rw_pending w) \<or> justified delay w' p n (raw \<noteq> None)"
    and cach: "\<And>i p e. rw_cache w' i p = Some e \<Longrightarrow>
      rw_cache w i p = Some e \<or> justified delay w' p (ce_expiresAt e - CACHE_TTL_MS) (ce_value e)"
  shows "rev_inv delay w'"
proof -
  note D = rev_invD [OF inv]
  have J: "justified delay w' p n v" if "justified delay w p n v" for p n v
    using justified_mono [OF that clk _ d] puts by blast
  show ?thesis
  proof (rule rev_invI)
    show "re_revocations (rw_env w') p \<noteq> None" if "(p, t) \<in> set (rw_puts w')" for p t
      using puts [OF that] D(1) [of p t] env by blast
    show "justified delay w' p n (raw \<noteq> None)" if "(i, p, n, raw) \<in> set (rw_pending w')" for i p n raw
      using pend [OF that] D(2) [of i p n raw] J by blast
    show "justified delay w' p (ce_expiresAt e - CACHE_TTL_MS) (ce_value e)" if "rw_cache w' i p = Some e" for i p e
      using cach [OF that] D(3) [of i p e] J by blast
  qed
qed

lemma rev_inv_init: "rev_inv delay (rev_init t0 keys)"
  by (simp add: rev_inv_def rev_init_def)

lemma rev_inv_step:
  assumes "rev_step delay w w'" "0 \<le> delay" "rev_inv delay w"
  shows "rev_inv delay w'"
  using assms
proof (induction rule: rev_step.induct)
  case (Tick w n)
  then show ?case by (intro rev_inv_change [OF Tick(3,2)]) simp_all
next
  case (Isolate_start w i)
  show ?case by (rule rev_inv_change [OF Isolate_start(2,1)]) (simp_all split: if_splits)
next
  case (Check_read w i p raw)
  have "justified delay w p (rw_clock w) (raw \<noteq> None)"
    using Check_read(2) rev_invD(1) [OF Check_read(4), of p]
    unfolding kv_may_read_def justified_def by fastforce
  then show ?case by (intro rev_inv_change [OF Check_read(4,3)]) (auto simp: justified_def)
next
  case (Check_store w xs i p now raw ys)
  have "justified delay w p now (raw \<noteq> None)"
    using rev_invD(2) [OF Check_store(3), of i p now raw] Check_store(1) by simp
  then show ?case using Check_store(1)
    by (intro rev_inv_change [OF Check_store(3,2)])
       (auto simp: justified_def revocation_store_def Let_def split: if_splits)
next
  case (Revoke ts w env' c' fails i p ks)
  then show ?case
    by (intro rev_inv_change [OF Revoke(4,3)])
       (auto simp: revoke_def justified_def split: if_splits)
qed

lemma rev_reach_inv: "0 \<le> delay \<Longrightarrow> rev_reach delay w \<Longrightarrow> rev_inv delay w"
  unfolding rev_reach_def
proof (elim exE)
  fix t0 keys assume "0 \<le> delay" "(rev_step delay)\<^sup>*\<^sup>* (rev_init t0 keys) w"
  from this(2,1) show "rev_inv delay w"
    by (induction rule: rtranclp_induct) (auto intro: rev_inv_init rev_inv_step)
qed

text \<open>C17. A revocation reaches every isolate in bounded time: once it has been in the store for the
  propagation delay plus the cache lifetime, no interleaving of checks, revocations and isolate starts lets
  \<open>revocationCheck\<close> answer \<^verbatim>\<open>false\<close> for that principal, whatever the store may still return.\<close>
theorem revocation_takes_effect:
  assumes "0 \<le> delay" "rev_reach delay w" "(p, t) \<in> set (rw_puts w)"
    and "t + delay + CACHE_TTL_MS \<le> rw_clock w" "kv_may_read delay w p raw"
  shows "snd (revocationCheck (rw_cache w i) p (rw_clock w) raw)"
proof -
  note inv = rev_invD [OF rev_reach_inv [OF assms(1,2)]]
  have "raw \<noteq> None"
    using assms(3-5) inv(1) [OF assms(3)] by (force simp: kv_may_read_def CACHE_TTL_MS_def)
  moreover have "ce_value e" if "rw_cache w i p = Some e" "rw_clock w < ce_expiresAt e" for e
    using inv(3) [OF that(1)] that(2) assms(3,4) by (force simp: justified_def)
  ultimately show ?thesis
    by (auto simp: revocationCheck_def revocation_hit_def revocation_store_def Let_def split: option.splits)
qed

text \<open>A concrete run: isolate 0 has read ``not revoked'' and is about to store it when the operator \<open>u\<close> is
  revoked in the same isolate.\<close>
definition demo_reading :: rev_world where
  "demo_reading = (rev_init 0 Map.empty)\<lparr>rw_pending := [(0, ''u'', 0, None)]\<rparr>"

definition demo_revoked :: rev_world where
  "demo_revoked = demo_reading\<lparr>
     rw_env := fst (revoke (\<lambda>_. False) (rw_env demo_reading) (rw_cache demo_reading 0) ''u'' 0 None),
     rw_puts := [(''u'', 0)],
     rw_cache := (rw_cache demo_reading)(0 :=
       snd (revoke (\<lambda>_. False) (rw_env demo_reading) (rw_cache demo_reading 0) ''u'' 0 None))\<rparr>"

definition demo_raced :: rev_world where
  "demo_raced = demo_revoked\<lparr>rw_pending := [],
     rw_cache := (rw_cache demo_revoked)(0 := fst (revocation_store (rw_cache demo_revoked 0) ''u'' 0 None))\<rparr>"

lemma demo_raced_reachable: "(rev_step 10)\<^sup>*\<^sup>* (rev_init 0 Map.empty) demo_raced"
proof -
  have "rev_step 10 (rev_init 0 Map.empty) demo_reading"
    using Check_read [of "rev_init 0 Map.empty" 0 "''u''" 10 None]
    by (simp add: demo_reading_def kv_may_read_def rev_init_def revocation_hit_def)
  moreover have "rev_step 10 demo_reading demo_revoked"
    using Revoke [of 0 demo_reading _ _ "\<lambda>_. False" 0 "''u''" None 10]
    by (simp add: demo_revoked_def demo_reading_def rev_init_def revoke_def)
  moreover have "rev_step 10 demo_revoked demo_raced"
    using Check_store [of demo_revoked "[]" 0 "''u''" 0 None "[]" 10]
    by (simp add: demo_raced_def demo_revoked_def demo_reading_def)
  ultimately show ?thesis by (meson rtranclp.rtrancl_refl rtranclp.rtrancl_into_rtrancl)
qed

lemma revocation_takes_effect_witness:
  "(rev_step 10)\<^sup>*\<^sup>* (rev_init 0 Map.empty) (demo_raced\<lparr>rw_clock := 60010\<rparr>) \<and>
   snd (revocationCheck (rw_cache demo_raced 0) ''u'' 60010 (Some ''0''))"
proof -
  have r: "(rev_step 10)\<^sup>*\<^sup>* (rev_init 0 Map.empty) (demo_raced\<lparr>rw_clock := 60010\<rparr>)"
    using demo_raced_reachable Tick [of demo_raced 60010 10]
    by (auto simp: demo_raced_def demo_revoked_def demo_reading_def rev_init_def
      intro: rtranclp.rtrancl_into_rtrancl)
  moreover have "kv_may_read 10 (demo_raced\<lparr>rw_clock := 60010\<rparr>) ''u'' (Some ''0'')"
  proof -
    have "int_to_string 0 = ''0''" by code_simp
    then show ?thesis by (simp add: kv_may_read_def demo_raced_def demo_revoked_def revoke_def)
  qed
  ultimately show ?thesis
    using revocation_takes_effect [of 10 "demo_raced\<lparr>rw_clock := 60010\<rparr>" "''u''" 0 "Some ''0''" 0]
    by (auto simp: rev_reach_def CACHE_TTL_MS_def demo_raced_def demo_revoked_def)
qed

text \<open>Right after a revocation even the revoking isolate may still answer ``not revoked'': a check
  that had read the store before stores its answer over the primed cache entry.\<close>
lemma revoking_isolate_race:
  "rev_reach 10 demo_raced \<and> (''u'', 0) \<in> set (rw_puts demo_raced) \<and>
   \<not> snd (revocationCheck (rw_cache demo_raced 0) ''u'' (rw_clock demo_raced) (re_revocations (rw_env demo_raced) ''u''))"
  using demo_raced_reachable
  by (auto simp: rev_reach_def demo_raced_def demo_revoked_def demo_reading_def rev_init_def
    revocationCheck_def revocation_hit_def revocation_store_def CACHE_TTL_MS_def)

section \<open>Sender scopes\<close>

datatype scope_kind = Exact | Glob | Regex

record SenderScope =
  ss_kind :: scope_kind
  ss_pattern :: string

definition MAX_REGEX_LEN :: nat where "MAX_REGEX_LEN = 256"

text \<open>\<^verbatim>\<open>.\<close> in a regular expression matches no line terminator.\<close>
definition dot_char :: "char \<Rightarrow> bool" where
  "dot_char c = (c \<noteq> CHR 0x0A \<and> c \<noteq> CHR 0x0D)"

text \<open>The anchored match of \<open>globPart\<close>: \<^verbatim>\<open>*\<close> is \<^verbatim>\<open>.+\<close>, every other character stands for itself
  (all the characters special to a regular expression are escaped).\<close>
fun globPart :: "string \<Rightarrow> string \<Rightarrow> bool" where
  "globPart s [] = (s = [])"
| "globPart [] (p # ps) = False"
| "globPart (c # s) (p # ps) =
     (if p = CHR ''*'' then dot_char c \<and> (globPart s ps \<or> globPart s (p # ps))
      else c = p \<and> globPart s ps)"

text \<open>\<^verbatim>\<open>s.split('@', 2)\<close> keeps the first two pieces.\<close>
definition globMatch :: "string \<Rightarrow> string \<Rightarrow> bool" where
  "globMatch addr pattern =
     (if CHR ''@'' \<notin> set pattern then False
      else case (take 2 (js_split CHR ''@'' pattern), take 2 (js_split CHR ''@'' addr)) of
             (pl # pr, [al, ah]) \<Rightarrow>
               globPart al pl \<and> globPart ah (case pr of [] \<Rightarrow> [] | ph # _ \<Rightarrow> ph)
           | _ \<Rightarrow> False)"

text \<open>A regular-expression scope is \<^const>\<open>None\<close> when the pattern does not compile; the engine is a
  parameter.\<close>
fun matchesSenderScope_in ::
  "(string \<Rightarrow> (string \<Rightarrow> bool) option) \<Rightarrow> string \<Rightarrow> SenderScope list \<Rightarrow> bool" where
  "matchesSenderScope_in regex nrm [] = False"
| "matchesSenderScope_in regex nrm (s # ss) =
     ((case ss_kind s of
         Exact \<Rightarrow> nrm = js_lower (ss_pattern s)
       | Glob \<Rightarrow> globMatch nrm (js_lower (ss_pattern s))
       | Regex \<Rightarrow>
           if length (ss_pattern s) > MAX_REGEX_LEN then False
           else (case regex (''^(?:'' @ ss_pattern s @ '')$'') of None \<Rightarrow> False | Some m \<Rightarrow> m nrm))
      \<or> matchesSenderScope_in regex nrm ss)"

definition matchesSenderScope ::
  "(string \<Rightarrow> (string \<Rightarrow> bool) option) \<Rightarrow> string \<Rightarrow> SenderScope list \<Rightarrow> bool" where
  "matchesSenderScope regex address scopes = matchesSenderScope_in regex (js_lower (js_trim address)) scopes"

text \<open>What the comment of \<open>globMatch\<close> promises, as a relation: every star stands for one or more
  characters, the rest for itself.\<close>
inductive glob_expands :: "string \<Rightarrow> string \<Rightarrow> bool" where
  Glob_end: "glob_expands [] []"
| Glob_char: "p \<noteq> CHR ''*'' \<Longrightarrow> glob_expands ps s \<Longrightarrow> glob_expands (p # ps) (p # s)"
| Glob_star: "w \<noteq> [] \<Longrightarrow> list_all dot_char w \<Longrightarrow> glob_expands ps s \<Longrightarrow> glob_expands (CHR ''*'' # ps) (w @ s)"

inductive_cases glob_expands_NilE: "glob_expands [] s"
inductive_cases glob_expands_ConsE: "glob_expands (p # ps) s"

lemma globPart_star: "w \<noteq> [] \<Longrightarrow> list_all dot_char w \<Longrightarrow> globPart s ps \<Longrightarrow> globPart (w @ s) (CHR ''*'' # ps)"
proof (induction w)
  case (Cons c w)
  then show ?case by (cases w) auto
qed simp

lemma globPart_sound: "globPart s p \<Longrightarrow> glob_expands p s"
proof (induction s p rule: globPart.induct)
  case (3 c s p ps)
  show ?case
  proof (cases "p = CHR ''*''")
    case True
    with 3(4) consider "dot_char c" "globPart s ps" | "dot_char c" "globPart s (p # ps)" by auto
    then show ?thesis
    proof cases
      case 1
      with 3(1) True Glob_star [of "[c]" ps s] show ?thesis by simp
    next
      case 2
      with 3(2) True obtain w s' where "w \<noteq> []" "list_all dot_char w" "glob_expands ps s'" "s = w @ s'"
        by (auto elim: glob_expands_ConsE)
      with True 2 Glob_star [of "c # w" ps s'] show ?thesis by simp
    qed
  next
    case False
    with 3 show ?thesis by (auto intro: Glob_char)
  qed
qed (auto intro: Glob_end)

lemma globPart_iff: "globPart s p \<longleftrightarrow> glob_expands p s"
proof
  show "globPart s p" if "glob_expands p s"
    using that by (induction rule: glob_expands.induct) (auto simp: globPart_star)
qed (rule globPart_sound)

lemma js_split_two:
  assumes "c \<notin> set a" "c \<notin> set b"
  shows "take 2 (js_split c (a @ c # b)) = [a, b]"
    and "take 2 (js_split c (a @ c # b @ c # t)) = [a, b]"
  using assms by (simp_all add: js_split_append_sep js_split_notin)

text \<open>For a well-formed glob \<open>l@h\<close> and an address \<open>u@d\<close>, both with a single at-sign, \<open>globMatch\<close>
  decides exactly the documented language: the local parts and the hosts match separately and no star
  crosses the at-sign. An address that carries a second at-sign is judged by its first two pieces
  alone, so whatever follows is not examined.\<close>
theorem globMatch_iff_expands:
  assumes "CHR ''@'' \<notin> set l" "CHR ''@'' \<notin> set h" "CHR ''@'' \<notin> set u" "CHR ''@'' \<notin> set d"
  shows "(globMatch (u @ ''@'' @ d) (l @ ''@'' @ h) \<longleftrightarrow> glob_expands l u \<and> glob_expands h d) \<and>
     (globMatch (u @ ''@'' @ d @ ''@'' @ evil) (l @ ''@'' @ h) \<longleftrightarrow> glob_expands l u \<and> glob_expands h d)"
  using assms by (simp add: globMatch_def js_split_two globPart_iff)

lemma globMatch_iff_expands_witness:
  "globMatch ''eve@acme.com@evil.org'' ''*@acme.com'' \<and> glob_expands ''*'' ''eve''"
proof -
  have "globMatch ''eve@acme.com@evil.org'' ''*@acme.com''" by code_simp
  then show ?thesis
    using globMatch_iff_expands [of "''*''" "''acme.com''" "''eve''" "''acme.com''" "''evil.org''"] by simp
qed

section \<open>Rate limits\<close>

text \<open>\<^const>\<open>None\<close> inside \<open>RL_ok\<close> is \<^verbatim>\<open>NaN\<close>, the count a foreign, non-numeric entry would give.\<close>
datatype RateLimitResult = RL_ok "int option" | RL_reject int

definition bucketLimit ::
  "(string \<Rightarrow> string option) \<Rightarrow> string \<Rightarrow> int \<Rightarrow> int \<Rightarrow> (string \<Rightarrow> string option) \<times> RateLimitResult" where
  "bucketLimit kv prefix perMinute nowMs =
     (let now = nowMs div 1000;
          bucket = now div 60;
          k = prefix @ '':'' @ int_to_string bucket;
          count = (case kv k of None \<Rightarrow> Some 0 | Some raw \<Rightarrow> if raw = [] then Some 0 else js_parseInt 10 raw)
      in case count of
           None \<Rightarrow> (kv(k \<mapsto> ''NaN''), RL_ok None)
         | Some n \<Rightarrow>
             if n \<ge> perMinute then (kv, RL_reject (60 - now mod 60))
             else (kv(k \<mapsto> int_to_string (n + 1)), RL_ok (Some (perMinute - n - 1))))"

definition rateLimit where
  "rateLimit kv keyId perMinute nowMs = bucketLimit kv (''rl:'' @ keyId) perMinute nowMs"

definition adminRateLimit where
  "adminRateLimit kv keyId perMinute nowMs = bucketLimit kv (''rl-admin:'' @ keyId) perMinute nowMs"

text \<open>One request: whether it is an admin mutation, its key, its limit and its time.\<close>
record rl_request =
  rq_admin :: bool
  rq_key :: string
  rq_limit :: int
  rq_now :: int

definition rl_handle where
  "rl_handle kv r =
     (if rq_admin r then adminRateLimit kv (rq_key r) (rq_limit r) (rq_now r)
      else rateLimit kv (rq_key r) (rq_limit r) (rq_now r))"

fun rl_run :: "(string \<Rightarrow> string option) \<Rightarrow> rl_request list \<Rightarrow> (string \<Rightarrow> string option) \<times> rl_request list" where
  "rl_run kv [] = (kv, [])"
| "rl_run kv (r # rs) =
     (case rl_handle kv r of (kv', res) \<Rightarrow>
        (case rl_run kv' rs of (kv'', acc) \<Rightarrow>
           (kv'', (case res of RL_ok _ \<Rightarrow> r # acc | RL_reject _ \<Rightarrow> acc))))"

text \<open>The bucket a request is counted in.\<close>
definition rl_bucket :: "rl_request \<Rightarrow> bool \<times> string \<times> int" where
  "rl_bucket r = (rq_admin r, rq_key r, rq_now r div 1000 div 60)"

definition rl_kv_key :: "bool \<times> string \<times> int \<Rightarrow> string" where
  "rl_kv_key b = (case b of (adm, k, n) \<Rightarrow>
     (if adm then ''rl-admin:'' else ''rl:'') @ k @ '':'' @ int_to_string n)"

definition rl_count :: "(string \<Rightarrow> string option) \<Rightarrow> bool \<times> string \<times> int \<Rightarrow> int option" where
  "rl_count kv b = (case kv (rl_kv_key b) of
     None \<Rightarrow> Some 0 | Some raw \<Rightarrow> if raw = [] then Some 0 else js_parseInt 10 raw)"

lemma append_colon_inject:
  "CHR '':'' \<notin> set a \<Longrightarrow> CHR '':'' \<notin> set b \<Longrightarrow> a @ CHR '':'' # s = b @ CHR '':'' # t \<Longrightarrow> a = b \<and> s = t"
proof (induction a arbitrary: b)
  case Nil
  then show ?case by (cases b) auto
next
  case (Cons x a)
  then show ?case by (cases b) auto
qed

lemma int_to_string_inject: "int_to_string a = int_to_string b \<Longrightarrow> a = b"
  by (metis js_parseInt_int_to_string option.inject)

text \<open>Key ids are Crockford strings, so distinct buckets live under distinct KV keys.\<close>
lemma rl_kv_key_inject:
  assumes "rl_kv_key b = rl_kv_key b'" "CHR '':'' \<notin> set (fst (snd b))" "CHR '':'' \<notin> set (fst (snd b'))"
  shows "b = b'"
proof -
  obtain a k n where b: "b = (a, k, n)" by (cases b)
  obtain a' k' n' where b': "b' = (a', k', n')" by (cases b')
  have "a = a'" using assms(1) by (auto simp: rl_kv_key_def b b' split: if_splits)
  moreover from this have "k @ CHR '':'' # int_to_string n = k' @ CHR '':'' # int_to_string n'"
    using assms(1) by (auto simp: rl_kv_key_def b b')
  ultimately show ?thesis
    using append_colon_inject [of k k'] assms(2,3) int_to_string_inject b b' by auto
qed

lemma rl_handle_eq:
  "rl_handle kv r =
     (case rl_count kv (rl_bucket r) of
        None \<Rightarrow> (kv(rl_kv_key (rl_bucket r) \<mapsto> ''NaN''), RL_ok None)
      | Some n \<Rightarrow>
          if n \<ge> rq_limit r then (kv, RL_reject (60 - rq_now r div 1000 mod 60))
          else (kv(rl_kv_key (rl_bucket r) \<mapsto> int_to_string (n + 1)), RL_ok (Some (rq_limit r - n - 1))))"
  unfolding rl_handle_def rateLimit_def adminRateLimit_def bucketLimit_def rl_count_def rl_bucket_def
    rl_kv_key_def Let_def
  by (cases "rq_admin r") (simp_all split: option.split)

lemma rl_count_upd_same: "rl_count (kv(rl_kv_key b \<mapsto> int_to_string n)) b = Some n"
  by (simp add: rl_count_def)

lemma rl_count_upd_other:
  "b \<noteq> b' \<Longrightarrow> CHR '':'' \<notin> set (fst (snd b)) \<Longrightarrow> CHR '':'' \<notin> set (fst (snd b')) \<Longrightarrow>
   rl_count (kv(rl_kv_key b \<mapsto> v)) b' = rl_count kv b'"
  using rl_kv_key_inject [of b b'] by (auto simp: rl_count_def)

definition admitted :: "RateLimitResult \<Rightarrow> bool" where
  "admitted res = (case res of RL_ok _ \<Rightarrow> True | RL_reject _ \<Rightarrow> False)"

lemma rl_run_Cons:
  "snd (rl_run kv (r # rs)) =
     (if admitted (snd (rl_handle kv r)) then [r] else []) @ snd (rl_run (fst (rl_handle kv r)) rs)"
  by (simp add: admitted_def split: prod.split RateLimitResult.split)

text \<open>One request on its own bucket counts and is admitted exactly below the limit ...\<close>
lemma rl_handle_same:
  assumes "rl_count kv (rl_bucket r) = Some c"
  shows "admitted (snd (rl_handle kv r)) \<longleftrightarrow> c < rq_limit r"
    and "rl_count (fst (rl_handle kv r)) (rl_bucket r) = Some (if c < rq_limit r then c + 1 else c)"
  using assms by (simp_all add: rl_handle_eq admitted_def rl_count_upd_same)

text \<open>... and leaves every other bucket alone.\<close>
lemma rl_handle_other:
  assumes "rl_bucket r \<noteq> b" "CHR '':'' \<notin> set (rq_key r)" "CHR '':'' \<notin> set (fst (snd b))"
  shows "rl_count (fst (rl_handle kv r)) b = rl_count kv b"
proof -
  have "CHR '':'' \<notin> set (fst (snd (rl_bucket r)))" using assms by (simp add: rl_bucket_def)
  from rl_count_upd_other [OF assms(1) this assms(3)] show ?thesis
    by (simp add: rl_handle_eq split: option.split)
qed

lemma rl_run_admits:
  assumes "\<forall>r \<in> set rs. CHR '':'' \<notin> set (rq_key r)" "CHR '':'' \<notin> set (fst (snd b))"
    and "\<forall>r \<in> set rs. rl_bucket r = b \<longrightarrow> rq_limit r = L" "rl_count kv b = Some c"
  shows "length (filter (\<lambda>r. rl_bucket r = b) (snd (rl_run kv rs))) =
     min (length (filter (\<lambda>r. rl_bucket r = b) rs)) (nat (L - c))"
  using assms
proof (induction rs arbitrary: kv c)
  case (Cons r rs)
  show ?case
  proof (cases "rl_bucket r = b")
    case True
    with Cons.prems have c: "rl_count kv (rl_bucket r) = Some c" "rq_limit r = L" by auto
    from rl_handle_same [OF c(1)] c(2) True Cons.IH [of "fst (rl_handle kv r)"] Cons.prems(1-3)
    show ?thesis by (cases "c < L") (simp_all add: rl_run_Cons del: rl_run.simps)
  next
    case False
    with rl_handle_other [of r b kv] Cons.IH [of "fst (rl_handle kv r)" c] Cons.prems
    show ?thesis by (simp add: rl_run_Cons del: rl_run.simps)
  qed
qed simp



end
