(* ===== verification/MailState.thy ===== *)
theory MailState
  imports Prelude
begin

text \<open>
  The D1 tables that several requests update at once: the idempotency keys
  (\<^verbatim>\<open>services/api/src/idempotency-d1.ts\<close> and the claim functions of
  \<^verbatim>\<open>packages/pipeline/src/process-message.ts\<close>), the UID and change counters with the per-mailbox state rows
  and the reference-counted purge of \<^verbatim>\<open>services/api/src/lib/state.ts\<close>.

  One SQL statement is one atomic function on a table; a routine is a sequence of such statements with other
  requests' statements in between. A statement may also fail before it has an effect, or take effect and lose its
  answer; the sources catch both as \<^verbatim>\<open>null\<close>.
\<close>

section \<open>Idempotency claims\<close>

record idem_row =
  ik_principal_id :: string
  ik_key :: string
  ik_mailbox_id :: string
  ik_message_id :: "string option"
  ik_claim_locked :: bool
  ik_created_at :: string

record IdemClaim =
  ic_first :: bool
  ic_messageId :: "string option"

text \<open>The primary key of \<^verbatim>\<open>idempotency_keys\<close>.\<close>
definition idem_pk :: "idem_row \<Rightarrow> (string \<times> string) option" where
  "idem_pk r = Some (ik_principal_id r, ik_key r)"

definition idem_lookup :: "string \<Rightarrow> string \<Rightarrow> idem_row list \<Rightarrow> idem_row option" where
  "idem_lookup p k t = find (\<lambda>r. ik_principal_id r = p \<and> ik_key r = k) t"

text \<open>\<^verbatim>\<open>INSERT OR IGNORE INTO idempotency_keys ... RETURNING key\<close>\<close>
definition idem_insert ::
  "bool \<Rightarrow> string \<Rightarrow> string \<Rightarrow> string \<Rightarrow> string \<Rightarrow> idem_row list \<Rightarrow> idem_row list \<times> bool" where
  "idem_insert locked key mailboxId principalId created t =
     insert_or_ignore idem_pk
       \<lparr> ik_principal_id = principalId, ik_key = key, ik_mailbox_id = mailboxId, ik_message_id = None,
         ik_claim_locked = locked, ik_created_at = created \<rparr> t"

definition tryClaim ::
  "string \<Rightarrow> string \<Rightarrow> string \<Rightarrow> string \<Rightarrow> idem_row list \<Rightarrow> idem_row list \<times> (string + IdemClaim)" where
  "tryClaim key mailboxId principalId created t =
     (if key = [] then (t, Inl ''idempotency key required'')
      else if principalId = [] then (t, Inl ''principal id required for idempotency claim'')
      else case idem_insert False key mailboxId principalId created t of
        (t', True) \<Rightarrow> (t', Inr \<lparr> ic_first = True, ic_messageId = None \<rparr>)
      | (t', False) \<Rightarrow> (t', Inr \<lparr> ic_first = False,
            ic_messageId = Option.bind (idem_lookup principalId key t') ik_message_id \<rparr>))"

definition recordClaim :: "string \<Rightarrow> string \<Rightarrow> string \<Rightarrow> idem_row list \<Rightarrow> idem_row list" where
  "recordClaim principalId key messageId t =
     map (\<lambda>r. if ik_principal_id r = principalId \<and> ik_key r = key \<and> ik_message_id r = None
              then r\<lparr>ik_message_id := Some messageId\<rparr> else r) t"

text \<open>The pipeline's variants: the claim is locked, and a loser polls for the winner's message id. The argument of
  \<open>poll_claim\<close> is the table as each poll finds it.\<close>
fun poll_claim :: "string \<Rightarrow> string \<Rightarrow> idem_row list list \<Rightarrow> IdemClaim" where
  "poll_claim p k [] = \<lparr> ic_first = False, ic_messageId = None \<rparr>"
| "poll_claim p k (t # ts) =
     (case idem_lookup p k t of
        None \<Rightarrow> poll_claim p k ts
      | Some r \<Rightarrow>
          (case ik_message_id r of
             Some (c # m) \<Rightarrow> \<lparr> ic_first = False, ic_messageId = Some (c # m) \<rparr>
           | _ \<Rightarrow> if \<not> ik_claim_locked r then \<lparr> ic_first = False, ic_messageId = None \<rparr>
                  else poll_claim p k ts))"

definition pipeline_tryClaim ::
  "(nat \<Rightarrow> idem_row list \<Rightarrow> idem_row list) \<Rightarrow> string \<Rightarrow> string \<Rightarrow> string \<Rightarrow> string \<Rightarrow> idem_row list
     \<Rightarrow> idem_row list \<times> (string + IdemClaim)" where
  "pipeline_tryClaim others key mailboxId principalId created t =
     (if principalId = [] then (t, Inl ''principal id required for idempotency claim'')
      else case idem_insert True key mailboxId principalId created t of
        (t', True) \<Rightarrow> (t', Inr \<lparr> ic_first = True, ic_messageId = None \<rparr>)
      | (t', False) \<Rightarrow>
          (let ts = map (\<lambda>n. foldl (\<lambda>t i. others i t) t' [0 ..< Suc n]) [0 ..< 5]
           in (last ts, Inr (poll_claim principalId key ts))))"

definition pipeline_recordClaim :: "string \<Rightarrow> string \<Rightarrow> string \<Rightarrow> idem_row list \<Rightarrow> idem_row list" where
  "pipeline_recordClaim principalId key messageId t =
     map (\<lambda>r. if ik_principal_id r = principalId \<and> ik_key r = key \<and> ik_message_id r = None
              then r\<lparr>ik_message_id := Some messageId, ik_claim_locked := False\<rparr> else r) t"

text \<open>A history: the insert and update statements of any number of requests in the order the database runs them,
  with the claims that won.\<close>
datatype idem_op =
    Op_claim bool string string string string \<comment> \<open>locked, principal, key, mailbox, time\<close>
  | Op_record bool string string string \<comment> \<open>by the pipeline, principal, key, message id\<close>

fun idem_run :: "idem_op list \<Rightarrow> idem_row list \<Rightarrow> idem_row list \<times> (string \<times> string) list" where
  "idem_run [] t = (t, [])"
| "idem_run (Op_claim locked p k mb created # ops) t =
     (case idem_insert locked k mb p created t of (t', won) \<Rightarrow>
        (case idem_run ops t' of (t'', ws) \<Rightarrow> (t'', if won then (p, k) # ws else ws)))"
| "idem_run (Op_record pipe p k m # ops) t =
     idem_run ops ((if pipe then pipeline_recordClaim else recordClaim) p k m t)"

fun op_claims :: "string \<Rightarrow> string \<Rightarrow> idem_op \<Rightarrow> bool" where
  "op_claims p k (Op_claim _ p' k' _ _) = (p' = p \<and> k' = k)"
| "op_claims p k (Op_record _ _ _ _) = False"

lemma find_append_eq: "find P (xs @ ys) = (case find P xs of Some x \<Rightarrow> Some x | None \<Rightarrow> find P ys)"
  by (induction xs) auto

lemma idem_insert_iff: "snd (idem_insert locked k mb p created t) \<longleftrightarrow> idem_lookup p k t = None"
  by (auto simp: idem_insert_def insert_or_ignore_def idem_pk_def idem_lookup_def find_None_iff)

lemma idem_lookup_append: "idem_lookup p k (t @ u) = (case idem_lookup p k t of Some r \<Rightarrow> Some r | None \<Rightarrow> idem_lookup p k u)"
  unfolding idem_lookup_def by (rule find_append_eq)

lemma idem_lookup_insert:
  "idem_lookup p' k' (fst (idem_insert locked k mb p created t)) =
     (case idem_lookup p' k' t of
        Some r \<Rightarrow> Some r
      | None \<Rightarrow> if p' = p \<and> k' = k
                then Some \<lparr> ik_principal_id = p, ik_key = k, ik_mailbox_id = mb, ik_message_id = None,
                            ik_claim_locked = locked, ik_created_at = created \<rparr>
                else None)"
proof (cases "idem_lookup p k t")
  case None
  then have "fst (idem_insert locked k mb p created t) =
      t @ [\<lparr> ik_principal_id = p, ik_key = k, ik_mailbox_id = mb, ik_message_id = None,
             ik_claim_locked = locked, ik_created_at = created \<rparr>]"
    using idem_insert_iff [of locked k mb p created t]
    by (auto simp: idem_insert_def insert_or_ignore_def split: if_splits)
  moreover have "idem_lookup p' k' [\<lparr> ik_principal_id = p, ik_key = k, ik_mailbox_id = mb, ik_message_id = None,
             ik_claim_locked = locked, ik_created_at = created \<rparr>] = (if p' = p \<and> k' = k
                then Some \<lparr> ik_principal_id = p, ik_key = k, ik_mailbox_id = mb, ik_message_id = None,
                            ik_claim_locked = locked, ik_created_at = created \<rparr> else None)"
    by (auto simp: idem_lookup_def)
  ultimately show ?thesis by (simp only: idem_lookup_append)
next
  case (Some r)
  then have "fst (idem_insert locked k mb p created t) = t"
    using idem_insert_iff [of locked k mb p created t]
    by (auto simp: idem_insert_def insert_or_ignore_def split: if_splits)
  with Some show ?thesis by (auto split: option.split)
qed

lemma idem_lookup_record:
  "idem_lookup p' k' (recordClaim p k m t) =
     map_option (\<lambda>r. if p' = p \<and> k' = k \<and> ik_message_id r = None then r\<lparr>ik_message_id := Some m\<rparr> else r) (idem_lookup p' k' t)"
  "idem_lookup p' k' (pipeline_recordClaim p k m t) =
     map_option (\<lambda>r. if p' = p \<and> k' = k \<and> ik_message_id r = None
       then r\<lparr>ik_message_id := Some m, ik_claim_locked := False\<rparr> else r) (idem_lookup p' k' t)"
  by (induction t) (auto simp: idem_lookup_def recordClaim_def pipeline_recordClaim_def)

text \<open>Once there, a row stays, and its message id is never overwritten.\<close>
lemma idem_run_stable:
  "idem_lookup p k t = Some r \<Longrightarrow>
   \<exists>r'. idem_lookup p k (fst (idem_run ops t)) = Some r' \<and> (\<forall>m. ik_message_id r = Some m \<longrightarrow> ik_message_id r' = Some m)"
proof (induction ops t arbitrary: r rule: idem_run.induct)
  case (2 locked q k' mb created ops t)
  obtain t' won where i: "idem_insert locked k' mb q created t = (t', won)" by fastforce
  have "idem_lookup p k t' = Some r" using idem_lookup_insert [of p k locked k' mb q created t] 2(2) i by simp
  from 2(1) [OF i [symmetric] this] show ?case by (cases "idem_run ops t'") (simp add: i)
next
  case (3 pipe q k' m ops t)
  obtain r1 where r1: "idem_lookup p k ((if pipe then pipeline_recordClaim else recordClaim) q k' m t) = Some r1"
      "\<forall>m. ik_message_id r = Some m \<longrightarrow> ik_message_id r1 = Some m"
    using 3(2) by (cases pipe) (auto simp: idem_lookup_record)
  with 3(1) [OF r1(1)] show ?case by auto
qed auto

lemma idem_run_no_winner:
  "idem_lookup p k t \<noteq> None \<Longrightarrow> (p, k) \<notin> set (snd (idem_run ops t))"
proof (induction ops t rule: idem_run.induct)
  case (2 locked q k' mb created ops t)
  obtain t' won where i: "idem_insert locked k' mb q created t = (t', won)" by fastforce
  have "idem_lookup p k t' \<noteq> None"
    using idem_lookup_insert [of p k locked k' mb q created t] 2(2) i by (auto split: option.splits)
  moreover have "(p, k) \<noteq> (q, k')" if won using idem_insert_iff [of locked k' mb q created t] i that 2(2) by auto
  ultimately show ?case using 2(1) [OF i [symmetric]] by (auto simp: i split: prod.splits)
next
  case (3 pipe q k' m ops t)
  then show ?case by (cases pipe) (auto simp: idem_lookup_record)
qed simp

lemma idem_run_winners:
  "idem_lookup p k t = None \<Longrightarrow>
   length (filter (\<lambda>w. w = (p, k)) (snd (idem_run ops t))) = (if list_ex (op_claims p k) ops then 1 else 0)"
proof (induction ops t rule: idem_run.induct)
  case (2 locked q k' mb created ops t)
  obtain t' won where i: "idem_insert locked k' mb q created t = (t', won)" by fastforce
  show ?case
  proof (cases "(p, k) = (q, k')")
    case True
    then have w: "won" using idem_insert_iff [of locked k' mb q created t] i 2(2) by auto
    have "idem_lookup p k t' \<noteq> None"
      using idem_lookup_insert [of p k locked k' mb q created t] 2(2) i True by auto
    then have "(p, k) \<notin> set (snd (idem_run ops t'))" by (rule idem_run_no_winner)
    with True w show ?thesis by (auto simp: i filter_empty_conv split: prod.splits)
  next
    case False
    then have "idem_lookup p k t' = None"
      using idem_lookup_insert [of p k locked k' mb q created t] 2(2) i by auto
    with 2(1) [OF i [symmetric]] False show ?thesis by (auto simp: i split: prod.splits)
  qed
next
  case (3 pipe q k' m ops t)
  then show ?case by (cases pipe) (auto simp: idem_lookup_record)
qed simp



text \<open>A loser that is told a message id is told the recorded one: if the statements running during the polls are a
  history, the answer is what the table holds at the end.\<close>
lemma poll_claim_sound:
  assumes "ic_messageId (poll_claim p k ts) = Some m"
  shows "\<exists>t \<in> set ts. \<exists>r. idem_lookup p k t = Some r \<and> ik_message_id r = Some m"
  using assms by (induction ts) (auto split: option.splits list.splits if_splits)

section \<open>Counters\<close>

text \<open>\<open>mailbox_uid_counter\<close> maps a mailbox to the next UID and the UID validity; \<open>mailbox_change_counter\<close> has only
  the next value (payload \<^typ>\<open>unit\<close>).\<close>
type_synonym 'v counters = "string \<Rightarrow> (int \<times> 'v) option"

datatype fault = No_fault | Failed | Answer_lost

definition exec :: "fault \<Rightarrow> ('t \<Rightarrow> 't \<times> 'r option) \<Rightarrow> 't \<Rightarrow> 't \<times> 'r option" where
  "exec f stmt t = (case f of No_fault \<Rightarrow> stmt t | Failed \<Rightarrow> (t, None) | Answer_lost \<Rightarrow> (fst (stmt t), None))"

text \<open>\<^verbatim>\<open>UPDATE ... SET next = next + 1 WHERE mailbox_id = ? RETURNING next, ...\<close>\<close>
definition bump :: "string \<Rightarrow> 'v counters \<Rightarrow> 'v counters \<times> (int \<times> 'v) option" where
  "bump m t = (case t m of None \<Rightarrow> (t, None) | Some (n, v) \<Rightarrow> (t(m \<mapsto> (n + 1, v)), Some (n + 1, v)))"

text \<open>\<^verbatim>\<open>INSERT OR IGNORE ... VALUES (?, 2, ...) RETURNING ...\<close>\<close>
definition seed :: "string \<Rightarrow> 'v \<Rightarrow> 'v counters \<Rightarrow> 'v counters \<times> 'v option" where
  "seed m v t = (case t m of Some _ \<Rightarrow> (t, None) | None \<Rightarrow> (t(m \<mapsto> (2, v)), Some v))"

datatype 'v alloc_phase = Try_update | Try_insert | Retry_update | Allocated int 'v | Alloc_threw

text \<open>The three statements of the allocation routines, one at a time.\<close>
fun alloc_next :: "fault \<Rightarrow> string \<Rightarrow> 'v \<Rightarrow> 'v alloc_phase \<Rightarrow> 'v counters \<Rightarrow> 'v counters \<times> 'v alloc_phase" where
  "alloc_next f m v0 Try_update t =
     (case exec f (bump m) t of
        (t', Some (n, v)) \<Rightarrow> (t', Allocated (n - 1) v)
      | (t', None) \<Rightarrow> (t', Try_insert))"
| "alloc_next f m v0 Try_insert t =
     (case exec f (seed m v0) t of
        (t', Some v) \<Rightarrow> (t', Allocated 1 v)
      | (t', None) \<Rightarrow> (t', Retry_update))"
| "alloc_next f m v0 Retry_update t =
     (case exec f (bump m) t of
        (t', Some (n, v)) \<Rightarrow> (t', Allocated (n - 1) v)
      | (t', None) \<Rightarrow> (t', Alloc_threw))"
| "alloc_next f m v0 (Allocated n v) t = (t, Allocated n v)"
| "alloc_next f m v0 Alloc_threw t = (t, Alloc_threw)"

text \<open>A whole call; \<open>others i\<close> is what other requests do before statement \<open>i\<close>.\<close>
definition allocate ::
  "(nat \<Rightarrow> 'v counters \<Rightarrow> 'v counters) \<Rightarrow> (nat \<Rightarrow> fault) \<Rightarrow> string \<Rightarrow> 'v \<Rightarrow> 'v counters \<Rightarrow> 'v counters \<times> 'v alloc_phase" where
  "allocate others fs m v0 t =
     foldl (\<lambda>(t, ph) i. case ph of
              Allocated n v \<Rightarrow> (t, ph)
            | Alloc_threw \<Rightarrow> (t, ph)
            | _ \<Rightarrow> alloc_next (fs i) m v0 ph (others i t)) (t, Try_update) [0, 1, 2]"

definition allocateUid ::
  "(nat \<Rightarrow> int counters \<Rightarrow> int counters) \<Rightarrow> (nat \<Rightarrow> fault) \<Rightarrow> string \<Rightarrow> int \<Rightarrow> int counters \<Rightarrow> int counters \<times> (string + (int \<times> int))" where
  "allocateUid others fs mailboxId nowMs t =
     (case allocate others fs mailboxId (nowMs div 1000) t of
        (t', Allocated uid v) \<Rightarrow> (t', Inr (uid, v))
      | (t', _) \<Rightarrow> (t', Inl ''uid allocation lost both insert and update races''))"

definition allocateChangeId ::
  "(nat \<Rightarrow> unit counters \<Rightarrow> unit counters) \<Rightarrow> (nat \<Rightarrow> fault) \<Rightarrow> string \<Rightarrow> unit counters \<Rightarrow> unit counters \<times> (string + int)" where
  "allocateChangeId others fs mailboxId t =
     (case allocate others fs mailboxId () t of
        (t', Allocated n _) \<Rightarrow> (t', Inr n)
      | (t', _) \<Rightarrow> (t', Inl ''change_id allocation lost both insert and update races''))"

text \<open>Any number of allocations at once: each process works for a mailbox, and a step runs one statement of one
  process.\<close>
record 'v alloc_world =
  aw_table :: "'v counters"
  aw_procs :: "nat \<Rightarrow> (string \<times> 'v \<times> 'v alloc_phase) option"

inductive alloc_step :: "'v alloc_world \<Rightarrow> 'v alloc_world \<Rightarrow> bool" where
  Alloc_start: "aw_procs w i = None \<Longrightarrow>
    alloc_step w (w\<lparr>aw_procs := (aw_procs w)(i \<mapsto> (m, v0, Try_update))\<rparr>)"
| Alloc_run: "aw_procs w i = Some (m, v0, ph) \<Longrightarrow> alloc_next f m v0 ph (aw_table w) = (t', ph') \<Longrightarrow>
    alloc_step w (w\<lparr>aw_table := t', aw_procs := (aw_procs w)(i \<mapsto> (m, v0, ph'))\<rparr>)"

definition alloc_reach :: "'v alloc_world \<Rightarrow> bool" where
  "alloc_reach w = alloc_step\<^sup>*\<^sup>* \<lparr>aw_table = Map.empty, aw_procs = Map.empty\<rparr> w"

text \<open>What holds of every allocated number: it lies below the counter of its mailbox and carries its validity, and no
  two processes hold the same one.\<close>
definition alloc_inv :: "'v alloc_world \<Rightarrow> bool" where
  "alloc_inv w =
     ((\<forall>i m v0 n v. aw_procs w i = Some (m, v0, Allocated n v) \<longrightarrow>
         (\<exists>c. aw_table w m = Some (c, v) \<and> 1 \<le> n \<and> n < c)) \<and>
      (\<forall>i j m v0 v1 n v v'. aw_procs w i = Some (m, v0, Allocated n v) \<longrightarrow>
         aw_procs w j = Some (m, v1, Allocated n v') \<longrightarrow> i = j) \<and>
      (\<forall>m c v. aw_table w m = Some (c, v) \<longrightarrow> 1 \<le> c))"

text \<open>One statement only moves the counter of its own mailbox, forwards, keeping its validity; a number it hands out was
  not below the counter before.\<close>
lemma alloc_next_table:
  assumes "alloc_next f m v0 ph t = (t', ph')" "\<forall>m c v. t m = Some (c, v) \<longrightarrow> 1 \<le> c"
  shows "\<And>m' c v. t m' = Some (c, v) \<Longrightarrow> \<exists>c'. t' m' = Some (c', v) \<and> c \<le> c'"
    and "\<forall>m c v. t' m = Some (c, v) \<longrightarrow> 1 \<le> c"
    and "ph' = Allocated n v \<Longrightarrow> ph = ph' \<and> t' = t \<or>
      (\<exists>c. t' m = Some (c, v) \<and> 1 \<le> n \<and> n < c) \<and> (\<forall>c v. t m = Some (c, v) \<longrightarrow> c \<le> n)"
  using assms
  by (cases ph; cases f; fastforce simp: exec_def bump_def seed_def split: option.splits if_splits prod.splits)+

lemma alloc_inv_step: "alloc_step w w' \<Longrightarrow> alloc_inv w \<Longrightarrow> alloc_inv w'"
proof (induction rule: alloc_step.induct)
  case (Alloc_start w i m v0)
  then show ?case unfolding alloc_inv_def by (simp add: fun_upd_def)
next
  case (Alloc_run w i m v0 ph f t' ph')
  have tb: "\<forall>m c v. aw_table w m = Some (c, v) \<longrightarrow> 1 \<le> c"
    and lo: "\<And>j q u n v. aw_procs w j = Some (q, u, Allocated n v) \<Longrightarrow> \<exists>c. aw_table w q = Some (c, v) \<and> 1 \<le> n \<and> n < c"
    and ne: "\<And>j j' q u u' n v v'. aw_procs w j = Some (q, u, Allocated n v) \<Longrightarrow>
        aw_procs w j' = Some (q, u', Allocated n v') \<Longrightarrow> j = j'"
    using Alloc_run(3) unfolding alloc_inv_def by blast+
  note nx = alloc_next_table [OF Alloc_run(2) tb]
  have lo': "\<exists>c. t' q = Some (c, v) \<and> 1 \<le> n \<and> n < c" if "aw_procs w j = Some (q, u, Allocated n v)" for j q u n v
    using lo [OF that] nx(1) by (metis less_le_trans)
  have own: "(\<exists>c. t' m = Some (c, v) \<and> 1 \<le> n \<and> n < c)" if "ph' = Allocated n v" for n v
    using nx(3) [OF that] lo' [of i m v0 n v] Alloc_run(1) that by blast
  have fresh: "j = i" if "aw_procs w j = Some (m, u, Allocated n v')" "ph' = Allocated n v" for j u n v v'
    using nx(3) [OF that(2)] ne [of j m u n v' i v0 v] lo [OF that(1)] Alloc_run(1) that by fastforce
  show ?case
    unfolding alloc_inv_def
  proof (intro conjI allI impI)
    fix j q u n v
    assume "aw_procs (w\<lparr>aw_table := t', aw_procs := (aw_procs w)(i \<mapsto> (m, v0, ph'))\<rparr>) j = Some (q, u, Allocated n v)"
    then show "\<exists>c. aw_table (w\<lparr>aw_table := t', aw_procs := (aw_procs w)(i \<mapsto> (m, v0, ph'))\<rparr>) q = Some (c, v) \<and> 1 \<le> n \<and> n < c"
      using lo' [of j q u n v] own [of n v] by (auto split: if_splits)
  next
    fix j j' q u u' n v v'
    assume "aw_procs (w\<lparr>aw_table := t', aw_procs := (aw_procs w)(i \<mapsto> (m, v0, ph'))\<rparr>) j = Some (q, u, Allocated n v)"
      "aw_procs (w\<lparr>aw_table := t', aw_procs := (aw_procs w)(i \<mapsto> (m, v0, ph'))\<rparr>) j' = Some (q, u', Allocated n v')"
    then show "j = j'"
      using ne [of j q u n v j' u' v'] fresh [of j u n v v'] fresh [of j' u' n v' v] by (auto split: if_splits)
  qed (use nx(2) in \<open>fastforce\<close>)
qed

lemma alloc_reach_inv: "alloc_reach w \<Longrightarrow> alloc_inv w"
  unfolding alloc_reach_def
  by (induction rule: rtranclp_induct) (simp add: alloc_inv_def, rule alloc_inv_step)

text \<open>C18. However many allocations run at once, whatever statements fail or lose their answer: two processes that
  obtained a number for the same mailbox obtained different numbers and the same UID validity, and every number lies
  between 1 and the counter.\<close>
theorem allocated_numbers_unique:
  assumes "alloc_reach w" "aw_procs w i = Some (m, v0, Allocated n v)" "aw_procs w j = Some (m, v1, Allocated n' v')" "i \<noteq> j"
  shows "n \<noteq> n' \<and> v = v' \<and> 1 \<le> n \<and> (\<exists>c. aw_table w m = Some (c, v) \<and> n < c \<and> n' < c)"
proof -
  have inv: "alloc_inv w" using assms(1) by (rule alloc_reach_inv)
  obtain c where c: "aw_table w m = Some (c, v)" "1 \<le> n" "n < c"
    using inv assms(2) unfolding alloc_inv_def by blast
  obtain c' where c': "aw_table w m = Some (c', v')" "1 \<le> n'" "n' < c'"
    using inv assms(3) unfolding alloc_inv_def by blast
  have "n \<noteq> n'" using inv assms(2-4) unfolding alloc_inv_def by blast
  with c c' show ?thesis by simp
qed

text \<open>A schedule: which process runs its next statement.\<close>
definition alloc_sched1 :: "'v alloc_world \<Rightarrow> nat \<Rightarrow> 'v alloc_world" where
  "alloc_sched1 w i =
     (case aw_procs w i of
        None \<Rightarrow> w
      | Some (m, v0, ph) \<Rightarrow>
          (case alloc_next No_fault m v0 ph (aw_table w) of
             (t', ph') \<Rightarrow> w\<lparr>aw_table := t', aw_procs := (aw_procs w)(i \<mapsto> (m, v0, ph'))\<rparr>))"

lemma alloc_sched_reach: "alloc_reach w \<Longrightarrow> alloc_reach (foldl alloc_sched1 w is)"
proof (induction "is" arbitrary: w)
  case (Cons i "is")
  have "alloc_step\<^sup>*\<^sup>* w (alloc_sched1 w i)"
    unfolding alloc_sched1_def by (auto split: option.splits prod.splits intro!: r_into_rtranclp Alloc_run)
  with Cons.prems have "alloc_reach (alloc_sched1 w i)" unfolding alloc_reach_def by (rule rtranclp_trans)
  with Cons.IH show ?case by simp
qed simp

definition demo_two :: "int alloc_world" where
  "demo_two = \<lparr>aw_table = Map.empty,
     aw_procs = [0 \<mapsto> (''mb'', 7, Try_update), 1 \<mapsto> (''mb'', 9, Try_update)]\<rparr>"

lemma demo_two_reach: "alloc_reach demo_two"
proof -
  have "alloc_step \<lparr>aw_table = Map.empty, aw_procs = Map.empty\<rparr>
      \<lparr>aw_table = Map.empty, aw_procs = [0 \<mapsto> (''mb'', 7::int, Try_update)]\<rparr>"
    using Alloc_start [of "\<lparr>aw_table = Map.empty, aw_procs = Map.empty\<rparr>" 0 "''mb''" "7::int"] by simp
  moreover have "alloc_step \<lparr>aw_table = Map.empty, aw_procs = [0 \<mapsto> (''mb'', 7::int, Try_update)]\<rparr> demo_two"
    using Alloc_start [of "\<lparr>aw_table = Map.empty, aw_procs = [0 \<mapsto> (''mb'', 7::int, Try_update)]\<rparr>" 1 "''mb''" "9::int"]
    by (simp add: demo_two_def)
  ultimately show ?thesis unfolding alloc_reach_def by (meson converse_rtranclp_into_rtranclp r_into_rtranclp)
qed

text \<open>Both processes miss the cold counter; the second loses the insert and retries.\<close>
lemma allocated_numbers_unique_witness:
  "aw_procs (foldl alloc_sched1 demo_two [0, 1, 0, 1, 1]) 0 = Some (''mb'', 7, Allocated 1 7) \<and>
   aw_procs (foldl alloc_sched1 demo_two [0, 1, 0, 1, 1]) 1 = Some (''mb'', 9, Allocated 2 7) \<and> (1::int) \<noteq> 2"
proof -
  let ?w = "foldl alloc_sched1 demo_two [0, 1, 0, 1, 1]"
  have p: "aw_procs ?w 0 = Some (''mb'', 7, Allocated 1 7)" "aw_procs ?w 1 = Some (''mb'', 9, Allocated 2 7)"
    by (simp_all add: demo_two_def alloc_sched1_def exec_def bump_def seed_def)
  have "(1::int) \<noteq> 2"
    using allocated_numbers_unique [OF alloc_sched_reach [OF demo_two_reach] p] by simp
  with p show ?thesis by blast
qed

text \<open>Without statement failures an allocation never throws, as long as the other requests only add or advance
  counters: \<open>allocateUid\<close> returns a UID below the stored counter, which it moved past it.\<close>
theorem allocateUid_total:
  assumes "\<forall>i. fs i = No_fault" "\<forall>i t. t mailboxId \<noteq> None \<longrightarrow> others i t mailboxId \<noteq> None"
  shows "\<exists>uid v. snd (allocateUid others fs mailboxId nowMs t) = Inr (uid, v) \<and>
     fst (allocateUid others fs mailboxId nowMs t) mailboxId = Some (uid + 1, v)"
proof -
  have "\<exists>n v. snd (allocate others fs mailboxId v0 t) = Allocated n v \<and>
      fst (allocate others fs mailboxId v0 t) mailboxId = Some (n + 1, v)" for v0
  proof (cases "others 0 t mailboxId")
    case (Some a)
    then show ?thesis using assms(1) by (cases a) (simp add: allocate_def exec_def bump_def)
  next
    case n0: None
    let ?t1 = "others 1 (others 0 t)"
    show ?thesis
    proof (cases "?t1 mailboxId")
      case None
      then show ?thesis using assms(1) n0 by (simp add: allocate_def exec_def bump_def seed_def)
    next
      case (Some a)
      then obtain n v where "others 2 ?t1 mailboxId = Some (n, v)" using assms(2) by fastforce
      then show ?thesis using assms(1) n0 Some
        by (simp add: allocate_def exec_def bump_def seed_def)
    qed
  qed
  from this [of "nowMs div 1000"] show ?thesis
    by (auto simp: allocateUid_def split: prod.splits alloc_phase.splits)
qed

lemma allocateUid_total_witness:
  "allocateUid (\<lambda>i t. if i = 1 then t(''mb'' \<mapsto> (2, 5)) else t) (\<lambda>_. No_fault) ''mb'' 9000 Map.empty =
     ([''mb'' \<mapsto> (3, 5)], Inr (2, 5)) \<and>
   (\<exists>uid v. snd (allocateUid (\<lambda>i t. if i = 1 then t(''mb'' \<mapsto> (2, 5)) else t) (\<lambda>_. No_fault) ''mb'' 9000 Map.empty) = Inr (uid, v))"
proof -
  have "allocateUid (\<lambda>i t. if i = 1 then t(''mb'' \<mapsto> (2, 5)) else t) (\<lambda>_. No_fault) ''mb'' 9000 Map.empty =
     ([''mb'' \<mapsto> (3, 5)], Inr (2, 5))"
    by (simp add: allocateUid_def allocate_def exec_def bump_def seed_def)
  then show ?thesis
    using allocateUid_total [of "\<lambda>_. No_fault" "''mb''" "\<lambda>i t. if i = 1 then t(''mb'' \<mapsto> (2, 5)) else t" 9000 Map.empty]
    by auto
qed

section \<open>Mailbox state rows\<close>

record MailboxStateRow =
  ms_message_id :: string
  ms_mailbox_id :: string
  ms_read_at :: "string option"
  ms_expunged_at :: "string option"
  ms_flags_json :: string
  ms_uid :: int
  ms_uid_validity :: int
  ms_change_id :: int

record state_db =
  sd_state :: "MailboxStateRow list"
  sd_uid :: "int counters"
  sd_change :: "unit counters"

definition state_pk :: "MailboxStateRow \<Rightarrow> (string \<times> string) option" where
  "state_pk r = Some (ms_mailbox_id r, ms_message_id r)"

definition allocChangeId ::
  "(nat \<Rightarrow> fault) \<Rightarrow> string \<Rightarrow> unit counters \<Rightarrow> unit counters \<times> (string + int)" where
  "allocChangeId fs mailboxId t = allocateChangeId (\<lambda>_ t. t) fs mailboxId t"

definition new_state_row :: "string \<Rightarrow> string \<Rightarrow> int \<Rightarrow> int \<Rightarrow> int \<Rightarrow> MailboxStateRow" where
  "new_state_row mailboxId messageId uid uidValidity changeId =
     \<lparr> ms_message_id = messageId, ms_mailbox_id = mailboxId, ms_read_at = None, ms_expunged_at = None,
       ms_flags_json = ''[]'', ms_uid = uid, ms_uid_validity = uidValidity, ms_change_id = changeId \<rparr>"

text \<open>The plain \<^verbatim>\<open>INSERT INTO mailbox_messages_state\<close>: a second row under the primary key raises.\<close>
definition insert_state :: "MailboxStateRow \<Rightarrow> state_db \<Rightarrow> state_db \<times> (string + unit)" where
  "insert_state r db =
     (if state_pk r \<in> set (map state_pk (sd_state db)) then (db, Inl ''UNIQUE constraint failed'')
      else (db\<lparr>sd_state := sd_state db @ [r]\<rparr>, Inr ()))"

definition allocateInboundState ::
  "(nat \<Rightarrow> fault) \<Rightarrow> (nat \<Rightarrow> fault) \<Rightarrow> int \<Rightarrow> string \<Rightarrow> string \<Rightarrow> state_db \<Rightarrow> state_db \<times> (string + MailboxStateRow)" where
  "allocateInboundState fs gs nowMs mailboxId messageId db =
     (case allocateUid (\<lambda>_ t. t) fs mailboxId nowMs (sd_uid db) of
        (u, Inl e) \<Rightarrow> (db\<lparr>sd_uid := u\<rparr>, Inl e)
      | (u, Inr (uid, uidValidity)) \<Rightarrow>
          (case allocChangeId gs mailboxId (sd_change db) of
             (c, Inl e) \<Rightarrow> (db\<lparr>sd_uid := u, sd_change := c\<rparr>, Inl e)
           | (c, Inr changeId) \<Rightarrow>
               (let r = new_state_row mailboxId messageId uid uidValidity changeId in
                case insert_state r (db\<lparr>sd_uid := u, sd_change := c\<rparr>) of
                  (db', Inl e) \<Rightarrow> (db', Inl e)
                | (db', Inr _) \<Rightarrow> (db', Inr r))))"

definition ensureMailboxState ::
  "(nat \<Rightarrow> fault) \<Rightarrow> (nat \<Rightarrow> fault) \<Rightarrow> int \<Rightarrow> string \<Rightarrow> string \<Rightarrow> state_db \<Rightarrow> state_db \<times> (string + MailboxStateRow)" where
  "ensureMailboxState fs gs nowMs mailboxId messageId db =
     (case find (\<lambda>r. ms_mailbox_id r = mailboxId \<and> ms_message_id r = messageId) (sd_state db) of
        Some r \<Rightarrow> (db, Inr r)
      | None \<Rightarrow> allocateInboundState fs gs nowMs mailboxId messageId db)"

text \<open>What IMAP relies on: rows are unique per message, UIDs unique per mailbox, below the mailbox's counter and
  under its validity.\<close>
definition state_wf :: "state_db \<Rightarrow> bool" where
  "state_wf db =
     (distinct (map state_pk (sd_state db)) \<and>
      distinct (map (\<lambda>r. (ms_mailbox_id r, ms_uid r)) (sd_state db)) \<and>
      (\<forall>r \<in> set (sd_state db). \<exists>c. sd_uid db (ms_mailbox_id r) = Some (c, ms_uid_validity r) \<and> ms_uid r < c) \<and>
      (\<forall>m c v. sd_uid db m = Some (c, v) \<longrightarrow> 1 \<le> c))"

lemma foldl_keeps: "Q s \<Longrightarrow> (\<And>s i. Q s \<Longrightarrow> Q (step s i)) \<Longrightarrow> Q (foldl step s is)"
  by (induction "is" arbitrary: s) auto

lemma allocate_keeps:
  assumes "Q (t, Try_update)" "\<And>f ph u. Q (u, ph) \<Longrightarrow> Q (alloc_next f m v0 ph u)"
  shows "Q (allocate (\<lambda>_ t. t) fs m v0 t)"
  unfolding allocate_def by (rule foldl_keeps) (auto simp: assms simp del: alloc_next.simps split: alloc_phase.split)

text \<open>An allocation on a quiet table: counters only advance, and the number given is a fresh one.\<close>
definition alloc_advances :: "string \<Rightarrow> 'v counters \<Rightarrow> 'v counters \<times> 'v alloc_phase \<Rightarrow> bool" where
  "alloc_advances m t s =
     ((\<forall>m' c v. t m' = Some (c, v) \<longrightarrow> (\<exists>c'. fst s m' = Some (c', v) \<and> c \<le> c')) \<and>
      (\<forall>m c v. fst s m = Some (c, v) \<longrightarrow> 1 \<le> c) \<and>
      (\<forall>n v. snd s = Allocated n v \<longrightarrow> (\<exists>c. fst s m = Some (c, v) \<and> n < c) \<and> (\<forall>c v. t m = Some (c, v) \<longrightarrow> c \<le> n)))"

lemma alloc_advances_next:
  assumes "alloc_advances m t (u, ph)"
  shows "alloc_advances m t (alloc_next f m v0 ph u)"
proof -
  obtain u' ph' where n: "alloc_next f m v0 ph u = (u', ph')" by fastforce
  have up: "\<And>m' c v. t m' = Some (c, v) \<Longrightarrow> \<exists>c'. u m' = Some (c', v) \<and> c \<le> c'"
    and pos: "\<forall>m c v. u m = Some (c, v) \<longrightarrow> 1 \<le> c"
    and own: "\<And>n v. ph = Allocated n v \<Longrightarrow> (\<exists>c. u m = Some (c, v) \<and> n < c) \<and> (\<forall>c v. t m = Some (c, v) \<longrightarrow> c \<le> n)"
    using assms by (simp_all add: alloc_advances_def)
  note nx = alloc_next_table [OF n pos]
  have "\<exists>c'. u' m' = Some (c', v) \<and> c \<le> c'" if "t m' = Some (c, v)" for m' c v
    using up [OF that] nx(1) [of m'] by (meson order_trans)
  moreover have "(\<exists>c. u' m = Some (c, v) \<and> n < c) \<and> (\<forall>c v. t m = Some (c, v) \<longrightarrow> c \<le> n)" if "ph' = Allocated n v" for n v
    using nx(3) [OF that] own [of n v] up [of m] that by (metis order_trans)
  ultimately show ?thesis using nx(2) by (simp add: n alloc_advances_def)
qed

lemma allocate_advances:
  "\<forall>m c v. t m = Some (c, v) \<longrightarrow> 1 \<le> c \<Longrightarrow> alloc_advances m t (allocate (\<lambda>_ t. t) fs m v0 t)"
  by (rule allocate_keeps) (simp add: alloc_advances_def, rule alloc_advances_next)

text \<open>An allocation moves the UID counters forward only, whatever it returns.\<close>
lemma allocateUid_advances:
  assumes "allocateUid (\<lambda>_ t. t) fs m nowMs t = (t', res)" "\<forall>m c v. t m = Some (c, v) \<longrightarrow> 1 \<le> c"
  shows "\<And>m' c v. t m' = Some (c, v) \<Longrightarrow> \<exists>c'. t' m' = Some (c', v) \<and> c \<le> c'"
    and "\<forall>m c v. t' m = Some (c, v) \<longrightarrow> 1 \<le> c"
    and "res = Inr (n, v) \<Longrightarrow> (\<exists>c. t' m = Some (c, v) \<and> n < c) \<and> (\<forall>c v. t m = Some (c, v) \<longrightarrow> c \<le> n)"
proof -
  obtain t1 ph where a: "allocate (\<lambda>_ t. t) fs m (nowMs div 1000) t = (t1, ph)" by fastforce
  have adv: "alloc_advances m t (t1, ph)" using allocate_advances [OF assms(2), of m fs "nowMs div 1000"] a by simp
  have t: "t' = t1" and r: "res = Inr (n, v) \<Longrightarrow> ph = Allocated n v"
    using assms(1) a by (cases ph; auto simp: allocateUid_def)+
  show "\<And>m' c v. t m' = Some (c, v) \<Longrightarrow> \<exists>c'. t' m' = Some (c', v) \<and> c \<le> c'"
    and "\<forall>m c v. t' m = Some (c, v) \<longrightarrow> 1 \<le> c"
    using adv unfolding alloc_advances_def t by simp_all
  show "res = Inr (n, v) \<Longrightarrow> (\<exists>c. t' m = Some (c, v) \<and> n < c) \<and> (\<forall>c v. t m = Some (c, v) \<longrightarrow> c \<le> n)"
    using adv r unfolding alloc_advances_def t by simp
qed

lemma state_wf_counters:
  assumes "state_wf db" "\<And>m' c v. sd_uid db m' = Some (c, v) \<Longrightarrow> \<exists>c'. u m' = Some (c', v) \<and> c \<le> c'"
    and "\<forall>m c v. u m = Some (c, v) \<longrightarrow> 1 \<le> c"
  shows "state_wf (db\<lparr>sd_uid := u, sd_change := ch\<rparr>)"
  using assms unfolding state_wf_def by simp (meson less_le_trans)

lemma state_wf_insert:
  assumes "state_wf db" "state_pk r \<notin> set (map state_pk (sd_state db))"
    and "sd_uid db (ms_mailbox_id r) = Some (c, ms_uid_validity r)" "ms_uid r < c"
    and "\<forall>x \<in> set (sd_state db). ms_mailbox_id x = ms_mailbox_id r \<longrightarrow> ms_uid x \<noteq> ms_uid r"
  shows "state_wf (db\<lparr>sd_state := sd_state db @ [r]\<rparr>)"
  using assms unfolding state_wf_def by auto

lemma allocateInboundState_wf:
  assumes wf: "state_wf db"
  shows "state_wf (fst (allocateInboundState fs gs nowMs mb msg db))"
proof -
  obtain u ur where u: "allocateUid (\<lambda>_ t. t) fs mb nowMs (sd_uid db) = (u, ur)" by fastforce
  obtain ch cr where c: "allocChangeId gs mb (sd_change db) = (ch, cr)" by fastforce
  note adv = allocateUid_advances [OF u]
  have pos: "\<forall>m c v. sd_uid db m = Some (c, v) \<longrightarrow> 1 \<le> c" using wf by (simp add: state_wf_def)
  have wf1: "state_wf (db\<lparr>sd_uid := u, sd_change := ch'\<rparr>)" for ch'
    by (rule state_wf_counters [OF wf adv(1,2) [OF pos]])
  show ?thesis
  proof (cases ur)
    case (Inl e)
    with u wf1 [of "sd_change db"] show ?thesis by (simp add: allocateInboundState_def)
  next
    case (Inr a)
    then obtain uid v where ur: "ur = Inr (uid, v)" by (cases a) auto
    obtain k where k: "u mb = Some (k, v)" "uid < k" "\<And>c v. sd_uid db mb = Some (c, v) \<Longrightarrow> c \<le> uid"
      using adv(3) [OF pos ur] by blast
    have "state_wf (fst (insert_state (new_state_row mb msg uid v n) (db\<lparr>sd_uid := u, sd_change := ch\<rparr>)))" for n
    proof (cases "state_pk (new_state_row mb msg uid v n) \<in> set (map state_pk (sd_state db))")
      case True
      then show ?thesis using wf1 [of ch] by (simp add: insert_state_def)
    next
      case False
      have "\<forall>x \<in> set (sd_state db). ms_mailbox_id x = mb \<longrightarrow> ms_uid x \<noteq> uid"
        using wf k(3) unfolding state_wf_def by fastforce
      with False k(1,2) show ?thesis
        using state_wf_insert [OF wf1 [of ch], of "new_state_row mb msg uid v n" k]
        by (auto simp: insert_state_def new_state_row_def)
    qed
    with u c ur wf1 [of ch] show ?thesis
      by (auto simp: allocateInboundState_def Let_def split: prod.splits sum.splits) (metis fst_conv)+
  qed
qed

text \<open>Every state allocation, from the API or the inbound pipeline and whatever statements fail, keeps the
  mailbox tables well formed: one row per message, no UID used twice in a mailbox, every UID below the mailbox's
  counter and under its validity. A successful \<open>ensureMailboxState\<close> is idempotent: asked again it returns the same
  row and changes nothing.\<close>
theorem ensureMailboxState_wf_idempotent:
  assumes "state_wf db"
  shows "state_wf (fst (ensureMailboxState fs gs nowMs mb msg db)) \<and>
     (snd (ensureMailboxState fs gs nowMs mb msg db) = Inr r \<longrightarrow>
        ensureMailboxState fs' gs' nowMs' mb msg (fst (ensureMailboxState fs gs nowMs mb msg db)) =
          (fst (ensureMailboxState fs gs nowMs mb msg db), Inr r))"
proof (cases "find (\<lambda>r. ms_mailbox_id r = mb \<and> ms_message_id r = msg) (sd_state db)")
  case (Some x)
  then show ?thesis using assms by (simp add: ensureMailboxState_def)
next
  case None
  have new: "find (\<lambda>r. ms_mailbox_id r = mb \<and> ms_message_id r = msg) (sd_state db') = Some r"
    if "allocateInboundState fs gs nowMs mb msg db = (db', Inr r)" for db'
    using that None
    by (auto simp: allocateInboundState_def insert_state_def new_state_row_def Let_def find_append_eq
      split: prod.splits sum.splits if_splits)
  show ?thesis
    using allocateInboundState_wf [OF assms, of fs gs nowMs mb msg] new None
    by (cases "allocateInboundState fs gs nowMs mb msg db") (simp add: ensureMailboxState_def)
qed

lemma ensureMailboxState_wf_idempotent_witness:
  "state_wf \<lparr>sd_state = [], sd_uid = Map.empty, sd_change = Map.empty\<rparr> \<and>
   ensureMailboxState (\<lambda>_. Failed) (\<lambda>_. Failed) 9000 ''mb'' ''m1''
     \<lparr>sd_state = [new_state_row ''mb'' ''m1'' 1 7 1], sd_uid = [''mb'' \<mapsto> (2, 7)], sd_change = [''mb'' \<mapsto> (2, ())]\<rparr> =
     (\<lparr>sd_state = [new_state_row ''mb'' ''m1'' 1 7 1], sd_uid = [''mb'' \<mapsto> (2, 7)], sd_change = [''mb'' \<mapsto> (2, ())]\<rparr>,
      Inr (new_state_row ''mb'' ''m1'' 1 7 1))"
proof -
  let ?db = "\<lparr>sd_state = [], sd_uid = Map.empty, sd_change = Map.empty\<rparr>"
  have wf: "state_wf ?db" by (simp add: state_wf_def)
  moreover have "ensureMailboxState (\<lambda>_. No_fault) (\<lambda>_. No_fault) 7000 ''mb'' ''m1'' ?db =
     (\<lparr>sd_state = [new_state_row ''mb'' ''m1'' 1 7 1], sd_uid = [''mb'' \<mapsto> (2, 7)], sd_change = [''mb'' \<mapsto> (2, ())]\<rparr>,
      Inr (new_state_row ''mb'' ''m1'' 1 7 1))"
    by (simp add: ensureMailboxState_def allocateInboundState_def allocateUid_def allocChangeId_def
      allocateChangeId_def allocate_def exec_def bump_def seed_def insert_state_def Let_def)
  ultimately show ?thesis
    using ensureMailboxState_wf_idempotent [OF wf, of "\<lambda>_. No_fault" "\<lambda>_. No_fault" 7000 "''mb''" "''m1''"
      "new_state_row ''mb'' ''m1'' 1 7 1" "\<lambda>_. Failed" "\<lambda>_. Failed" 9000] by simp
qed

section \<open>Reference-counted purge\<close>

text \<open>The message rows as pairs of id and R2 key, and the set of stored objects. \<open>select_fails\<close> is an error of the
  reference query, which the code reads as ``no other reference''.\<close>
definition purgeMessageRow ::
  "bool \<Rightarrow> bool \<Rightarrow> string \<times> string \<Rightarrow> (string \<times> string) list \<Rightarrow> (string \<Rightarrow> bool)
     \<Rightarrow> (string \<times> string) list \<times> (string \<Rightarrow> bool) \<times> bool" where
  "purgeMessageRow select_fails delete_fails row msgs r2 =
     (let other = (\<not> select_fails \<and> list_ex (\<lambda>(i, k). k = snd row \<and> i \<noteq> fst row) msgs);
          r2Deleted = (\<not> other \<and> \<not> delete_fails);
          r2' = (if r2Deleted then r2(snd row := False) else r2)
      in (filter (\<lambda>(i, k). i \<noteq> fst row) msgs, r2', r2Deleted))"

definition bodies_stored :: "(string \<times> string) list \<Rightarrow> (string \<Rightarrow> bool) \<Rightarrow> bool" where
  "bodies_stored msgs r2 = (\<forall>(i, k) \<in> set msgs. r2 k)"

text \<open>Purging a message never takes the body away from another message that shares it, however the R2 delete goes,
  provided the reference query is answered. If that query fails, the shared body is deleted all the same and every other
  message that refers to it is left without one.\<close>
theorem purge_keeps_shared_bodies:
  assumes "bodies_stored msgs r2"
  shows "(case purgeMessageRow False delete_fails row msgs r2 of (msgs', r2', _) \<Rightarrow> bodies_stored msgs' r2') \<and>
     (i \<noteq> fst row \<longrightarrow> (i, snd row) \<in> set msgs \<longrightarrow>
        (case purgeMessageRow True False row msgs r2 of (msgs', r2', _) \<Rightarrow> \<not> bodies_stored msgs' r2'))"
proof -
  have a: "bodies_stored (filter (\<lambda>(i, k). i \<noteq> fst row) msgs) (r2(snd row := False))"
    if "\<not> list_ex (\<lambda>(i, k). k = snd row \<and> i \<noteq> fst row) msgs"
    using assms that by (fastforce simp: bodies_stored_def list_ex_iff)
  have b: "bodies_stored (filter (\<lambda>(i, k). i \<noteq> fst row) msgs) r2"
    using assms by (auto simp: bodies_stored_def)
  have "case purgeMessageRow False delete_fails row msgs r2 of (msgs', r2', _) \<Rightarrow> bodies_stored msgs' r2'"
    using a b by (simp add: purgeMessageRow_def Let_def)
  moreover have "case purgeMessageRow True False row msgs r2 of (msgs', r2', _) \<Rightarrow> \<not> bodies_stored msgs' r2'"
    if "i \<noteq> fst row" "(i, snd row) \<in> set msgs"
    using that by (auto simp: purgeMessageRow_def Let_def bodies_stored_def)
  ultimately show ?thesis by blast
qed

lemma purge_keeps_shared_bodies_witness:
  "(case purgeMessageRow False False (''a'', ''k'') [(''a'', ''k''), (''b'', ''k'')] (\<lambda>_. True) of
      (msgs', r2', _) \<Rightarrow> bodies_stored msgs' r2') \<and>
   (case purgeMessageRow True False (''a'', ''k'') [(''a'', ''k''), (''b'', ''k'')] (\<lambda>_. True) of
      (msgs', r2', _) \<Rightarrow> \<not> bodies_stored msgs' r2')"
  using purge_keeps_shared_bodies [of "[(''a'', ''k''), (''b'', ''k'')]" "\<lambda>_. True" False "(''a'', ''k'')" "''b''"]
  by (simp add: bodies_stored_def)

end
