(* ===== verification/Secrets.thy ===== *)
theory Secrets
  imports Ids
begin

text \<open>
  Stored secrets and signed links: the base64 codec of the runtime, the PBKDF2 secret hash of
  \<^verbatim>\<open>services/api/src/hashing.ts\<close>, the algorithm dispatch of \<^verbatim>\<open>services/api/src/lib/cred-hash.ts\<close> and the one-click
  unsubscribe tokens of \<^verbatim>\<open>services/api/src/lib/unsub-token.ts\<close>. PBKDF2, bcrypt, HMAC, JSON and random bytes are
  parameters.
\<close>

section \<open>Base64\<close>

definition B64 :: string where
  "B64 = ''ABCDEFGHIJKLMNOPQRSTUVWXYZabcdefghijklmnopqrstuvwxyz0123456789+/''"

definition b64_char :: "nat \<Rightarrow> char" where
  "b64_char d = B64 ! d"

definition b64_val :: "char \<Rightarrow> nat option" where
  "b64_val c = index_of c B64"

text \<open>\<^verbatim>\<open>btoa\<close> on code units below 256.\<close>
fun btoa_codes :: "nat list \<Rightarrow> string" where
  "btoa_codes [] = []"
| "btoa_codes [a] = [b64_char (a div 4), b64_char (a mod 4 * 16), CHR ''='', CHR ''='']"
| "btoa_codes [a, b] = [b64_char (a div 4), b64_char (a mod 4 * 16 + b div 16), b64_char (b mod 16 * 4), CHR ''='']"
| "btoa_codes (a # b # c # r) =
     [b64_char (a div 4), b64_char (a mod 4 * 16 + b div 16), b64_char (b mod 16 * 4 + c div 64), b64_char (c mod 64)]
     @ btoa_codes r"

definition btoa :: "string \<Rightarrow> string" where
  "btoa s = btoa_codes (map of_char s)"

text \<open>\<^verbatim>\<open>atob\<close>: white space is dropped, up to two padding signs are removed when the length is a multiple of four, and
  left-over bits are discarded; \<^const>\<open>None\<close> is the thrown error.\<close>
fun sextets :: "nat list \<Rightarrow> nat list option" where
  "sextets [] = Some []"
| "sextets [_] = None"
| "sextets [p, q] = Some [p * 4 + q div 16]"
| "sextets [p, q, r] = Some [p * 4 + q div 16, q mod 16 * 16 + r div 4]"
| "sextets (p # q # r # s # t) =
     map_option (\<lambda>x. [p * 4 + q div 16, q mod 16 * 16 + r div 4, r mod 4 * 64 + s] @ x) (sextets t)"

definition strip_padding :: "string \<Rightarrow> string" where
  "strip_padding s =
     (if length s mod 4 = 0
      then if ends_with ''=='' s then take (length s - 2) s
           else if ends_with ''='' s then take (length s - 1) s else s
      else s)"

fun all_some :: "'a option list \<Rightarrow> 'a list option" where
  "all_some [] = Some []"
| "all_some (x # xs) = (case x of None \<Rightarrow> None | Some a \<Rightarrow> map_option ((#) a) (all_some xs))"

definition atob :: "string \<Rightarrow> string option" where
  "atob s =
     (case all_some (map b64_val (strip_padding (filter (\<lambda>c. of_char c \<notin> {9, 10, 12, 13, 32::nat}) s))) of
        None \<Rightarrow> None
      | Some ds \<Rightarrow> map_option (map char_of) (sextets ds))"

text \<open>The encoding without its padding, as both callers keep it.\<close>
definition strip_eq :: "string \<Rightarrow> string" where
  "strip_eq s = rev (dropWhile (\<lambda>c. c = CHR ''='') (rev s))"

fun b64_digits :: "nat list \<Rightarrow> nat list" where
  "b64_digits [] = []"
| "b64_digits [a] = [a div 4, a mod 4 * 16]"
| "b64_digits [a, b] = [a div 4, a mod 4 * 16 + b div 16, b mod 16 * 4]"
| "b64_digits (a # b # c # r) = [a div 4, a mod 4 * 16 + b div 16, b mod 16 * 4 + c div 64, c mod 64] @ b64_digits r"

definition b64_pad :: "nat list \<Rightarrow> string" where
  "b64_pad xs = replicate ((3 - length xs mod 3) mod 3) (CHR ''='')"

lemma b64_val_char: "d < 64 \<Longrightarrow> b64_val (b64_char d) = Some d"
proof -
  have "list_all (\<lambda>d. b64_val (b64_char d) = Some d) [0 ..< 64]" by code_simp
  then show "d < 64 \<Longrightarrow> b64_val (b64_char d) = Some d" by (simp add: list_all_iff)
qed

lemma b64_char_plain: "d < 64 \<Longrightarrow> b64_char d \<noteq> CHR ''='' \<and> of_char (b64_char d) \<notin> {9, 10, 12, 13, 32::nat}"
proof -
  have "list_all (\<lambda>d. b64_char d \<noteq> CHR ''='' \<and> of_char (b64_char d) \<notin> {9, 10, 12, 13, 32::nat}) [0 ..< 64]" by code_simp
  then show "d < 64 \<Longrightarrow> b64_char d \<noteq> CHR ''='' \<and> of_char (b64_char d) \<notin> {9, 10, 12, 13, 32::nat}"
    by (simp add: list_all_iff)
qed

lemma btoa_codes_digits: "btoa_codes xs = map b64_char (b64_digits xs) @ b64_pad xs"
  by (induction xs rule: btoa_codes.induct) (auto simp: b64_pad_def numeral_2_eq_2)

lemma b64_digits_less: "list_all (\<lambda>x. x < 256) xs \<Longrightarrow> list_all (\<lambda>d. d < 64) (b64_digits xs)"
  by (induction xs rule: b64_digits.induct) auto

lemma length_b64_digits: "length (b64_digits xs) = (4 * length xs + 2) div 3"
  by (induction xs rule: b64_digits.induct) auto

lemma b64_arith:
  fixes a b c :: nat
  assumes "a < 256" "b < 256" "c < 256"
  shows "a div 4 * 4 + (a mod 4 * 16 + b div 16) div 16 = a" "a div 4 * 4 + a mod 4 * 16 div 16 = a"
    "(a mod 4 * 16 + b div 16) mod 16 * 16 + (b mod 16 * 4 + c div 64) div 4 = b"
    "(a mod 4 * 16 + b div 16) mod 16 * 16 + b mod 16 * 4 div 4 = b"
    "(b mod 16 * 4 + c div 64) mod 4 * 64 + c mod 64 = c"
proof -
  have "b div 16 < 16" "c div 64 < 4" using assms by auto
  then show "a div 4 * 4 + (a mod 4 * 16 + b div 16) div 16 = a" "a div 4 * 4 + a mod 4 * 16 div 16 = a"
    "(a mod 4 * 16 + b div 16) mod 16 * 16 + (b mod 16 * 4 + c div 64) div 4 = b"
    "(a mod 4 * 16 + b div 16) mod 16 * 16 + b mod 16 * 4 div 4 = b"
    "(b mod 16 * 4 + c div 64) mod 4 * 64 + c mod 64 = c"
    by (simp_all add: algebra_simps)
qed

text \<open>Decoding the digits gives the bytes back.\<close>
lemma sextets_digits: "list_all (\<lambda>x. x < 256) xs \<Longrightarrow> sextets (b64_digits xs) = Some xs"
proof (induction xs rule: b64_digits.induct)
  case (2 a)
  then show ?case using b64_arith [of a 0 0] by simp
next
  case (3 a b)
  then show ?case using b64_arith [of a b 0] by simp
next
  case (4 a b c r)
  then show ?case using b64_arith [of a b c] by simp
qed simp

lemma all_some_map: "list_all (\<lambda>d. d < 64) ds \<Longrightarrow> all_some (map b64_val (map b64_char ds)) = Some ds"
  by (induction ds) (auto simp: b64_val_char)

lemma b64_chars_all: "list_all (\<lambda>d. d < 64) ds \<Longrightarrow> (\<And>d. d < 64 \<Longrightarrow> Q (b64_char d)) \<Longrightarrow> c \<in> set (map b64_char ds) \<Longrightarrow> Q c"
  by (auto simp: list_all_iff)

lemma b64_chars_plain:
  assumes "list_all (\<lambda>d. d < 64) ds"
  shows "CHR ''='' \<notin> set (map b64_char ds)" "filter (\<lambda>c. of_char c \<notin> {9, 10, 12, 13, 32::nat}) (map b64_char ds) = map b64_char ds"
proof -
  have all: "c \<noteq> CHR ''='' \<and> of_char c \<notin> {9, 10, 12, 13, 32::nat}" if "c \<in> set (map b64_char ds)" for c
    by (rule b64_chars_all [OF assms _ that]) (rule b64_char_plain)
  show "CHR ''='' \<notin> set (map b64_char ds)" using all by blast
  show "filter (\<lambda>c. of_char c \<notin> {9, 10, 12, 13, 32::nat}) (map b64_char ds) = map b64_char ds"
    using all by (simp only: filter_id_conv) blast
qed

lemma strip_eq_clean:
  assumes "CHR ''='' \<notin> set s"
  shows "strip_eq (s @ replicate n (CHR ''='')) = s"
proof -
  have "dropWhile (\<lambda>c. c = CHR ''='') (replicate n (CHR ''='') @ rev s) = rev s"
  proof (induction n)
    case 0
    show ?case using assms by (cases s rule: rev_cases) auto
  qed simp
  then show ?thesis by (simp add: strip_eq_def)
qed

lemma strip_eq_digits:
  "list_all (\<lambda>d. d < 64) ds \<Longrightarrow> strip_eq (map b64_char ds @ replicate n (CHR ''='')) = map b64_char ds"
  by (intro strip_eq_clean b64_chars_plain(1))

lemma strip_padding_digits:
  assumes "CHR ''='' \<notin> set cs" "length cs mod 4 \<noteq> 1"
  shows "strip_padding (cs @ replicate ((4 - length cs mod 4) mod 4) (CHR ''='')) = cs"
proof -
  have no: "\<not> ends_with ''='' cs" "\<not> ends_with ''=='' cs" "\<not> ends_with ''=='' (cs @ ''='')"
    using assms(1) by (auto simp: ends_with_iff append_eq_append_conv2 append_eq_Cons_conv Cons_eq_append_conv)
  have "length cs mod 4 < 4" by simp
  then consider "length cs mod 4 = 0" | "length cs mod 4 = 2" | "length cs mod 4 = 3"
    using assms(2) by linarith
  then show ?thesis
  proof cases
    case 1
    then show ?thesis using no by (simp add: strip_padding_def)
  next
    case 2
    then have "(length cs + 2) mod 4 = 0" by presburger
    moreover have "ends_with ''=='' (cs @ ''=='')" by (rule ends_with_append)
    ultimately show ?thesis using 2 by (simp add: strip_padding_def numeral_2_eq_2)
  next
    case 3
    then have "(length cs + 1) mod 4 = 0" by presburger
    moreover have "ends_with ''='' (cs @ ''='')" by (rule ends_with_append)
    ultimately show ?thesis using 3 no(3) by (simp add: strip_padding_def)
  qed
qed

text \<open>Stripping the padding and restoring it by length is harmless.\<close>
lemma atob_restored:
  assumes "list_all (\<lambda>x. x < 256) xs"
  shows "strip_eq (btoa_codes xs) = map b64_char (b64_digits xs)"
    and "atob (map b64_char (b64_digits xs) @ replicate ((4 - length (b64_digits xs) mod 4) mod 4) (CHR ''='')) =
      Some (map char_of xs)"
proof -
  note d = b64_digits_less [OF assms]
  show "strip_eq (btoa_codes xs) = map b64_char (b64_digits xs)"
    using strip_eq_digits [OF d] by (simp add: btoa_codes_digits b64_pad_def)
  have "length (b64_digits xs) mod 4 \<noteq> 1" unfolding length_b64_digits by presburger
  then have "strip_padding (map b64_char (b64_digits xs) @ replicate ((4 - length (b64_digits xs) mod 4) mod 4) (CHR ''='')) =
      map b64_char (b64_digits xs)"
    using strip_padding_digits [of "map b64_char (b64_digits xs)"] b64_chars_plain(1) [OF d] by simp
  moreover have "filter (\<lambda>c. of_char c \<notin> {9, 10, 12, 13, 32::nat})
      (map b64_char (b64_digits xs) @ replicate n (CHR ''='')) = map b64_char (b64_digits xs) @ replicate n (CHR ''='')" for n
    using b64_chars_plain(2) [OF d] by (simp add: filter_id_conv)
  ultimately show "atob (map b64_char (b64_digits xs) @ replicate ((4 - length (b64_digits xs) mod 4) mod 4) (CHR ''='')) =
      Some (map char_of xs)"
    unfolding atob_def using all_some_map [OF d] sextets_digits [OF assms] by simp
qed

section \<open>Secret hashes\<close>

definition KDF_ITERATIONS :: nat where "KDF_ITERATIONS = 100000"
definition KDF_OUTLEN :: nat where "KDF_OUTLEN = 32"
definition KDF_SALTLEN :: nat where "KDF_SALTLEN = 16"
definition KDF_ID :: string where "KDF_ID = ''pbkdf2-sha256''"

definition b64enc :: "bytes \<Rightarrow> string" where
  "b64enc bs = strip_eq (btoa (map (\<lambda>b. char_of (unat b)) bs))"

definition b64dec :: "string \<Rightarrow> bytes option" where
  "b64dec s = map_option (map (\<lambda>c. word_of_nat (of_char c)))
     (atob (s @ replicate ((4 - length s mod 4) mod 4) (CHR ''='')))"

text \<open>\<open>pbkdf2 password salt iterations outlen\<close>\<close>
type_synonym kdf = "bytes \<Rightarrow> bytes \<Rightarrow> nat \<Rightarrow> nat \<Rightarrow> bytes"

definition pepper_or_empty :: "string option \<Rightarrow> string" where
  "pepper_or_empty p = (case p of None \<Rightarrow> [] | Some s \<Rightarrow> s)"

definition hashSecret :: "kdf \<Rightarrow> bytes \<Rightarrow> string \<Rightarrow> string option \<Rightarrow> string" where
  "hashSecret pbkdf2 salt plain pepper =
     (let peppered = text_encode (plain @ pepper_or_empty pepper);
          out = pbkdf2 peppered salt KDF_ITERATIONS KDF_OUTLEN
      in ''$'' @ KDF_ID @ ''$i='' @ nat_to_radix 10 KDF_ITERATIONS @ ''$'' @ b64enc salt @ ''$'' @ b64enc out)"

definition verifyPbkdf2 :: "kdf \<Rightarrow> string \<Rightarrow> string \<Rightarrow> string option \<Rightarrow> bool" where
  "verifyPbkdf2 pbkdf2 hash plain pepper =
     (case js_split (CHR ''$'') hash of
        [p0, p1, itersStr, saltB64, expectedB64] \<Rightarrow>
          p0 = [] \<and> p1 = KDF_ID \<and> starts_with ''i='' itersStr \<and>
          (case js_parseInt 10 (drop 2 itersStr) of
             None \<Rightarrow> False
           | Some iters \<Rightarrow>
               0 < iters \<and> iters \<le> 10000000 \<and> saltB64 \<noteq> [] \<and> expectedB64 \<noteq> [] \<and>
               (case (b64dec saltB64, b64dec expectedB64) of
                  (Some salt, Some expected) \<Rightarrow>
                    expected \<noteq> [] \<and>
                    (let computed = pbkdf2 (text_encode (plain @ pepper_or_empty pepper)) salt (nat iters) (length expected)
                     in length computed = length expected \<and>
                        foldl (\<lambda>diff i. diff OR (computed ! i XOR expected ! i)) 0 [0 ..< length computed] = 0)
                | _ \<Rightarrow> False))
      | _ \<Rightarrow> False)"

lemma codes_of_bytes: "map of_char (map (\<lambda>b. char_of (unat b)) bs) = map unat (bs::bytes)"
  by (simp add: unat_byte_less)

lemma b64enc_digits: "b64enc bs = map b64_char (b64_digits (map unat bs))"
  using atob_restored(1) [of "map unat bs"]
  by (simp add: b64enc_def btoa_def list_all_iff comp_def)

lemma b64dec_b64enc: "b64dec (b64enc bs) = Some bs"
proof -
  have "atob (map b64_char (b64_digits (map unat bs)) @
      replicate ((4 - length (b64_digits (map unat bs)) mod 4) mod 4) (CHR ''='')) = Some (map char_of (map unat bs))"
    by (rule atob_restored(2)) (simp add: list_all_iff)
  then show ?thesis unfolding b64dec_def b64enc_digits by (simp add: comp_def)
qed

lemma B64_no_dollar: "d < 64 \<Longrightarrow> b64_char d \<noteq> CHR ''$'' \<and> b64_char d \<noteq> CHR ''.''"
proof -
  have "list_all (\<lambda>d. b64_char d \<noteq> CHR ''$'' \<and> b64_char d \<noteq> CHR ''.'') [0 ..< 64]" by code_simp
  then show "d < 64 \<Longrightarrow> b64_char d \<noteq> CHR ''$'' \<and> b64_char d \<noteq> CHR ''.''" by (simp add: list_all_iff)
qed

lemma b64enc_no_dollar: "CHR ''$'' \<notin> set (b64enc bs)"
proof -
  have "list_all (\<lambda>d. d < 64) (b64_digits (map unat bs))" by (rule b64_digits_less) (simp add: list_all_iff)
  then have "c \<noteq> CHR ''$'' \<and> c \<noteq> CHR ''.''" if "c \<in> set (b64enc bs)" for c
    using that b64_chars_all [of _ "\<lambda>c. c \<noteq> CHR ''$'' \<and> c \<noteq> CHR ''.''"] B64_no_dollar unfolding b64enc_digits by blast
  then show ?thesis by blast
qed

lemma b64enc_eq_Nil: "b64enc bs = [] \<longleftrightarrow> bs = []"
  using b64dec_b64enc [of bs] b64dec_b64enc [of "[]"] by (metis list.map_disc_iff b64_digits.simps(1) b64enc_digits option.inject)

lemma verifyPbkdf2_iff:
  assumes "\<And>p s i n. length (pbkdf2 p s i n) = n" "salt \<noteq> []"
  shows "verifyPbkdf2 pbkdf2 (hashSecret pbkdf2 salt plain pepper) plain' pepper' \<longleftrightarrow>
     pbkdf2 (text_encode (plain' @ pepper_or_empty pepper')) salt KDF_ITERATIONS KDF_OUTLEN =
     pbkdf2 (text_encode (plain @ pepper_or_empty pepper)) salt KDF_ITERATIONS KDF_OUTLEN"
proof -
  define out where "out = pbkdf2 (text_encode (plain @ pepper_or_empty pepper)) salt KDF_ITERATIONS KDF_OUTLEN"
  define out' where "out' = pbkdf2 (text_encode (plain' @ pepper_or_empty pepper')) salt KDF_ITERATIONS KDF_OUTLEN"
  have len: "length out = KDF_OUTLEN" "length out' = KDF_OUTLEN" using assms(1) by (simp_all add: out_def out'_def)
  then have ne: "out \<noteq> []" by (auto simp: KDF_OUTLEN_def)
  let ?it = "''i='' @ nat_to_radix 10 KDF_ITERATIONS"
  have sp: "js_split (CHR ''$'') (hashSecret pbkdf2 salt plain pepper) = [[], KDF_ID, ?it, b64enc salt, b64enc out]"
  proof -
    have h: "hashSecret pbkdf2 salt plain pepper = js_join [CHR ''$''] [[], KDF_ID, ?it, b64enc salt, b64enc out]"
      by (simp add: hashSecret_def Let_def out_def)
    have "CHR ''$'' \<notin> set KDF_ID" by code_simp
    moreover have "CHR ''$'' \<notin> set (nat_to_radix 10 KDF_ITERATIONS)"
    proof -
      have "\<not> is_digit (CHR ''$'')" by code_simp
      then show ?thesis using nat_to_radix_chars [of 10 "CHR ''$''" KDF_ITERATIONS] digit_char_digit by fastforce
    qed
    ultimately have "\<forall>x \<in> set [[], KDF_ID, ?it, b64enc salt, b64enc out]. CHR ''$'' \<notin> set x"
      using b64enc_no_dollar by simp
    then show ?thesis unfolding h by (intro js_split_join) simp_all
  qed
  have pi: "js_parseInt 10 (drop 2 ?it) = Some (int KDF_ITERATIONS)" by (simp add: js_parseInt_nat)
  have st: "starts_with ''i='' ?it" by (rule starts_with_append)
  have n: "nat (int KDF_ITERATIONS) = KDF_ITERATIONS" "0 < int KDF_ITERATIONS" "int KDF_ITERATIONS \<le> 10000000"
    by (simp_all add: KDF_ITERATIONS_def)
  have "verifyPbkdf2 pbkdf2 (hashSecret pbkdf2 salt plain pepper) plain' pepper' \<longleftrightarrow>
      foldl (\<lambda>diff i. diff OR (out' ! i XOR out ! i)) 0 [0 ..< KDF_OUTLEN] = 0"
    unfolding verifyPbkdf2_def sp list.case pi option.case b64dec_b64enc prod.case n(1) Let_def len(1)
    unfolding out'_def [symmetric]
    using assms(2) ne st len n(2,3) by (simp add: b64enc_eq_Nil)
  also have "\<dots> \<longleftrightarrow> (\<forall>i < KDF_OUTLEN. out' ! i = out ! i)"
    using constantTimeEqual_fold [of out' out 0 KDF_OUTLEN] by simp
  also have "\<dots> \<longleftrightarrow> out' = out" using len by (metis nth_equalityI)
  finally show ?thesis by (simp add: out_def out'_def)
qed

text \<open>A stored secret hash verifies exactly the candidates whose key derivation agrees with the original: in
  particular the secret it was made from, under the same pepper.\<close>
theorem verifyPbkdf2_hashSecret:
  assumes "\<And>p s i n. length (pbkdf2 p s i n) = n" "salt \<noteq> []"
  shows "verifyPbkdf2 pbkdf2 (hashSecret pbkdf2 salt plain pepper) plain' pepper' \<longleftrightarrow>
     pbkdf2 (text_encode (plain' @ pepper_or_empty pepper')) salt KDF_ITERATIONS KDF_OUTLEN =
     pbkdf2 (text_encode (plain @ pepper_or_empty pepper)) salt KDF_ITERATIONS KDF_OUTLEN"
  by (rule verifyPbkdf2_iff [OF assms])

lemma verifyPbkdf2_hashSecret_witness:
  "verifyPbkdf2 (\<lambda>p s i n. replicate n 7) (hashSecret (\<lambda>p s i n. replicate n 7) [1, 2, 3] ''s3cret'' None) ''s3cret'' None"
  using verifyPbkdf2_hashSecret [of "\<lambda>p s i n. replicate n 7" "[1, 2, 3]" "''s3cret''" None "''s3cret''" None] by simp

section \<open>Credential hashes\<close>

datatype CredentialType = Cred_imap | Cred_smtp | Cred_rest | Cred_mcp | Cred_cli

definition BCRYPT_COST :: nat where "BCRYPT_COST = 12"

definition usesBcrypt :: "CredentialType \<Rightarrow> bool" where
  "usesBcrypt t = (t = Cred_imap \<or> t = Cred_smtp)"

definition looksLikeBcrypt :: "string \<Rightarrow> bool" where
  "looksLikeBcrypt hash =
     (length hash = 60 \<and> (starts_with ''$2a$'' hash \<or> starts_with ''$2b$'' hash \<or> starts_with ''$2y$'' hash))"

definition looksLikePbkdf2 :: "string \<Rightarrow> bool" where
  "looksLikePbkdf2 hash = starts_with ''$pbkdf2-sha256$'' hash"

text \<open>bcrypt is a third-party package: \<open>bc_compare\<close> is \<^const>\<open>None\<close> when it throws.\<close>
record cred_env =
  ce_bc_hash :: "string \<Rightarrow> nat \<Rightarrow> string"
  ce_bc_compare :: "string \<Rightarrow> string \<Rightarrow> bool option"
  ce_kdf :: kdf
  ce_salt :: bytes
  ce_pepper :: "string option"

definition hashForType :: "cred_env \<Rightarrow> CredentialType \<Rightarrow> string \<Rightarrow> string" where
  "hashForType E t plain =
     (if usesBcrypt t then ce_bc_hash E plain BCRYPT_COST else hashSecret (ce_kdf E) (ce_salt E) plain (ce_pepper E))"

definition verifyHash :: "cred_env \<Rightarrow> string \<Rightarrow> string \<Rightarrow> bool" where
  "verifyHash E storedHash candidate =
     (if storedHash = [] then False
      else if looksLikeBcrypt storedHash
      then (case ce_bc_compare E candidate storedHash of Some b \<Rightarrow> b | None \<Rightarrow> False)
      else if looksLikePbkdf2 storedHash then verifyPbkdf2 (ce_kdf E) storedHash candidate (ce_pepper E)
      else False)"

datatype hash_algo = Algo_bcrypt | Algo_pbkdf2 | Algo_unknown

definition hashAlgo :: "string \<Rightarrow> hash_algo" where
  "hashAlgo storedHash =
     (if looksLikeBcrypt storedHash then Algo_bcrypt
      else if looksLikePbkdf2 storedHash then Algo_pbkdf2 else Algo_unknown)"

text \<open>What the code relies on of bcrypt and PBKDF2.\<close>
definition cred_env_ok :: "cred_env \<Rightarrow> bool" where
  "cred_env_ok E =
     ((\<forall>p c. length (ce_bc_hash E p c) = 60 \<and> starts_with ''$2b$'' (ce_bc_hash E p c)) \<and>
      (\<forall>p c. ce_bc_compare E p (ce_bc_hash E p c) = Some True) \<and>
      (\<forall>p s i n. length (ce_kdf E p s i n) = n) \<and> ce_salt E \<noteq> [])"

lemma hashSecret_prefix: "looksLikePbkdf2 (hashSecret kdf salt plain pepper)" "\<not> looksLikeBcrypt (hashSecret kdf salt plain pepper)"
  by (simp_all add: looksLikePbkdf2_def looksLikeBcrypt_def hashSecret_def Let_def KDF_ID_def starts_with_def)

lemma pbkdf2_self: "\<forall>p s i n. length (kdf p s i n) = n \<Longrightarrow> salt \<noteq> [] \<Longrightarrow> verifyPbkdf2 kdf (hashSecret kdf salt plain pepper) plain pepper"
  by (subst verifyPbkdf2_iff) auto

text \<open>For every credential type the hash stored at issue time is recognised as its own algorithm from its prefix alone
  and verifies the secret it was made from.\<close>
theorem issued_credential_verifies:
  assumes "cred_env_ok E"
  shows "verifyHash E (hashForType E t plain) plain \<and>
     hashAlgo (hashForType E t plain) = (if usesBcrypt t then Algo_bcrypt else Algo_pbkdf2)"
proof (cases "usesBcrypt t")
  case True
  have "looksLikeBcrypt (ce_bc_hash E plain BCRYPT_COST)" "ce_bc_hash E plain BCRYPT_COST \<noteq> []"
    using assms by (auto simp: cred_env_ok_def looksLikeBcrypt_def) (metis list.size(3) zero_neq_numeral)
  with True assms show ?thesis by (simp add: verifyHash_def hashForType_def hashAlgo_def cred_env_ok_def)
next
  case False
  have "hashSecret (ce_kdf E) (ce_salt E) plain (ce_pepper E) \<noteq> []" by (simp add: hashSecret_def Let_def)
  with False assms pbkdf2_self [of "ce_kdf E" "ce_salt E"] hashSecret_prefix [of "ce_kdf E" "ce_salt E" plain "ce_pepper E"]
  show ?thesis by (simp add: verifyHash_def hashForType_def hashAlgo_def cred_env_ok_def)
qed

definition demo_cred :: cred_env where
  "demo_cred = \<lparr> ce_bc_hash = (\<lambda>p c. ''$2b$'' @ replicate 56 (CHR ''x'')), ce_bc_compare = (\<lambda>p h. Some True),
     ce_kdf = (\<lambda>p s i n. replicate n 7), ce_salt = [1], ce_pepper = None \<rparr>"

lemma issued_credential_verifies_witness:
  "verifyHash demo_cred (hashForType demo_cred Cred_rest ''s'') ''s'' \<and>
   verifyHash demo_cred (hashForType demo_cred Cred_imap ''s'') ''s''"
proof -
  have "cred_env_ok demo_cred" by (simp add: cred_env_ok_def demo_cred_def starts_with_def)
  then show ?thesis using issued_credential_verifies [of demo_cred Cred_rest "''s''"]
      issued_credential_verifies [of demo_cred Cred_imap "''s''"] by blast
qed

section \<open>Unsubscribe tokens\<close>

definition TOKEN_TTL_MS :: int where "TOKEN_TTL_MS = 90 * 24 * 3600 * 1000"

record UnsubTokenPayload =
  ut_recipient :: string
  ut_sender_domain :: string
  ut_message_id :: string
  ut_issued_at :: rat

record unsub_env =
  ue_hmac :: "bytes \<Rightarrow> bytes \<Rightarrow> bytes" \<comment> \<open>HMAC-SHA-256\<close>
  ue_stringify :: "json \<Rightarrow> string"
  ue_parse :: "string \<Rightarrow> json option"

definition url_char :: "char \<Rightarrow> char" where
  "url_char c = (if c = CHR ''+'' then CHR ''-'' else if c = CHR ''/'' then CHR ''_'' else c)"

definition unurl_char :: "char \<Rightarrow> char" where
  "unurl_char c = (if c = CHR ''-'' then CHR ''+'' else if c = CHR ''_'' then CHR ''/'' else c)"

definition b64uEncode :: "string \<Rightarrow> string" where
  "b64uEncode s = strip_eq (map url_char (btoa s))"

definition b64uDecode :: "string \<Rightarrow> string option" where
  "b64uDecode s =
     (let pad = (if length s mod 4 = 0 then [] else replicate (4 - length s mod 4) (CHR ''='')) in
      atob (map unurl_char s @ pad))"

definition hmacHex :: "unsub_env \<Rightarrow> string \<Rightarrow> string \<Rightarrow> string" where
  "hmacHex E key body = concat (map hex_byte (ue_hmac E (text_encode key) (text_encode body)))"

definition payload_json :: "UnsubTokenPayload \<Rightarrow> json" where
  "payload_json p = JObj [(''recipient'', JStr (ut_recipient p)), (''sender_domain'', JStr (ut_sender_domain p)),
     (''message_id'', JStr (ut_message_id p)), (''issued_at'', JNum (ut_issued_at p))]"

definition mintUnsubToken :: "unsub_env \<Rightarrow> UnsubTokenPayload \<Rightarrow> string \<Rightarrow> int \<Rightarrow> string" where
  "mintUnsubToken E payload secret nowMs =
     (let full = payload\<lparr>ut_issued_at := of_int nowMs\<rparr>;
          body = b64uEncode (ue_stringify E (payload_json full));
          sig = hmacHex E secret body
      in body @ ''.'' @ sig)"

definition char_diff :: "string \<Rightarrow> string \<Rightarrow> byte" where
  "char_diff a b = foldl (\<lambda>diff i. diff OR (word_of_nat (of_char (a ! i)) XOR word_of_nat (of_char (b ! i)))) 0 [0 ..< length a]"

definition json_payload :: "json \<Rightarrow> UnsubTokenPayload option" where
  "json_payload j =
     (case (jfield j ''recipient'', jfield j ''sender_domain'', jfield j ''message_id'', jfield j ''issued_at'') of
        (Some (JStr r), Some (JStr d), Some (JStr m), Some (JNum i)) \<Rightarrow>
          Some \<lparr> ut_recipient = r, ut_sender_domain = d, ut_message_id = m, ut_issued_at = i \<rparr>
      | _ \<Rightarrow> None)"

text \<open>The result is the reason of the refusal or the payload. \<^verbatim>\<open>JSON.parse\<close> of \<^verbatim>\<open>null\<close> would make the field access
  throw; that is left out of the model.\<close>
definition verifyUnsubToken :: "unsub_env \<Rightarrow> string \<Rightarrow> string \<Rightarrow> int \<Rightarrow> string + UnsubTokenPayload" where
  "verifyUnsubToken E token secret nowMs =
     (case index_of (CHR ''.'') token of
        None \<Rightarrow> Inl ''malformed''
      | Some dot \<Rightarrow>
          if dot = 0 then Inl ''malformed''
          else let body = take dot token; sig = drop (dot + 1) token; expectedSig = hmacHex E secret body in
            if length expectedSig \<noteq> length sig then Inl ''bad_signature''
            else if char_diff expectedSig sig \<noteq> 0 then Inl ''bad_signature''
            else case Option.bind (b64uDecode body) (ue_parse E) of
                   None \<Rightarrow> Inl ''malformed_payload''
                 | Some j \<Rightarrow>
                     (case json_payload j of
                        None \<Rightarrow> Inl ''incomplete_payload''
                      | Some p \<Rightarrow>
                          if of_int nowMs - ut_issued_at p > of_int TOKEN_TTL_MS then Inl ''expired''
                          else if ut_issued_at p - of_int nowMs > 60000 then Inl ''future_issued_at''
                          else Inr p))"


text \<open>\<open>replace(/\/+$/, '')\<close> and the two headers.\<close>
definition buildUnsubHeaders :: "unsub_env \<Rightarrow> UnsubTokenPayload \<Rightarrow> string \<Rightarrow> string \<Rightarrow> string \<Rightarrow> int \<Rightarrow> string \<times> string" where
  "buildUnsubHeaders E payload secret baseUrl mailtoHost nowMs =
     (let token = mintUnsubToken E payload secret nowMs;
          httpsUrl = rev (dropWhile (\<lambda>c. c = CHR ''/'') (rev baseUrl)) @ ''/v1/unsub/'' @ js_encodeURIComponent token;
          mailto = ''mailto:unsub+'' @ token @ ''@'' @ mailtoHost
      in (''<'' @ mailto @ ''>, <'' @ httpsUrl @ ''>'', ''List-Unsubscribe=One-Click''))"

lemma b64u_chars: "d < 64 \<Longrightarrow> unurl_char (url_char (b64_char d)) = b64_char d \<and> url_char (b64_char d) \<noteq> CHR ''='' \<and>
  url_char (b64_char d) \<noteq> CHR ''.''"
proof -
  have "list_all (\<lambda>d. unurl_char (url_char (b64_char d)) = b64_char d \<and> url_char (b64_char d) \<noteq> CHR ''='' \<and>
    url_char (b64_char d) \<noteq> CHR ''.'') [0 ..< 64]" by code_simp
  then show "d < 64 \<Longrightarrow> unurl_char (url_char (b64_char d)) = b64_char d \<and> url_char (b64_char d) \<noteq> CHR ''='' \<and>
    url_char (b64_char d) \<noteq> CHR ''.''" by (simp add: list_all_iff)
qed

lemma b64uEncode_digits:
  "b64uEncode s = map (url_char \<circ> b64_char) (b64_digits (map of_char s))"
  "list_all (\<lambda>d. d < 64) (b64_digits (map of_char s))"
proof -
  show d: "list_all (\<lambda>d. d < 64) (b64_digits (map of_char s))" by (rule b64_digits_less) (simp add: list_all_iff)
  have "map url_char (b64_pad xs) = b64_pad xs" for xs by (simp add: b64_pad_def url_char_def)
  then have "map url_char (btoa s) = map (url_char \<circ> b64_char) (b64_digits (map of_char s)) @ b64_pad (map of_char s)"
    by (simp add: btoa_def btoa_codes_digits)
  moreover have "CHR ''='' \<notin> set (map (url_char \<circ> b64_char) (b64_digits (map of_char s)))"
    using d b64u_chars by (fastforce simp: list_all_iff)
  ultimately show "b64uEncode s = map (url_char \<circ> b64_char) (b64_digits (map of_char s))"
    using strip_eq_clean by (simp add: b64uEncode_def b64_pad_def)
qed

lemma b64uDecode_b64uEncode: "b64uDecode (b64uEncode s) = Some s"
proof -
  let ?ds = "b64_digits (map of_char s)"
  have m: "map unurl_char (b64uEncode s) = map b64_char ?ds"
    using b64uEncode_digits [of s] b64u_chars by (auto simp: list_all_iff)
  have p: "(if length ?ds mod 4 = 0 then [] else replicate (4 - length ?ds mod 4) (CHR ''='')) =
      replicate ((4 - length ?ds mod 4) mod 4) (CHR ''='')"
    using mod_less_divisor [of 4 "length ?ds"] by (simp del: mod_less_divisor)
  have l: "length (b64uEncode s) = length ?ds" by (simp add: b64uEncode_digits(1))
  have "atob (map b64_char ?ds @ replicate ((4 - length ?ds mod 4) mod 4) (CHR ''='')) = Some (map char_of (map of_char s :: nat list))"
    by (rule atob_restored(2)) (simp add: list_all_iff)
  then show ?thesis unfolding b64uDecode_def Let_def m l p by (simp add: comp_def)
qed

lemma char_diff_zero: "length a = length b \<Longrightarrow> char_diff a b = 0 \<longleftrightarrow> a = b"
proof -
  assume l: "length a = length b"
  let ?w = "\<lambda>c. word_of_nat (of_char c) :: byte"
  have inj: "?w x = ?w y \<longleftrightarrow> x = y" for x y :: char
  proof
    assume "?w x = ?w y"
    then have "unat (?w x) = unat (?w y)" by simp
    then have "(of_char x :: nat) = of_char y" by (simp add: unat_byte_of_nat)
    then show "x = y" by simp
  qed simp
  have "char_diff a b = foldl (\<lambda>acc i. acc OR ((map ?w a ! i) XOR (map ?w b ! i))) 0 [0 ..< length a]"
    unfolding char_diff_def by (rule foldl_cong) (auto simp: l)
  then have "char_diff a b = 0 \<longleftrightarrow> (\<forall>i < length a. map ?w a ! i = map ?w b ! i)"
    using constantTimeEqual_fold [of "map ?w a" "map ?w b" 0 "length a"] by simp
  also have "\<dots> \<longleftrightarrow> a = b" using l inj by (auto intro: nth_equalityI)
  finally show "char_diff a b = 0 \<longleftrightarrow> a = b" .
qed

lemma json_payload_json: "json_payload (payload_json p) = Some p"
  by (simp add: json_payload_def payload_json_def jfield_def)

lemma b64uEncode_no_dot: "CHR ''.'' \<notin> set (b64uEncode s)"
  using b64uEncode_digits [of s] b64u_chars by (fastforce simp: list_all_iff)

lemma b64uEncode_Nil: "b64uEncode s = [] \<longleftrightarrow> s = []"
  using b64uDecode_b64uEncode [of s] b64uDecode_b64uEncode [of "[]"] by (metis list.map_disc_iff b64_digits.simps(1) b64uEncode_digits(1) option.inject)

lemma verifyUnsubToken_InrD:
  assumes "verifyUnsubToken E token secret nowMs = Inr p"
  shows "\<exists>body. token = body @ ''.'' @ hmacHex E secret body \<and>
     of_int nowMs - ut_issued_at p \<le> of_int TOKEN_TTL_MS \<and> ut_issued_at p - of_int nowMs \<le> 60000"
proof -
  obtain dot where i: "index_of (CHR ''.'') token = Some dot"
    using assms by (cases "index_of (CHR ''.'') token") (simp_all add: verifyUnsubToken_def)
  let ?body = "take dot token"
  let ?rest = "Option.bind (b64uDecode ?body) (ue_parse E)"
  have l: "length (hmacHex E secret ?body) = length (drop (dot + 1) token)" "char_diff (hmacHex E secret ?body) (drop (dot + 1) token) = 0"
    using assms i by (simp_all add: verifyUnsubToken_def Let_def split: if_split_asm)
  then have "hmacHex E secret ?body = drop (dot + 1) token" using char_diff_zero by blast
  moreover have "token = ?body @ CHR ''.'' # drop (Suc dot) token" using index_of_SomeD [OF i] by blast
  moreover obtain j where j: "?rest = Some j" using assms i l
    by (cases ?rest) (simp_all add: verifyUnsubToken_def Let_def split: if_split_asm)
  moreover obtain q where q: "json_payload j = Some q" using assms i l j
    by (cases "json_payload j") (simp_all add: verifyUnsubToken_def Let_def split: if_split_asm)
  moreover have "q = p \<and> of_int nowMs - ut_issued_at p \<le> of_int TOKEN_TTL_MS \<and> ut_issued_at p - of_int nowMs \<le> 60000"
    using assms i l j q by (simp add: verifyUnsubToken_def Let_def not_less split: if_split_asm)
  ultimately show ?thesis by (intro exI [of _ ?body]) simp
qed

lemma verifyUnsubToken_mint:
  assumes "ue_parse E (ue_stringify E (payload_json (payload\<lparr>ut_issued_at := of_int nowMs\<rparr>))) =
      Some (payload_json (payload\<lparr>ut_issued_at := of_int nowMs\<rparr>))" "ue_parse E [] = None"
    and t: "- 60000 \<le> later - nowMs" "later - nowMs \<le> TOKEN_TTL_MS"
  shows "verifyUnsubToken E (mintUnsubToken E payload secret nowMs) secret later = Inr (payload\<lparr>ut_issued_at := of_int nowMs\<rparr>)"
proof -
  define full where "full = payload\<lparr>ut_issued_at := of_int nowMs\<rparr>"
  define body where "body = b64uEncode (ue_stringify E (payload_json full))"
  have "ue_stringify E (payload_json full) \<noteq> []" using assms(1,2) by (auto simp: full_def)
  then have ne: "body \<noteq> []" by (simp add: body_def b64uEncode_Nil)
  have ix: "index_of (CHR ''.'') (body @ CHR ''.'' # x) = Some (length body)" for x
    unfolding body_def by (rule index_of_append_notin) (rule b64uEncode_no_dot)
  have dec: "Option.bind (b64uDecode body) (ue_parse E) = Some (payload_json full)"
    by (simp add: body_def b64uDecode_b64uEncode full_def assms(1))
  have "of_int (later - nowMs) \<le> (of_int TOKEN_TTL_MS :: rat)" using t(2) by (simp only: of_int_le_iff)
  moreover have "of_int (nowMs - later) \<le> (of_int 60000 :: rat)" using t(1) by (simp only: of_int_le_iff)
  ultimately have w: "\<not> of_int later - ut_issued_at full > (of_int TOKEN_TTL_MS :: rat)" "\<not> ut_issued_at full - of_int later > 60000"
    by (simp_all add: full_def not_less)
  have m: "mintUnsubToken E payload secret nowMs = body @ CHR ''.'' # hmacHex E secret body"
    by (simp add: mintUnsubToken_def Let_def body_def full_def)
  have "verifyUnsubToken E (mintUnsubToken E payload secret nowMs) secret later = Inr full"
    unfolding verifyUnsubToken_def m ix option.case Let_def
    using ne dec w char_diff_zero [of "hmacHex E secret body" "hmacHex E secret body"]
    by (simp add: json_payload_json)
  then show ?thesis by (simp add: full_def)
qed

text \<open>C36. Only minted links unsubscribe anybody: a token is accepted only when its second half is the keyed hash of its
  first half and it was issued at most ninety days ago and at most a minute ahead; and a minted token carries its recipient,
  sender domain and message through until it expires.\<close>
theorem unsub_token_sound:
  assumes "ue_parse E (ue_stringify E (payload_json (payload\<lparr>ut_issued_at := of_int nowMs\<rparr>))) =
      Some (payload_json (payload\<lparr>ut_issued_at := of_int nowMs\<rparr>))" "ue_parse E [] = None"
  shows "(verifyUnsubToken E token secret nowMs = Inr p \<longrightarrow>
       (\<exists>body. token = body @ ''.'' @ hmacHex E secret body \<and>
          of_int nowMs - ut_issued_at p \<le> of_int TOKEN_TTL_MS \<and> ut_issued_at p - of_int nowMs \<le> 60000)) \<and>
     (- 60000 \<le> later - nowMs \<longrightarrow> later - nowMs \<le> TOKEN_TTL_MS \<longrightarrow>
       verifyUnsubToken E (mintUnsubToken E payload secret nowMs) secret later = Inr (payload\<lparr>ut_issued_at := of_int nowMs\<rparr>))"
  using verifyUnsubToken_InrD [of E token secret nowMs p] verifyUnsubToken_mint [OF assms] by blast

definition demo_unsub :: unsub_env where
  "demo_unsub = \<lparr> ue_hmac = (\<lambda>k d. take 2 (k @ d)), ue_stringify = (\<lambda>j. ''j''),
     ue_parse = (\<lambda>s. if s = [] then None else Some (payload_json \<lparr>ut_recipient = ''r'', ut_sender_domain = ''d'',
       ut_message_id = ''m'', ut_issued_at = 5\<rparr>)) \<rparr>"

lemma unsub_token_sound_witness:
  "verifyUnsubToken demo_unsub (mintUnsubToken demo_unsub \<lparr>ut_recipient = ''r'', ut_sender_domain = ''d'', ut_message_id = ''m'',
     ut_issued_at = 0\<rparr> ''key'' 5) ''key'' 6 =
   Inr \<lparr>ut_recipient = ''r'', ut_sender_domain = ''d'', ut_message_id = ''m'', ut_issued_at = 5\<rparr>"
  using unsub_token_sound [of demo_unsub 5 "\<lparr>ut_recipient = ''r'', ut_sender_domain = ''d'', ut_message_id = ''m'', ut_issued_at = 0\<rparr>"
    "[]" "''key''" _ 6]
  by (simp add: demo_unsub_def TOKEN_TTL_MS_def)

end
