(* ===== verification/MimeJson.thy ===== *)
theory MimeJson
  imports Mime Secrets "HOL-Library.AList"
begin

text \<open>
  From MIME to JSON: \<^verbatim>\<open>packages/mime/src/headers.ts\<close> (address lists, encoded words, authentication results)
  and \<^verbatim>\<open>packages/mime/src/json.ts\<close> (the part walker, \<open>summarizeMime\<close>, \<open>extractAttachmentParts\<close>, \<open>mimeToMessage\<close>). Every regular expression is spelled out as a function on strings. \<^verbatim>\<open>TextDecoder\<close> is a parameter: a label
  gives a decoder, \<^const>\<open>None\<close> stands for its \<^verbatim>\<open>RangeError\<close>.
\<close>

section \<open>Runtime\<close>

type_synonym decoders = "string \<Rightarrow> (bytes \<Rightarrow> string) option"

text \<open>\<^verbatim>\<open>s.indexOf(p)\<close>.\<close>
fun find_sub :: "'a list \<Rightarrow> 'a list \<Rightarrow> nat option" where
  "find_sub p [] = (if p = [] then Some 0 else None)"
| "find_sub p (x # xs) = (if starts_with p (x # xs) then Some 0 else map_option Suc (find_sub p xs))"

definition hex_digit :: "char \<Rightarrow> nat option" where
  "hex_digit c =
     (if is_digit c then Some (code c - 48)
      else if 65 \<le> code c \<and> code c \<le> 70 then Some (code c - 55)
      else if 97 \<le> code c \<and> code c \<le> 102 then Some (code c - 87) else None)"

definition hex_pair :: "char \<Rightarrow> char \<Rightarrow> nat option" where
  "hex_pair h l = (case (hex_digit h, hex_digit l) of (Some a, Some b) \<Rightarrow> Some (16 * a + b) | _ \<Rightarrow> None)"

definition js_words :: "string \<Rightarrow> bytes" where
  "js_words s = map (\<lambda>c. word_of_nat (code c)) s"

text \<open>\<^verbatim>\<open>s.split(/\r?\n/)\<close>.\<close>
fun split_newlines :: "string \<Rightarrow> string list" where
  "split_newlines [] = [[]]"
| "split_newlines (c # s) =
     (if c = CHR 0x0A then [] # split_newlines s
      else if c = CHR 0x0D \<and> starts_with [CHR 0x0A] s then [] # split_newlines (tl s)
      else (case split_newlines s of [] \<Rightarrow> [[c]] | y # ys \<Rightarrow> (c # y) # ys))"

definition drop_leading_newline :: "string \<Rightarrow> string" where
  "drop_leading_newline s =
     (if starts_with CRLF s then drop 2 s else if starts_with [CHR 0x0A] s then drop 1 s else s)"

definition drop_trailing_newline :: "string \<Rightarrow> string" where
  "drop_trailing_newline s =
     (if ends_with CRLF s then take (length s - 2) s else if ends_with [CHR 0x0A] s then butlast s else s)"

text \<open>\<^verbatim>\<open>s.replace(/=([0-9A-Fa-f]{2})/g, ...)\<close>.\<close>
fun decode_hex_escapes :: "string \<Rightarrow> string" where
  "decode_hex_escapes [] = []"
| "decode_hex_escapes (c # s) =
     (case s of
        h # l # t \<Rightarrow>
          (case (if c = CHR ''='' then hex_pair h l else None) of
             Some n \<Rightarrow> char_of n # decode_hex_escapes t
           | None \<Rightarrow> c # decode_hex_escapes s)
      | _ \<Rightarrow> c # decode_hex_escapes s)"

section \<open>Header helpers\<close>

definition addr_run_char :: "char \<Rightarrow> bool" where
  "addr_run_char c = (c \<notin> set '',;<>'' \<and> \<not> is_space c)"

text \<open>The two alternatives of \<open>ADDR_RE\<close> at the current position: \<^verbatim>\<open><...>\<close>, or a run of address characters with an inner \<^verbatim>\<open>@\<close>.
  The value is the captured text and what follows the match.\<close>
definition addr_core :: "string \<Rightarrow> (string \<times> string) option" where
  "addr_core s =
     (case s of
        [] \<Rightarrow> None
      | c # t \<Rightarrow>
          if c = CHR ''<'' then
            (case index_of (CHR ''>'') t of
               Some (Suc k) \<Rightarrow> Some (take (Suc k) t, drop (Suc (Suc k)) t)
             | _ \<Rightarrow> None)
          else let run = takeWhile addr_run_char s in
            if CHR ''@'' \<in> set (butlast (tl run)) then Some (run, dropWhile addr_run_char s) else None)"

definition quoted_prefix :: "string \<Rightarrow> string option" where
  "quoted_prefix s =
     (case s of
        [] \<Rightarrow> None
      | c # t \<Rightarrow>
          if code c = 34 then map_option (\<lambda>k. dropWhile is_space (drop (Suc k) t)) (index_of c t) else None)"

definition addr_match :: "string \<Rightarrow> (string \<times> string) option" where
  "addr_match s =
     (case Option.bind (quoted_prefix s) addr_core of Some m \<Rightarrow> Some m | None \<Rightarrow> addr_core s)"

lemma addr_core_shorter: "addr_core s = Some (a, rest) \<Longrightarrow> length rest < length s"
proof -
  assume a: "addr_core s = Some (a, rest)"
  obtain c t where s: "s = c # t" using a by (cases s) (auto simp: addr_core_def)
  show ?thesis
  proof (cases "c = CHR ''<''")
    case True
    then show ?thesis using a s by (auto simp: addr_core_def split: option.splits nat.splits)
  next
    case False
    then have r: "rest = dropWhile addr_run_char s" "CHR ''@'' \<in> set (butlast (tl (takeWhile addr_run_char s)))"
      using a s by (auto simp: addr_core_def Let_def split: if_splits)
    then have "addr_run_char c" using s by (cases "addr_run_char c") auto
    then show ?thesis using r(1) s length_dropWhile_le [of addr_run_char t] by simp
  qed
qed

lemma quoted_prefix_shorter: "quoted_prefix s = Some t \<Longrightarrow> length t < length s"
proof -
  assume "quoted_prefix s = Some t"
  then obtain c u k where "s = c # u" "t = dropWhile is_space (drop k u)"
    by (cases s) (auto simp: quoted_prefix_def split: if_splits)
  then show ?thesis using length_dropWhile_le [of is_space "drop k u"] by simp
qed

lemma addr_match_shorter: "addr_match s = Some (a, rest) \<Longrightarrow> length rest < length s"
  using addr_core_shorter quoted_prefix_shorter
  by (fastforce simp: addr_match_def split: option.splits bind_splits)

text \<open>The loop over \<^verbatim>\<open>ADDR_RE.exec\<close>.\<close>
function addr_matches :: "string \<Rightarrow> string list" where
  "addr_matches s =
     (case s of
        [] \<Rightarrow> []
      | c # t \<Rightarrow>
          (case addr_match s of
             Some (a, rest) \<Rightarrow> (let a' = js_lower (js_trim a) in if a' \<noteq> [] then a' # addr_matches rest else addr_matches rest)
           | None \<Rightarrow> addr_matches t))"
  by pat_completeness auto
termination
  by (relation "measure length") (auto dest: addr_match_shorter)

declare addr_matches.simps [simp del]

definition parseAddressList :: "string option \<Rightarrow> string list" where
  "parseAddressList v = (case v of None \<Rightarrow> [] | Some s \<Rightarrow> if s = [] then [] else addr_matches s)"

definition parseFirstAddress :: "string option \<Rightarrow> string option" where
  "parseFirstAddress v = (case parseAddressList v of [] \<Rightarrow> None | a # _ \<Rightarrow> Some a)"

text \<open>An encoded word at the current position: charset, encoding letter, payload, rest.\<close>
definition encoded_word :: "string \<Rightarrow> (string \<times> char \<times> string \<times> string) option" where
  "encoded_word s =
     (if \<not> starts_with ''=?'' s then None
      else case index_of (CHR ''?'') (drop 2 s) of
        None \<Rightarrow> None
      | Some k \<Rightarrow>
          if k = 0 then None
          else let charset = take k (drop 2 s); t = drop (Suc k) (drop 2 s) in
            case t of
              e # q # u \<Rightarrow>
                if e \<in> set ''bBqQ'' \<and> q = CHR ''?'' then
                  (case index_of (CHR ''?'') u of
                     None \<Rightarrow> None
                   | Some n \<Rightarrow>
                       if starts_with ''='' (drop (Suc n) u) then Some (charset, e, take n u, drop (Suc (Suc n)) u) else None)
                else None
            | _ \<Rightarrow> None)"

definition decode_word :: "decoders \<Rightarrow> string \<Rightarrow> char \<Rightarrow> string \<Rightarrow> string" where
  "decode_word D charset enc payload =
     (if enc \<in> set ''bB'' then
        (case atob payload of
           None \<Rightarrow> payload
         | Some bin \<Rightarrow> (case D charset of None \<Rightarrow> payload | Some decode \<Rightarrow> decode (js_words bin)))
      else decode_hex_escapes (map (\<lambda>c. if c = CHR ''_'' then CHR '' '' else c) payload))"

lemma drop_Cons_shorter: "drop i (drop j s) = x # y # u \<Longrightarrow> length (drop n u) < length s"
proof -
  assume "drop i (drop j s) = x # y # u"
  then have "length (drop i (drop j s)) = Suc (Suc (length u))" by simp
  then show ?thesis by simp
qed

lemma encoded_word_shorter: "encoded_word s = Some (cs, e, p, rest) \<Longrightarrow> length rest < length s"
  by (auto simp: encoded_word_def Let_def simp del: length_drop drop_drop intro: drop_Cons_shorter
      split: if_splits option.splits list.splits)

function replace_words :: "decoders \<Rightarrow> string \<Rightarrow> string" where
  "replace_words D s =
     (case encoded_word s of
        Some (charset, enc, payload, rest) \<Rightarrow> decode_word D charset enc payload @ replace_words D rest
      | None \<Rightarrow> (case s of [] \<Rightarrow> [] | c # t \<Rightarrow> c # replace_words D t))"
  by pat_completeness auto
termination
  by (relation "measure (\<lambda>(_, s). length s)") (auto dest: encoded_word_shorter)

declare replace_words.simps [simp del]

definition decodeMimeWord :: "decoders \<Rightarrow> string option \<Rightarrow> string option" where
  "decodeMimeWord D v = map_option (replace_words D) v"

record ParsedAuthResults =
  ar_spf :: "string option"
  ar_dkim :: "string option"
  ar_dmarc :: "string option"

definition re_word_char :: "char \<Rightarrow> bool" where
  "re_word_char c = (is_alnum c \<or> c = CHR ''_'')"

text \<open>The verdict after a method name: \<^verbatim>\<open>\s*=\s*(\w+)\<close>.\<close>
definition verdict_after :: "nat \<Rightarrow> string \<Rightarrow> string option" where
  "verdict_after n part =
     (case dropWhile is_space (drop n part) of
        c # t \<Rightarrow>
          (let w = takeWhile re_word_char (dropWhile is_space t) in
           if c = CHR ''='' \<and> w \<noteq> [] then Some (js_lower w) else None)
      | [] \<Rightarrow> None)"

definition auth_part :: "ParsedAuthResults \<Rightarrow> string \<Rightarrow> ParsedAuthResults" where
  "auth_part out part =
     (let p = js_trim part in
      if js_lower (take 3 p) = ''spf'' then (case verdict_after 3 p of Some v \<Rightarrow> out\<lparr>ar_spf := Some v\<rparr> | None \<Rightarrow> out)
      else if js_lower (take 4 p) = ''dkim'' then (case verdict_after 4 p of Some v \<Rightarrow> out\<lparr>ar_dkim := Some v\<rparr> | None \<Rightarrow> out)
      else if js_lower (take 5 p) = ''dmarc'' then (case verdict_after 5 p of Some v \<Rightarrow> out\<lparr>ar_dmarc := Some v\<rparr> | None \<Rightarrow> out)
      else out)"

definition parseAuthResults :: "string option \<Rightarrow> ParsedAuthResults" where
  "parseAuthResults v =
     (let out = \<lparr> ar_spf = None, ar_dkim = None, ar_dmarc = None \<rparr> in
      case v of None \<Rightarrow> out | Some s \<Rightarrow> if s = [] then out else foldl auth_part out (js_split (CHR '';'') s))"


section \<open>Parts\<close>

record content_type =
  ct_type :: string
  ct_boundary :: "string option"
  ct_charset :: string

text \<open>\<^verbatim>\<open>/^([^=]+)=(?:"([^"]*)"|([^;]+))$/\<close> on a trimmed piece, which has no semicolon.\<close>
definition ct_param :: "string \<Rightarrow> (string \<times> string) option" where
  "ct_param p =
     (case index_of (CHR ''='') p of
        Some (Suc k) \<Rightarrow>
          (let n = js_lower (take (Suc k) p); v = drop (Suc (Suc k)) p; q = CHR 0x22 in
           if 2 \<le> length v \<and> hd v = q \<and> last v = q \<and> q \<notin> set (butlast (tl v)) then Some (n, butlast (tl v))
           else if v \<noteq> [] then Some (n, v) else None)
      | _ \<Rightarrow> None)"

definition parseContentType :: "string \<Rightarrow> content_type" where
  "parseContentType v =
     (let parts = map js_trim (js_split (CHR '';'') v);
          params = map_of (rev (List.map_filter ct_param (tl parts)))
      in \<lparr> ct_type = js_lower (hd parts),
           ct_boundary = (case params ''boundary'' of Some b \<Rightarrow> if b = [] then None else Some b | None \<Rightarrow> None),
           ct_charset = (case params ''charset'' of Some c \<Rightarrow> c | None \<Rightarrow> ''utf-8'') \<rparr>)"

text \<open>\<^verbatim>\<open>body.replace(/=\r?\n/g, '')\<close>.\<close>
fun drop_soft_breaks :: "string \<Rightarrow> string" where
  "drop_soft_breaks [] = []"
| "drop_soft_breaks (c # s) =
     (if c = CHR ''='' \<and> starts_with CRLF s then drop_soft_breaks (drop 2 s)
      else if c = CHR ''='' \<and> starts_with [CHR 0x0A] s then drop_soft_breaks (drop 1 s)
      else c # drop_soft_breaks s)"

definition decodePart :: "string \<Rightarrow> string \<Rightarrow> bytes" where
  "decodePart body xfer =
     (if xfer = ''base64'' then
        (case atob (filter (\<lambda>c. \<not> is_space c) body) of Some bin \<Rightarrow> js_words bin | None \<Rightarrow> text_encode body)
      else if xfer = ''quoted-printable'' then text_encode (decode_hex_escapes (drop_soft_breaks body))
      else js_words body)"

definition splitHeadersBodyText :: "string \<Rightarrow> string \<times> string" where
  "splitHeadersBodyText s =
     (case find_sub (CRLF @ CRLF) s of
        Some sep \<Rightarrow> (take sep s, drop (sep + 4) s)
      | None \<Rightarrow>
          (case find_sub [CHR 0x0A, CHR 0x0A] s of
             Some sep \<Rightarrow> (take sep s, drop (sep + 2) s)
           | None \<Rightarrow> (s, [])))"

text \<open>\<^verbatim>\<open>/^([^:]+):\s?(.*)$/\<close>: the dot stops at a carriage return, of which \<^verbatim>\<open>\s?\<close> may take one.\<close>
definition sub_header :: "string \<Rightarrow> (string \<times> string) option" where
  "sub_header line =
     (case index_of (CHR '':'') line of
        Some (Suc k) \<Rightarrow>
          (let v = drop (Suc (Suc k)) line in
           if CHR 0x0D \<notin> set (if v \<noteq> [] \<and> is_space (hd v) then tl v else v)
           then Some (js_lower (js_trim (take (Suc k) line)), js_trim v) else None)
      | _ \<Rightarrow> None)"

definition add_sub_line :: "(string \<times> string) list \<Rightarrow> string \<Rightarrow> (string \<times> string) list" where
  "add_sub_line out line =
     (if line = [] then out
      else if (hd line = CHR 0x09 \<or> hd line = CHR '' '') \<and> out \<noteq> [] then
        butlast out @ [(fst (last out), snd (last out) @ '' '' @ js_trim line)]
      else case sub_header line of Some h \<Rightarrow> out @ [h] | None \<Rightarrow> out)"

definition parseSubHeaders :: "string \<Rightarrow> (string \<times> string) list" where
  "parseSubHeaders s = foldl add_sub_line [] (split_newlines s)"

definition getSubHeader :: "(string \<times> string) list \<Rightarrow> string \<Rightarrow> string option" where
  "getSubHeader hs name = map_of hs (js_lower name)"

text \<open>The texts between consecutive delimiters; the argument is what follows the first one.\<close>
function mime_chunks :: "string \<Rightarrow> string \<Rightarrow> string list" where
  "mime_chunks delim s =
     (if delim = [] then []
      else case find_sub delim s of
        None \<Rightarrow> []
      | Some k \<Rightarrow>
          drop_trailing_newline (drop_leading_newline (take k s)) #
          (if starts_with (delim @ ''--'') (drop k s) then [] else mime_chunks delim (drop (k + length delim) s)))"
  by pat_completeness auto

lemma find_sub_SomeD:
  "find_sub p s = Some k \<Longrightarrow> s = take k s @ p @ drop (k + length p) s \<and> (\<forall>j < k. \<not> starts_with p (drop j s))"
proof (induction s arbitrary: k)
  case (Cons x xs)
  show ?case
  proof (cases "starts_with p (x # xs)")
    case True
    then show ?thesis using Cons.prems by (auto simp: starts_with_def) (metis append_take_drop_id)
  next
    case False
    then obtain j where j: "find_sub p xs = Some j" "k = Suc j" using Cons.prems by auto
    have "\<not> starts_with p (drop i (x # xs))" if "i < k" for i
      using that False j Cons.IH [OF j(1)] by (cases i) auto
    then show ?thesis using j Cons.IH [OF j(1)] by simp
  qed
qed (auto split: if_splits)

termination mime_chunks
proof (relation "measure (\<lambda>(_, s). length s)", goal_cases)
  case (2 delim s k)
  then have "length s = length (take k s @ delim @ drop (k + length delim) s)" using find_sub_SomeD by metis
  then show ?case using 2 by (cases delim) auto
qed simp

declare mime_chunks.simps [simp del]

record mime_leaf =
  lf_body :: string
  lf_decoded :: bytes
  lf_ct :: content_type
  lf_xfer :: string
  lf_filename :: "string option"

definition MAX_MULTIPART_DEPTH :: nat where "MAX_MULTIPART_DEPTH = 10"

datatype json_error = Parse_failed mime_error | Multipart_too_deep | Invalid_attachment_base64 | Range_error

text \<open>\<^verbatim>\<open>keyword\*?=["']?([^;"']+)\<close> at the current position, letter case ignored.\<close>
definition name_value_at :: "string \<Rightarrow> bool \<Rightarrow> string \<Rightarrow> string option" where
  "name_value_at keyword star s =
     (let t = drop (length keyword) s;
          t1 = (if star \<and> starts_with ''*'' t then tl t else t);
          t2 = tl t1;
          t3 = (if t2 \<noteq> [] \<and> code (hd t2) \<in> {34, 39} then tl t2 else t2);
          v = takeWhile (\<lambda>c. code c \<notin> {34, 39, 59}) t3
      in if js_lower (take (length keyword) s) = keyword \<and> starts_with ''='' t1 \<and> v \<noteq> [] then Some v else None)"

fun first_match :: "(string \<Rightarrow> 'a option) \<Rightarrow> string \<Rightarrow> 'a option" where
  "first_match f [] = f []"
| "first_match f (c # s) = (case f (c # s) of Some v \<Rightarrow> Some v | None \<Rightarrow> first_match f s)"

definition part_filename :: "string \<Rightarrow> string \<Rightarrow> string option" where
  "part_filename subDisp subCt =
     map_option (take 255)
       (case first_match (name_value_at ''filename'' True) subDisp of
          Some v \<Rightarrow> Some v
        | None \<Rightarrow> first_match (name_value_at ''name'' False) subCt)"

definition is_multipart :: "content_type \<Rightarrow> bool" where
  "is_multipart ct = (starts_with ''multipart/'' (ct_type ct) \<and> ct_boundary ct \<noteq> None)"

text \<open>Run a visit over a list until one throws: what was visited, and the error.\<close>
fun visit_all :: "('a \<Rightarrow> 'l list \<times> 'e option) \<Rightarrow> 'a list \<Rightarrow> 'l list \<times> 'e option" where
  "visit_all f [] = ([], None)"
| "visit_all f (x # xs) =
     (case f x of
        (ls, Some e) \<Rightarrow> (ls, Some e)
      | (ls, None) \<Rightarrow> (case visit_all f xs of (ms, e) \<Rightarrow> (ls @ ms, e)))"

lemma visit_all_cong [fundef_cong]:
  "xs = ys \<Longrightarrow> (\<And>x. x \<in> set ys \<Longrightarrow> f x = g x) \<Longrightarrow> visit_all f xs = visit_all g ys"
proof (induction xs arbitrary: ys)
  case (Cons x xs)
  then have "visit_all f xs = visit_all g xs" by auto
  then show ?case using Cons.prems by (auto split: prod.splits option.splits)
qed auto

record sub_part =
  sp_ct :: string
  sp_disp :: string
  sp_xfer :: string
  sp_body :: string

definition sub_part_of :: "string \<Rightarrow> sub_part" where
  "sub_part_of p =
     (case splitHeadersBodyText p of
        (headerStr, pbody) \<Rightarrow>
          let subHeaders = parseSubHeaders headerStr
          in \<lparr> sp_ct = (case getSubHeader subHeaders ''content-type'' of Some v \<Rightarrow> v | None \<Rightarrow> ''text/plain''),
               sp_disp = (case getSubHeader subHeaders ''content-disposition'' of Some v \<Rightarrow> v | None \<Rightarrow> []),
               sp_xfer = js_lower (case getSubHeader subHeaders ''content-transfer-encoding'' of Some v \<Rightarrow> v | None \<Rightarrow> []),
               sp_body = pbody \<rparr>)"

definition sub_leaf :: "sub_part \<Rightarrow> mime_leaf" where
  "sub_leaf sp =
     \<lparr> lf_body = sp_body sp, lf_decoded = decodePart (sp_body sp) (sp_xfer sp), lf_ct = parseContentType (sp_ct sp),
       lf_xfer = sp_xfer sp, lf_filename = part_filename (sp_disp sp) (sp_ct sp) \<rparr>"

definition boundary_chunks :: "string \<Rightarrow> string \<Rightarrow> string list" where
  "boundary_chunks boundary body =
     (let delim = ''--'' @ boundary in
      case find_sub delim body of
        None \<Rightarrow> []
      | Some i \<Rightarrow> mime_chunks delim (drop (i + length delim) body))"

text \<open>The leaves in the order of the visits, and the exception that ended the walk.\<close>
function walkParts :: "string \<Rightarrow> string \<Rightarrow> string \<Rightarrow> nat \<Rightarrow> mime_leaf list \<times> json_error option" where
  "walkParts body topContentType topXfer depth =
     (if depth > MAX_MULTIPART_DEPTH then ([], Some Multipart_too_deep)
      else let ct = parseContentType topContentType in
        if \<not> is_multipart ct then
          ([\<lparr> lf_body = body, lf_decoded = decodePart body topXfer, lf_ct = ct, lf_xfer = topXfer, lf_filename = None \<rparr>], None)
        else visit_all (\<lambda>p.
            let sp = sub_part_of p in
            if is_multipart (parseContentType (sp_ct sp)) then walkParts (sp_body sp) (sp_ct sp) (sp_xfer sp) (depth + 1)
            else ([sub_leaf sp], None))
          (boundary_chunks (the (ct_boundary ct)) body))"
  by pat_completeness auto
termination
  by (relation "measure (\<lambda>(_, _, _, depth). Suc MAX_MULTIPART_DEPTH - depth)") auto

declare walkParts.simps [simp del]

section \<open>Summary\<close>

record MessageAttachmentMeta =
  mam_filename :: string
  mam_content_type :: string
  mam_size_bytes :: nat

record ExtractedAttachment =
  ea_filename :: string
  ea_content_type :: string
  ea_size_bytes :: nat
  ea_bytes :: bytes

record BodySummary =
  bs_text :: "string option"
  bs_html :: "string option"
  bs_attachments :: "MessageAttachmentMeta list"
  bs_body_bytes :: nat
  bs_attachments_total_bytes :: nat

text \<open>\<^verbatim>\<open>/^application\/|image\/|video\/|audio\//\<close>.\<close>
definition binary_type :: "string \<Rightarrow> bool" where
  "binary_type t = (starts_with ''application/'' t \<or> js_includes ''image/'' t \<or> js_includes ''video/'' t \<or> js_includes ''audio/'' t)"

definition set_html :: "decoders \<Rightarrow> mime_leaf \<Rightarrow> BodySummary \<Rightarrow> json_error + BodySummary" where
  "set_html D l s =
     (case D (ct_charset (lf_ct l)) of
        None \<Rightarrow> Inl Range_error
      | Some decode \<Rightarrow> Inr (s\<lparr>bs_html := Some (decode (lf_decoded l)), bs_body_bytes := bs_body_bytes s + length (lf_decoded l)\<rparr>))"

definition set_text :: "decoders \<Rightarrow> mime_leaf \<Rightarrow> BodySummary \<Rightarrow> json_error + BodySummary" where
  "set_text D l s =
     (case D (ct_charset (lf_ct l)) of
        None \<Rightarrow> Inl Range_error
      | Some decode \<Rightarrow> Inr (s\<lparr>bs_text := Some (decode (lf_decoded l)), bs_body_bytes := bs_body_bytes s + length (lf_decoded l)\<rparr>))"

definition push_attachment :: "string \<Rightarrow> mime_leaf \<Rightarrow> BodySummary \<Rightarrow> BodySummary" where
  "push_attachment filename l s =
     s\<lparr>bs_attachments := bs_attachments s @
          [\<lparr> mam_filename = filename, mam_content_type = ct_type (lf_ct l), mam_size_bytes = length (lf_decoded l) \<rparr>],
       bs_attachments_total_bytes := bs_attachments_total_bytes s + length (lf_decoded l)\<rparr>"

definition is_set :: "string option \<Rightarrow> bool" where
  "is_set v = (v \<noteq> None \<and> v \<noteq> Some [])"

definition file_or_default :: "string option \<Rightarrow> string" where
  "file_or_default v = (case v of Some f \<Rightarrow> f | None \<Rightarrow> ''attachment'')"

definition summary_visit :: "decoders \<Rightarrow> bool \<Rightarrow> mime_leaf \<Rightarrow> BodySummary \<Rightarrow> json_error + BodySummary" where
  "summary_visit D isFirstLeaf l s =
     (let t = ct_type (lf_ct l) in
      if isFirstLeaf then
        (if t = ''text/html'' then set_html D l s
         else if starts_with ''text/'' t then set_text D l s
         else Inr (push_attachment ''attachment'' l s))
      else if lf_filename l \<noteq> None \<or> binary_type t then Inr (push_attachment (file_or_default (lf_filename l)) l s)
      else if t = ''text/html'' \<and> \<not> is_set (bs_html s) then set_html D l s
      else if starts_with ''text/'' t \<and> \<not> is_set (bs_text s) then set_text D l s
      else Inr s)"

fun summary_fold :: "decoders \<Rightarrow> bool \<Rightarrow> mime_leaf list \<Rightarrow> BodySummary \<Rightarrow> json_error + BodySummary" where
  "summary_fold D first [] s = Inr s"
| "summary_fold D first (l # ls) s =
     (case summary_visit D first l s of Inl e \<Rightarrow> Inl e | Inr s' \<Rightarrow> summary_fold D False ls s')"

definition walkPartsWithHeaders :: "decoders \<Rightarrow> string \<Rightarrow> string \<Rightarrow> string \<Rightarrow> BodySummary \<Rightarrow> json_error + BodySummary" where
  "walkPartsWithHeaders D body topContentType topXfer s =
     (case walkParts body topContentType topXfer 0 of
        (ls, e) \<Rightarrow>
          (case summary_fold D True ls s of
             Inl x \<Rightarrow> Inl x
           | Inr s' \<Rightarrow> (case e of Some x \<Rightarrow> Inl x | None \<Rightarrow> Inr s')))"

definition extracted :: "string \<Rightarrow> mime_leaf \<Rightarrow> ExtractedAttachment" where
  "extracted filename l =
     \<lparr> ea_filename = filename, ea_content_type = ct_type (lf_ct l), ea_size_bytes = length (lf_decoded l),
       ea_bytes = lf_decoded l \<rparr>"

definition extract_visit :: "bool \<Rightarrow> mime_leaf \<Rightarrow> ExtractedAttachment list" where
  "extract_visit isFirstLeaf l =
     (let t = ct_type (lf_ct l) in
      if isFirstLeaf then
        (if t = ''text/html'' \<or> starts_with ''text/'' t then [] else [extracted ''attachment'' l])
      else if lf_filename l \<noteq> None \<or> binary_type t then [extracted (file_or_default (lf_filename l)) l]
      else [])"

fun extract_all :: "bool \<Rightarrow> mime_leaf list \<Rightarrow> ExtractedAttachment list" where
  "extract_all first [] = []"
| "extract_all first (l # ls) = extract_visit first l @ extract_all False ls"

definition walkExtractAttachments :: "string \<Rightarrow> string \<Rightarrow> string \<Rightarrow> json_error + ExtractedAttachment list" where
  "walkExtractAttachments body topContentType topXfer =
     (case walkParts body topContentType topXfer 0 of
        (ls, Some e) \<Rightarrow> Inl e
      | (ls, None) \<Rightarrow> Inr (extract_all True ls))"

text \<open>An object filled by assignment: a later value of a name replaces the earlier one, and \<^verbatim>\<open>__proto__\<close> is no own property.
  The order of the properties is that of the first assignments.\<close>
definition headerMap :: "Header list \<Rightarrow> (string \<times> string) list" where
  "headerMap hs = foldl (\<lambda>m h. if h_nameLc h = ''__proto__'' then m else AList.update (h_nameLc h) (h_value h) m) [] hs"

definition field_or :: "string \<Rightarrow> (string \<times> string) list \<Rightarrow> string \<Rightarrow> string" where
  "field_or d m k = (case map_of m k of Some v \<Rightarrow> v | None \<Rightarrow> d)"

record mime_runtime =
  mr_utf8 :: "bytes \<Rightarrow> string"
  mr_decoders :: decoders
  mr_latin1 :: "bytes \<Rightarrow> string"

definition extractAttachmentParts :: "mime_runtime \<Rightarrow> bytes \<Rightarrow> json_error + ExtractedAttachment list" where
  "extractAttachmentParts R raw =
     (case parseStrict (mr_utf8 R) raw of
        Inl e \<Rightarrow> Inl (Parse_failed e)
      | Inr parsed \<Rightarrow>
          let m = headerMap (pm_headers parsed)
          in walkExtractAttachments (mr_latin1 R (pm_body parsed)) (field_or ''text/plain; charset=us-ascii'' m ''content-type'')
               (js_lower (field_or [] m ''content-transfer-encoding'')))"

record ParsedMimeSummary =
  ps_from :: string
  ps_to :: "string list"
  ps_cc :: "string list"
  ps_bcc :: "string list"
  ps_subject :: "string option"
  ps_headerMessageId :: "string option"
  ps_references :: "string option"
  ps_inReplyTo :: "string option"
  ps_text :: "string option"
  ps_html :: "string option"
  ps_attachments :: "MessageAttachmentMeta list"
  ps_body_bytes :: nat
  ps_attachments_total_bytes :: nat
  ps_headers :: "(string \<times> string) list"

definition nonempty :: "string option \<Rightarrow> string option" where
  "nonempty v = (if is_set v then v else None)"

definition empty_summary :: BodySummary where
  "empty_summary = \<lparr> bs_text = None, bs_html = None, bs_attachments = [], bs_body_bytes = 0, bs_attachments_total_bytes = 0 \<rparr>"

definition mime_summary :: "decoders \<Rightarrow> (string \<times> string) list \<Rightarrow> BodySummary \<Rightarrow> ParsedMimeSummary" where
  "mime_summary D m s =
     \<lparr> ps_from = (case parseFirstAddress (map_of m ''from'') of Some a \<Rightarrow> a | None \<Rightarrow> []),
       ps_to = parseAddressList (map_of m ''to''), ps_cc = parseAddressList (map_of m ''cc''),
       ps_bcc = parseAddressList (map_of m ''bcc''), ps_subject = decodeMimeWord D (map_of m ''subject''),
       ps_headerMessageId = nonempty (map_of m ''message-id''), ps_references = nonempty (map_of m ''references''),
       ps_inReplyTo = nonempty (map_of m ''in-reply-to''), ps_text = bs_text s, ps_html = bs_html s,
       ps_attachments = bs_attachments s, ps_body_bytes = bs_body_bytes s,
       ps_attachments_total_bytes = bs_attachments_total_bytes s, ps_headers = m \<rparr>"

definition summarizeMime :: "mime_runtime \<Rightarrow> bytes \<Rightarrow> json_error + ParsedMimeSummary" where
  "summarizeMime R raw =
     (case parseStrict (mr_utf8 R) raw of
        Inl e \<Rightarrow> Inl (Parse_failed e)
      | Inr parsed \<Rightarrow>
          let m = headerMap (pm_headers parsed)
          in case walkPartsWithHeaders (mr_decoders R) (mr_latin1 R (pm_body parsed))
                    (field_or ''text/plain; charset=us-ascii'' m ''content-type'')
                    (js_lower (field_or [] m ''content-transfer-encoding'')) empty_summary of
               Inl e \<Rightarrow> Inl e
             | Inr s \<Rightarrow> Inr (mime_summary (mr_decoders R) m s))"


section \<open>Message JSON\<close>

record MessageRowMeta =
  rm_id :: string
  rm_mailbox_id :: string
  rm_direction :: string
  rm_status :: string
  rm_thread_id :: "string option"
  rm_header_message_id :: "string option"
  rm_auth_spf :: "string option"
  rm_auth_dkim :: "string option"
  rm_auth_dmarc :: "string option"
  rm_auth_remote_ip :: "string option"
  rm_body_bytes :: "int option"
  rm_attachments_total_bytes :: "int option"
  rm_received_at_bridge :: "string option"
  rm_received_at_api :: "string option"
  rm_queued_at :: "string option"
  rm_sending_at :: "string option"
  rm_sent_at :: "string option"
  rm_delivered_at :: "string option"
  rm_failed_at :: "string option"
  rm_bounce_metadata :: "string option"
  rm_last_error :: "string option"
  rm_created_at :: string

record MessageAuth =
  ma_spf :: "string option"
  ma_dkim :: "string option"
  ma_dmarc :: "string option"
  ma_remote_ip :: "string option"

record UnifiedMessage =
  um_id :: string
  um_mailbox_id :: string
  um_direction :: string
  um_status :: string
  um_from :: string
  um_to :: "string list"
  um_cc :: "string list option"
  um_bcc :: "string list option"
  um_subject :: "string option"
  um_text :: "string option"
  um_html :: "string option"
  um_headers :: "(string \<times> string) list option"
  um_attachments :: "MessageAttachmentMeta list"
  um_header_message_id :: "string option"
  um_thread_id :: "string option"
  um_auth :: "MessageAuth option"
  um_body_bytes :: "int option"
  um_attachments_total_bytes :: "int option"
  um_received_at_bridge :: "string option"
  um_received_at_api :: "string option"
  um_queued_at :: "string option"
  um_sending_at :: "string option"
  um_sent_at :: "string option"
  um_delivered_at :: "string option"
  um_failed_at :: "string option"
  um_bounce_metadata :: "json option"
  um_last_error :: "string option"
  um_created_at :: string

definition some_list :: "'a list \<Rightarrow> 'a list option" where
  "some_list xs = (if xs = [] then None else Some xs)"

definition row_auth :: "MessageRowMeta \<Rightarrow> MessageAuth option" where
  "row_auth row =
     (let a = \<lparr> ma_spf = nonempty (rm_auth_spf row), ma_dkim = nonempty (rm_auth_dkim row),
                ma_dmarc = nonempty (rm_auth_dmarc row), ma_remote_ip = nonempty (rm_auth_remote_ip row) \<rparr>
      in if a = \<lparr> ma_spf = None, ma_dkim = None, ma_dmarc = None, ma_remote_ip = None \<rparr> then None else Some a)"

text \<open>\<open>parse\<close> is \<^verbatim>\<open>JSON.parse\<close>.\<close>
definition mimeToMessage :: "mime_runtime \<Rightarrow> (string \<Rightarrow> json option) \<Rightarrow> bytes \<Rightarrow> MessageRowMeta \<Rightarrow> json_error + UnifiedMessage" where
  "mimeToMessage R parse raw row =
     (case summarizeMime R raw of
        Inl e \<Rightarrow> Inl e
      | Inr s \<Rightarrow> Inr
          \<lparr> um_id = rm_id row, um_mailbox_id = rm_mailbox_id row, um_direction = rm_direction row, um_status = rm_status row,
            um_from = ps_from s, um_to = ps_to s, um_cc = some_list (ps_cc s), um_bcc = some_list (ps_bcc s),
            um_subject = ps_subject s, um_text = ps_text s, um_html = ps_html s, um_headers = some_list (ps_headers s),
            um_attachments = ps_attachments s,
            um_header_message_id =
              (case ps_headerMessageId s of Some v \<Rightarrow> Some v | None \<Rightarrow> nonempty (rm_header_message_id row)),
            um_thread_id = nonempty (rm_thread_id row), um_auth = row_auth row,
            um_body_bytes = rm_body_bytes row, um_attachments_total_bytes = rm_attachments_total_bytes row,
            um_received_at_bridge = nonempty (rm_received_at_bridge row), um_received_at_api = nonempty (rm_received_at_api row),
            um_queued_at = nonempty (rm_queued_at row), um_sending_at = nonempty (rm_sending_at row),
            um_sent_at = nonempty (rm_sent_at row), um_delivered_at = nonempty (rm_delivered_at row),
            um_failed_at = nonempty (rm_failed_at row),
            um_bounce_metadata =
              map_option (\<lambda>b. case parse b of Some j \<Rightarrow> j | None \<Rightarrow> JStr b) (nonempty (rm_bounce_metadata row)),
            um_last_error = nonempty (rm_last_error row), um_created_at = rm_created_at row \<rparr>)"

section \<open>Attachments of the summary and of the extraction\<close>

definition meta_of :: "ExtractedAttachment \<Rightarrow> MessageAttachmentMeta" where
  "meta_of a = \<lparr> mam_filename = ea_filename a, mam_content_type = ea_content_type a, mam_size_bytes = ea_size_bytes a \<rparr>"

lemmas summary_defs = summary_visit_def set_html_def set_text_def push_attachment_def

lemma summary_visit_attachments:
  assumes "summary_visit D b l s = Inr s'"
  shows "bs_attachments s' = bs_attachments s @ map meta_of (extract_visit b l)"
    and "bs_attachments_total_bytes s' = bs_attachments_total_bytes s + sum_list (map (\<lambda>a. length (ea_bytes a)) (extract_visit b l))"
  using assms
  by (auto simp: summary_defs extract_visit_def extracted_def meta_of_def Let_def starts_with_def split: if_splits option.splits)

lemma summary_fold_attachments:
  assumes "summary_fold D b ls s = Inr s'"
  shows "bs_attachments s' = bs_attachments s @ map meta_of (extract_all b ls) \<and>
    bs_attachments_total_bytes s' = bs_attachments_total_bytes s + sum_list (map (\<lambda>a. length (ea_bytes a)) (extract_all b ls))"
  using assms
proof (induction ls arbitrary: b s)
  case (Cons l ls)
  then obtain s1 where s1: "summary_visit D b l s = Inr s1" "summary_fold D False ls s1 = Inr s'"
    by (auto split: sum.splits)
  then show ?case using Cons.IH [OF s1(2)] summary_visit_attachments [OF s1(1)] by simp
qed simp

lemma extract_all_sizes: "a \<in> set (extract_all b ls) \<Longrightarrow> ea_size_bytes a = length (ea_bytes a)"
  by (induction ls arbitrary: b) (auto simp: extract_visit_def extracted_def Let_def split: if_splits)

lemma summarizeMime_InrD:
  assumes "summarizeMime R raw = Inr s"
  obtains parsed ct xfer ls b where "parseStrict (mr_utf8 R) raw = Inr parsed"
    "walkParts (mr_latin1 R (pm_body parsed)) ct xfer 0 = (ls, None)" "summary_fold (mr_decoders R) True ls empty_summary = Inr b"
    "s = mime_summary (mr_decoders R) (headerMap (pm_headers parsed)) b" "extractAttachmentParts R raw = Inr (extract_all True ls)"
proof -
  obtain parsed where p: "parseStrict (mr_utf8 R) raw = Inr parsed" using assms by (auto simp: summarizeMime_def split: sum.splits)
  define ct where "ct = field_or ''text/plain; charset=us-ascii'' (headerMap (pm_headers parsed)) ''content-type''"
  define xfer where "xfer = js_lower (field_or [] (headerMap (pm_headers parsed)) ''content-transfer-encoding'')"
  obtain ls e where w: "walkParts (mr_latin1 R (pm_body parsed)) ct xfer 0 = (ls, e)" by fastforce
  then obtain b where "e = None" "summary_fold (mr_decoders R) True ls empty_summary = Inr b"
      "s = mime_summary (mr_decoders R) (headerMap (pm_headers parsed)) b"
    using assms p by (auto simp: summarizeMime_def walkPartsWithHeaders_def Let_def ct_def xfer_def split: sum.splits option.splits)
  moreover from this w p have "extractAttachmentParts R raw = Inr (extract_all True ls)"
    by (simp add: extractAttachmentParts_def walkExtractAttachments_def Let_def ct_def xfer_def)
  ultimately show ?thesis using that p w by blast
qed

lemma extract_after_summary: "summarizeMime R raw = Inr s \<Longrightarrow> \<exists>parts. extractAttachmentParts R raw = Inr parts"
  by (metis summarizeMime_InrD)

section \<open>Sizes\<close>

lemma length_text_encode: "length (text_encode s) \<le> 2 * length s"
  by (induction s) (auto simp: text_encode_def utf8_char_def Let_def)

lemma length_decode_hex_escapes: "length (decode_hex_escapes s) \<le> length s"
proof (induction s rule: decode_hex_escapes.induct)
  case (2 c s)
  then show ?case by (cases s rule: remdups_adj.cases) (auto split: option.splits simp: le_SucI)
qed simp

lemma length_drop_soft_breaks: "length (drop_soft_breaks s) \<le> length s"
  by (induction s rule: drop_soft_breaks.induct) (auto simp: le_SucI)

lemma length_sextets: "sextets ds = Some xs \<Longrightarrow> length xs \<le> length ds"
  by (induction ds arbitrary: xs rule: sextets.induct) auto

lemma length_all_some: "all_some xs = Some ys \<Longrightarrow> length ys = length xs"
  by (induction xs arbitrary: ys) (auto split: option.splits)

lemma length_strip_padding: "length (strip_padding s) \<le> length s"
  by (simp add: strip_padding_def)

lemma length_atob: "atob s = Some t \<Longrightarrow> length t \<le> length s"
proof -
  assume "atob s = Some t"
  then obtain f ds xs where a: "all_some (map b64_val (strip_padding (filter f s))) = Some ds" "sextets ds = Some xs" "t = map char_of xs"
    by (auto simp: atob_def split: option.splits)
  show ?thesis
    using length_sextets [OF a(2)] length_all_some [OF a(1)] length_strip_padding [of "filter f s"] length_filter_le [of f s]
    unfolding a(3) length_map by linarith
qed

lemma length_decodePart: "length (decodePart body xfer) \<le> 2 * length body"
proof -
  have "length (text_encode (decode_hex_escapes (drop_soft_breaks body))) \<le> 2 * length body"
    by (meson length_text_encode length_decode_hex_escapes length_drop_soft_breaks le_trans mult_le_mono2)
  moreover have "length t \<le> 2 * length body" if "atob (filter (\<lambda>c. \<not> is_space c) body) = Some t" for t
    using length_atob [OF that] length_filter_le [of "\<lambda>c. \<not> is_space c" body] by linarith
  ultimately show ?thesis
    using length_text_encode [of body] by (auto simp: decodePart_def js_words_def split: option.splits)
qed

lemma length_trim_newlines: "length (drop_trailing_newline (drop_leading_newline s)) \<le> length s"
  by (simp add: drop_trailing_newline_def drop_leading_newline_def)

lemma length_mime_chunks: "sum_list (map length (mime_chunks d s)) \<le> length s"
proof (induction d s rule: mime_chunks.induct)
  case (1 d s)
  show ?case
  proof (cases "d = [] \<or> find_sub d s = None")
    case False
    then obtain k where k: "find_sub d s = Some k" "d \<noteq> []" by auto
    have "length s = length (take k s) + length d + length (drop (k + length d) s)"
      using find_sub_SomeD [OF k(1)] by (metis length_append add.assoc)
    moreover have "sum_list (map length (mime_chunks d (drop (k + length d) s))) \<le> length (drop (k + length d) s)"
      if "\<not> starts_with (d @ ''--'') (drop k s)" using 1 [OF k(2,1) that] .
    ultimately show ?thesis
      using length_trim_newlines [of "take k s"] k by (auto simp: mime_chunks.simps [of d s])
  qed (auto simp: mime_chunks.simps [of d s])
qed

lemma length_boundary_chunks: "sum_list (map length (boundary_chunks b body)) \<le> length body"
proof (cases "find_sub (''--'' @ b) body")
  case (Some k)
  have "length (drop (k + length (''--'' @ b)) body) \<le> length body" by simp
  then show ?thesis
    using length_mime_chunks [of "''--'' @ b" "drop (k + length (''--'' @ b)) body"] Some
    by (simp only: boundary_chunks_def Let_def option.case le_trans)
qed (simp add: boundary_chunks_def)

lemma length_sub_part: "length (sp_body (sub_part_of p)) \<le> length p"
  by (auto simp: sub_part_of_def splitHeadersBodyText_def Let_def split: option.splits)

definition decoded_size :: "mime_leaf list \<Rightarrow> nat" where
  "decoded_size ls = sum_list (map (\<lambda>l. length (lf_decoded l)) ls)"

lemma decoded_size_simps [simp]:
  "decoded_size [] = 0" "decoded_size (l # ls) = length (lf_decoded l) + decoded_size ls"
  "decoded_size (ls @ ms) = decoded_size ls + decoded_size ms"
  by (simp_all add: decoded_size_def)

lemma visit_all_size:
  assumes "\<forall>p \<in> set ps. decoded_size (fst (f p)) \<le> 2 * length p"
  shows "decoded_size (fst (visit_all f ps)) \<le> 2 * sum_list (map length ps)"
  using assms by (induction ps) (fastforce split: prod.splits option.splits)+

lemma walkParts_size: "decoded_size (fst (walkParts body ct xfer depth)) \<le> 2 * length body"
proof (induction body ct xfer depth rule: walkParts.induct)
  case (1 body ct xfer depth)
  show ?case
  proof (cases "depth > MAX_MULTIPART_DEPTH \<or> \<not> is_multipart (parseContentType ct)")
    case True
    then show ?thesis using length_decodePart by (auto simp: walkParts.simps [of body ct] Let_def)
  next
    case False
    let ?f = "\<lambda>p. let sp = sub_part_of p in
        if is_multipart (parseContentType (sp_ct sp)) then walkParts (sp_body sp) (sp_ct sp) (sp_xfer sp) (depth + 1)
        else ([sub_leaf sp], None)"
    let ?ps = "boundary_chunks (the (ct_boundary (parseContentType ct))) body"
    have "decoded_size (fst (?f p)) \<le> 2 * length p" if "p \<in> set ?ps" for p
      using 1 [OF _ refl _ that refl] False length_sub_part [of p] length_decodePart [of "sp_body (sub_part_of p)" "sp_xfer (sub_part_of p)"]
      by (auto simp: Let_def sub_leaf_def)
    then have "decoded_size (fst (visit_all ?f ?ps)) \<le> 2 * sum_list (map length ?ps)" by (intro visit_all_size) blast
    also have "\<dots> \<le> 2 * length body" using length_boundary_chunks by simp
    finally show ?thesis using False by (simp add: walkParts.simps [of body ct])
  qed
qed

lemma summary_visit_size:
  "summary_visit D b l s = Inr s' \<Longrightarrow>
     bs_body_bytes s' + bs_attachments_total_bytes s' \<le> bs_body_bytes s + bs_attachments_total_bytes s + length (lf_decoded l)"
  by (auto simp: summary_defs Let_def split: if_splits option.splits)

lemma summary_fold_size:
  "summary_fold D b ls s = Inr s' \<Longrightarrow>
     bs_body_bytes s' + bs_attachments_total_bytes s' \<le> bs_body_bytes s + bs_attachments_total_bytes s + decoded_size ls"
proof (induction ls arbitrary: b s)
  case (Cons l ls)
  then obtain s1 where s1: "summary_visit D b l s = Inr s1" "summary_fold D False ls s1 = Inr s'"
    by (auto split: sum.splits)
  then show ?case using Cons.IH [OF s1(2)] summary_visit_size [OF s1(1)] by simp
qed simp

section \<open>Properties\<close>

text \<open>The two walks agree: whenever \<open>summarizeMime\<close> returns, \<open>extractAttachmentParts\<close> returns too, the attachments of the
  summary are, in order, the extracted parts without their bytes, every recorded size is the number of decoded bytes, and the
  recorded total is their sum.\<close>
theorem attachments_line_up:
  assumes "summarizeMime R raw = Inr s"
  shows "\<exists>as. extractAttachmentParts R raw = Inr as \<and> ps_attachments s = map meta_of as \<and>
    list_all (\<lambda>a. ea_size_bytes a = length (ea_bytes a)) as \<and> ps_attachments_total_bytes s = sum_list (map (\<lambda>a. length (ea_bytes a)) as)"
proof -
  obtain parsed ct xfer ls b where "parseStrict (mr_utf8 R) raw = Inr parsed"
      "walkParts (mr_latin1 R (pm_body parsed)) ct xfer 0 = (ls, None)"
      and p: "summary_fold (mr_decoders R) True ls empty_summary = Inr b"
      "s = mime_summary (mr_decoders R) (headerMap (pm_headers parsed)) b" "extractAttachmentParts R raw = Inr (extract_all True ls)"
    by (rule summarizeMime_InrD [OF assms])
  then show ?thesis
    using summary_fold_attachments [OF p(1)] extract_all_sizes [of _ True ls]
    by (auto simp: mime_summary_def empty_summary_def list_all_iff)
qed

text \<open>No amplification: with a single-byte decoder for the body, the decoded text and attachments of a message are together
  at most twice as long as the message, however deeply its parts are nested.\<close>
theorem decoded_bytes_bounded:
  assumes "summarizeMime R raw = Inr s" "\<forall>bs. length (mr_latin1 R bs) = length bs"
  shows "ps_body_bytes s + ps_attachments_total_bytes s \<le> 2 * length raw"
proof -
  obtain parsed x y ls b where p: "parseStrict (mr_utf8 R) raw = Inr parsed" "walkParts (mr_latin1 R (pm_body parsed)) x y 0 = (ls, None)"
      "summary_fold (mr_decoders R) True ls empty_summary = Inr b" "s = mime_summary (mr_decoders R) (headerMap (pm_headers parsed)) b"
      "extractAttachmentParts R raw = Inr (extract_all True ls)"
    by (rule summarizeMime_InrD [OF assms(1)])
  obtain h where "raw = h @ [13, 10] @ pm_body parsed" using parseStrict_InrD [OF p(1)] by metis
  then have "length (pm_body parsed) \<le> length raw" by simp
  moreover have "decoded_size ls \<le> 2 * length (pm_body parsed)" using walkParts_size [of "mr_latin1 R (pm_body parsed)" x y 0] p(2) assms(2) by simp
  ultimately show ?thesis using summary_fold_size [OF p(3)] p(4) by (simp add: mime_summary_def empty_summary_def)
qed

definition demo_runtime :: mime_runtime where
  "demo_runtime = \<lparr> mr_utf8 = ascii_decode, mr_decoders = (\<lambda>_. Some ascii_decode), mr_latin1 = ascii_decode \<rparr>"

lemma demo_mime_summary:
  "\<exists>s. summarizeMime demo_runtime (serialize demo_mime) = Inr s \<and> ps_attachments s = [] \<and> ps_body_bytes s = 3"
proof -
  have "case walkPartsWithHeaders (mr_decoders demo_runtime) (mr_latin1 demo_runtime (pm_body demo_mime))
      (field_or ''text/plain; charset=us-ascii'' (headerMap (pm_headers demo_mime)) ''content-type'')
      (js_lower (field_or [] (headerMap (pm_headers demo_mime)) ''content-transfer-encoding'')) empty_summary of
      Inr b \<Rightarrow> bs_attachments b = [] \<and> bs_body_bytes b = 3 | Inl _ \<Rightarrow> False" by code_simp
  moreover have "parseStrict (mr_utf8 demo_runtime) (serialize demo_mime) = Inr demo_mime"
    using demo_mime_parses by (simp add: demo_runtime_def)
  ultimately show ?thesis by (auto simp: summarizeMime_def Let_def mime_summary_def split: sum.splits)
qed

lemma attachments_line_up_witness: "\<exists>as. extractAttachmentParts demo_runtime (serialize demo_mime) = Inr as \<and> as = []"
  using demo_mime_summary attachments_line_up [of demo_runtime "serialize demo_mime"] by auto

lemma decoded_bytes_bounded_witness: "3 \<le> 2 * length (serialize demo_mime)"
proof -
  obtain s where "summarizeMime demo_runtime (serialize demo_mime) = Inr s" "ps_body_bytes s = 3" using demo_mime_summary by auto
  moreover have "\<forall>bs. length (mr_latin1 demo_runtime bs) = length bs" by (simp add: demo_runtime_def ascii_decode_def)
  ultimately show ?thesis using decoded_bytes_bounded [of demo_runtime "serialize demo_mime" s] by simp
qed

section \<open>Observations\<close>

text \<open>The first leaf of a multipart body is treated like the single part of a plain message: its file name is never used. A first
  attachment of a text type is taken for the body and is no attachment, any other is called \<^verbatim>\<open>attachment\<close>.\<close>
lemma first_part_loses_name:
  assumes "walkParts body ct xfer 0 = (l # ls, None)"
  shows "walkExtractAttachments body ct xfer =
     Inr ((if starts_with ''text/'' (ct_type (lf_ct l)) then [] else [extracted ''attachment'' l]) @ extract_all False ls)"
  using assms by (auto simp: walkExtractAttachments_def extract_visit_def starts_with_def)

lemma hex_pair_digits: "d < 16 \<Longrightarrow> e < 16 \<Longrightarrow> hex_pair (digit_char d) (digit_char e) = Some (16 * d + e)"
  by (auto simp: hex_pair_def hex_digit_def is_digit_def code_digit_char)

text \<open>A quoted-printable byte from 128 on is decoded to the two bytes of its UTF-8 form instead of to itself, so text that was UTF-8
  before the transfer encoding is encoded twice.\<close>
lemma quoted_printable_reencodes:
  assumes "128 \<le> unat b"
  shows "decodePart (CHR ''='' # hex_byte b) ''quoted-printable'' = text_encode [char_of (unat b)] \<and>
    length (decodePart (CHR ''='' # hex_byte b) ''quoted-printable'') = 2"
proof -
  have d2: "16 * (unat b div 16) + unat b mod 16 = unat b" by (rule mult_div_mod_eq)
  have d: "unat b div 16 < 16" using unat_byte_less [of b] by linarith
  have "digit_char (unat b div 16) \<noteq> CHR 0x0D \<and> digit_char (unat b div 16) \<noteq> CHR 0x0A" "digit_char e \<noteq> CHR ''=''" if "e < 16" for e
    using that d by (auto simp: code_digit_char dest!: arg_cong [where f = "of_char :: char \<Rightarrow> nat"] split: if_splits)
  then have "drop_soft_breaks (CHR ''='' # hex_byte b) = CHR ''='' # hex_byte b" using d
    by (simp add: hex_byte_eq starts_with_def CRLF_def)
  moreover have "decode_hex_escapes (CHR ''='' # hex_byte b) = [char_of (unat b)]"
    using hex_pair_digits [OF d, of "unat b mod 16"] d2 by (simp add: hex_byte_eq)
  ultimately show ?thesis using assms unat_byte_less [of b] by (simp add: decodePart_def text_encode_def utf8_char_def Let_def)
qed

end
