(* ===== verification/Pipeline.thy ===== *)
theory Pipeline
  imports MailState AuditLog Ids MimeJson
begin

text \<open>
  The ingestion pipeline \<^verbatim>\<open>packages/pipeline/src/process-message.ts\<close>: \<open>processMessage\<close> with its helpers, for both
  directions. The world is the D1 tables, the R2 bucket, the outbound queue and the audit log; a call gets, besides its
  arguments, what the runtime supplies (clock, random bytes) and which operations fail. The MIME summary and the attachment
  walker are those of \<open>MimeJson\<close>; \<^verbatim>\<open>JSON.stringify\<close>, SHA-256 and the URL parser's host names are parameters.
\<close>

section \<open>Data\<close>

datatype pm_direction = Dir_in | Dir_out

record pipe_platform =
  pp_crypto :: platform
  pp_hostname :: "string \<Rightarrow> string option"
  pp_mime :: mime_runtime
  pp_json :: "json \<Rightarrow> string"

record pm_auth =
  pa_spf :: "string option"
  pa_dkim :: "string option"
  pa_dmarc :: "string option"
  pa_remoteIp :: "string option"

record ProcessMessageArgs =
  pm_direction :: pm_direction
  pm_mailboxId :: string
  pm_principalId :: "string option"
  pm_bridgeId :: "string option"
  pm_rawMime :: bytes
  pm_source :: string
  pm_idempotencyKey :: "string option"
  pm_auth :: "pm_auth option"
  pm_envelopeTo :: "string list option"
  pm_recipientAddress :: "string option"

record OutboundQueueMessage =
  oq_messageId :: string
  oq_r2KeyOrInline :: string
  oq_fromDomain :: string
  oq_fromAddress :: string
  oq_envelopeTo :: "string list"
  oq_mailboxId :: string
  oq_domainId :: "string option"

record pm_message =
  pm_id :: string
  pm_mailbox_id :: string
  pm_bridge_id :: "string option"
  pm_dir :: pm_direction
  pm_status :: string
  pm_from_addr :: string
  pm_to_addrs :: string
  pm_subject :: string
  pm_r2_key :: string
  pm_content_sha256 :: string
  pm_body_bytes :: int
  pm_attachments_total_bytes :: int
  pm_idempotency_key :: "string option"
  pm_header_message_id :: "string option"
  pm_thread_id :: "string option"
  pm_received_at_api :: string
  pm_auth_row :: pm_auth
  pm_send_attempt_id :: "string option"
  pm_queued_at :: "string option"
  pm_created_at :: string

record receiver =
  rv_domain_id :: string
  rv_mailbox_id :: string
  rv_enabled :: bool
  rv_priority :: int
  rv_action :: string
  rv_webhook_sub_id :: "string option"
  rv_address_pattern :: string
  rv_disabled_at :: "string option"
  rv_forward_to :: "string option"

record pipe_world =
  pw_messages :: "pm_message list"
  pw_idem :: "idem_row list"
  pw_r2 :: "string \<Rightarrow> bytes option"
  pw_state :: state_db
  pw_queue :: "OutboundQueueMessage list"
  pw_audit :: audit_table
  pw_domains :: "(string \<times> string) list" \<comment> \<open>id and name\<close>
  pw_receivers :: "receiver list"

text \<open>What one call meets: time, random bytes, and faults of the platform by operation.\<close>
record pipe_call =
  pc_now :: string
  pc_nowMs :: int
  pc_weekAgo :: string
  pc_rnd1 :: bytes
  pc_rnd2 :: bytes
  pc_fails :: "string \<Rightarrow> bool"
  pc_put_fails :: "string \<Rightarrow> bool" \<comment> \<open>by R2 key\<close>
  pc_uid_faults :: "nat \<Rightarrow> fault"
  pc_change_faults :: "nat \<Rightarrow> fault"
  pc_idem_others :: "nat \<Rightarrow> idem_row list \<Rightarrow> idem_row list"
  pc_audit_others :: "nat \<Rightarrow> audit_table \<Rightarrow> audit_table"
  pc_has_queue :: bool

record FanoutEnqueue =
  fo_webhookSubId :: string
  fo_event :: string

record ProcessMessageResult =
  pr_messageId :: string
  pr_status :: string
  pr_fresh :: bool
  pr_fanoutEnqueues :: "FanoutEnqueue list option"

text \<open>A \<open>ProcessMessageError\<close> with its HTTP status and code, or any other exception.\<close>
datatype pm_error = ProcessMessageError int string | Uncaught string

section \<open>Helpers\<close>

definition attachment_char :: "char \<Rightarrow> bool" where
  "attachment_char c = (is_alnum c \<or> c \<in> {CHR ''.'', CHR ''_'', CHR ''-''})"

definition sanitizeAttachmentFilename :: "string \<Rightarrow> string" where
  "sanitizeAttachmentFilename name =
     (if name = [] then ''attachment''
      else let safe = take 255 (map (\<lambda>c. if attachment_char c then c else CHR ''_'') name)
           in if safe = ''.'' \<or> safe = ''..'' \<or> safe = [] then ''attachment'' else safe)"

text \<open>\<open>globToRegex\<close>: \<^verbatim>\<open>*\<close> is \<^verbatim>\<open>.*\<close>, everything else literal.\<close>
fun glob_any :: "string \<Rightarrow> string \<Rightarrow> bool" where
  "glob_any [] s = (s = [])"
| "glob_any (p # ps) [] = (p = CHR ''*'' \<and> glob_any ps [])"
| "glob_any (p # ps) (c # s) =
     (if p = CHR ''*''
      then glob_any ps (c # s) \<or> (c \<noteq> CHR 0x0A \<and> c \<noteq> CHR 0x0D \<and> glob_any (p # ps) s)
      else c = p \<and> glob_any ps s)"

definition addressMatches :: "string \<Rightarrow> string \<Rightarrow> bool" where
  "addressMatches pattern addr =
     (let a = js_lower addr; p = js_lower pattern in
      if p = ''*'' then True else if CHR ''*'' \<notin> set p then p = a else glob_any p a)"

text \<open>\<^verbatim>\<open>s.split('@')[1] ?? ''\<close>\<close>
definition domain_part :: "string \<Rightarrow> string" where
  "domain_part s = (case js_split (CHR ''@'') s of _ # d # _ \<Rightarrow> d | _ \<Rightarrow> [])"

definition domain_id :: "string \<Rightarrow> pipe_world \<Rightarrow> string option" where
  "domain_id name w = map_option fst (find (\<lambda>(i, n). n = name) (pw_domains w))"

definition resolveInboundFanout :: "pipe_call \<Rightarrow> ProcessMessageArgs \<Rightarrow> pipe_world \<Rightarrow> FanoutEnqueue list" where
  "resolveInboundFanout pc args w =
     (case pm_recipientAddress args of
        None \<Rightarrow> []
      | Some [] \<Rightarrow> []
      | Some addr \<Rightarrow>
          (case (if pc_fails pc ''select domain'' then None else domain_id (domain_part addr) w) of
             None \<Rightarrow> []
           | Some dom_id \<Rightarrow>
               (let rows = (if pc_fails pc ''select receivers'' then []
                            else take 100 (sort_key rv_priority
                              (filter (\<lambda>r. rv_domain_id r = dom_id \<and> rv_mailbox_id r = pm_mailboxId args \<and> rv_enabled r)
                                (pw_receivers w))))
                in concat (map (\<lambda>r.
                     if \<not> addressMatches (rv_address_pattern r) addr then []
                     else case rv_webhook_sub_id r of
                            Some (c # s) \<Rightarrow>
                              if rv_action r = ''webhook''
                              then [\<lparr>fo_webhookSubId = c # s, fo_event = ''message.received''\<rparr>] else []
                          | _ \<Rightarrow> []) rows))))"

text \<open>The matches of \<^verbatim>\<open>/<[^>]+>/g\<close>.\<close>
fun angle_ids :: "string \<Rightarrow> string list" where
  "angle_ids [] = []"
| "angle_ids (c # s) =
     (let body = takeWhile (\<lambda>x. x \<noteq> CHR ''>'') s in
      if c = CHR ''<'' \<and> body \<noteq> [] \<and> length body < length s
      then (CHR ''<'' # body @ [CHR ''>'']) # angle_ids (drop (Suc (length body)) s)
      else angle_ids s)"

text \<open>\<^verbatim>\<open>subject.replace(/^(re:|fwd?:)\s*/i, '').trim().toLowerCase()\<close>\<close>
definition normalized_subject :: "string \<Rightarrow> string" where
  "normalized_subject subject =
     (let l = js_lower subject;
          n = (if starts_with ''re:'' l \<or> starts_with ''fw:'' l then 3
               else if starts_with ''fwd:'' l then 4 else 0)
      in js_lower (js_trim (if n = 0 then subject else dropWhile is_space (drop n subject))))"

text \<open>SQLite's \<^verbatim>\<open>LOWER\<close>, which defines the column \<open>from_addr_normalized\<close>.\<close>
definition sqlite_lower :: "string \<Rightarrow> string" where
  "sqlite_lower s = map (\<lambda>c. if is_upper c then char_of (code c + 32) else c) s"

definition truthy_thread :: "pm_message option \<Rightarrow> string option" where
  "truthy_thread r = (case Option.bind r pm_thread_id of Some (c # s) \<Rightarrow> Some (c # s) | _ \<Rightarrow> None)"

fun first_thread :: "(string \<Rightarrow> string option) \<Rightarrow> string list \<Rightarrow> string option" where
  "first_thread look [] = None"
| "first_thread look (ref # refs) = (case look ref of Some t \<Rightarrow> Some t | None \<Rightarrow> first_thread look refs)"

text \<open>The row of the subject look-up: newest message of the mailbox from that sender within a week.\<close>
definition recent_from :: "string \<Rightarrow> string \<Rightarrow> string \<Rightarrow> pm_message list \<Rightarrow> pm_message option" where
  "recent_from mailboxId lookup weekAgo msgs =
     (case rev (sort_key pm_created_at (filter (\<lambda>m. pm_mailbox_id m = mailboxId \<and>
         sqlite_lower (pm_from_addr m) = lookup \<and> pm_created_at m > weekAgo) msgs)) of
        [] \<Rightarrow> None | m # _ \<Rightarrow> Some m)"

definition normalized_from :: "pipe_platform \<Rightarrow> string \<Rightarrow> string" where
  "normalized_from P raw =
     (if raw = [] then []
      else case normalizeAddress (pp_hostname P) raw of Inr n \<Rightarrow> na_full n | Inl _ \<Rightarrow> js_lower raw)"

definition computeThreadId ::
  "pipe_platform \<Rightarrow> pipe_call \<Rightarrow> pm_message list \<Rightarrow> string \<Rightarrow> string \<Rightarrow> string option \<Rightarrow> string option
     \<Rightarrow> string option \<Rightarrow> string \<Rightarrow> string" where
  "computeThreadId P pc msgs ownId mailboxId references inReplyTo subject fromAddr =
     (let refIds = (case references of None \<Rightarrow> [] | Some r \<Rightarrow> angle_ids r) @
                   (case inReplyTo of None \<Rightarrow> [] | Some r \<Rightarrow> take 1 (angle_ids r));
          look = (\<lambda>ref. if pc_fails pc ''select thread'' then None
                    else truthy_thread (find (\<lambda>m. pm_mailbox_id m = mailboxId \<and> pm_header_message_id m = Some ref) msgs))
      in case first_thread look refIds of
           Some t \<Rightarrow> t
         | None \<Rightarrow>
             (case subject of
                None \<Rightarrow> ownId
              | Some s \<Rightarrow>
                  if normalized_subject s = [] \<or> pc_fails pc ''select thread'' then ownId
                  else case truthy_thread (recent_from mailboxId (normalized_from P fromAddr) (pc_weekAgo pc) msgs) of
                         Some t \<Rightarrow> t | None \<Rightarrow> ownId))"

section \<open>The pipeline\<close>

definition r2_key_of :: "string \<Rightarrow> string" where
  "r2_key_of sha = ''mime/'' @ js_slice 0 2 sha @ ''/'' @ js_slice 2 4 sha @ ''/'' @ sha"

text \<open>HEAD, then PUT if the object is not there (or HEAD failed). \<^const>\<open>None\<close> is a failed PUT.\<close>
definition r2_store :: "pipe_call \<Rightarrow> string \<Rightarrow> bytes \<Rightarrow> (string \<Rightarrow> bytes option) \<Rightarrow> (string \<Rightarrow> bytes option) option" where
  "r2_store pc key body r2 =
     (if \<not> pc_fails pc ''r2 head'' \<and> r2 key \<noteq> None then Some r2
      else if pc_put_fails pc key then None
      else Some (r2(key \<mapsto> body)))"

definition attachment_key :: "pipe_platform \<Rightarrow> ExtractedAttachment \<Rightarrow> string" where
  "attachment_key P part =
     ''att/'' @ sha256Hex (pp_crypto P) (ea_bytes part) @ ''/'' @ sanitizeAttachmentFilename (ea_filename part)"

fun store_attachments ::
  "pipe_platform \<Rightarrow> pipe_call \<Rightarrow> ExtractedAttachment list \<Rightarrow> (string \<Rightarrow> bytes option)
     \<Rightarrow> (string \<Rightarrow> bytes option) \<times> bool" where
  "store_attachments P pc [] r2 = (r2, True)"
| "store_attachments P pc (part # parts) r2 =
     (case r2_store pc (attachment_key P part) (ea_bytes part) r2 of
        None \<Rightarrow> (r2, False)
      | Some r2' \<Rightarrow> store_attachments P pc parts r2')"

text \<open>A member of an object literal; \<^verbatim>\<open>JSON.stringify\<close> omits the undefined ones.\<close>
definition opt_member :: "string \<Rightarrow> string option \<Rightarrow> (string \<times> json) list" where
  "opt_member k x = (case x of None \<Rightarrow> [] | Some s \<Rightarrow> [(k, JStr s)])"

definition auth_member :: "pm_auth option \<Rightarrow> (string \<times> json) list" where
  "auth_member a = (case a of None \<Rightarrow> []
     | Some a \<Rightarrow> [(''auth'', JObj (opt_member ''spf'' (pa_spf a) @ opt_member ''dkim'' (pa_dkim a) @
                     opt_member ''dmarc'' (pa_dmarc a) @ opt_member ''remoteIp'' (pa_remoteIp a)))])"

definition audit_actor :: "ProcessMessageArgs \<Rightarrow> string" where
  "audit_actor args =
     (case pm_principalId args of Some p \<Rightarrow> p | None \<Rightarrow>
        (case pm_bridgeId args of Some b \<Rightarrow> b | None \<Rightarrow> ''system''))"

definition run_audit ::
  "pipe_platform \<Rightarrow> pipe_call \<Rightarrow> AuditArgs \<Rightarrow> pipe_world \<Rightarrow> ProcessMessageResult
     \<Rightarrow> pipe_world \<times> (pm_error + ProcessMessageResult)" where
  "run_audit P pc args w res =
     (case audit (pp_crypto P) args (pc_audit_others pc) (pw_audit w) of
        (a, Some _) \<Rightarrow> (w\<lparr>pw_audit := a\<rparr>, Inr res)
      | (a, None) \<Rightarrow> (w\<lparr>pw_audit := a\<rparr>, Inl (Uncaught ''audit'')))"

definition mark_queued :: "string \<Rightarrow> string \<Rightarrow> string \<Rightarrow> pm_message list \<Rightarrow> pm_message list" where
  "mark_queued sendAttemptId now messageId msgs =
     map (\<lambda>m. if pm_id m = messageId
              then m\<lparr>pm_status := ''queued'', pm_send_attempt_id := Some sendAttemptId, pm_queued_at := Some now\<rparr> else m) msgs"

definition submitted_audit ::
  "pipe_platform \<Rightarrow> pipe_call \<Rightarrow> ProcessMessageArgs \<Rightarrow> ParsedMimeSummary \<Rightarrow> string \<Rightarrow> string \<Rightarrow> string \<Rightarrow> AuditArgs" where
  "submitted_audit P pc args summary messageId fromAddr contentSha =
     \<lparr> aa_actor = audit_actor args, aa_action = ''message.submitted'', aa_target = Some messageId,
       aa_meta = pp_json P (JObj ([(''source'', JStr (pm_source args))] @ opt_member ''bridge_id'' (pm_bridgeId args) @
         [(''content_sha256'', JStr contentSha), (''from'', JStr fromAddr),
          (''to_count'', JNum (of_nat (case pm_envelopeTo args of Some e \<Rightarrow> length e | None \<Rightarrow> length (ps_to summary))))])),
       aa_at = pc_nowMs pc \<rparr>"

definition queue_message ::
  "pipe_call \<Rightarrow> ProcessMessageArgs \<Rightarrow> ParsedMimeSummary \<Rightarrow> string \<Rightarrow> string \<Rightarrow> string \<Rightarrow> pipe_world \<Rightarrow> OutboundQueueMessage" where
  "queue_message pc args summary messageId fromAddr r2Key w =
     (let fromDomain = domain_part fromAddr in
      \<lparr> oq_messageId = messageId, oq_r2KeyOrInline = r2Key, oq_fromDomain = fromDomain, oq_fromAddress = fromAddr,
        oq_envelopeTo = (case pm_envelopeTo args of Some e \<Rightarrow> e | None \<Rightarrow> ps_to summary),
        oq_mailboxId = pm_mailboxId args,
        oq_domainId = (if fromDomain = [] \<or> pc_fails pc ''select domain'' then None else domain_id fromDomain w) \<rparr>)"

text \<open>Lines 614 to 666: enqueue, mark queued, audit.\<close>
definition outbound_tail ::
  "pipe_platform \<Rightarrow> pipe_call \<Rightarrow> ProcessMessageArgs \<Rightarrow> ParsedMimeSummary \<Rightarrow> string \<Rightarrow> string \<Rightarrow> string \<Rightarrow> string
     \<Rightarrow> pipe_world \<Rightarrow> pipe_world \<times> (pm_error + ProcessMessageResult)" where
  "outbound_tail P pc args summary messageId fromAddr contentSha r2Key w =
     (if \<not> pc_has_queue pc then (w, Inl (ProcessMessageError 500 ''no_outbound_queue''))
      else case ulid (pc_nowMs pc) (pc_rnd2 pc) of
             Inl e \<Rightarrow> (w, Inl (Uncaught e))
           | Inr sendAttemptId \<Rightarrow>
               if pc_fails pc ''queue send'' then (w, Inl (Uncaught ''queue send''))
               else run_audit P pc (submitted_audit P pc args summary messageId fromAddr contentSha)
                      (w\<lparr>pw_queue := pw_queue w @ [queue_message pc args summary messageId fromAddr r2Key w],
                         pw_messages := mark_queued sendAttemptId (pc_now pc) messageId (pw_messages w)\<rparr>)
                      \<lparr> pr_messageId = messageId, pr_status = ''queued'', pr_fresh = True, pr_fanoutEnqueues = None \<rparr>)"

definition received_audit ::
  "pipe_platform \<Rightarrow> pipe_call \<Rightarrow> ProcessMessageArgs \<Rightarrow> string \<Rightarrow> string \<Rightarrow> string \<Rightarrow> FanoutEnqueue list \<Rightarrow> AuditArgs" where
  "received_audit P pc args messageId fromAddr contentSha fanout =
     \<lparr> aa_actor = audit_actor args, aa_action = ''message.received'', aa_target = Some messageId,
       aa_meta = pp_json P (JObj ([(''source'', JStr (pm_source args)), (''content_sha256'', JStr contentSha),
         (''from'', JStr fromAddr)] @ opt_member ''to'' (pm_recipientAddress args) @ auth_member (pm_auth args) @
         [(''fanout_count'', JNum (of_nat (length fanout)))])),
       aa_at = pc_nowMs pc \<rparr>"

text \<open>Lines 602 to 612 and 668 to 685: state row (best effort), fanout, audit.\<close>
definition inbound_tail ::
  "pipe_platform \<Rightarrow> pipe_call \<Rightarrow> ProcessMessageArgs \<Rightarrow> string \<Rightarrow> string \<Rightarrow> string
     \<Rightarrow> pipe_world \<Rightarrow> pipe_world \<times> (pm_error + ProcessMessageResult)" where
  "inbound_tail P pc args messageId fromAddr contentSha w =
     (let w1 = w\<lparr>pw_state := fst (allocateInboundState (pc_uid_faults pc) (pc_change_faults pc) (pc_nowMs pc)
                  (pm_mailboxId args) messageId (pw_state w))\<rparr>;
          fanout = resolveInboundFanout pc args w1
      in run_audit P pc (received_audit P pc args messageId fromAddr contentSha fanout) w1
           \<lparr> pr_messageId = messageId, pr_status = ''received'', pr_fresh = True, pr_fanoutEnqueues = Some fanout \<rparr>)"

definition no_auth :: pm_auth where
  "no_auth = \<lparr>pa_spf = None, pa_dkim = None, pa_dmarc = None, pa_remoteIp = None\<rparr>"

definition record_claim :: "ProcessMessageArgs \<Rightarrow> string \<Rightarrow> idem_row list \<Rightarrow> idem_row list" where
  "record_claim args messageId t =
     (case (pm_direction args, pm_idempotencyKey args, pm_principalId args) of
        (Dir_out, Some (c # k), Some (d # p)) \<Rightarrow> pipeline_recordClaim (d # p) (c # k) messageId t
      | _ \<Rightarrow> t)"

text \<open>Lines 520 to 595: the message row, and the claim pointed at it.\<close>
definition insert_message ::
  "pipe_platform \<Rightarrow> pipe_call \<Rightarrow> ProcessMessageArgs \<Rightarrow> ParsedMimeSummary \<Rightarrow> string \<Rightarrow> string \<Rightarrow> string \<Rightarrow> string
     \<Rightarrow> pipe_world \<Rightarrow> pipe_world" where
  "insert_message P pc args summary messageId fromAddr contentSha r2Key w =
     (let threadId = computeThreadId P pc (pw_messages w) messageId (pm_mailboxId args) (ps_references summary)
            (ps_inReplyTo summary) (ps_subject summary) fromAddr;
          row = \<lparr> pm_id = messageId, pm_mailbox_id = pm_mailboxId args, pm_bridge_id = pm_bridgeId args,
            pm_dir = pm_direction args, pm_status = ''received'', pm_from_addr = fromAddr,
            pm_to_addrs = pp_json P (JArr (map JStr (case pm_envelopeTo args of Some e \<Rightarrow> e | None \<Rightarrow> ps_to summary))),
            pm_subject = (case ps_subject summary of None \<Rightarrow> [] | Some s \<Rightarrow> s), pm_r2_key = r2Key,
            pm_content_sha256 = contentSha, pm_body_bytes = int (ps_body_bytes summary),
            pm_attachments_total_bytes = int (ps_attachments_total_bytes summary),
            pm_idempotency_key = pm_idempotencyKey args, pm_header_message_id = ps_headerMessageId summary,
            pm_thread_id = Some threadId, pm_received_at_api = pc_now pc,
            pm_auth_row = (case pm_auth args of None \<Rightarrow> no_auth | Some a \<Rightarrow> a),
            pm_send_attempt_id = None, pm_queued_at = None, pm_created_at = pc_now pc \<rparr>;
          w1 = w\<lparr>pw_messages := pw_messages w @ [row]\<rparr>
      in w1\<lparr>pw_idem := record_claim args messageId (pw_idem w1)\<rparr>)"

text \<open>Lines 476 to 595 and the tails: everything after the dedup and the claim.\<close>
definition ingest ::
  "pipe_platform \<Rightarrow> pipe_call \<Rightarrow> ProcessMessageArgs \<Rightarrow> string \<Rightarrow> string \<Rightarrow> pipe_world
     \<Rightarrow> pipe_world \<times> (pm_error + ProcessMessageResult)" where
  "ingest P pc args contentSha r2Key w =
     (case summarizeMime (pp_mime P) (pm_rawMime args) of
        Inl _ \<Rightarrow> (w, Inl (Uncaught ''mime''))
      | Inr summary \<Rightarrow>
     (case r2_store pc r2Key (pm_rawMime args) (pw_r2 w) of
        None \<Rightarrow> (w, Inl (Uncaught ''r2 put''))
      | Some r2 \<Rightarrow>
     (case extractAttachmentParts (pp_mime P) (pm_rawMime args) of
        Inl _ \<Rightarrow> (w\<lparr>pw_r2 := r2\<rparr>, Inl (Uncaught ''mime''))
      | Inr attachmentParts \<Rightarrow>
          (case store_attachments P pc attachmentParts r2 of
             (r2', False) \<Rightarrow> (w\<lparr>pw_r2 := r2'\<rparr>, Inl (ProcessMessageError 502 ''attachment_r2_write_failed''))
           | (r2', True) \<Rightarrow>
               (case ulid (pc_nowMs pc) (pc_rnd1 pc) of
                  Inl e \<Rightarrow> (w\<lparr>pw_r2 := r2'\<rparr>, Inl (Uncaught e))
                | Inr messageId \<Rightarrow>
                    (let fromAddr = normalized_from P (ps_from summary);
                         w2 = insert_message P pc args summary messageId fromAddr contentSha r2Key (w\<lparr>pw_r2 := r2'\<rparr>)
                     in case pm_direction args of
                          Dir_out \<Rightarrow> outbound_tail P pc args summary messageId fromAddr contentSha r2Key w2
                        | Dir_in \<Rightarrow> inbound_tail P pc args messageId fromAddr contentSha w2))))))"

definition processMessage ::
  "pipe_platform \<Rightarrow> pipe_call \<Rightarrow> ProcessMessageArgs \<Rightarrow> pipe_world \<Rightarrow> pipe_world \<times> (pm_error + ProcessMessageResult)" where
  "processMessage P pc args w =
     (let contentSha = sha256Hex (pp_crypto P) (pm_rawMime args);
          r2Key = r2_key_of contentSha;
          existing = (if pc_fails pc ''select dedup'' then None
                      else find (\<lambda>m. pm_mailbox_id m = pm_mailboxId args \<and> pm_r2_key m = r2Key) (pw_messages w))
      in case (pm_direction args, existing, pm_idempotencyKey args) of
           (Dir_in, Some m, _) \<Rightarrow>
             (w, Inr \<lparr> pr_messageId = pm_id m, pr_status = ''received'', pr_fresh = False,
                       pr_fanoutEnqueues = Some (resolveInboundFanout pc args w) \<rparr>)
         | (Dir_out, _, Some (c # k)) \<Rightarrow>
             (case pm_principalId args of
                Some (d # p) \<Rightarrow>
                  (case pipeline_tryClaim (pc_idem_others pc) (c # k) (pm_mailboxId args) (d # p) (pc_now pc) (pw_idem w) of
                     (t, Inl e) \<Rightarrow> (w\<lparr>pw_idem := t\<rparr>, Inl (Uncaught e))
                   | (t, Inr claim) \<Rightarrow>
                       if ic_first claim then ingest P pc args contentSha r2Key (w\<lparr>pw_idem := t\<rparr>)
                       else (w\<lparr>pw_idem := t\<rparr>,
                             case ic_messageId claim of
                               Some m \<Rightarrow> Inr \<lparr> pr_messageId = m, pr_status = ''queued'', pr_fresh = False, pr_fanoutEnqueues = None \<rparr>
                             | None \<Rightarrow> Inl (ProcessMessageError 425 ''idempotency_in_progress'')))
              | _ \<Rightarrow> (w, Inl (ProcessMessageError 400 ''bad_request'')))
         | _ \<Rightarrow> ingest P pc args contentSha r2Key w)"

section \<open>What each phase touches\<close>

lemma run_audit_world:
  "pw_idem (fst (run_audit P pc a w res)) = pw_idem w"
  "pw_queue (fst (run_audit P pc a w res)) = pw_queue w"
  "pw_messages (fst (run_audit P pc a w res)) = pw_messages w"
  "pw_r2 (fst (run_audit P pc a w res)) = pw_r2 w"
  "snd (run_audit P pc a w res) = Inr r \<Longrightarrow> r = res"
  by (auto simp: run_audit_def split: prod.splits option.splits)

lemma outbound_tail_world:
  "pw_idem (fst (outbound_tail P pc args sm mid frm sha key w)) = pw_idem w"
  "pw_r2 (fst (outbound_tail P pc args sm mid frm sha key w)) = pw_r2 w"
  "snd (outbound_tail P pc args sm mid frm sha key w) = Inr r \<Longrightarrow> pr_messageId r = mid \<and> pr_fresh r \<and> pr_status r = ''queued''"
  by (auto simp: outbound_tail_def run_audit_world split: sum.splits if_splits dest!: run_audit_world(5))

lemma inbound_tail_world:
  "pw_idem (fst (inbound_tail P pc args mid frm sha w)) = pw_idem w"
  "pw_r2 (fst (inbound_tail P pc args mid frm sha w)) = pw_r2 w"
  "pw_messages (fst (inbound_tail P pc args mid frm sha w)) = pw_messages w"
  "snd (inbound_tail P pc args mid frm sha w) = Inr r \<Longrightarrow> pr_messageId r = mid \<and> pr_fresh r"
  by (auto simp: inbound_tail_def Let_def run_audit_world dest: run_audit_world(5))

lemma insert_message_world:
  "pw_r2 (insert_message P pc args sm mid frm sha key w) = pw_r2 w"
  "pw_queue (insert_message P pc args sm mid frm sha key w) = pw_queue w"
  "pw_idem (insert_message P pc args sm mid frm sha key w) = record_claim args mid (pw_idem w)"
  "\<exists>row. pw_messages (insert_message P pc args sm mid frm sha key w) = pw_messages w @ [row] \<and>
     pm_id row = mid \<and> pm_mailbox_id row = pm_mailboxId args \<and> pm_r2_key row = key \<and> pm_content_sha256 row = sha \<and>
     pm_status row = ''received'' \<and> pm_from_addr row = frm"
  by (simp_all add: insert_message_def Let_def)

lemma ulid_not_Nil: "ulid now rnd = Inr i \<Longrightarrow> i \<noteq> []"
  by (auto simp: ulid_def RAND_LEN_def split: if_splits)

text \<open>The ways through \<open>ingest\<close>: the message cannot be read, storing a body fails, or the row is written and a tail runs.\<close>
definition ingest_tail ::
  "pipe_platform \<Rightarrow> pipe_call \<Rightarrow> ProcessMessageArgs \<Rightarrow> ParsedMimeSummary \<Rightarrow> string \<Rightarrow> string \<Rightarrow> string \<Rightarrow> pipe_world
     \<Rightarrow> pipe_world \<times> (pm_error + ProcessMessageResult)" where
  "ingest_tail P pc args sm sha key mid w =
     (let frm = normalized_from P (ps_from sm);
          w2 = insert_message P pc args sm mid frm sha key w
      in case pm_direction args of
           Dir_out \<Rightarrow> outbound_tail P pc args sm mid frm sha key w2
         | Dir_in \<Rightarrow> inbound_tail P pc args mid frm sha w2)"

lemma ingest_cases:
  assumes "ingest P pc args sha key w = (w', res)"
  obtains (bad_mime) "w' = w" "res = Inl (Uncaught ''mime'')"
  | (no_body) "w' = w" "res = Inl (Uncaught ''r2 put'')"
  | (no_attachment) r2 r2' parts where "r2_store pc key (pm_rawMime args) (pw_r2 w) = Some r2"
      "store_attachments P pc parts r2 = (r2', False)"
      "w' = w\<lparr>pw_r2 := r2'\<rparr>" "res = Inl (ProcessMessageError 502 ''attachment_r2_write_failed'')"
  | (bad_clock) r2 r2' parts where "r2_store pc key (pm_rawMime args) (pw_r2 w) = Some r2"
      "store_attachments P pc parts r2 = (r2', True)"
      "w' = w\<lparr>pw_r2 := r2'\<rparr>" "res = Inl (Uncaught ''ulid: bad time'')"
  | (row) r2 r2' mid sm parts where "r2_store pc key (pm_rawMime args) (pw_r2 w) = Some r2"
      "store_attachments P pc parts r2 = (r2', True)"
      "ulid (pc_nowMs pc) (pc_rnd1 pc) = Inr mid" "(w', res) = ingest_tail P pc args sm sha key mid (w\<lparr>pw_r2 := r2'\<rparr>)"
      "summarizeMime (pp_mime P) (pm_rawMime args) = Inr sm" "extractAttachmentParts (pp_mime P) (pm_rawMime args) = Inr parts"
proof (cases "summarizeMime (pp_mime P) (pm_rawMime args)")
  case (Inl e)
  with assms that(1) show thesis by (simp add: ingest_def)
next
  case sm: (Inr sm)
  then obtain parts where parts: "extractAttachmentParts (pp_mime P) (pm_rawMime args) = Inr parts" using extract_after_summary by blast
  show thesis
  proof (cases "r2_store pc key (pm_rawMime args) (pw_r2 w)")
    case None
    with assms sm that(2) show thesis by (simp add: ingest_def)
  next
    case (Some r2)
    obtain r2' ok where a: "store_attachments P pc parts r2 = (r2', ok)" by fastforce
    show thesis
    proof (cases ok)
      case False
      with Some sm parts a assms that(3) show thesis by (simp add: ingest_def)
    next
      case True
      show thesis
      proof (cases "ulid (pc_nowMs pc) (pc_rnd1 pc)")
        case (Inl e)
        moreover from this have "e = ''ulid: bad time''" by (auto simp: ulid_def split: if_splits)
        ultimately show thesis using Some sm parts a True assms that(4) by (auto simp: ingest_def)
      next
        case (Inr mid)
        have "(w', res) = ingest_tail P pc args sm sha key mid (w\<lparr>pw_r2 := r2'\<rparr>)"
          using Some sm parts a True Inr assms by (simp add: ingest_def ingest_tail_def Let_def)
        then show thesis using that(5) [OF Some _ Inr _ sm parts, of r2'] a True by simp
      qed
    qed
  qed
qed

lemma ingest_tail_world:
  assumes "(w', res) = ingest_tail P pc args sm sha key mid w"
  shows "pw_idem w' = record_claim args mid (pw_idem w)" "pw_r2 w' = pw_r2 w"
    "res = Inr r \<Longrightarrow> pr_messageId r = mid \<and> pr_fresh r"
proof -
  let ?w2 = "insert_message P pc args sm mid (normalized_from P (ps_from sm)) sha key w"
  note o = outbound_tail_world [of P pc args sm mid "normalized_from P (ps_from sm)" sha key ?w2]
  note i = inbound_tail_world [of P pc args mid "normalized_from P (ps_from sm)" sha ?w2]
  have e: "w' = fst (case pm_direction args of
        Dir_out \<Rightarrow> outbound_tail P pc args sm mid (normalized_from P (ps_from sm)) sha key ?w2
      | Dir_in \<Rightarrow> inbound_tail P pc args mid (normalized_from P (ps_from sm)) sha ?w2)"
    "res = snd (case pm_direction args of
        Dir_out \<Rightarrow> outbound_tail P pc args sm mid (normalized_from P (ps_from sm)) sha key ?w2
      | Dir_in \<Rightarrow> inbound_tail P pc args mid (normalized_from P (ps_from sm)) sha ?w2)"
    using arg_cong [OF assms, of fst] arg_cong [OF assms, of snd] unfolding ingest_tail_def Let_def by simp_all
  show "pw_idem w' = record_claim args mid (pw_idem w)" "pw_r2 w' = pw_r2 w"
    unfolding e(1) using o(1,2) i(1,2) by (cases "pm_direction args"; simp add: insert_message_world)+
  show "res = Inr r \<Longrightarrow> pr_messageId r = mid \<and> pr_fresh r"
    unfolding e(2) using o(3) [of r] i(4) [of r] by (cases "pm_direction args") simp_all
qed

section \<open>Idempotent submission\<close>

text \<open>An outbound submission under an idempotency key.\<close>
definition keyed :: "ProcessMessageArgs \<Rightarrow> string \<Rightarrow> string \<Rightarrow> bool" where
  "keyed args p k = (pm_direction args = Dir_out \<and> pm_principalId args = Some p \<and> pm_idempotencyKey args = Some k \<and>
     p \<noteq> [] \<and> k \<noteq> [])"

text \<open>No other request touches the key while this one polls.\<close>
definition leaves_claim :: "pipe_call \<Rightarrow> string \<Rightarrow> string \<Rightarrow> bool" where
  "leaves_claim pc p k = (\<forall>i t. idem_lookup p k (pc_idem_others pc i t) = idem_lookup p k t)"

lemma record_claim_keyed: "keyed args p k \<Longrightarrow> record_claim args mid t = pipeline_recordClaim p k mid t"
  by (cases p; cases k) (auto simp: keyed_def record_claim_def)

lemma processMessage_keyed:
  assumes "keyed args p k"
  shows "processMessage P pc args w =
    (let sha = sha256Hex (pp_crypto P) (pm_rawMime args) in
     case pipeline_tryClaim (pc_idem_others pc) k (pm_mailboxId args) p (pc_now pc) (pw_idem w) of
       (t, Inl e) \<Rightarrow> (w\<lparr>pw_idem := t\<rparr>, Inl (Uncaught e))
     | (t, Inr claim) \<Rightarrow>
         if ic_first claim then ingest P pc args sha (r2_key_of sha) (w\<lparr>pw_idem := t\<rparr>)
         else (w\<lparr>pw_idem := t\<rparr>,
               case ic_messageId claim of
                 Some m \<Rightarrow> Inr \<lparr> pr_messageId = m, pr_status = ''queued'', pr_fresh = False, pr_fanoutEnqueues = None \<rparr>
               | None \<Rightarrow> Inl (ProcessMessageError 425 ''idempotency_in_progress'')))"
  using assms by (cases p; cases k) (auto simp: keyed_def processMessage_def Let_def)

lemma foldl_leaves:
  "(\<And>i t. idem_lookup p k (others i t) = idem_lookup p k t) \<Longrightarrow>
   idem_lookup p k (foldl (\<lambda>t i. others i t) t is) = idem_lookup p k t"
  by (induction "is" arbitrary: t) auto

lemma poll_claim_same:
  assumes "\<forall>t \<in> set ts. idem_lookup p k t = Some r" "ts \<noteq> []"
  shows "ic_messageId (poll_claim p k ts) = (case ik_message_id r of Some (c # m) \<Rightarrow> Some (c # m) | _ \<Rightarrow> None) \<and>
     \<not> ic_first (poll_claim p k ts)"
  using assms
proof (induction ts)
  case (Cons t ts)
  then show ?case by (cases ts) (auto split: option.splits list.splits)
qed simp

text \<open>A submission under a key that is already claimed: it returns the recorded message, or 425 when there is none.\<close>
lemma keyed_retry:
  assumes "keyed args p k" "leaves_claim pc p k" "idem_lookup p k (pw_idem w) = Some r"
  shows "\<exists>t. processMessage P pc args w = (w\<lparr>pw_idem := t\<rparr>,
     case ik_message_id r of
       Some (c # m) \<Rightarrow> Inr \<lparr> pr_messageId = c # m, pr_status = ''queued'', pr_fresh = False, pr_fanoutEnqueues = None \<rparr>
     | _ \<Rightarrow> Inl (ProcessMessageError 425 ''idempotency_in_progress''))"
proof -
  obtain t' won where i: "idem_insert True k (pm_mailboxId args) p (pc_now pc) (pw_idem w) = (t', won)" by fastforce
  have w: "\<not> won" and l: "idem_lookup p k t' = Some r"
    using idem_insert_iff [of True k "pm_mailboxId args" p "pc_now pc" "pw_idem w"]
      idem_lookup_insert [of p k True k "pm_mailboxId args" p "pc_now pc" "pw_idem w"] i assms(3) by auto
  define ts where "ts = map (\<lambda>n. foldl (\<lambda>t i. pc_idem_others pc i t) t' [0 ..< Suc n]) [0 ..< 5]"
  have "\<forall>t \<in> set ts. idem_lookup p k t = Some r"
    using foldl_leaves [of p k "pc_idem_others pc" t'] assms(2) l unfolding ts_def leaves_claim_def
    by (auto simp del: upt_Suc)
  moreover have "ts \<noteq> []" by (simp add: ts_def)
  ultimately have "ic_messageId (poll_claim p k ts) = (case ik_message_id r of Some (c # m) \<Rightarrow> Some (c # m) | _ \<Rightarrow> None)"
    "\<not> ic_first (poll_claim p k ts)" using poll_claim_same by blast+
  moreover have "pipeline_tryClaim (pc_idem_others pc) k (pm_mailboxId args) p (pc_now pc) (pw_idem w) =
      (last ts, Inr (poll_claim p k ts))"
    using assms(1) i w unfolding pipeline_tryClaim_def keyed_def ts_def Let_def by simp
  ultimately show ?thesis
    unfolding processMessage_keyed [OF assms(1)] Let_def by (auto split: option.splits list.splits)
qed

text \<open>The first submission under a key, whatever becomes of it, leaves the claim behind.\<close>
lemma keyed_first:
  assumes "keyed args p k" "idem_lookup p k (pw_idem w) = None"
  shows "\<exists>t r. idem_lookup p k t = Some r \<and> ik_message_id r = None \<and>
     processMessage P pc args w =
       ingest P pc args (sha256Hex (pp_crypto P) (pm_rawMime args)) (r2_key_of (sha256Hex (pp_crypto P) (pm_rawMime args)))
         (w\<lparr>pw_idem := t\<rparr>)"
proof -
  obtain t' won where i: "idem_insert True k (pm_mailboxId args) p (pc_now pc) (pw_idem w) = (t', won)" by fastforce
  have w: "won"
    using idem_insert_iff [of True k "pm_mailboxId args" p "pc_now pc" "pw_idem w"] i assms(2) by auto
  have "\<exists>r. idem_lookup p k t' = Some r \<and> ik_message_id r = None"
    using idem_lookup_insert [of p k True k "pm_mailboxId args" p "pc_now pc" "pw_idem w"] i assms(2) by auto
  moreover have "pipeline_tryClaim (pc_idem_others pc) k (pm_mailboxId args) p (pc_now pc) (pw_idem w) =
      (t', Inr \<lparr> ic_first = True, ic_messageId = None \<rparr>)"
    using assms(1) i w unfolding pipeline_tryClaim_def keyed_def by simp
  ultimately show ?thesis unfolding processMessage_keyed [OF assms(1)] Let_def by auto
qed


text \<open>When the winner of an idempotency key fails to store an attachment, for which the pipeline answers 502 so that
  the caller retries, the key stays claimed without a message: every retry is refused with 425 and nothing is ever
  stored under the key.\<close>
theorem failed_submission_burns_key:
  assumes "keyed args p k" "idem_lookup p k (pw_idem w) = None"
    and "processMessage P pc args w = (w', Inl (ProcessMessageError 502 ecode))"
    and "keyed args' p k" "leaves_claim pc' p k"
  shows "\<exists>t. processMessage P pc' args' w' = (w'\<lparr>pw_idem := t\<rparr>, Inl (ProcessMessageError 425 ''idempotency_in_progress''))"
proof -
  let ?sha = "sha256Hex (pp_crypto P) (pm_rawMime args)"
  obtain t x where t: "idem_lookup p k t = Some x" "ik_message_id x = None"
    and "ingest P pc args ?sha (r2_key_of ?sha) (w\<lparr>pw_idem := t\<rparr>) = (w', Inl (ProcessMessageError 502 ecode))"
    using keyed_first [OF assms(1,2), of P pc] assms(3) by auto
  from this(3) have "pw_idem w' = t"
  proof (cases rule: ingest_cases)
    case (row r2 r2' mid sm parts)
    then show ?thesis using assms(1)
      by (auto simp: ingest_tail_def keyed_def Let_def outbound_tail_def run_audit_def split: if_splits sum.splits prod.splits option.splits)
  qed auto
  with t keyed_retry [OF assms(4,5), of w' x P] show ?thesis by simp
qed

text \<open>When the message row is written but the queue cannot be reached, the submission fails, and yet every retry is
  answered with status queued and the id of a message that no queue entry refers to.\<close>
theorem unqueued_message_reported_queued:
  assumes "keyed args p k" "idem_lookup p k (pw_idem w) = None"
    and "processMessage P pc args w = (w', Inl e)" "e = ProcessMessageError 500 ''no_outbound_queue'' \<or> e = Uncaught ''queue send''"
    and "keyed args' p k" "leaves_claim pc' p k"
  shows "\<exists>t r. processMessage P pc' args' w' = (w'\<lparr>pw_idem := t\<rparr>, Inr r) \<and> pr_status r = ''queued'' \<and> pw_queue w' = pw_queue w"
proof -
  let ?sha = "sha256Hex (pp_crypto P) (pm_rawMime args)"
  obtain t x where t: "idem_lookup p k t = Some x" "ik_message_id x = None"
    and "ingest P pc args ?sha (r2_key_of ?sha) (w\<lparr>pw_idem := t\<rparr>) = (w', Inl e)"
    using keyed_first [OF assms(1,2), of P pc] assms(3) by auto
  from this(3) show ?thesis
  proof (cases rule: ingest_cases)
    case (row r2 r2' mid sm parts)
    note tl = ingest_tail_world [OF row(4)]
    have "mid \<noteq> []" by (rule ulid_not_Nil [OF row(3)])
    moreover have "idem_lookup p k (pw_idem w') = Some (x\<lparr>ik_message_id := Some mid, ik_claim_locked := False\<rparr>)"
      using tl(1) t record_claim_keyed [OF assms(1)] by (simp add: idem_lookup_record)
    moreover have "pw_queue w' = pw_queue w"
      using row(4) assms(1,4)
      by (auto simp: ingest_tail_def keyed_def Let_def outbound_tail_def run_audit_def insert_message_world
        split: if_splits sum.splits prod.splits option.splits)
    ultimately show ?thesis
      using keyed_retry [OF assms(5,6), of w' "x\<lparr>ik_message_id := Some mid, ik_claim_locked := False\<rparr>" P]
      by (cases mid) auto
  qed (use assms(4) in auto)
qed

section \<open>Content addressing\<close>

lemma length_r2_key_of: "length (r2_key_of s) = 7 + min 2 (length s) + min 2 (length s - 2) + length s"
  by (auto simp: r2_key_of_def js_slice_def min_def)

lemma drop_prefix: "x = p @ s \<Longrightarrow> drop (length x - length s) x = s"
  by simp

lemma r2_key_of_suffix: "drop (length (r2_key_of s) - length s) (r2_key_of s) = s"
  by (rule drop_prefix [of _ "''mime/'' @ js_slice 0 2 s @ ''/'' @ js_slice 2 4 s @ ''/''"]) (simp add: r2_key_of_def)

lemma r2_key_of_inject: "r2_key_of s = r2_key_of t \<longleftrightarrow> s = t"
proof
  assume e: "r2_key_of s = r2_key_of t"
  then have "length s = length t" using length_r2_key_of [of s] length_r2_key_of [of t] by (auto simp: min_def split: if_splits)
  then show "s = t" using e r2_key_of_suffix by metis
qed simp

lemma attachment_key_not_mime: "attachment_key P part \<noteq> r2_key_of sha"
  by (simp add: attachment_key_def r2_key_of_def)

text \<open>Objects under \<^verbatim>\<open>mime/\<close> hash to their key, every message has its body, and the mailbox tables are well
  formed.\<close>
definition bodies_ok :: "pipe_platform \<Rightarrow> (string \<Rightarrow> bytes option) \<Rightarrow> bool" where
  "bodies_ok P r2 = (\<forall>sha b. r2 (r2_key_of sha) = Some b \<longrightarrow> sha256Hex (pp_crypto P) b = sha)"

definition has_body :: "(string \<Rightarrow> bytes option) \<Rightarrow> pm_message \<Rightarrow> bool" where
  "has_body r2 m = (pm_r2_key m = r2_key_of (pm_content_sha256 m) \<and> r2 (pm_r2_key m) \<noteq> None)"

definition pipe_wf :: "pipe_platform \<Rightarrow> pipe_world \<Rightarrow> bool" where
  "pipe_wf P w = (bodies_ok P (pw_r2 w) \<and> list_all (has_body (pw_r2 w)) (pw_messages w) \<and> state_wf (pw_state w))"

text \<open>R2 writes of the pipeline only add objects.\<close>
definition r2_grows :: "(string \<Rightarrow> bytes option) \<Rightarrow> (string \<Rightarrow> bytes option) \<Rightarrow> bool" where
  "r2_grows r2 r2' = (\<forall>k. r2 k \<noteq> None \<longrightarrow> r2' k \<noteq> None)"

lemma r2_store_facts:
  assumes "r2_store pc key body r2 = Some r2'"
  shows "r2_grows r2 r2'" "r2' key \<noteq> None" "k \<noteq> key \<Longrightarrow> r2' k = r2 k" "r2' key = r2 key \<or> r2' key = Some body"
  using assms by (auto simp: r2_store_def r2_grows_def split: if_splits)

lemma store_attachments_facts:
  assumes "store_attachments P pc parts r2 = (r2', ok)"
  shows "r2_grows r2 r2'" "r2' (r2_key_of sha) = r2 (r2_key_of sha)"
    "ok \<Longrightarrow> part \<in> set parts \<Longrightarrow> r2' (attachment_key P part) \<noteq> None"
proof -
  have "r2_grows r2 r2' \<and> r2' (r2_key_of sha) = r2 (r2_key_of sha) \<and>
      (ok \<longrightarrow> (\<forall>part \<in> set parts. r2' (attachment_key P part) \<noteq> None))"
    using assms
  proof (induction parts arbitrary: r2)
    case Nil
    then show ?case by (simp add: r2_grows_def)
  next
    case (Cons q qs)
    show ?case
    proof (cases "r2_store pc (attachment_key P q) (ea_bytes q) r2")
      case None
      with Cons.prems show ?thesis by (simp add: r2_grows_def)
    next
      case (Some r)
      note f = r2_store_facts [OF Some]
      have h: "r2_grows r r2'" "r2' (r2_key_of sha) = r (r2_key_of sha)"
        "ok \<longrightarrow> (\<forall>part \<in> set qs. r2' (attachment_key P part) \<noteq> None)"
        using Cons.IH [of r] Cons.prems Some by auto
      have "r (r2_key_of sha) = r2 (r2_key_of sha)" using f(3) attachment_key_not_mime [of P q sha] by metis
      moreover have "r2' (attachment_key P q) \<noteq> None" using h(1) f(2) by (auto simp: r2_grows_def)
      moreover have "r2_grows r2 r2'" using h(1) f(1) by (auto simp: r2_grows_def)
      ultimately show ?thesis using h by auto
    qed
  qed
  then show "r2_grows r2 r2'" "r2' (r2_key_of sha) = r2 (r2_key_of sha)"
    "ok \<Longrightarrow> part \<in> set parts \<Longrightarrow> r2' (attachment_key P part) \<noteq> None" by blast+
qed

lemma bodies_ok_store:
  assumes "bodies_ok P r2" "r2_store pc (r2_key_of (sha256Hex (pp_crypto P) body)) body r2 = Some r2'"
  shows "bodies_ok P r2'"
  unfolding bodies_ok_def
proof (intro allI impI)
  fix sha b assume b: "r2' (r2_key_of sha) = Some b"
  note f = r2_store_facts [OF assms(2)]
  show "sha256Hex (pp_crypto P) b = sha"
  proof (cases "sha = sha256Hex (pp_crypto P) body")
    case True
    with f(4) b assms(1) show ?thesis by (auto simp: bodies_ok_def)
  next
    case False
    with f(3) b assms(1) r2_key_of_inject show ?thesis by (metis bodies_ok_def)
  qed
qed

lemma has_body_grows: "r2_grows r2 r2' \<Longrightarrow> list_all (has_body r2) ms \<Longrightarrow> list_all (has_body r2') ms"
  by (auto simp: list_all_iff has_body_def r2_grows_def)

lemma pipe_wf_r2:
  "pipe_wf P w \<Longrightarrow> r2_grows (pw_r2 w) r2' \<Longrightarrow> bodies_ok P r2' \<Longrightarrow> pipe_wf P (w\<lparr>pw_r2 := r2'\<rparr>)"
  using has_body_grows by (auto simp: pipe_wf_def)

lemma mark_queued_bodies: "list_all (has_body r2) (mark_queued a n i ms) = list_all (has_body r2) ms"
  by (induction ms) (auto simp: mark_queued_def has_body_def)

lemma run_audit_wf: "pipe_wf P (fst (run_audit P pc a w res)) = pipe_wf P w"
  by (auto simp: run_audit_def pipe_wf_def split: prod.splits option.splits)

lemma insert_message_wf:
  assumes "pipe_wf P w" "key = r2_key_of sha" "pw_r2 w key \<noteq> None"
  shows "pipe_wf P (insert_message P pc args sm mid frm sha key w)"
  using assms by (simp add: pipe_wf_def insert_message_def Let_def has_body_def)

lemma ingest_tail_wf:
  assumes "pipe_wf P w" "key = r2_key_of sha" "pw_r2 w key \<noteq> None"
  shows "pipe_wf P (fst (ingest_tail P pc args sm sha key mid w))"
proof -
  define w2 where "w2 = insert_message P pc args sm mid (normalized_from P (ps_from sm)) sha key w"
  have w2: "pipe_wf P w2" unfolding w2_def using assms by (rule insert_message_wf)
  have "pipe_wf P (fst (outbound_tail P pc args sm mid frm sha key w2))" for frm
  proof -
    have "pipe_wf P (w2\<lparr>pw_queue := q, pw_messages := mark_queued a n mid (pw_messages w2)\<rparr>)" for q a n
      using w2 by (simp add: pipe_wf_def mark_queued_bodies)
    with w2 show ?thesis by (simp add: outbound_tail_def run_audit_wf split: sum.split)
  qed
  moreover have "pipe_wf P (fst (inbound_tail P pc args mid frm sha w2))" for frm
  proof -
    have "pipe_wf P (w2\<lparr>pw_state := fst (allocateInboundState fs gs n mb mid (pw_state w2))\<rparr>)" for fs gs n mb
      using w2 allocateInboundState_wf [of "pw_state w2"] by (simp add: pipe_wf_def)
    then show ?thesis by (simp add: inbound_tail_def run_audit_wf Let_def)
  qed
  ultimately show ?thesis unfolding ingest_tail_def Let_def w2_def by (simp split: pm_direction.split)
qed

lemma ingest_wf:
  assumes wf: "pipe_wf P w" and sha: "sha = sha256Hex (pp_crypto P) (pm_rawMime args)"
  shows "pipe_wf P (fst (ingest P pc args sha (r2_key_of sha) w))"
proof -
  obtain w' res where i: "ingest P pc args sha (r2_key_of sha) w = (w', res)" by fastforce
  have ok: "bodies_ok P (pw_r2 w)" using wf by (simp add: pipe_wf_def)
  have stored: "pipe_wf P (w\<lparr>pw_r2 := r2'\<rparr>)" "r2' (r2_key_of sha) \<noteq> None"
    if "r2_store pc (r2_key_of sha) (pm_rawMime args) (pw_r2 w) = Some r2"
       "store_attachments P pc parts r2 = (r2', b)" for r2 r2' parts b
  proof -
    note f = r2_store_facts [OF that(1)] and g = store_attachments_facts [OF that(2)]
    have "bodies_ok P r2'" using bodies_ok_store [OF ok, of pc "pm_rawMime args" r2] that(1) g(2) sha
      by (simp add: bodies_ok_def)
    moreover have "r2_grows (pw_r2 w) r2'" using f(1) g(1) by (auto simp: r2_grows_def)
    ultimately show "pipe_wf P (w\<lparr>pw_r2 := r2'\<rparr>)" using pipe_wf_r2 [OF wf] by blast
    show "r2' (r2_key_of sha) \<noteq> None" using f(2) g(2) by simp
  qed
  from i have "pipe_wf P w'"
  proof (cases rule: ingest_cases)
    case (row r2 r2' mid sm parts)
    then have "pipe_wf P (fst (ingest_tail P pc args sm sha (r2_key_of sha) mid (w\<lparr>pw_r2 := r2'\<rparr>)))"
      using stored [OF row(1,2)] by (intro ingest_tail_wf) simp_all
    then show ?thesis using row(4) by (metis fst_conv)
  next
    case (bad_clock r2 r2' parts)
    then show ?thesis using stored by blast
  qed (use wf stored in blast)+
  then show ?thesis by (simp add: i)
qed

text \<open>C8. Every call of \<open>processMessage\<close>, in either direction, successful or not and whatever fails on the way, keeps the
  store consistent: every message row has its body in R2, each body hashes to the key it is stored under, and the mailbox
  tables keep their UIDs unique and below the counters.\<close>
theorem processMessage_keeps_store:
  assumes "pipe_wf P w"
  shows "pipe_wf P (fst (processMessage P pc args w))"
proof -
  have i: "pipe_wf P (w\<lparr>pw_idem := t\<rparr>)" for t using assms by (simp add: pipe_wf_def)
  have "pipe_wf P (fst (ingest P pc args (sha256Hex (pp_crypto P) (pm_rawMime args))
      (r2_key_of (sha256Hex (pp_crypto P) (pm_rawMime args))) (w\<lparr>pw_idem := t\<rparr>)))" for t
    by (rule ingest_wf [OF i refl])
  moreover have "pipe_wf P (fst (ingest P pc args (sha256Hex (pp_crypto P) (pm_rawMime args))
      (r2_key_of (sha256Hex (pp_crypto P) (pm_rawMime args))) w))"
    by (rule ingest_wf [OF assms refl])
  ultimately show ?thesis using assms i
    by (simp add: processMessage_def Let_def split: pm_direction.split option.split list.split prod.split sum.split)
qed

section \<open>Concrete calls\<close>

definition demo_pp :: pipe_platform where
  "demo_pp = \<lparr> pp_crypto = \<lparr> sha256 = (\<lambda>bs. take 4 bs), hmac_raw = (\<lambda>k d. k @ d), search_params = (\<lambda>_. []) \<rparr>,
     pp_hostname = Some, pp_mime = demo_runtime, pp_json = (\<lambda>_. ''{}'') \<rparr>"

definition demo_pc :: "(string \<Rightarrow> bool) \<Rightarrow> (string \<Rightarrow> bool) \<Rightarrow> pipe_call" where
  "demo_pc fails put_fails = \<lparr> pc_now = ''t'', pc_nowMs = 5, pc_weekAgo = [], pc_rnd1 = [], pc_rnd2 = [1],
     pc_fails = fails, pc_put_fails = put_fails, pc_uid_faults = (\<lambda>_. No_fault), pc_change_faults = (\<lambda>_. No_fault),
     pc_idem_others = (\<lambda>_ t. t), pc_audit_others = (\<lambda>_ t. t), pc_has_queue = True \<rparr>"

definition demo_submission :: "pm_direction \<Rightarrow> ProcessMessageArgs" where
  "demo_submission d = \<lparr> pm_direction = d, pm_mailboxId = ''mb'', pm_principalId = Some ''p'', pm_bridgeId = None,
     pm_rawMime = [13, 10, 13, 10], pm_source = ''rest'', pm_idempotencyKey = Some ''k'', pm_auth = None,
     pm_envelopeTo = Some [''b@z.w''], pm_recipientAddress = None \<rparr>"

text \<open>A message that is one attachment.\<close>
definition demo_picture :: ProcessMessageArgs where
  "demo_picture = (demo_submission Dir_out)\<lparr>pm_rawMime := text_encode (''Content-Type:a'' @ CRLF @ CRLF)\<rparr>"

definition demo_w0 :: pipe_world where
  "demo_w0 = \<lparr> pw_messages = [], pw_idem = [], pw_r2 = Map.empty,
     pw_state = \<lparr>sd_state = [], sd_uid = Map.empty, sd_change = Map.empty\<rparr>, pw_queue = [], pw_audit = [],
     pw_domains = [], pw_receivers = [] \<rparr>"

lemma demo_keyed: "keyed (demo_submission Dir_out) ''p'' ''k''" "leaves_claim (demo_pc f g) p k" "idem_lookup p k (pw_idem demo_w0) = None"
    "keyed demo_picture ''p'' ''k''"
  by (simp_all add: keyed_def demo_submission_def demo_picture_def leaves_claim_def demo_pc_def demo_w0_def idem_lookup_def)

lemma prod_of_snd: "snd x = y \<Longrightarrow> x = (fst x, y)"
  by auto


lemma failed_submission_burns_key_witness:
  "\<exists>w' t. processMessage demo_pp (demo_pc (\<lambda>_. False) (\<lambda>k. k = ''att//attachment''))
       demo_picture demo_w0 = (w', Inl (ProcessMessageError 502 ''attachment_r2_write_failed'')) \<and>
     processMessage demo_pp (demo_pc (\<lambda>_. False) (\<lambda>_. False))
       demo_picture w' = (w'\<lparr>pw_idem := t\<rparr>, Inl (ProcessMessageError 425 ''idempotency_in_progress''))"
proof -
  let ?c = "processMessage demo_pp (demo_pc (\<lambda>_. False) (\<lambda>k. k = ''att//attachment''))
       demo_picture demo_w0"
  have "snd ?c = Inl (ProcessMessageError 502 ''attachment_r2_write_failed'')" by code_simp
  from prod_of_snd [OF this] show ?thesis
    using failed_submission_burns_key [OF demo_keyed(4,3) _ demo_keyed(4,2)] by blast
qed

lemma unqueued_message_reported_queued_witness:
  "\<exists>w' t r. processMessage demo_pp (demo_pc (\<lambda>x. x = ''queue send'') (\<lambda>_. False)) (demo_submission Dir_out) demo_w0 =
       (w', Inl (Uncaught ''queue send'')) \<and>
     processMessage demo_pp (demo_pc (\<lambda>_. False) (\<lambda>_. False)) (demo_submission Dir_out) w' =
       (w'\<lparr>pw_idem := t\<rparr>, Inr r) \<and> pr_status r = ''queued'' \<and> pw_queue w' = pw_queue demo_w0"
proof -
  let ?c = "processMessage demo_pp (demo_pc (\<lambda>x. x = ''queue send'') (\<lambda>_. False)) (demo_submission Dir_out) demo_w0"
  have "snd ?c = Inl (Uncaught ''queue send'')" by code_simp
  from prod_of_snd [OF this] show ?thesis
    using unqueued_message_reported_queued [OF demo_keyed(1,3) _ _ demo_keyed(1,2)] by blast
qed

lemma processMessage_keeps_store_witness:
  "pipe_wf demo_pp (fst (processMessage demo_pp (demo_pc (\<lambda>_. False) (\<lambda>_. False)) (demo_submission Dir_in) demo_w0))"
proof -
  have "pipe_wf demo_pp demo_w0" by (simp add: pipe_wf_def bodies_ok_def demo_w0_def state_wf_def)
  then show ?thesis by (rule processMessage_keeps_store)
qed

section \<open>Inbound deliveries\<close>

text \<open>Delivering the same bytes to the same mailbox twice stores one message: after a successful inbound call a second
  one returns the same message id, not fresh, and leaves the whole world unchanged; only the fanout targets are resolved
  again.\<close>
theorem inbound_delivery_deduplicated:
  assumes "pm_direction args = Dir_in" "\<not> pc_fails pc ''select dedup''" "\<not> pc_fails pc' ''select dedup''"
    and "processMessage P pc args w = (w', Inr r)"
  shows "processMessage P pc' args w' = (w', Inr \<lparr> pr_messageId = pr_messageId r, pr_status = ''received'', pr_fresh = False,
     pr_fanoutEnqueues = Some (resolveInboundFanout pc' args w') \<rparr>)"
proof -
  let ?sha = "sha256Hex (pp_crypto P) (pm_rawMime args)"
  let ?hit = "\<lambda>m. pm_mailbox_id m = pm_mailboxId args \<and> pm_r2_key m = r2_key_of ?sha"
  have "\<exists>m. find ?hit (pw_messages w') = Some m \<and> pm_id m = pr_messageId r"
  proof (cases "find ?hit (pw_messages w)")
    case (Some m)
    with assms(1,2,4) show ?thesis by (auto simp: processMessage_def Let_def)
  next
    case None
    with assms(1,2,4) have "ingest P pc args ?sha (r2_key_of ?sha) w = (w', Inr r)"
      by (auto simp: processMessage_def Let_def)
    then show ?thesis
    proof (cases rule: ingest_cases)
      case (row r2 r2' mid sm parts)
          let ?w2 = "insert_message P pc args sm mid (normalized_from P (ps_from sm)) ?sha (r2_key_of ?sha) (w\<lparr>pw_r2 := r2'\<rparr>)"
      have "(w', Inr r) = inbound_tail P pc args mid (normalized_from P (ps_from sm)) ?sha ?w2"
        using row(4) assms(1) by (simp add: ingest_tail_def Let_def)
      then have "pw_messages w' = pw_messages ?w2" "pr_messageId r = mid"
        using inbound_tail_world(3,4) [of P pc args mid "normalized_from P (ps_from sm)" ?sha ?w2] by (metis fst_conv snd_conv)+
      with None insert_message_world(4) [of P pc args sm mid "normalized_from P (ps_from sm)" ?sha "r2_key_of ?sha" "w\<lparr>pw_r2 := r2'\<rparr>"]
      show ?thesis by (auto simp: find_append_eq)
    qed simp_all
  qed
  with assms(1,3) show ?thesis by (auto simp: processMessage_def Let_def)
qed

lemma inbound_delivery_deduplicated_witness:
  "\<exists>w' r. processMessage demo_pp (demo_pc (\<lambda>_. False) (\<lambda>_. False)) (demo_submission Dir_in) demo_w0 = (w', Inr r) \<and>
     processMessage demo_pp (demo_pc (\<lambda>_. False) (\<lambda>_. False)) (demo_submission Dir_in) w' =
       (w', Inr \<lparr> pr_messageId = pr_messageId r, pr_status = ''received'', pr_fresh = False,
          pr_fanoutEnqueues = Some (resolveInboundFanout (demo_pc (\<lambda>_. False) (\<lambda>_. False)) (demo_submission Dir_in) w') \<rparr>)"
proof -
  let ?c = "processMessage demo_pp (demo_pc (\<lambda>_. False) (\<lambda>_. False)) (demo_submission Dir_in) demo_w0"
  have "snd ?c = Inr \<lparr> pr_messageId = ''00000000050000000000000000'', pr_status = ''received'', pr_fresh = True,
      pr_fanoutEnqueues = Some [] \<rparr>" by code_simp
  moreover have "pm_direction (demo_submission Dir_in) = Dir_in" "\<not> pc_fails (demo_pc (\<lambda>_. False) (\<lambda>_. False)) ''select dedup''"
    by (simp_all add: demo_submission_def demo_pc_def)
  ultimately show ?thesis
    using inbound_delivery_deduplicated [OF _ _ _ prod_of_snd [of ?c]] by (metis prod.collapse)
qed

section \<open>Outbound submissions\<close>



section \<open>Attachment names\<close>

lemma attachment_name_chars: "list_all attachment_char ''attachment''"
  by code_simp

lemma map_keep: "list_all attachment_char s \<Longrightarrow> map (\<lambda>c. if attachment_char c then c else CHR ''_'') s = s"
  by (induction s) auto

text \<open>The file-name part of an attachment's R2 key is never empty, at most 255 characters, made of letters, digits, dots,
  underscores and dashes only (so without slash, control character or space), never a dot segment; and sanitizing is
  idempotent.\<close>
theorem sanitized_filename_safe:
  "sanitizeAttachmentFilename name \<noteq> [] \<and> length (sanitizeAttachmentFilename name) \<le> 255 \<and>
   list_all attachment_char (sanitizeAttachmentFilename name) \<and>
   sanitizeAttachmentFilename name \<notin> {''.'', ''..''} \<and>
   sanitizeAttachmentFilename (sanitizeAttachmentFilename name) = sanitizeAttachmentFilename name"
proof -
  let ?t = "take 255 (map (\<lambda>c. if attachment_char c then c else CHR ''_'') name)"
  have "list_all attachment_char ?t"
    by (auto simp: list_all_iff attachment_char_def dest!: in_set_takeD)
  moreover have "sanitizeAttachmentFilename s = s"
    if "s \<noteq> []" "length s \<le> 255" "list_all attachment_char s" "s \<noteq> ''.''" "s \<noteq> ''..''" for s
    using that by (simp add: sanitizeAttachmentFilename_def map_keep)
  moreover have "sanitizeAttachmentFilename name = ''attachment'' \<or>
      sanitizeAttachmentFilename name = ?t \<and> ?t \<noteq> [] \<and> ?t \<noteq> ''.'' \<and> ?t \<noteq> ''..''"
    by (auto simp: sanitizeAttachmentFilename_def Let_def)
  ultimately show ?thesis using attachment_name_chars by auto
qed

section \<open>Threads\<close>

lemma sqlite_lower_no_upper: "c \<in> set (sqlite_lower s) \<Longrightarrow> \<not> is_upper c"
  by (auto simp: sqlite_lower_def is_upper_def split: if_splits)

lemma recent_from_mixed_case:
  assumes "c \<in> set lookup" "is_upper c"
  shows "recent_from mb lookup week msgs = None"
proof -
  have "filter (\<lambda>m. pm_mailbox_id m = mb \<and> sqlite_lower (pm_from_addr m) = lookup \<and> pm_created_at m > week) msgs = []"
    using assms sqlite_lower_no_upper by (auto simp: filter_empty_conv)
  then show ?thesis by (simp add: recent_from_def)
qed

text \<open>The fallback that groups a message without known references by its subject never looks at the subject beyond its
  being non-empty: two different subjects give the same thread. And it compares the sender with a lower-cased column, so that
  a sender whose normalized address keeps an upper-case letter always starts a thread of its own.\<close>
theorem subject_threading:
  assumes "normalized_subject s \<noteq> []" "normalized_subject s' \<noteq> []"
  shows "computeThreadId P pc msgs own mb refs irt (Some s) frm = computeThreadId P pc msgs own mb refs irt (Some s') frm \<and>
     (c \<in> set (normalized_from P frm) \<longrightarrow> is_upper c \<longrightarrow> computeThreadId P pc msgs own mb None None (Some s) frm = own)"
  using assms recent_from_mixed_case [of c "normalized_from P frm" mb "pc_weekAgo pc" msgs]
  by (auto simp: computeThreadId_def Let_def truthy_thread_def split: option.split list.split)

lemma subject_threading_witness:
  "computeThreadId demo_pp (demo_pc (\<lambda>_. False) (\<lambda>_. False)) [] ''m'' ''mb'' None None (Some ''re: lunch'') ''A@x.y'' =
   computeThreadId demo_pp (demo_pc (\<lambda>_. False) (\<lambda>_. False)) [] ''m'' ''mb'' None None (Some ''invoice'') ''A@x.y'' \<and>
   computeThreadId demo_pp (demo_pc (\<lambda>_. False) (\<lambda>_. False)) [] ''m'' ''mb'' None None (Some ''re: lunch'') ''A@x.y'' = ''m''"
proof -
  have "normalized_subject ''re: lunch'' \<noteq> []" "normalized_subject ''invoice'' \<noteq> []"
    "CHR ''A'' \<in> set (normalized_from demo_pp ''A@x.y'')" "is_upper (CHR ''A'')" by code_simp+
  then show ?thesis
    using subject_threading [of "''re: lunch''" "''invoice''" "demo_pp" "demo_pc (\<lambda>_. False) (\<lambda>_. False)" "[]" "''m''" "''mb''"
      None None "''A@x.y''" "CHR ''A''"] by blast
qed

end
