(* ===== verification/ApiAuth.thy ===== *)
theory ApiAuth
  imports Hmac Ids Guards Secrets
begin

text \<open>
  Authentication of the API service: the error envelope (\<^verbatim>\<open>services/api/src/errors.ts\<close>), API keys
  (\<^verbatim>\<open>auth.ts\<close>), bridges (\<^verbatim>\<open>bridge-auth.ts\<close>) and mailbox-credential bearers
  (\<^verbatim>\<open>lib/mailbox-cred-auth.ts\<close>).

  A middleware either calls the next handler, answers with an error envelope or throws; the KV
  namespaces expire their entries, and every store access that the code does not guard may fail.
  Each namespace is one consistent store here; the several caches of the key row, the revocation flag and
  the credential row are modelled. The parser and printer of JSON are parameters.
\<close>

section \<open>Error envelope\<close>

datatype ErrorCode =
    Bad_request | Bad_content_type | Bad_signature | Key_propagating | Clock_skewed | Key_revoked
  | Scope_violation | Nonce_replay | Idempotency_conflict | Domain_not_verified | Recipient_rejected
  | Rate_limited | Too_many_requests | Cf_upstream | Degraded | Not_found | Unauthorized | Forbidden
  | Conflict | Already_bootstrapped | Too_many_recipients | Subject_too_long | Message_too_large
  | Header_not_allowed | Header_too_long | Too_many_custom_headers | Custom_headers_too_large

fun ERROR_HTTP :: "ErrorCode \<Rightarrow> nat" where
  "ERROR_HTTP Bad_request = 400"
| "ERROR_HTTP Bad_content_type = 400"
| "ERROR_HTTP Bad_signature = 401"
| "ERROR_HTTP Key_propagating = 401"
| "ERROR_HTTP Clock_skewed = 401"
| "ERROR_HTTP Key_revoked = 403"
| "ERROR_HTTP Scope_violation = 403"
| "ERROR_HTTP Nonce_replay = 409"
| "ERROR_HTTP Idempotency_conflict = 409"
| "ERROR_HTTP Domain_not_verified = 422"
| "ERROR_HTTP Recipient_rejected = 422"
| "ERROR_HTTP Rate_limited = 429"
| "ERROR_HTTP Too_many_requests = 429"
| "ERROR_HTTP Cf_upstream = 502"
| "ERROR_HTTP Degraded = 503"
| "ERROR_HTTP Not_found = 404"
| "ERROR_HTTP Unauthorized = 401"
| "ERROR_HTTP Forbidden = 403"
| "ERROR_HTTP Conflict = 409"
| "ERROR_HTTP Already_bootstrapped = 409"
| "ERROR_HTTP Too_many_recipients = 400"
| "ERROR_HTTP Subject_too_long = 400"
| "ERROR_HTTP Message_too_large = 413"
| "ERROR_HTTP Header_not_allowed = 400"
| "ERROR_HTTP Header_too_long = 400"
| "ERROR_HTTP Too_many_custom_headers = 400"
| "ERROR_HTTP Custom_headers_too_large = 400"

fun ERROR_RETRYABLE :: "ErrorCode \<Rightarrow> bool" where
  "ERROR_RETRYABLE Key_propagating = True"
| "ERROR_RETRYABLE Clock_skewed = True"
| "ERROR_RETRYABLE Rate_limited = True"
| "ERROR_RETRYABLE Too_many_requests = True"
| "ERROR_RETRYABLE Cf_upstream = True"
| "ERROR_RETRYABLE Degraded = True"
| "ERROR_RETRYABLE _ = False"

text \<open>A request as the middleware sees it; header names are in lower case.\<close>
record http_ctx =
  hc_method :: string
  hc_path :: string \<comment> \<open>\<^verbatim>\<open>new URL(c.req.url).pathname\<close>\<close>
  hc_query :: string \<comment> \<open>\<^verbatim>\<open>.search.slice(1)\<close>\<close>
  hc_header :: "string \<Rightarrow> string option"
  hc_body :: string
  hc_requestId :: "string option"
  hc_rnd :: bytes \<comment> \<open>the random bytes \<^verbatim>\<open>requestId()\<close> would draw\<close>

record ErrorResponse =
  er_status :: nat
  er_code :: ErrorCode
  er_message :: string
  er_retryable :: bool
  er_request_id :: string
  er_headers :: "string \<Rightarrow> string option"

definition buildError :: "http_ctx \<Rightarrow> ErrorCode \<Rightarrow> string \<Rightarrow> (string \<times> string) list \<Rightarrow> ErrorResponse" where
  "buildError c ec message extraHeaders =
     (let rid = (case hc_requestId c of Some i \<Rightarrow> i | None \<Rightarrow> requestId (hc_rnd c)) in
      \<lparr> er_status = ERROR_HTTP ec, er_code = ec, er_message = message, er_retryable = ERROR_RETRYABLE ec,
        er_request_id = rid,
        er_headers = foldl (\<lambda>h kv. h(js_lower (fst kv) \<mapsto> snd kv))
          [''content-type'' \<mapsto> ''application/json'', ''x-request-id'' \<mapsto> rid] extraHeaders \<rparr>)"

text \<open>How a middleware ends: it calls \<^verbatim>\<open>next()\<close> with what it put on the context, answers, or throws.\<close>
datatype 'a outcome = Next 'a | Respond ErrorResponse | Threw string

fun and_then :: "'w \<times> 'a outcome \<Rightarrow> ('w \<Rightarrow> 'a \<Rightarrow> 'w \<times> 'b outcome) \<Rightarrow> 'w \<times> 'b outcome" where
  "and_then (w, Next a) f = f w a"
| "and_then (w, Respond r) f = (w, Respond r)"
| "and_then (w, Threw e) f = (w, Threw e)"

lemma and_then_Next:
  "and_then x f = (w', Next b) \<longleftrightarrow> (\<exists>w a. x = (w, Next a) \<and> f w a = (w', Next b))"
  by (cases x; cases "snd x") auto

lemma and_thenE:
  assumes "and_then x f = (w', r)"
  obtains (stop) y where "x = (w', y)" "\<forall>a. y \<noteq> Next a"
    | (go) w1 a where "x = (w1, Next a)" "f w1 a = (w', r)"
  using assms by (cases x; cases "snd x") auto

section \<open>KV namespaces\<close>

type_synonym 'v kv = "string \<Rightarrow> ('v \<times> int option) option"

definition kv_get :: "int \<Rightarrow> 'v kv \<Rightarrow> string \<Rightarrow> 'v option" where
  "kv_get now m k =
     (case m k of
        None \<Rightarrow> None
      | Some (v, None) \<Rightarrow> Some v
      | Some (v, Some e) \<Rightarrow> if now < e then Some v else None)"

text \<open>\<^verbatim>\<open>put(k, v, { expirationTtl: ttl })\<close>, the time to live in seconds.\<close>
definition kv_put_ttl :: "int \<Rightarrow> int \<Rightarrow> 'v kv \<Rightarrow> string \<Rightarrow> 'v \<Rightarrow> 'v kv" where
  "kv_put_ttl now ttl m k v = m(k \<mapsto> (v, Some (now + ttl * 1000)))"

text \<open>At the moment of the write and until it expires, a namespace is a keyed store.\<close>
interpretation ttl_store: keyed_store "kv_get now" "\<lambda>m k v. kv_put_ttl now (int (Suc ttl)) m k v" "\<lambda>k. k" for now ttl
  by unfold_locales (auto simp: kv_get_def kv_put_ttl_def)

section \<open>API keys\<close>

datatype key_status = Primary | Secondary | Revoked

fun status_name :: "key_status \<Rightarrow> string" where
  "status_name Primary = ''primary''"
| "status_name Secondary = ''secondary''"
| "status_name Revoked = ''revoked''"

definition status_of :: "string \<Rightarrow> key_status option" where
  "status_of s = (if s = ''primary'' then Some Primary else if s = ''secondary'' then Some Secondary
     else if s = ''revoked'' then Some Revoked else None)"

text \<open>A row of \<^verbatim>\<open>api_keys\<close>, from D1 or from the cache; \<^verbatim>\<open>revoked_at\<close> is only compared with null.\<close>
record RowShape =
  rs_id :: string
  rs_operator_id :: string
  rs_secret :: string \<comment> \<open>\<^verbatim>\<open>secret_argon2id\<close>\<close>
  rs_scopes :: string
  rs_rate_limit_per_min :: rat
  rs_status :: key_status
  rs_revoked_at :: "json option"

record AuthenticatedKey =
  ak_key_id :: string
  ak_operator_id :: string
  ak_impersonated_operator_id :: "string option"
  ak_scopes_raw :: string
  ak_rate_limit_per_min :: rat
  ak_status :: key_status
  ak_revoked_at :: "json option"

record operator_row =
  op_id :: string
  op_disabled_at :: "string option"
  op_last_seen_at :: "string option"

record bridge_row =
  br_id :: string
  br_disabled_at :: "string option"
  br_last_seen_at :: "string option"

record auth_world =
  aw_key_cache :: "string kv" \<comment> \<open>\<^verbatim>\<open>KV_KEY_CACHE\<close>\<close>
  aw_nonce :: "string kv" \<comment> \<open>\<^verbatim>\<open>KV_NONCE\<close>\<close>
  aw_revocations :: "string \<Rightarrow> string option" \<comment> \<open>\<^verbatim>\<open>KV_REVOCATIONS\<close>\<close>
  aw_rcache :: rcache \<comment> \<open>the memory of this isolate\<close>
  aw_api_keys :: "RowShape list"
  aw_operators :: "operator_row list"
  aw_bridges :: "bridge_row list"

text \<open>One run of a middleware: the clock when it loads and verifies, the clock when it turns to the nonce,
  and which store accesses fail.\<close>
record auth_call =
  ac_now :: int
  ac_nonce_now :: int
  ac_iso :: string
  ac_fails :: "string \<Rightarrow> bool"

record auth_platform =
  ap_hmac :: platform
  ap_parse :: "string \<Rightarrow> json option" \<comment> \<open>\<^verbatim>\<open>JSON.parse\<close>\<close>
  ap_stringify :: "json \<Rightarrow> string"

record auth_ctx =
  au_apiKey :: AuthenticatedKey
  au_actor :: string
  au_cachedBody :: string

definition NONCE_TTL_SECONDS :: int where "NONCE_TTL_SECONDS = 10 * 60"

text \<open>\<^verbatim>\<open>/^[0-9A-HJKMNP-TV-Z]{26}$/\<close>\<close>
definition ULID_RE :: "string \<Rightarrow> bool" where
  "ULID_RE s = (length s = 26 \<and> CROCKFORD_REGEX s)"

definition truthy_opt :: "string option \<Rightarrow> bool" where
  "truthy_opt s = (case s of None \<Rightarrow> False | Some v \<Rightarrow> v \<noteq> [])"

fun is_jstr :: "json option \<Rightarrow> bool" where
  "is_jstr (Some (JStr s)) = True"
| "is_jstr _ = False"

fun is_jnum :: "json option \<Rightarrow> bool" where
  "is_jnum (Some (JNum n)) = True"
| "is_jnum _ = False"

fun jstr :: "json option \<Rightarrow> string" where
  "jstr (Some (JStr s)) = s"
| "jstr _ = []"

definition isRowShape :: "json \<Rightarrow> bool" where
  "isRowShape v =
     (is_jstr (jfield v ''id'') \<and> is_jstr (jfield v ''operator_id'') \<and> is_jstr (jfield v ''secret_argon2id'') \<and>
      is_jstr (jfield v ''scopes'') \<and> is_jnum (jfield v ''rate_limit_per_min'') \<and>
      is_jstr (jfield v ''status'') \<and> status_of (jstr (jfield v ''status'')) \<noteq> None)"

text \<open>Reading the members of a value that passed \<open>isRowShape\<close>, and the row as \<^verbatim>\<open>JSON.stringify\<close> sees it.\<close>
definition as_row :: "json \<Rightarrow> RowShape" where
  "as_row v =
     \<lparr> rs_id = jstr (jfield v ''id''), rs_operator_id = jstr (jfield v ''operator_id''),
       rs_secret = jstr (jfield v ''secret_argon2id''), rs_scopes = jstr (jfield v ''scopes''),
       rs_rate_limit_per_min = (case jfield v ''rate_limit_per_min'' of Some (JNum n) \<Rightarrow> n | _ \<Rightarrow> 0),
       rs_status = (case status_of (jstr (jfield v ''status'')) of Some s \<Rightarrow> s | None \<Rightarrow> Revoked),
       rs_revoked_at = (case jfield v ''revoked_at'' of Some JNull \<Rightarrow> None | r \<Rightarrow> r) \<rparr>"

definition row_json :: "RowShape \<Rightarrow> json" where
  "row_json r = JObj
     [(''id'', JStr (rs_id r)), (''operator_id'', JStr (rs_operator_id r)), (''secret_argon2id'', JStr (rs_secret r)),
      (''scopes'', JStr (rs_scopes r)), (''rate_limit_per_min'', JNum (rs_rate_limit_per_min r)),
      (''status'', JStr (status_name (rs_status r))),
      (''revoked_at'', case rs_revoked_at r of None \<Rightarrow> JNull | Some j \<Rightarrow> j)]"

text \<open>Lines 97 to 140: the two queries of the cold path and the write to the cache.\<close>
definition load_key_cold ::
  "auth_platform \<Rightarrow> http_ctx \<Rightarrow> auth_call \<Rightarrow> string \<Rightarrow> auth_world \<Rightarrow> auth_world \<times> RowShape option outcome" where
  "load_key_cold P c pc keyId w =
     (if ac_fails pc ''select api_keys'' then (w, Threw ''select api_keys'')
      else case find (\<lambda>r. rs_id r = keyId) (aw_api_keys w) of
        None \<Rightarrow> (w, Next None)
      | Some r \<Rightarrow>
          if ac_fails pc ''select operators'' then (w, Threw ''select operators'')
          else case find (\<lambda>oper. op_id oper = rs_operator_id r) (aw_operators w) of
            None \<Rightarrow> (w, Respond (buildError c Key_revoked ''operator disabled'' []))
          | Some oper \<Rightarrow>
              if truthy_opt (op_disabled_at oper) then (w, Respond (buildError c Key_revoked ''operator disabled'' []))
              else (if ac_fails pc ''put key cache'' then w
                    else w\<lparr>aw_key_cache := kv_put_ttl (ac_now pc) 60 (aw_key_cache w) (''key:'' @ keyId)
                             (ap_stringify P (row_json r))\<rparr>,
                    Next (Some r)))"

definition load_key ::
  "auth_platform \<Rightarrow> http_ctx \<Rightarrow> auth_call \<Rightarrow> string \<Rightarrow> auth_world \<Rightarrow> auth_world \<times> RowShape option outcome" where
  "load_key P c pc keyId w =
     (let cached = (if ac_fails pc ''get key cache'' then None
                    else case kv_get (ac_now pc) (aw_key_cache w) (''key:'' @ keyId) of
                      None \<Rightarrow> None | Some s \<Rightarrow> ap_parse P s)
      in case cached of
           Some j \<Rightarrow> if isRowShape j then (w, Next (Some (as_row j))) else load_key_cold P c pc keyId w
         | None \<Rightarrow> load_key_cold P c pc keyId w)"

text \<open>\<^verbatim>\<open>revocationCheck(env, id).catch(() => false)\<close>\<close>
definition revoked_or_false :: "auth_call \<Rightarrow> string \<Rightarrow> auth_world \<Rightarrow> auth_world \<times> bool" where
  "revoked_or_false pc p w =
     (if revocation_hit (aw_rcache w) p (ac_now pc) = None \<and> ac_fails pc ''get revocations'' then (w, False)
      else let (rc, b) = revocationCheck (aw_rcache w) p (ac_now pc) (aw_revocations w p)
           in (w\<lparr>aw_rcache := rc\<rparr>, b))"

definition api_verify_input :: "http_ctx \<Rightarrow> auth_call \<Rightarrow> string \<Rightarrow> verify_input" where
  "api_verify_input c pc secret =
     \<lparr> vi_direction = Polaris_api, vi_method = hc_method c, vi_path = hc_path c, vi_query = QString (hc_query c),
       vi_headers = hc_header c, vi_body = Text (hc_body c), vi_secret = Text secret, vi_skewSeconds = None,
       vi_now = ac_now pc \<rparr>"

text \<open>Lines 141 to 214: the row is live, its operator is not revoked, and the signature verifies.\<close>
definition verify_key ::
  "auth_platform \<Rightarrow> http_ctx \<Rightarrow> auth_call \<Rightarrow> string \<Rightarrow> auth_world \<Rightarrow> RowShape option \<Rightarrow> auth_world \<times> (RowShape \<times> string) outcome" where
  "verify_key P c pc keyId w row =
     (case row of
        None \<Rightarrow> (w, Respond (buildError c Key_propagating ''unknown key id'' [(''retry-after'', ''2'')]))
      | Some r \<Rightarrow>
          if rs_status r = Revoked \<or> rs_revoked_at r \<noteq> None
          then (w, Respond (buildError c Key_revoked ''key has been revoked'' []))
          else let (w1, revoked) = revoked_or_false pc (rs_operator_id r) w in
            if revoked then (w1, Respond (buildError c Key_revoked ''operator revoked'' []))
            else if ac_fails pc ''get plain'' then (w1, Threw ''get plain'')
            else case kv_get (ac_now pc) (aw_key_cache w1) (''plain:'' @ keyId) of
              None \<Rightarrow> (w1, Respond (buildError c Key_propagating ''key plaintext not yet propagated'' [(''retry-after'', ''2'')]))
            | Some plaintext \<Rightarrow>
                if plaintext = []
                then (w1, Respond (buildError c Key_propagating ''key plaintext not yet propagated'' [(''retry-after'', ''2'')]))
                else (w1,
                  case verify (ap_hmac P) (api_verify_input c pc plaintext) of
                    VOk ts nonce \<Rightarrow> Next (r, nonce)
                  | VErr Clock_skew msg \<Rightarrow> Respond (buildError c Clock_skewed msg [])
                  | VErr Missing_header msg \<Rightarrow> Respond (buildError c Bad_request msg [])
                  | VErr Header_invalid msg \<Rightarrow> Respond (buildError c Bad_request msg [])
                  | VErr Invalid_signature msg \<Rightarrow> Respond (buildError c Bad_signature ''hmac mismatch'' [])))"

definition nonce_key :: "string \<Rightarrow> string \<Rightarrow> string" where
  "nonce_key keyId nonce = ''nonce:'' @ keyId @ '':'' @ nonce"

text \<open>Lines 222 to 226 and line 227: between the two, other requests may run.\<close>
definition nonce_check :: "http_ctx \<Rightarrow> auth_call \<Rightarrow> string \<Rightarrow> string \<Rightarrow> auth_world \<Rightarrow> auth_world \<times> unit outcome" where
  "nonce_check c pc keyId nonce w =
     (if ac_fails pc ''get nonce'' then (w, Threw ''get nonce'')
      else if truthy_opt (kv_get (ac_nonce_now pc) (aw_nonce w) (nonce_key keyId nonce))
      then (w, Respond (buildError c Nonce_replay ''nonce already used for this key'' []))
      else (w, Next ()))"

definition nonce_record :: "auth_call \<Rightarrow> string \<Rightarrow> string \<Rightarrow> auth_world \<Rightarrow> auth_world \<times> unit outcome" where
  "nonce_record pc keyId nonce w =
     (if ac_fails pc ''put nonce'' then (w, Threw ''put nonce'')
      else (w\<lparr>aw_nonce := kv_put_ttl (ac_nonce_now pc) NONCE_TTL_SECONDS (aw_nonce w) (nonce_key keyId nonce) ''1''\<rparr>,
            Next ()))"

text \<open>\<^verbatim>\<open>parsed.includes(scope)\<close>: of an array its elements, of a string its substrings; anything else has no such method.\<close>
definition scopes_include :: "json \<Rightarrow> string \<Rightarrow> bool option" where
  "scopes_include j scope =
     (case j of
        JArr xs \<Rightarrow> Some (JStr scope \<in> set xs)
      | JStr s \<Rightarrow> Some (js_includes scope s)
      | _ \<Rightarrow> None)"

definition OPERATOR_PREFIX :: string where "OPERATOR_PREFIX = ''operator:''"

text \<open>Lines 241 to 297: the scopes in force and the operator acted for.\<close>
definition impersonate ::
  "auth_platform \<Rightarrow> http_ctx \<Rightarrow> auth_call \<Rightarrow> RowShape \<Rightarrow> auth_world \<Rightarrow> auth_world \<times> (string \<times> string option) outcome" where
  "impersonate P c pc row w =
     (case hc_header c ''x-polaris-obo'' of
        None \<Rightarrow> (w, Next (rs_scopes row, None))
      | Some obo \<Rightarrow>
          if obo = [] then (w, Next (rs_scopes row, None))
          else if \<not> starts_with OPERATOR_PREFIX obo
          then (w, Respond (buildError c Bad_request ''unsupported impersonation subject'' []))
          else let opId = drop (length OPERATOR_PREFIX) obo in
            if \<not> ULID_RE opId then (w, Respond (buildError c Bad_request ''operator id format'' []))
            else case ap_parse P (rs_scopes row) of
              None \<Rightarrow> (w, Respond (buildError c Forbidden ''scopes parse failed'' []))
            | Some j \<Rightarrow>
              (case scopes_include j ''admin:impersonate'' of
                 None \<Rightarrow> (w, Threw ''TypeError'')
               | Some False \<Rightarrow> (w, Respond (buildError c Scope_violation ''missing scope admin:impersonate'' []))
               | Some True \<Rightarrow>
                   if ac_fails pc ''select operators'' then (w, Threw ''select operators'')
                   else case find (\<lambda>oper. op_id oper = opId) (aw_operators w) of
                     None \<Rightarrow> (w, Respond (buildError c Not_found ''operator not found'' []))
                   | Some oper \<Rightarrow>
                       if truthy_opt (op_disabled_at oper) then (w, Respond (buildError c Key_revoked ''operator disabled'' []))
                       else if ac_fails pc ''select operator key'' then (w, Threw ''select operator key'')
                       else case find (\<lambda>r. rs_operator_id r = opId \<and> rs_status r = Primary) (aw_api_keys w) of
                         None \<Rightarrow> (w, Respond (buildError c Key_revoked ''operator key revoked'' []))
                       | Some opKey \<Rightarrow>
                           if rs_status opKey = Revoked \<or> rs_revoked_at opKey \<noteq> None
                           then (w, Respond (buildError c Key_revoked ''operator key revoked'' []))
                           else let (w1, revokedOp) = revoked_or_false pc (rs_operator_id opKey) w in
                             if revokedOp then (w1, Respond (buildError c Key_revoked ''operator revoked'' []))
                             else (if ac_fails pc ''update operators'' then w1
                                   else w1\<lparr>aw_operators := map (\<lambda>oper. if op_id oper = opId
                                              then oper\<lparr>op_last_seen_at := Some (ac_iso pc)\<rparr> else oper) (aw_operators w1)\<rparr>,
                                   Next (rs_scopes opKey, Some opId))))"

text \<open>Lines 299 to 314.\<close>
definition key_context :: "http_ctx \<Rightarrow> RowShape \<Rightarrow> string \<times> string option \<Rightarrow> auth_ctx" where
  "key_context c row eff =
     \<lparr> au_apiKey = \<lparr> ak_key_id = rs_id row, ak_operator_id = rs_operator_id row,
         ak_impersonated_operator_id = snd eff, ak_scopes_raw = fst eff,
         ak_rate_limit_per_min = rs_rate_limit_per_min row, ak_status = rs_status row, ak_revoked_at = rs_revoked_at row \<rparr>,
       au_actor = OPERATOR_PREFIX @ (case snd eff of Some i \<Rightarrow> i | None \<Rightarrow> rs_operator_id row),
       au_cachedBody = hc_body c \<rparr>"

definition hmacAuth ::
  "auth_platform \<Rightarrow> http_ctx \<Rightarrow> auth_call \<Rightarrow> auth_world \<Rightarrow> auth_world \<times> auth_ctx outcome" where
  "hmacAuth P c pc w =
     (case hc_header c ''x-polaris-key-id'' of
        None \<Rightarrow> (w, Respond (buildError c Unauthorized ''X-Polaris-Key-Id required'' []))
      | Some keyId \<Rightarrow>
          if keyId = [] then (w, Respond (buildError c Unauthorized ''X-Polaris-Key-Id required'' []))
          else if \<not> ULID_RE keyId then (w, Respond (buildError c Unauthorized ''X-Polaris-Key-Id format'' []))
          else and_then (load_key P c pc keyId w) (\<lambda>w row.
               and_then (verify_key P c pc keyId w row) (\<lambda>w (row, nonce).
               and_then (nonce_check c pc keyId nonce w) (\<lambda>w _.
               and_then (nonce_record pc keyId nonce w) (\<lambda>w _.
               and_then (impersonate P c pc row w) (\<lambda>w eff.
                 (w, Next (key_context c row eff))))))))"

definition requireScope :: "auth_platform \<Rightarrow> http_ctx \<Rightarrow> string \<Rightarrow> auth_ctx option \<Rightarrow> unit outcome" where
  "requireScope P c scope k =
     (case k of
        None \<Rightarrow> Respond (buildError c Unauthorized ''no api key on context'' [])
      | Some a \<Rightarrow>
          (case ap_parse P (ak_scopes_raw (au_apiKey a)) of
             None \<Rightarrow> Respond (buildError c Forbidden ''scopes parse failed'' [])
           | Some j \<Rightarrow>
               (case scopes_include j scope of
                  None \<Rightarrow> Threw ''TypeError''
                | Some True \<Rightarrow> Next ()
                | Some False \<Rightarrow> Respond (buildError c Scope_violation (''missing scope '' @ scope) []))))"

section \<open>What the key middleware guarantees\<close>

lemma status_of_name [simp]: "status_of (status_name s) = Some s"
  by (cases s) (simp_all add: status_of_def)

text \<open>A row survives the trip through the cache.\<close>
lemma cached_row:
  assumes "rs_revoked_at r \<noteq> Some JNull"
  shows "isRowShape (row_json r) \<and> as_row (row_json r) = r"
  using assms
  by (cases r) (auto simp: isRowShape_def as_row_def row_json_def jfield_def split: option.splits json.splits)

lemma revoked_or_false_world:
  "revoked_or_false pc p w = (w', b) \<Longrightarrow> \<exists>rc. w' = w\<lparr>aw_rcache := rc\<rparr>"
  by (auto simp: revoked_or_false_def split: if_splits prod.splits intro: exI [of _ "aw_rcache w"])

lemma load_key_nonce: "load_key P c pc k w = (w', x) \<Longrightarrow> aw_nonce w' = aw_nonce w"
  by (auto simp: load_key_def load_key_cold_def Let_def split: if_splits option.splits)

lemma verify_key_nonce: "verify_key P c pc k w r = (w', x) \<Longrightarrow> aw_nonce w' = aw_nonce w"
  by (auto simp: verify_key_def Let_def split: if_splits option.splits prod.splits dest!: revoked_or_false_world)

lemma impersonate_nonce: "impersonate P c pc r w = (w', x) \<Longrightarrow> aw_nonce w' = aw_nonce w"
  by (auto simp: impersonate_def Let_def split: if_splits option.splits prod.splits bool.splits dest!: revoked_or_false_world)

lemma verify_key_Next:
  assumes "verify_key P c pc keyId w row = (w', Next (r, nonce))"
  shows "row = Some r \<and> rs_status r \<noteq> Revoked \<and> rs_revoked_at r = None \<and>
    \<not> snd (revoked_or_false pc (rs_operator_id r) w) \<and>
    (\<exists>secret ts. secret \<noteq> [] \<and> kv_get (ac_now pc) (aw_key_cache w) (''plain:'' @ keyId) = Some secret \<and>
       verify (ap_hmac P) (api_verify_input c pc secret) = VOk ts nonce)"
  using assms
  by (auto simp: verify_key_def Let_def split: if_splits option.splits prod.splits verify_result.splits verify_code.splits
      dest!: revoked_or_false_world)

text \<open>The stages of an accepted request.\<close>
lemma hmacAuth_Next:
  assumes "hmacAuth P c pc w = (w', Next au)"
  obtains keyId w1 r w2 nonce eff where
    "hc_header c ''x-polaris-key-id'' = Some keyId" "ULID_RE keyId"
    "load_key P c pc keyId w = (w1, Next (Some r))" "verify_key P c pc keyId w1 (Some r) = (w2, Next (r, nonce))"
    "\<not> truthy_opt (kv_get (ac_nonce_now pc) (aw_nonce w) (nonce_key keyId nonce))"
    "impersonate P c pc r (w2\<lparr>aw_nonce := kv_put_ttl (ac_nonce_now pc) NONCE_TTL_SECONDS (aw_nonce w)
        (nonce_key keyId nonce) ''1''\<rparr>) = (w', Next eff)"
    "au = key_context c r eff"
proof -
  obtain keyId w1 row w2 r nonce w3 w4 eff where *:
    "hc_header c ''x-polaris-key-id'' = Some keyId" "ULID_RE keyId" "load_key P c pc keyId w = (w1, Next row)"
    "verify_key P c pc keyId w1 row = (w2, Next (r, nonce))" "nonce_check c pc keyId nonce w2 = (w3, Next ())"
    "nonce_record pc keyId nonce w3 = (w4, Next ())" "impersonate P c pc r w4 = (w', Next eff)" "au = key_context c r eff"
    using assms by (auto simp: hmacAuth_def and_then_Next split: option.splits if_splits)
  have n: "aw_nonce w2 = aw_nonce w" using load_key_nonce [OF *(3)] verify_key_nonce [OF *(4)] by simp
  have "row = Some r" using verify_key_Next [OF *(4)] by simp
  moreover have "\<not> truthy_opt (kv_get (ac_nonce_now pc) (aw_nonce w) (nonce_key keyId nonce))" "w3 = w2"
    using *(5) n by (auto simp: nonce_check_def split: if_splits)
  moreover have "w4 = w2\<lparr>aw_nonce := kv_put_ttl (ac_nonce_now pc) NONCE_TTL_SECONDS (aw_nonce w) (nonce_key keyId nonce) ''1''\<rparr>"
    using *(6) n \<open>w3 = w2\<close> by (auto simp: nonce_record_def split: if_splits)
  ultimately show ?thesis using that * by simp
qed

text \<open>Whatever a request does, it leaves the nonce store alone or records one nonce for ten minutes.\<close>
lemma hmacAuth_nonce:
  "hmacAuth P c pc w = (w', x) \<Longrightarrow>
     aw_nonce w' = aw_nonce w \<or>
     (\<exists>k. aw_nonce w' = (aw_nonce w)(k \<mapsto> (''1'', Some (ac_nonce_now pc + 600000))))"
  unfolding hmacAuth_def
  by (auto elim!: and_thenE dest!: load_key_nonce verify_key_nonce impersonate_nonce
      simp: nonce_check_def nonce_record_def kv_put_ttl_def NONCE_TTL_SECONDS_def split: option.splits if_splits prod.splits) blast+

lemma accepted_nonce:
  assumes "hmacAuth P c pc w = (w', Next au)"
    and "hc_header c ''x-polaris-key-id'' = Some keyId" "hc_header c ''x-polaris-nonce'' = Some nonce"
  shows "\<not> truthy_opt (kv_get (ac_nonce_now pc) (aw_nonce w) (nonce_key keyId nonce))"
    "aw_nonce w' = (aw_nonce w)(nonce_key keyId nonce \<mapsto> (''1'', Some (ac_nonce_now pc + 600000)))"
    "\<exists>ts. hc_header c ''x-polaris-ts'' = Some (int_to_string ts) \<and> \<bar>ac_now pc - ts\<bar> \<le> 300000"
proof -
  obtain w1 r w2 nn eff where *: "verify_key P c pc keyId w1 (Some r) = (w2, Next (r, nn))"
    "\<not> truthy_opt (kv_get (ac_nonce_now pc) (aw_nonce w) (nonce_key keyId nn))"
    "impersonate P c pc r (w2\<lparr>aw_nonce := kv_put_ttl (ac_nonce_now pc) NONCE_TTL_SECONDS (aw_nonce w) (nonce_key keyId nn) ''1''\<rparr>)
       = (w', Next eff)"
    using hmacAuth_Next [OF assms(1)] assms(2) by (metis option.inject)
  have "nn = nonce" and t: "\<exists>ts. hc_header c ''x-polaris-ts'' = Some (int_to_string ts) \<and> \<bar>ac_now pc - ts\<bar> \<le> 300000"
    using verify_key_Next [OF *(1)] assms(3)
    by (auto dest!: verify_ok_D simp: api_verify_input_def verify_skew_def)
  then show "\<not> truthy_opt (kv_get (ac_nonce_now pc) (aw_nonce w) (nonce_key keyId nonce))"
    "aw_nonce w' = (aw_nonce w)(nonce_key keyId nonce \<mapsto> (''1'', Some (ac_nonce_now pc + 600000)))"
    using *(2) impersonate_nonce [OF *(3)] by (simp_all add: kv_put_ttl_def NONCE_TTL_SECONDS_def)
  show "\<exists>ts. hc_header c ''x-polaris-ts'' = Some (int_to_string ts) \<and> \<bar>ac_now pc - ts\<bar> \<le> 300000" by (rule t)
qed

lemma accepted_headers:
  assumes "hmacAuth P c pc w = (w', Next au)"
  obtains keyId nonce where "hc_header c ''x-polaris-key-id'' = Some keyId" "hc_header c ''x-polaris-nonce'' = Some nonce"
  using hmacAuth_Next [OF assms] verify_key_Next verify_ok_D
  by (smt (verit) api_verify_input_def verify_input.simps(5))

text \<open>Requests handled one after the other; between two of them anything but the nonce store may change.\<close>
fun hm_run ::
  "auth_platform \<Rightarrow> ((auth_world \<Rightarrow> auth_world) \<times> http_ctx \<times> auth_call) list \<Rightarrow> auth_world \<Rightarrow> auth_ctx outcome list" where
  "hm_run P [] w = []"
| "hm_run P ((env, c, pc) # xs) w = (let (w', x) = hmacAuth P c pc (env w) in x # hm_run P xs w')"

fun is_next :: "'a outcome \<Rightarrow> bool" where
  "is_next (Next a) = True"
| "is_next _ = False"

lemma is_next_iff: "is_next x \<longleftrightarrow> (\<exists>a. x = Next a)"
  by (cases x) auto

lemma length_hm_run [simp]: "length (hm_run P xs w) = length xs"
  by (induction P xs w rule: hm_run.induct) (simp_all split: prod.splits)

text \<open>A recorded nonce keeps every request that carries it out until it expires.\<close>
lemma recorded_nonce_blocks:
  assumes "aw_nonce w (nonce_key keyId nonce) = Some (''1'', Some e)"
    and "\<forall>(env, c, pc) \<in> set xs. (\<forall>w. aw_nonce (env w) = aw_nonce w) \<and> e \<le> ac_nonce_now pc + 600000"
    and "sorted (map (\<lambda>(env, c, pc). ac_nonce_now pc) xs)"
    and "j < length xs" "is_next (hm_run P xs w ! j)" "xs ! j = (env, c, pc)"
    and "hc_header c ''x-polaris-key-id'' = Some keyId" "hc_header c ''x-polaris-nonce'' = Some nonce"
  shows "e \<le> ac_nonce_now pc"
  using assms
proof (induction xs arbitrary: w e j)
  case (Cons x xs)
  obtain env1 c1 pc1 where x: "x = (env1, c1, pc1)" by (cases x)
  obtain w' y where y: "hmacAuth P c1 pc1 (env1 w) = (w', y)" by (cases "hmacAuth P c1 pc1 (env1 w)")
  have n: "aw_nonce (env1 w) = aw_nonce w" using Cons.prems(2) x by auto
  show ?case
  proof (cases j)
    case 0
    then have c: "env = env1" "c = c1" "pc = pc1" "is_next y" using Cons.prems(5,6) x y by auto
    then obtain au where "hmacAuth P c pc (env1 w) = (w', Next au)" using y by (auto simp: is_next_iff)
    from accepted_nonce [OF this Cons.prems(7,8)] show ?thesis
      using Cons.prems(1) n by (auto simp: kv_get_def truthy_opt_def split: if_splits)
  next
    case (Suc i)
    have "aw_nonce w' (nonce_key keyId nonce) = Some (''1'', Some e) \<or>
        aw_nonce w' (nonce_key keyId nonce) = Some (''1'', Some (ac_nonce_now pc1 + 600000))"
      using hmacAuth_nonce [OF y] n Cons.prems(1) by auto
    moreover have "e \<le> ac_nonce_now pc1 + 600000" using Cons.prems(2) x by auto
    ultimately obtain e' where e': "aw_nonce w' (nonce_key keyId nonce) = Some (''1'', Some e')" "e \<le> e'"
      "e' \<le> ac_nonce_now pc1 + 600000" by (metis order_refl)
    have "\<forall>(env, c, pc) \<in> set xs. (\<forall>w. aw_nonce (env w) = aw_nonce w) \<and> e' \<le> ac_nonce_now pc + 600000"
      using Cons.prems(2,3) e'(3) x by fastforce
    from Cons.IH [OF e'(1) this] have "e' \<le> ac_nonce_now pc"
      using Cons.prems Suc x y by auto
    with e'(2) show ?thesis by simp
  qed
qed simp

lemma nonce_gap:
  assumes "\<forall>(env, c, pc) \<in> set xs. \<forall>w. aw_nonce (env w) = aw_nonce w"
    and "sorted (map (\<lambda>(env, c, pc). ac_nonce_now pc) xs)"
    and "i < j" "j < length xs" "is_next (hm_run P xs w ! i)" "is_next (hm_run P xs w ! j)"
    and "xs ! i = (env, c, pc)" "xs ! j = (env', c', pc')"
    and "hc_header c ''x-polaris-key-id'' = hc_header c' ''x-polaris-key-id''"
    and "hc_header c ''x-polaris-nonce'' = hc_header c' ''x-polaris-nonce''"
  shows "ac_nonce_now pc + 600000 \<le> ac_nonce_now pc'"
  using assms
proof (induction xs arbitrary: w i j)
  case (Cons x xs)
  obtain env1 c1 pc1 where x: "x = (env1, c1, pc1)" by (cases x)
  obtain w' y where y: "hmacAuth P c1 pc1 (env1 w) = (w', y)" by (cases "hmacAuth P c1 pc1 (env1 w)")
  obtain j' where j: "j = Suc j'" using Cons.prems(3) by (cases j) auto
  show ?case
  proof (cases i)
    case 0
    then have c: "c = c1" "pc = pc1" "is_next y" using Cons.prems(5,7) x y by auto
    then obtain au where au: "hmacAuth P c pc (env1 w) = (w', Next au)" using y by (auto simp: is_next_iff)
    obtain keyId nonce where h: "hc_header c ''x-polaris-key-id'' = Some keyId" "hc_header c ''x-polaris-nonce'' = Some nonce"
      using accepted_headers [OF au] by blast
    have "ac_nonce_now pc \<le> ac_nonce_now pc2" if "(env2, c2, pc2) \<in> set xs" for env2 c2 pc2
      using Cons.prems(2) x c(2) that by auto
    then have "\<forall>(env, c, pc2) \<in> set xs. (\<forall>w. aw_nonce (env w) = aw_nonce w) \<and> ac_nonce_now pc + 600000 \<le> ac_nonce_now pc2 + 600000"
      using Cons.prems(1) by auto
    then show ?thesis
      using recorded_nonce_blocks [of w' keyId nonce "ac_nonce_now pc + 600000" xs j' P env' c' pc'] accepted_nonce(2) [OF au h]
        Cons.prems h j x y by auto
  next
    case (Suc i')
    then show ?thesis using Cons.IH [of i' j' w'] Cons.prems j x y by auto
  qed
qed simp

lemma hm_run_nth:
  "i < length xs \<Longrightarrow> xs ! i = (env, c, pc) \<Longrightarrow> \<exists>w1 w2. hmacAuth P c pc (env w1) = (w2, hm_run P xs w ! i)"
proof (induction P xs w arbitrary: i rule: hm_run.induct)
  case (2 P env1 c1 pc1 xs w)
  obtain w' y where y: "hmacAuth P c1 pc1 (env1 w) = (w', y)" by (cases "hmacAuth P c1 pc1 (env1 w)")
  then show ?case using 2 by (cases i) auto
qed simp

lemma accepted_window:
  assumes "i < length xs" "xs ! i = (env, c, pc)" "is_next (hm_run P xs w ! i)"
  shows "\<exists>ts. hc_header c ''x-polaris-ts'' = Some (int_to_string ts) \<and> \<bar>ac_now pc - ts\<bar> \<le> 300000"
proof -
  obtain w1 w2 au where "hmacAuth P c pc (env w1) = (w2, Next au)"
    using hm_run_nth [OF assms(1,2)] assms(3) by (metis is_next_iff)
  then show ?thesis using accepted_headers accepted_nonce(3) by metis
qed


definition demo_ap :: auth_platform where
  "demo_ap = \<lparr> ap_hmac = demo_platform,
     ap_parse = (\<lambda>s. if s = ''A'' then Some (JArr [JStr ''admin:impersonate'']) else if s = ''S'' then Some (JArr [JStr ''send'']) else None),
     ap_stringify = (\<lambda>j. ''row'') \<rparr>"

definition demo_kid :: string where "demo_kid = replicate 26 (CHR ''K'')"
definition demo_oid :: string where "demo_oid = replicate 26 (CHR ''P'')"

definition demo_http :: http_ctx where
  "demo_http = \<lparr> hc_method = ''POST'', hc_path = ''/v1/m'', hc_query = [],
     hc_header = (\<lambda>h. if h = ''x-polaris-key-id'' then Some demo_kid else if h = ''x-polaris-ts'' then Some ''300''
        else if h = ''x-polaris-nonce'' then Some ''0123456789ABCDEF'' else if h = ''x-polaris-sig'' then Some ''032f''
        else if h = ''x-polaris-obo'' then Some (''operator:'' @ demo_oid) else None),
     hc_body = ''hi'', hc_requestId = None, hc_rnd = [] \<rparr>"

definition demo_world :: auth_world where
  "demo_world = \<lparr> aw_key_cache = [''plain:'' @ demo_kid \<mapsto> (''key'', None)], aw_nonce = Map.empty,
     aw_revocations = Map.empty, aw_rcache = Map.empty,
     aw_api_keys = [\<lparr> rs_id = demo_kid, rs_operator_id = ''O'', rs_secret = ''h'', rs_scopes = ''A'', rs_rate_limit_per_min = 5,
         rs_status = Primary, rs_revoked_at = None \<rparr>,
       \<lparr> rs_id = ''L'', rs_operator_id = demo_oid, rs_secret = ''h'', rs_scopes = ''S'', rs_rate_limit_per_min = 5,
         rs_status = Primary, rs_revoked_at = None \<rparr>],
     aw_operators = [\<lparr> op_id = ''O'', op_disabled_at = None, op_last_seen_at = None \<rparr>,
       \<lparr> op_id = demo_oid, op_disabled_at = None, op_last_seen_at = None \<rparr>],
     aw_bridges = [\<lparr> br_id = demo_kid, br_disabled_at = None, br_last_seen_at = None \<rparr>] \<rparr>"

definition demo_call :: "int \<Rightarrow> auth_call" where
  "demo_call t = \<lparr> ac_now = t, ac_nonce_now = t, ac_iso = [], ac_fails = (\<lambda>_. False) \<rparr>"


text \<open>Lookup and record are two steps: two requests that both look the nonce up before either records it both pass,
  although each records it before it goes on.\<close>
lemma concurrent_nonce_race:
  assumes "\<not> truthy_opt (kv_get (ac_nonce_now pc) (aw_nonce w) (nonce_key keyId nonce))"
    "\<not> truthy_opt (kv_get (ac_nonce_now pc') (aw_nonce w) (nonce_key keyId nonce))"
    "\<forall>s. \<not> ac_fails pc s \<and> \<not> ac_fails pc' s"
  shows "snd (nonce_check c pc keyId nonce w) = Next () \<and> snd (nonce_check c' pc' keyId nonce w) = Next () \<and>
     snd (nonce_record pc keyId nonce w) = Next () \<and>
     snd (nonce_record pc' keyId nonce (fst (nonce_record pc keyId nonce w))) = Next ()"
  using assms by (simp add: nonce_check_def nonce_record_def)

lemma load_key_db: "load_key P c pc k w = (w', x) \<Longrightarrow> aw_api_keys w' = aw_api_keys w \<and> aw_operators w' = aw_operators w"
  by (auto simp: load_key_def load_key_cold_def Let_def split: if_splits option.splits)

lemma verify_key_db: "verify_key P c pc k w r = (w', x) \<Longrightarrow> aw_api_keys w' = aw_api_keys w \<and> aw_operators w' = aw_operators w"
  by (auto simp: verify_key_def Let_def split: if_splits option.splits prod.splits dest!: revoked_or_false_world)

lemma impersonate_Some:
  assumes "impersonate P c pc row w = (w', Next (sc, Some opId))"
  shows "hc_header c ''x-polaris-obo'' = Some (OPERATOR_PREFIX @ opId) \<and>
    (\<exists>j. ap_parse P (rs_scopes row) = Some j \<and> scopes_include j ''admin:impersonate'' = Some True) \<and>
    (\<exists>oper \<in> set (aw_operators w). op_id oper = opId \<and> \<not> truthy_opt (op_disabled_at oper)) \<and>
    (\<exists>opKey \<in> set (aw_api_keys w). rs_operator_id opKey = opId \<and> rs_status opKey = Primary \<and> rs_revoked_at opKey = None \<and>
       rs_scopes opKey = sc)"
  using assms
  by (auto simp: impersonate_def Let_def starts_with_iff find_Some_iff split: if_splits option.splits prod.splits bool.splits)

text \<open>Acting for an operator never widens anybody's rights: when a request that carries an impersonation header
  passes the authentication and a scope check, the signing key holds \<^verbatim>\<open>admin:impersonate\<close>, the operator exists and
  is not disabled, the scope is one of a live primary key of that operator (not of the signing key), and the
  audit actor is that operator.\<close>
theorem impersonation_confined:
  assumes "hmacAuth P c pc w = (w', Next au)" "requireScope P c scope (Some au) = Next ()"
    and "ak_impersonated_operator_id (au_apiKey au) = Some opId"
  shows "au_actor au = ''operator:'' @ opId \<and> hc_header c ''x-polaris-obo'' = Some (''operator:'' @ opId) \<and>
    (\<exists>oper \<in> set (aw_operators w). op_id oper = opId \<and> \<not> truthy_opt (op_disabled_at oper)) \<and>
    (\<exists>opKey j. opKey \<in> set (aw_api_keys w) \<and> rs_operator_id opKey = opId \<and> rs_status opKey = Primary \<and>
       rs_revoked_at opKey = None \<and> ap_parse P (rs_scopes opKey) = Some j \<and> scopes_include j scope = Some True) \<and>
    (\<exists>keyId w1 r j. hc_header c ''x-polaris-key-id'' = Some keyId \<and> load_key P c pc keyId w = (w1, Next (Some r)) \<and>
       rs_id r = ak_key_id (au_apiKey au) \<and> ap_parse P (rs_scopes r) = Some j \<and>
       scopes_include j ''admin:impersonate'' = Some True)"
proof -
  obtain keyId w1 r w2 nonce eff where *:
    "hc_header c ''x-polaris-key-id'' = Some keyId" "load_key P c pc keyId w = (w1, Next (Some r))"
    "verify_key P c pc keyId w1 (Some r) = (w2, Next (r, nonce))"
    "impersonate P c pc r (w2\<lparr>aw_nonce := kv_put_ttl (ac_nonce_now pc) NONCE_TTL_SECONDS (aw_nonce w)
        (nonce_key keyId nonce) ''1''\<rparr>) = (w', Next eff)" "au = key_context c r eff"
    using hmacAuth_Next [OF assms(1)] by metis
  obtain sc where eff: "eff = (sc, Some opId)" using assms(3) *(5) by (cases eff) (simp add: key_context_def)
  obtain j where "ap_parse P sc = Some j" "scopes_include j scope = Some True"
    using assms(2) *(5) eff by (auto simp: requireScope_def key_context_def split: option.splits bool.splits)
  then show ?thesis
    using impersonate_Some [OF *(4) [unfolded eff]] load_key_db [OF *(2)] verify_key_db [OF *(3)] *(1,2,5) eff
    by (auto simp: key_context_def OPERATOR_PREFIX_def)
qed

lemma impersonation_confined_witness:
  "\<exists>au. snd (hmacAuth demo_ap demo_http (demo_call 0) demo_world) = Next au \<and>
     requireScope demo_ap demo_http ''send'' (Some au) = Next () \<and> au_actor au = ''operator:'' @ demo_oid"
proof -
  let ?h = "hmacAuth demo_ap demo_http (demo_call 0) demo_world"
  obtain au where au: "snd ?h = Next au" "requireScope demo_ap demo_http ''send'' (Some au) = Next ()"
    "ak_impersonated_operator_id (au_apiKey au) = Some demo_oid"
  proof -
    have "(case snd ?h of Next a \<Rightarrow> is_next (requireScope demo_ap demo_http ''send'' (Some a)) \<and>
        ak_impersonated_operator_id (au_apiKey a) = Some demo_oid | _ \<Rightarrow> False)" by code_simp
    then show ?thesis using that by (auto simp: is_next_iff split: outcome.splits)
  qed
  then have "?h = (fst ?h, Next au)" by (metis prod.collapse)
  from impersonation_confined [OF this au(2,3)] au show ?thesis by blast
qed

text \<open>C4. A request gets past the key middleware only with a proof of possession: its signature header is what
  \<open>sign\<close> computes for this very method, path, query, body, timestamp and nonce under the secret stored for the
  key id it names; the timestamp is within five minutes; the key row is live, neither the isolate's cache nor the
  revocation store (when it answers) reports its operator; the nonce was unused and is now recorded.\<close>
theorem hmacAuth_sound:
  assumes "hmacAuth P c pc w = (w', Next au)"
  shows "\<exists>keyId w1 r secret ts nonce sig.
    hc_header c ''x-polaris-key-id'' = Some keyId \<and> load_key P c pc keyId w = (w1, Next (Some r)) \<and>
    ak_key_id (au_apiKey au) = rs_id r \<and> rs_status r \<noteq> Revoked \<and> rs_revoked_at r = None \<and>
    (case revocation_hit (aw_rcache w) (rs_operator_id r) (ac_now pc) of
       Some revoked \<Rightarrow> \<not> revoked
     | None \<Rightarrow> aw_revocations w (rs_operator_id r) = None \<or> ac_fails pc ''get revocations'') \<and>
    kv_get (ac_now pc) (aw_key_cache w1) (''plain:'' @ keyId) = Some secret \<and>
    hc_header c ''x-polaris-sig'' = Some sig \<and>
    sign (ap_hmac P) \<lparr> ci_direction = Polaris_api, ci_method = hc_method c, ci_path = hc_path c,
      ci_query = QString (hc_query c), ci_ts = int_to_string ts, ci_nonce = nonce, ci_body = Text (hc_body c) \<rparr>
      (Text secret) = Inr sig \<and>
    \<bar>ac_now pc - ts\<bar> \<le> 300000 \<and>
    kv_get (ac_nonce_now pc) (aw_nonce w) (nonce_key keyId nonce) \<in> {None, Some []} \<and>
    aw_nonce w' (nonce_key keyId nonce) = Some (''1'', Some (ac_nonce_now pc + 600000))"
proof -
  obtain keyId w1 r w2 nonce eff where *:
    "hc_header c ''x-polaris-key-id'' = Some keyId" "load_key P c pc keyId w = (w1, Next (Some r))"
    "verify_key P c pc keyId w1 (Some r) = (w2, Next (r, nonce))" "au = key_context c r eff"
    using hmacAuth_Next [OF assms] by metis
  obtain secret ts where v: "kv_get (ac_now pc) (aw_key_cache w1) (''plain:'' @ keyId) = Some secret"
    "verify (ap_hmac P) (api_verify_input c pc secret) = VOk ts nonce"
    "rs_status r \<noteq> Revoked" "rs_revoked_at r = None" "\<not> snd (revoked_or_false pc (rs_operator_id r) w1)"
    using verify_key_Next [OF *(3)] by blast
  obtain sig ch where d: "hc_header c ''x-polaris-sig'' = Some sig" "hc_header c ''x-polaris-nonce'' = Some nonce"
    "\<bar>ac_now pc - ts\<bar> \<le> 300000" "SIG_HEX_RE sig"
    "buildCanonical (ap_hmac P) (verify_canonical (api_verify_input c pc secret) (int_to_string ts) nonce) = Inr ch"
    "fromHex sig = Inr (hmacSha256 (ap_hmac P) (text_encode secret) (text_encode ch))"
    using verify_ok_D [OF v(2)] by (auto simp: api_verify_input_def verify_skew_def secretBytes_def)
  have rc: "aw_rcache w1 = aw_rcache w" "aw_revocations w1 = aw_revocations w"
    using *(2) by (auto simp: load_key_def load_key_cold_def Let_def split: if_splits option.splits)
  have "case revocation_hit (aw_rcache w) (rs_operator_id r) (ac_now pc) of Some revoked \<Rightarrow> \<not> revoked
     | None \<Rightarrow> aw_revocations w (rs_operator_id r) = None \<or> ac_fails pc ''get revocations''"
    using v(5) by (auto simp: revoked_or_false_def revocationCheck_def revocation_store_def Let_def rc split: option.splits if_splits prod.splits)
  moreover have "sign (ap_hmac P) (verify_canonical (api_verify_input c pc secret) (int_to_string ts) nonce) (Text secret) = Inr sig"
    using d(4-6) toHex_fromHex by (auto simp: sign_def secretBytes_def)
  moreover have "kv_get (ac_nonce_now pc) (aw_nonce w) (nonce_key keyId nonce) \<in> {None, Some []}"
    using accepted_nonce(1) [OF assms *(1) d(2)] by (auto simp: truthy_opt_def split: option.splits)
  moreover have "aw_nonce w' (nonce_key keyId nonce) = Some (''1'', Some (ac_nonce_now pc + 600000))"
    using accepted_nonce(2) [OF assms *(1) d(2)] by simp
  moreover have "verify_canonical (api_verify_input c pc secret) (int_to_string ts) nonce =
      \<lparr> ci_direction = Polaris_api, ci_method = hc_method c, ci_path = hc_path c,
        ci_query = QString (hc_query c), ci_ts = int_to_string ts, ci_nonce = nonce, ci_body = Text (hc_body c) \<rparr>"
    by (simp add: verify_canonical_def api_verify_input_def)
  moreover have "ak_key_id (au_apiKey au) = rs_id r" using *(4) by (simp add: key_context_def)
  ultimately show ?thesis using *(1,2) v(1,3,4) d(1,3) by metis
qed

lemma hmacAuth_sound_witness:
  "\<exists>keyId nonce. aw_nonce (fst (hmacAuth demo_ap demo_http (demo_call 0) demo_world)) (nonce_key keyId nonce) = Some (''1'', Some 600000)"
proof -
  let ?h = "hmacAuth demo_ap demo_http (demo_call 0) demo_world"
  have "is_next (snd ?h)" by code_simp
  then obtain au where "?h = (fst ?h, Next au)" by (metis is_next_iff prod.collapse)
  from hmacAuth_sound [OF this] show ?thesis by (auto simp: demo_call_def)
qed

end
