(* ===== verification/BridgeAuth.thy ===== *)
theory BridgeAuth
  imports ApiAuth
begin

text \<open>
  Authentication of the self-hosted bridges (\<^verbatim>\<open>services/api/src/bridge-auth.ts\<close>): the two secrets of a staged
  rotation, the acceptance of disabled bridges by the heartbeat endpoint only, and the time a bridge's secret stays in the
  cache, which grows with its availability. Floating-point numbers are reals here.
\<close>

section \<open>Lifetime of a cached secret\<close>

definition bridgePlainKvKey :: "string \<Rightarrow> string" where "bridgePlainKvKey bridgeId = ''bridge_plain:'' @ bridgeId"
definition bridgePlainNextKvKey :: "string \<Rightarrow> string" where "bridgePlainNextKvKey bridgeId = ''bridge_plain_next:'' @ bridgeId"

definition FLOOR_S :: real where "FLOOR_S = 8 * 60 * 60"
definition CEIL_S :: real where "CEIL_S = 7 * 24 * 60 * 60"
definition TENURE_FULL_MS :: real where "TENURE_FULL_MS = 30 * 24 * 60 * 60 * 1000"
definition TAU_MS :: real where "TAU_MS = 30 * 24 * 60 * 60 * 1000"
definition GAP_GRACE_MS :: real where "GAP_GRACE_MS = 10 * 60 * 1000"

definition clamp :: "real \<Rightarrow> real \<Rightarrow> real \<Rightarrow> real" where
  "clamp x lo hi = min hi (max lo x)"

definition updateAvailabilityEwma :: "real option \<Rightarrow> real \<Rightarrow> real" where
  "updateAvailabilityEwma prev gapMs =
     (case prev of
        None \<Rightarrow> 1
      | Some p \<Rightarrow>
          if gapMs \<le> 0 then clamp p 0 1
          else let up = min gapMs GAP_GRACE_MS;
                   uptimeFrac = up / gapMs;
                   alpha = exp (- gapMs / TAU_MS)
               in clamp (alpha * p + (1 - alpha) * uptimeFrac) 0 1)"

text \<open>\<^verbatim>\<open>Math.round\<close>\<close>
definition js_round :: "real \<Rightarrow> int" where "js_round x = \<lfloor>x + 1 / 2\<rfloor>"

definition bridgePlainTtlSeconds :: "real \<Rightarrow> real \<Rightarrow> int" where
  "bridgePlainTtlSeconds ewma tenureMs =
     (let factor = clamp ewma 0 1 * min 1 (max 0 tenureMs / TENURE_FULL_MS)
      in js_round (FLOOR_S + (CEIL_S - FLOOR_S) * factor))"

section \<open>Secrets and the middleware\<close>

datatype bridge_err = Unknown_bridge | Bridge_disabled | Bridge_key_propagating

fun bridge_err_code :: "bridge_err \<Rightarrow> string" where
  "bridge_err_code Unknown_bridge = ''unknown_bridge''"
| "bridge_err_code Bridge_disabled = ''disabled''"
| "bridge_err_code Bridge_key_propagating = ''key_propagating''"

datatype BridgeSecretsLookup = BridgeSecretsOk string "string option" | BridgeSecretsErr bridge_err

text \<open>\<^const>\<open>Inl\<close>: a query or a read threw.\<close>
definition lookupBridgeSecrets :: "auth_call \<Rightarrow> bool \<Rightarrow> string \<Rightarrow> auth_world \<Rightarrow> string + BridgeSecretsLookup" where
  "lookupBridgeSecrets pc allowDisabled bridgeId w =
     (if ac_fails pc ''select bridges'' then Inl ''select bridges''
      else case find (\<lambda>b. br_id b = bridgeId) (aw_bridges w) of
        None \<Rightarrow> Inr (BridgeSecretsErr Unknown_bridge)
      | Some row \<Rightarrow>
          if br_disabled_at row \<noteq> None \<and> \<not> allowDisabled then Inr (BridgeSecretsErr Bridge_disabled)
          else if ac_fails pc ''get bridge_plain'' then Inl ''get bridge_plain''
          else let current = kv_get (ac_now pc) (aw_key_cache w) (bridgePlainKvKey bridgeId);
                   nxt = kv_get (ac_now pc) (aw_key_cache w) (bridgePlainNextKvKey bridgeId)
               in if \<not> truthy_opt current \<and> \<not> truthy_opt nxt then Inr (BridgeSecretsErr Bridge_key_propagating)
                  else Inr (BridgeSecretsOk (case current of Some s \<Rightarrow> s | None \<Rightarrow> (case nxt of Some s \<Rightarrow> s | None \<Rightarrow> []))
                              (if truthy_opt current then nxt else None)))"

definition lookupBridgeSecret :: "auth_call \<Rightarrow> string \<Rightarrow> auth_world \<Rightarrow> string + (bridge_err + string)" where
  "lookupBridgeSecret pc bridgeId w =
     (case lookupBridgeSecrets pc False bridgeId w of
        Inl e \<Rightarrow> Inl e
      | Inr (BridgeSecretsErr e) \<Rightarrow> Inr (Inl e)
      | Inr (BridgeSecretsOk current nxt) \<Rightarrow> Inr (Inr current))"

datatype bridge_key = Key_current | Key_next

record bridge_ctx =
  bc_bridgeId :: string
  bc_submissionId :: "string option"
  bc_usedKey :: bridge_key
  bc_secret :: string
  bc_cachedBody :: string

record BridgeAuthOptions =
  bo_allowDisabled :: bool
  bo_requireSubmissionId :: bool

fun verify_code_name :: "verify_code \<Rightarrow> string" where
  "verify_code_name Missing_header = ''missing_header''"
| "verify_code_name Header_invalid = ''header_invalid''"
| "verify_code_name Clock_skew = ''clock_skew''"
| "verify_code_name Invalid_signature = ''invalid_signature''"

text \<open>Lines 235 to 242.\<close>
definition used_key :: "auth_platform \<Rightarrow> http_ctx \<Rightarrow> auth_call \<Rightarrow> string \<Rightarrow> string option \<Rightarrow> bridge_key option" where
  "used_key P c pc current nxt =
     (case verify (ap_hmac P) (api_verify_input c pc current) of
        VOk _ _ \<Rightarrow> Some Key_current
      | VErr _ _ \<Rightarrow>
          (case nxt of
             Some (d # s) \<Rightarrow> (case verify (ap_hmac P) (api_verify_input c pc (d # s)) of VOk _ _ \<Rightarrow> Some Key_next | VErr _ _ \<Rightarrow> None)
           | _ \<Rightarrow> None))"

definition touchBridgeLastSeen :: "auth_call \<Rightarrow> string \<Rightarrow> auth_world \<Rightarrow> auth_world" where
  "touchBridgeLastSeen pc bridgeId w =
     (if ac_fails pc ''update bridges'' then w
      else w\<lparr>aw_bridges := map (\<lambda>b. if br_id b = bridgeId then b\<lparr>br_last_seen_at := Some (ac_iso pc)\<rparr> else b) (aw_bridges w)\<rparr>)"

definition bridgeHmacAuth ::
  "auth_platform \<Rightarrow> BridgeAuthOptions \<Rightarrow> http_ctx \<Rightarrow> auth_call \<Rightarrow> auth_world \<Rightarrow> auth_world \<times> bridge_ctx outcome" where
  "bridgeHmacAuth P opts c pc w =
     (case hc_header c ''x-polaris-bridge-id'' of
        None \<Rightarrow> (w, Respond (buildError c Unauthorized ''X-Polaris-Bridge-Id required'' []))
      | Some bridgeId \<Rightarrow>
          if bridgeId = [] then (w, Respond (buildError c Unauthorized ''X-Polaris-Bridge-Id required'' []))
          else if \<not> ULID_RE bridgeId then (w, Respond (buildError c Unauthorized ''invalid bridge_id format'' []))
          else let submissionId = (if bo_requireSubmissionId opts then hc_header c ''x-polaris-submission-id'' else None) in
            if bo_requireSubmissionId opts \<and> (\<not> truthy_opt submissionId \<or> \<not> ULID_RE (the submissionId))
            then (w, Respond (buildError c Unauthorized ''invalid submission_id format'' []))
            else case lookupBridgeSecrets pc (bo_allowDisabled opts) bridgeId w of
              Inl e \<Rightarrow> (w, Threw e)
            | Inr (BridgeSecretsErr Bridge_key_propagating) \<Rightarrow>
                (w, Respond (buildError c Key_propagating ''bridge plaintext not in cache; roll to repopulate'' [(''retry-after'', ''2'')]))
            | Inr (BridgeSecretsErr e) \<Rightarrow> (w, Respond (buildError c Unauthorized (''bridge: '' @ bridge_err_code e) []))
            | Inr (BridgeSecretsOk current nxt) \<Rightarrow>
                (case used_key P c pc current nxt of
                   None \<Rightarrow>
                     (w, Respond (buildError c Unauthorized
                       (''bridge HMAC: '' @ (case verify (ap_hmac P) (api_verify_input c pc current) of
                          VOk _ _ \<Rightarrow> ''unknown'' | VErr vc _ \<Rightarrow> verify_code_name vc)) []))
                 | Some k \<Rightarrow>
                     (touchBridgeLastSeen pc bridgeId w,
                      Next \<lparr> bc_bridgeId = bridgeId, bc_submissionId = submissionId, bc_usedKey = k,
                        bc_secret = (if k = Key_current then current else (case nxt of Some s \<Rightarrow> s | None \<Rightarrow> current)),
                        bc_cachedBody = hc_body c \<rparr>)))"

section \<open>Properties\<close>

lemma ewma_range: "0 \<le> updateAvailabilityEwma prev gap \<and> updateAvailabilityEwma prev gap \<le> 1"
  by (auto simp: updateAvailabilityEwma_def clamp_def Let_def split: option.splits)

lemma js_round_mono: "x \<le> y \<Longrightarrow> js_round x \<le> js_round y"
  by (simp add: js_round_def floor_mono)

lemma js_round_int [simp]: "js_round (of_int n) = n"
  by (simp add: js_round_def)

text \<open>However a bridge behaves, the lifetime of its cached secret stays between eight hours and seven days, grows with
  its availability and its tenure, is eight hours for a new bridge, and seven days for one that has been registered for
  thirty days and never missed a heartbeat; the availability stays a fraction, and a heartbeat within ten minutes of
  the last never lowers it.\<close>
theorem bridge_ttl_bounds:
  shows "28800 \<le> bridgePlainTtlSeconds e t \<and> bridgePlainTtlSeconds e t \<le> 604800 \<and>
    (e \<le> e' \<and> t \<le> t' \<longrightarrow> bridgePlainTtlSeconds e t \<le> bridgePlainTtlSeconds e' t') \<and>
    (t \<le> 0 \<longrightarrow> bridgePlainTtlSeconds e t = 28800) \<and>
    (t \<ge> TENURE_FULL_MS \<and> e \<ge> 1 \<longrightarrow> bridgePlainTtlSeconds e t = 604800) \<and>
    0 \<le> updateAvailabilityEwma p gap \<and> updateAvailabilityEwma p gap \<le> 1 \<and>
    (p = Some q \<and> 0 \<le> q \<and> q \<le> 1 \<and> gap \<le> GAP_GRACE_MS \<longrightarrow> q \<le> updateAvailabilityEwma p gap)"
proof -
  let ?f = "\<lambda>e t. clamp e 0 1 * min 1 (max 0 t / TENURE_FULL_MS)"
  have f: "0 \<le> ?f e t" "?f e t \<le> 1" for e t
    by (auto simp: clamp_def TENURE_FULL_MS_def intro!: mult_le_one mult_nonneg_nonneg)
  have ttl: "bridgePlainTtlSeconds e t = js_round (28800 + 576000 * ?f e t)" for e t
    by (simp add: bridgePlainTtlSeconds_def FLOOR_S_def CEIL_S_def)
  have r: "js_round 28800 = 28800" "js_round 604800 = 604800"
    using js_round_int [of 28800] js_round_int [of 604800] by simp_all
  have "28800 \<le> bridgePlainTtlSeconds e t" "bridgePlainTtlSeconds e t \<le> 604800"
    using js_round_mono [of 28800 "28800 + 576000 * ?f e t"] js_round_mono [of "28800 + 576000 * ?f e t" 604800]
      f [of e t] r by (simp_all add: ttl)
  moreover have "bridgePlainTtlSeconds e t \<le> bridgePlainTtlSeconds e' t'" if "e \<le> e'" "t \<le> t'"
  proof -
    have "?f e t \<le> ?f e' t'"
      using that by (intro mult_mono) (auto simp: clamp_def TENURE_FULL_MS_def)
    then show ?thesis by (simp add: ttl js_round_mono)
  qed
  moreover have "bridgePlainTtlSeconds e t = 28800" if "t \<le> 0" using that r by (simp add: ttl)
  moreover have "bridgePlainTtlSeconds e t = 604800" if "t \<ge> TENURE_FULL_MS" "e \<ge> 1"
    using that r by (simp add: ttl clamp_def TENURE_FULL_MS_def)
  moreover have "q \<le> updateAvailabilityEwma p gap" if "p = Some q" "0 \<le> q" "q \<le> 1" "gap \<le> GAP_GRACE_MS"
  proof (cases "gap \<le> 0")
    case False
    have "0 \<le> (1 - exp (- gap / TAU_MS)) * (1 - q)"
      using that(3) False by (intro mult_nonneg_nonneg) (auto simp: TAU_MS_def)
    then have "q \<le> exp (- gap / TAU_MS) * q + (1 - exp (- gap / TAU_MS))" by (simp add: algebra_simps)
    then show ?thesis using that False by (simp add: updateAvailabilityEwma_def clamp_def Let_def)
  qed (use that in \<open>simp add: updateAvailabilityEwma_def clamp_def\<close>)
  ultimately show ?thesis using ewma_range by blast
qed

lemma bridge_ttl_bounds_witness:
  "bridgePlainTtlSeconds 1 0 = 28800 \<and> bridgePlainTtlSeconds 1 TENURE_FULL_MS = 604800 \<and>
   1 \<le> updateAvailabilityEwma (Some 1) 60000"
  using bridge_ttl_bounds [of 1 0 1 0 "Some 1" 60000 1] bridge_ttl_bounds [of 1 TENURE_FULL_MS 1 TENURE_FULL_MS "Some 1" 60000 1]
  by (auto simp: GAP_GRACE_MS_def)

lemma find_bridge_map:
  "(\<And>b. br_id (g b) = br_id b \<and> br_disabled_at (g b) = br_disabled_at b) \<Longrightarrow>
   find (\<lambda>b. br_id b = i) (map g bs) = map_option g (find (\<lambda>b. br_id b = i) bs)"
  by (induction bs) auto

text \<open>The last-seen stamp is invisible to later lookups.\<close>
lemma lookup_touch [simp]:
  "lookupBridgeSecrets pc ad i (touchBridgeLastSeen pc' i' w) = lookupBridgeSecrets pc ad i w"
  by (auto simp: lookupBridgeSecrets_def touchBridgeLastSeen_def find_bridge_map Let_def split: option.splits)

lemma used_key_iff:
  "used_key P c pc current nxt \<noteq> None \<longleftrightarrow>
     (\<exists>secret \<in> insert current (case nxt of Some (d # s) \<Rightarrow> {d # s} | _ \<Rightarrow> {}).
        \<exists>ts nonce. verify (ap_hmac P) (api_verify_input c pc secret) = VOk ts nonce)"
  by (auto simp: used_key_def split: verify_result.splits option.splits list.splits)

lemma bridge_secrets:
  assumes "\<forall>s. \<not> ac_fails pc s" "\<forall>k. kv_get (ac_now pc) (aw_key_cache w) k \<noteq> Some []"
  shows "(case lookupBridgeSecrets pc ad i w of Inr (BridgeSecretsOk current nxt) \<Rightarrow> used_key P c pc current nxt \<noteq> None | _ \<Rightarrow> False) \<longleftrightarrow>
     (\<exists>row secret ts nonce. find (\<lambda>b. br_id b = i) (aw_bridges w) = Some row \<and> (br_disabled_at row = None \<or> ad) \<and>
        Some secret \<in> {kv_get (ac_now pc) (aw_key_cache w) (bridgePlainKvKey i), kv_get (ac_now pc) (aw_key_cache w) (bridgePlainNextKvKey i)} \<and>
        verify (ap_hmac P) (api_verify_input c pc secret) = VOk ts nonce)"
proof -
  define cur where "cur = kv_get (ac_now pc) (aw_key_cache w) (bridgePlainKvKey i)"
  define nxt where "nxt = kv_get (ac_now pc) (aw_key_cache w) (bridgePlainNextKvKey i)"
  have e: "cur \<noteq> Some []" "nxt \<noteq> Some []" using assms(2) by (auto simp: cur_def nxt_def)
  have l: "lookupBridgeSecrets pc ad i w =
     (case find (\<lambda>b. br_id b = i) (aw_bridges w) of
        None \<Rightarrow> Inr (BridgeSecretsErr Unknown_bridge)
      | Some row \<Rightarrow>
          if br_disabled_at row \<noteq> None \<and> \<not> ad then Inr (BridgeSecretsErr Bridge_disabled)
          else case (cur, nxt) of
            (None, None) \<Rightarrow> Inr (BridgeSecretsErr Bridge_key_propagating)
          | (Some s, _) \<Rightarrow> Inr (BridgeSecretsOk s nxt)
          | (None, Some s) \<Rightarrow> Inr (BridgeSecretsOk s None))"
    unfolding lookupBridgeSecrets_def cur_def [symmetric] nxt_def [symmetric] Let_def using assms(1) e
    by (cases cur; cases nxt) (auto simp: truthy_opt_def split: option.split)
  have u: "used_key P c pc s nxt \<noteq> None \<longleftrightarrow>
      (\<exists>secret ts nonce. Some secret \<in> {Some s, nxt} \<and> verify (ap_hmac P) (api_verify_input c pc secret) = VOk ts nonce)" for s
    using e unfolding used_key_iff by (cases nxt; cases "the nxt") auto
  have u0: "used_key P c pc s None \<noteq> None \<longleftrightarrow> (\<exists>ts nonce. verify (ap_hmac P) (api_verify_input c pc s) = VOk ts nonce)" for s
    unfolding used_key_iff by simp
  show ?thesis
    unfolding l cur_def [symmetric] nxt_def [symmetric]
    using u u0 by (cases "find (\<lambda>b. br_id b = i) (aw_bridges w)"; cases cur; cases nxt) auto
qed

lemma bridgeHmacAuth_world:
  "fst (bridgeHmacAuth P opts c pc w) = w \<or> (\<exists>i. fst (bridgeHmacAuth P opts c pc w) = touchBridgeLastSeen pc i w)"
proof (cases "hc_header c ''x-polaris-bridge-id''")
  case (Some i)
  define l where "l = lookupBridgeSecrets pc (bo_allowDisabled opts) i w"
  show ?thesis
    unfolding bridgeHmacAuth_def Some Let_def option.case l_def [symmetric]
    by (cases l; cases "projr l"; cases "case projr l of BridgeSecretsErr e \<Rightarrow> e | _ \<Rightarrow> Bridge_disabled")
      (auto split: option.split)
qed (simp add: bridgeHmacAuth_def)

definition submission_ok :: "BridgeAuthOptions \<Rightarrow> http_ctx \<Rightarrow> bool" where
  "submission_ok opts c =
     (bo_requireSubmissionId opts \<longrightarrow> (\<exists>s. hc_header c ''x-polaris-submission-id'' = Some s \<and> ULID_RE s))"

lemma bridgeHmacAuth_next:
  "is_next (snd (bridgeHmacAuth P opts c pc w)) \<longleftrightarrow>
    (\<exists>i. hc_header c ''x-polaris-bridge-id'' = Some i \<and> ULID_RE i \<and> submission_ok opts c \<and>
      (case lookupBridgeSecrets pc (bo_allowDisabled opts) i w of
         Inr (BridgeSecretsOk current nxt) \<Rightarrow> used_key P c pc current nxt \<noteq> None | _ \<Rightarrow> False))"
proof (cases "hc_header c ''x-polaris-bridge-id''")
  case (Some i)
  define sub where "sub = (if bo_requireSubmissionId opts then hc_header c ''x-polaris-submission-id'' else None)"
  have sub: "(bo_requireSubmissionId opts \<and> (\<not> truthy_opt sub \<or> \<not> ULID_RE (the sub))) = (\<not> submission_ok opts c)"
    by (auto simp: sub_def truthy_opt_def submission_ok_def ULID_RE_def split: option.splits)
  show ?thesis
  proof (cases "ULID_RE i \<and> submission_ok opts c")
    case True
    then have "i \<noteq> []" by (auto simp: ULID_RE_def)
    define l where "l = lookupBridgeSecrets pc (bo_allowDisabled opts) i w"
    have "is_next (snd (bridgeHmacAuth P opts c pc w)) =
        (case l of Inr (BridgeSecretsOk current nxt) \<Rightarrow> used_key P c pc current nxt \<noteq> None | _ \<Rightarrow> False)"
      using True \<open>i \<noteq> []\<close>
      unfolding bridgeHmacAuth_def Some sub_def [symmetric] Let_def sub option.case l_def [symmetric]
      by (cases l; cases "projr l"; cases "case projr l of BridgeSecretsErr e \<Rightarrow> e | _ \<Rightarrow> Bridge_disabled")
        (auto split: option.split)
    then show ?thesis using True by (simp add: Some l_def)
  next
    case False
    then show ?thesis
      unfolding bridgeHmacAuth_def Some sub_def [symmetric] Let_def sub option.case by auto
  qed
qed (simp add: bridgeHmacAuth_def)

text \<open>A bridge request is accepted exactly when it names a registered bridge (and a submission id where one is
  required), the bridge is enabled or the endpoint admits disabled ones, and its signature verifies under one of the
  secrets in force, the current one or, during a staged rotation, the next.\<close>
theorem bridgeHmacAuth_iff:
  assumes "\<forall>s. \<not> ac_fails pc s" "\<forall>k. kv_get (ac_now pc) (aw_key_cache w) k \<noteq> Some []"
  shows "is_next (snd (bridgeHmacAuth P opts c pc w)) \<longleftrightarrow>
    (\<exists>bridgeId row secret ts nonce.
       hc_header c ''x-polaris-bridge-id'' = Some bridgeId \<and> ULID_RE bridgeId \<and>
       (bo_requireSubmissionId opts \<longrightarrow> (\<exists>s. hc_header c ''x-polaris-submission-id'' = Some s \<and> ULID_RE s)) \<and>
       find (\<lambda>b. br_id b = bridgeId) (aw_bridges w) = Some row \<and>
       (br_disabled_at row = None \<or> bo_allowDisabled opts) \<and>
       Some secret \<in> {kv_get (ac_now pc) (aw_key_cache w) (bridgePlainKvKey bridgeId),
                      kv_get (ac_now pc) (aw_key_cache w) (bridgePlainNextKvKey bridgeId)} \<and>
       verify (ap_hmac P) (api_verify_input c pc secret) = VOk ts nonce)"
  using bridge_secrets [OF assms]
  unfolding bridgeHmacAuth_next submission_ok_def by blast

definition demo_bridge :: http_ctx where
  "demo_bridge = demo_http\<lparr> hc_header := (hc_header demo_http)(''x-polaris-bridge-id'' := Some demo_kid) \<rparr>"

definition demo_bridge_world :: auth_world where
  "demo_bridge_world = demo_world\<lparr> aw_key_cache := [bridgePlainNextKvKey demo_kid \<mapsto> (''key'', Some 900000)] \<rparr>"

definition demo_opts :: BridgeAuthOptions where
  "demo_opts = \<lparr> bo_allowDisabled = False, bo_requireSubmissionId = False \<rparr>"

lemma bridgeHmacAuth_iff_witness:
  "is_next (snd (bridgeHmacAuth demo_ap demo_opts demo_bridge (demo_call 0) demo_bridge_world)) \<and>
   \<not> is_next (snd (bridgeHmacAuth demo_ap demo_opts demo_http (demo_call 0) demo_bridge_world))"
proof -
  have h: "\<forall>s. \<not> ac_fails (demo_call 0) s" "\<forall>k. kv_get (ac_now (demo_call 0)) (aw_key_cache demo_bridge_world) k \<noteq> Some []"
    by (auto simp: demo_call_def demo_bridge_world_def kv_get_def)
  have b: "hc_header demo_bridge ''x-polaris-bridge-id'' = Some demo_kid" "ULID_RE demo_kid"
    "find (\<lambda>b. br_id b = demo_kid) (aw_bridges demo_bridge_world) = Some \<lparr> br_id = demo_kid, br_disabled_at = None, br_last_seen_at = None \<rparr>"
    "kv_get (ac_now (demo_call 0)) (aw_key_cache demo_bridge_world) (bridgePlainNextKvKey demo_kid) = Some ''key''"
    "verify (ap_hmac demo_ap) (api_verify_input demo_bridge (demo_call 0) ''key'') = VOk 300 ''0123456789ABCDEF''"
    "\<not> bo_requireSubmissionId demo_opts" by code_simp+
  have "is_next (snd (bridgeHmacAuth demo_ap demo_opts demo_bridge (demo_call 0) demo_bridge_world))"
    unfolding bridgeHmacAuth_iff [OF h] using b by fastforce
  moreover have "\<not> is_next (snd (bridgeHmacAuth demo_ap demo_opts demo_http (demo_call 0) demo_bridge_world))"
    unfolding bridgeHmacAuth_iff [OF h] by (simp add: demo_http_def)
  ultimately show ?thesis by blast
qed

text \<open>The clock enters \<open>verify\<close> through the skew alone.\<close>
lemma verify_other_time:
  assumes "verify P vi = VOk ts nonce" "\<bar>now - ts\<bar> \<le> verify_skew vi"
  shows "verify P (vi\<lparr>vi_now := now\<rparr>) = VOk ts nonce"
proof -
  obtain sig c where d: "vi_headers vi ''x-polaris-ts'' = Some (int_to_string ts)" "vi_headers vi ''x-polaris-nonce'' = Some nonce"
    "vi_headers vi ''x-polaris-sig'' = Some sig" "SIG_HEX_RE sig" "16 \<le> length nonce" "length nonce \<le> 128"
    "buildCanonical P (verify_canonical vi (int_to_string ts) nonce) = Inr c"
    "fromHex sig = Inr (hmacSha256 P (secretBytes (vi_secret vi)) (text_encode c))"
    using verify_ok_D [OF assms(1)] by blast
  have s: "toHex (hmacSha256 P (secretBytes (vi_secret vi)) (text_encode c)) = sig"
    using toHex_fromHex d(4,8) by auto
  then have "hmacSha256 P (secretBytes (vi_secret vi)) (text_encode c) \<noteq> []"
    using d(4) by (auto simp: SIG_HEX_RE_def toHex_def)
  then show ?thesis
    using assms(2) d s
    by (intro verify_ok_I [of _ ts nonce "hmacSha256 P (secretBytes (vi_secret vi)) (text_encode c)" P c])
      (simp_all add: verify_canonical_def verify_skew_def)
qed

text \<open>Nothing makes a bridge request good for one use only: a request that was accepted is accepted again, byte for byte
  and with its old nonce, as long as its timestamp is within five minutes and the secret is still cached.\<close>
theorem bridge_request_replayable:
  assumes "is_next (snd (bridgeHmacAuth P opts c pc w))"
    and "hc_header c ''x-polaris-ts'' = Some (int_to_string ts)" "\<bar>ac_now pc' - ts\<bar> \<le> 300000"
    and "\<forall>s. \<not> ac_fails pc' s" "\<forall>k. kv_get (ac_now pc') (aw_key_cache w) k = kv_get (ac_now pc) (aw_key_cache w) k"
  shows "is_next (snd (bridgeHmacAuth P opts c pc' (fst (bridgeHmacAuth P opts c pc w))))"
proof -
  obtain i where i0: "hc_header c ''x-polaris-bridge-id'' = Some i" "ULID_RE i" "submission_ok opts c"
    "case lookupBridgeSecrets pc (bo_allowDisabled opts) i w of
       Inr (BridgeSecretsOk current nxt) \<Rightarrow> used_key P c pc current nxt \<noteq> None | _ \<Rightarrow> False"
    using assms(1) unfolding bridgeHmacAuth_next by blast
  then obtain current nxt where i: "hc_header c ''x-polaris-bridge-id'' = Some i" "ULID_RE i" "submission_ok opts c"
    "lookupBridgeSecrets pc (bo_allowDisabled opts) i w = Inr (BridgeSecretsOk current nxt)" "used_key P c pc current nxt \<noteq> None"
    by (cases "lookupBridgeSecrets pc (bo_allowDisabled opts) i w"; cases "projr (lookupBridgeSecrets pc (bo_allowDisabled opts) i w)") auto
  have w: "lookupBridgeSecrets pc' ad i (fst (bridgeHmacAuth P opts c pc w)) = lookupBridgeSecrets pc' ad i w" for ad
    using bridgeHmacAuth_world [of P opts c pc w] by auto
  have kv: "kv_get (ac_now pc') (aw_key_cache w) = kv_get (ac_now pc) (aw_key_cache w)" using assms(5) by auto
  have l: "lookupBridgeSecrets pc' (bo_allowDisabled opts) i w = Inr (BridgeSecretsOk current nxt)"
    using i(4) assms(4) unfolding lookupBridgeSecrets_def Let_def kv
    by (cases "find (\<lambda>b. br_id b = i) (aw_bridges w)") (simp_all split: if_splits)
  have "\<exists>ts nonce. verify (ap_hmac P) (api_verify_input c pc' secret) = VOk ts nonce"
    if v: "verify (ap_hmac P) (api_verify_input c pc secret) = VOk ts1 nonce" for secret ts1 nonce
  proof -
    have "hc_header c ''x-polaris-ts'' = Some (int_to_string ts1)" using verify_ok_D [OF v] by (auto simp: api_verify_input_def)
    then have "ts1 = ts" using assms(2) js_parseInt_int_to_string by (metis option.inject)
    moreover have "api_verify_input c pc' secret = (api_verify_input c pc secret)\<lparr>vi_now := ac_now pc'\<rparr>"
      by (simp add: api_verify_input_def)
    ultimately show ?thesis
      using verify_other_time [OF v, of "ac_now pc'"] assms(3) by (auto simp: verify_skew_def api_verify_input_def)
  qed
  then have "used_key P c pc' current nxt \<noteq> None" using i(5) unfolding used_key_iff by blast
  then show ?thesis unfolding bridgeHmacAuth_next using i(1-3) l w by simp
qed

lemma bridge_request_replayable_witness:
  "is_next (snd (bridgeHmacAuth demo_ap demo_opts demo_bridge (demo_call 300300)
     (fst (bridgeHmacAuth demo_ap demo_opts demo_bridge (demo_call 0) demo_bridge_world))))"
proof -
  have "is_next (snd (bridgeHmacAuth demo_ap demo_opts demo_bridge (demo_call 0) demo_bridge_world))"
    "hc_header demo_bridge ''x-polaris-ts'' = Some (int_to_string 300)" by code_simp+
  then show ?thesis
    by (rule bridge_request_replayable) (auto simp: demo_call_def demo_bridge_world_def kv_get_def)
qed

end
