(* ===== verification/BearerAuth.thy ===== *)
theory BearerAuth
  imports ApiAuth
begin

text \<open>
  Bearer authentication of mailbox credentials (\<^verbatim>\<open>services/api/src/lib/mailbox-cred-auth.ts\<close>), on top of the
  bearer parser and the credential hashes. The cached row is read back as it was written, since only \<open>loadRow\<close>
  writes under this key.
\<close>

section \<open>The middleware\<close>

record CachedRow =
  cr_id :: string
  cr_mailbox_id :: string
  cr_type :: CredentialType
  cr_prefix :: string
  cr_secret_hash :: string
  cr_secret_prev_hash :: "string option"
  cr_receiver_id :: "string option"
  cr_status :: key_status
  cr_disabled_at :: "string option"
  cr_revoked_at :: "string option"

record MailboxCredentialContext =
  mcc_id :: string
  mcc_mailbox_id :: string
  mcc_type :: CredentialType
  mcc_prefix :: string
  mcc_receiver_id :: "string option"

fun cred_type :: "BearerType \<Rightarrow> CredentialType" where
  "cred_type Rest = Cred_rest"
| "cred_type Mcp = Cred_mcp"
| "cred_type Cli = Cred_cli"

definition mc_row_key :: "string \<Rightarrow> string" where "mc_row_key kid = ''mc:row:'' @ kid"

definition loadRow ::
  "auth_call \<Rightarrow> CachedRow list \<Rightarrow> string \<Rightarrow> CachedRow kv \<Rightarrow> CachedRow kv \<times> CachedRow option outcome" where
  "loadRow pc db kid cache =
     (if ac_fails pc ''get key cache'' then (cache, Threw ''get key cache'')
      else case kv_get (ac_now pc) cache (mc_row_key kid) of
        Some r \<Rightarrow> (cache, Next (Some r))
      | None \<Rightarrow>
          if ac_fails pc ''select mailbox_credentials'' then (cache, Threw ''select mailbox_credentials'')
          else case find (\<lambda>r. cr_id r = kid) db of
            None \<Rightarrow> (cache, Next None)
          | Some r \<Rightarrow>
              if ac_fails pc ''put key cache'' then (cache, Threw ''put key cache'')
              else (kv_put_ttl (ac_now pc) 60 cache (mc_row_key kid) r, Next (Some r)))"

definition bearer_failed :: "http_ctx \<Rightarrow> 'a outcome" where
  "bearer_failed c = Respond (buildError c Unauthorized ''invalid or expired credential'' [])"

text \<open>Lines 92 to 99: the bearer of the header, if it has an acceptable one.\<close>
definition bearer_of :: "BearerType list \<Rightarrow> http_ctx \<Rightarrow> ParsedBearer option" where
  "bearer_of allow c =
     (case hc_header c ''authorization'' of
        None \<Rightarrow> None
      | Some header \<Rightarrow>
          (case index_of (CHR '' '') header of
             None \<Rightarrow> None
           | Some space \<Rightarrow>
               if space = 0 \<or> js_lower (take space header) \<noteq> ''bearer'' then None
               else case parseBearer (Some (drop (space + 1) header)) of
                 None \<Rightarrow> None
               | Some p \<Rightarrow> if pb_type p \<in> set allow then Some p else None))"

text \<open>Lines 112 to 116.\<close>
definition secret_matches :: "cred_env \<Rightarrow> CachedRow \<Rightarrow> string \<Rightarrow> bool" where
  "secret_matches E row candidate =
     (verifyHash E (cr_secret_hash row) candidate \<or>
      (case cr_secret_prev_hash row of None \<Rightarrow> False | Some h \<Rightarrow> verifyHash E h candidate))"

definition bearerAuth ::
  "cred_env \<Rightarrow> BearerType list \<Rightarrow> http_ctx \<Rightarrow> auth_call \<Rightarrow> CachedRow list \<Rightarrow> CachedRow kv \<Rightarrow> CachedRow kv \<times> MailboxCredentialContext outcome" where
  "bearerAuth E allow c pc db cache =
     (case bearer_of allow c of
        None \<Rightarrow> (cache, bearer_failed c)
      | Some parsed \<Rightarrow>
          and_then (loadRow pc db (pb_kid parsed) cache) (\<lambda>cache row.
            case row of
              None \<Rightarrow> (cache, bearer_failed c)
            | Some r \<Rightarrow>
                if cr_type r \<noteq> cred_type (pb_type parsed) then (cache, bearer_failed c)
                else if truthy_opt (cr_disabled_at r) \<or> truthy_opt (cr_revoked_at r) then (cache, bearer_failed c)
                else if cr_status r = Revoked then (cache, bearer_failed c)
                else if \<not> secret_matches E r (pb_secret parsed) then (cache, bearer_failed c)
                else (cache, Next \<lparr> mcc_id = cr_id r, mcc_mailbox_id = cr_mailbox_id r, mcc_type = cr_type r,
                                    mcc_prefix = cr_prefix r, mcc_receiver_id = cr_receiver_id r \<rparr>)))"

section \<open>Properties\<close>

definition live_row :: "CachedRow \<Rightarrow> bool" where
  "live_row r = (\<not> truthy_opt (cr_disabled_at r) \<and> \<not> truthy_opt (cr_revoked_at r) \<and> cr_status r \<noteq> Revoked)"

lemma bearerAuth_Next:
  assumes "bearerAuth E allow c pc db cache = (cache', Next m)"
  obtains p r where "bearer_of allow c = Some p" "loadRow pc db (pb_kid p) cache = (cache', Next (Some r))"
    "cr_type r = cred_type (pb_type p)" "live_row r" "secret_matches E r (pb_secret p)" "mcc_id m = cr_id r"
    "mcc_mailbox_id m = cr_mailbox_id r"
  using assms
  by (auto simp: bearerAuth_def and_then_Next live_row_def bearer_failed_def split: option.splits if_splits)

lemma bearer_header:
  assumes "t \<in> set allow" "hc_header c ''authorization'' = Some (''Bearer '' @ formatBearer t kid secret)"
    and "parseBearer (Some (formatBearer t kid secret)) =
      Some \<lparr> pb_type = t, pb_prefix = prefixForType t, pb_kid = kid, pb_secret = secret \<rparr>"
  shows "bearer_of allow c = Some \<lparr> pb_type = t, pb_prefix = prefixForType t, pb_kid = kid, pb_secret = secret \<rparr>"
proof -
  have "index_of (CHR '' '') (''Bearer '' @ b) = Some 6" for b by simp
  moreover have "js_lower (take 6 (''Bearer '' @ b)) = ''bearer''" "drop (6 + 1) (''Bearer '' @ b) = b" for b
    by (simp_all add: js_lower_def) code_simp
  ultimately show ?thesis using assms unfolding bearer_of_def by simp
qed

text \<open>A credential works from the moment it is issued: a client that presents the bearer minted from a fresh key id and
  a generated secret is authenticated as the mailbox of the stored row, whether the row comes from the cache or the
  database, and it stays so through a planned rotation, while the hash is the previous one of the row.\<close>
theorem issued_bearer_authenticates:
  assumes "cred_env_ok E" "ulid now rnd = Inr kid" "32 \<le> length srnd" "t \<in> set allow"
    and "hc_header c ''authorization'' = Some (''Bearer '' @ formatBearer t kid (generateSecret srnd))"
    and "find (\<lambda>r. cr_id r = kid) db = Some r" "cr_type r = cred_type t" "live_row r"
    and "hashForType E (cred_type t) (generateSecret srnd) = cr_secret_hash r \<or>
         Some (hashForType E (cred_type t) (generateSecret srnd)) = cr_secret_prev_hash r"
    and "kv_get (ac_now pc) cache (mc_row_key kid) \<in> {None, Some r}" "\<forall>s. \<not> ac_fails pc s"
  shows "\<exists>cache'. bearerAuth E allow c pc db cache =
    (cache', Next \<lparr> mcc_id = kid, mcc_mailbox_id = cr_mailbox_id r, mcc_type = cred_type t, mcc_prefix = cr_prefix r,
       mcc_receiver_id = cr_receiver_id r \<rparr>)"
proof -
  have b: "bearer_of allow c = Some \<lparr> pb_type = t, pb_prefix = prefixForType t, pb_kid = kid, pb_secret = generateSecret srnd \<rparr>"
    by (rule bearer_header [OF assms(4,5) minted_bearer_parses [OF assms(2,3)]])
  have "verifyHash E (hashForType E (cred_type t) (generateSecret srnd)) (generateSecret srnd)"
    using issued_credential_verifies [OF assms(1)] by blast
  then have m: "secret_matches E r (generateSecret srnd)"
    using assms(9) by (auto simp: secret_matches_def split: option.splits)
  obtain cache' where "loadRow pc db kid cache = (cache', Next (Some r))"
    using assms(6,10,11) by (auto simp: loadRow_def split: option.splits)
  moreover have "cr_id r = kid" using assms(6) by (auto simp: find_Some_iff)
  ultimately show ?thesis using b m assms(7,8) by (auto simp: bearerAuth_def live_row_def)
qed

definition demo_cred_row :: CachedRow where
  "demo_cred_row = \<lparr> cr_id = replicate 26 (CHR ''0''), cr_mailbox_id = ''m'', cr_type = Cred_rest, cr_prefix = ''pmtk_'',
     cr_secret_hash = hashForType demo_cred Cred_rest (generateSecret (replicate 32 9)), cr_secret_prev_hash = None,
     cr_receiver_id = None, cr_status = Primary, cr_disabled_at = None, cr_revoked_at = None \<rparr>"

definition demo_bearer :: http_ctx where
  "demo_bearer = demo_http\<lparr> hc_header := [''authorization'' \<mapsto>
     ''Bearer '' @ formatBearer Rest (cr_id demo_cred_row) (generateSecret (replicate 32 9))] \<rparr>"

lemma demo_kid_ulid: "ulid 0 [] = Inr (cr_id demo_cred_row)"
proof -
  have "ulid 0 [] = Inr (replicate 26 (CHR ''0''))" by code_simp
  then show ?thesis by (simp add: demo_cred_row_def)
qed

lemma demo_cred_ok: "cred_env_ok demo_cred"
  by (simp add: cred_env_ok_def demo_cred_def starts_with_def)

lemma issued_bearer_authenticates_witness:
  "is_next (snd (bearerAuth demo_cred [Rest] demo_bearer (demo_call 0) [demo_cred_row] Map.empty))"
proof -
  have h: "hc_header demo_bearer ''authorization'' = Some (''Bearer '' @ formatBearer Rest (cr_id demo_cred_row) (generateSecret (replicate 32 9)))"
    by (simp add: demo_bearer_def)
  have r: "cr_type demo_cred_row = cred_type Rest" "live_row demo_cred_row"
    "cr_secret_hash demo_cred_row = hashForType demo_cred (cred_type Rest) (generateSecret (replicate 32 9))"
    by (auto simp only: demo_cred_row_def live_row_def truthy_opt_def CachedRow.simps cred_type.simps option.simps key_status.simps)
  have "\<exists>cache'. bearerAuth demo_cred [Rest] demo_bearer (demo_call 0) [demo_cred_row] Map.empty = (cache',
      Next \<lparr> mcc_id = cr_id demo_cred_row, mcc_mailbox_id = cr_mailbox_id demo_cred_row, mcc_type = cred_type Rest,
        mcc_prefix = cr_prefix demo_cred_row, mcc_receiver_id = cr_receiver_id demo_cred_row \<rparr>)"
  proof (rule issued_bearer_authenticates [OF demo_cred_ok demo_kid_ulid _ _ h _ r(1,2)])
    show "hashForType demo_cred (cred_type Rest) (generateSecret (replicate 32 9)) = cr_secret_hash demo_cred_row \<or>
      Some (hashForType demo_cred (cred_type Rest) (generateSecret (replicate 32 9))) = cr_secret_prev_hash demo_cred_row"
      unfolding r(3) by (rule disjI1) (rule refl)
    show "32 \<le> length (replicate 32 (9 :: byte))" by simp
    show "find (\<lambda>r. cr_id r = cr_id demo_cred_row) [demo_cred_row] = Some demo_cred_row" by simp
    show "kv_get (ac_now (demo_call 0)) Map.empty (mc_row_key (cr_id demo_cred_row)) \<in> {None, Some demo_cred_row}" by (simp add: kv_get_def)
    show "\<forall>s. \<not> ac_fails (demo_call 0) s" by (simp add: demo_call_def)
  qed simp
  then show ?thesis by (metis is_next.simps(1) snd_conv)
qed

text \<open>Requests in the order they are handled, each with the rows the database holds at its time.\<close>
fun bearer_run ::
  "cred_env \<Rightarrow> BearerType list \<Rightarrow> (int \<Rightarrow> CachedRow list) \<Rightarrow> (http_ctx \<times> auth_call) list \<Rightarrow> CachedRow kv \<Rightarrow> MailboxCredentialContext outcome list" where
  "bearer_run E allow db [] cache = []"
| "bearer_run E allow db ((c, pc) # xs) cache =
     (let (cache', x) = bearerAuth E allow c pc (db (ac_now pc)) cache in x # bearer_run E allow db xs cache')"

text \<open>Every cached row was in the database a minute before it expires.\<close>
definition cache_inv :: "(int \<Rightarrow> CachedRow list) \<Rightarrow> CachedRow kv \<Rightarrow> bool" where
  "cache_inv db cache = (\<forall>kid r x. cache (mc_row_key kid) = Some (r, x) \<longrightarrow>
     (\<exists>t. x = Some (t + 60000) \<and> find (\<lambda>r. cr_id r = kid) (db t) = Some r))"

lemma loadRow_inv:
  "cache_inv db cache \<Longrightarrow> loadRow pc (db (ac_now pc)) kid cache = (cache', x) \<Longrightarrow> cache_inv db cache'"
  by (auto simp: loadRow_def cache_inv_def kv_put_ttl_def mc_row_key_def split: if_splits option.splits)

lemma bearerAuth_inv:
  assumes "cache_inv db cache" "bearerAuth E allow c pc (db (ac_now pc)) cache = (cache', x)"
  shows "cache_inv db cache'"
  using assms(2)
  by (auto simp: bearerAuth_def elim!: and_thenE dest!: loadRow_inv [OF assms(1)] split: option.splits if_splits)
    (use assms(1) in simp)

lemma loadRow_recent:
  assumes "cache_inv db cache" "loadRow pc (db (ac_now pc)) kid cache = (cache', Next (Some r))"
  shows "\<exists>t > ac_now pc - 60000. find (\<lambda>r. cr_id r = kid) (db t) = Some r"
proof (cases "kv_get (ac_now pc) cache (mc_row_key kid)")
  case None
  then have "find (\<lambda>r. cr_id r = kid) (db (ac_now pc)) = Some r"
    using assms(2) by (auto simp: loadRow_def split: if_splits option.splits)
  then show ?thesis by (intro exI [of _ "ac_now pc"]) simp
next
  case (Some r')
  then have "r' = r" using assms(2) by (auto simp: loadRow_def split: if_splits)
  obtain v x where v: "cache (mc_row_key kid) = Some (v, x)" using Some by (auto simp: kv_get_def split: option.splits)
  then obtain t where "x = Some (t + 60000)" "find (\<lambda>r. cr_id r = kid) (db t) = Some v"
    using assms(1) unfolding cache_inv_def by blast
  then show ?thesis using Some v \<open>r' = r\<close> by (intro exI [of _ t]) (auto simp: kv_get_def split: if_splits)
qed

text \<open>The outcomes of a refusal: a failing store, or one and the same answer.\<close>
lemma bearerAuth_refusal:
  "\<not> is_next (snd (bearerAuth E allow c pc db cache)) \<Longrightarrow>
     snd (bearerAuth E allow c pc db cache) = bearer_failed c \<or> (\<exists>e. snd (bearerAuth E allow c pc db cache) = Threw e)"
  by (auto simp: bearerAuth_def loadRow_def bearer_failed_def split: option.splits if_splits)

lemma bearer_run_refused:
  assumes "cache_inv db cache" "j < length xs" "xs ! j = (c, pc)" "bearer_of allow c = Some p"
    and "\<forall>t \<ge> t0. \<forall>r. find (\<lambda>r. cr_id r = pb_kid p) (db t) = Some r \<longrightarrow> \<not> live_row r" "t0 + 60000 \<le> ac_now pc"
  shows "bearer_run E allow db xs cache ! j = bearer_failed c \<or> (\<exists>e. bearer_run E allow db xs cache ! j = Threw e)"
  using assms
proof (induction xs arbitrary: cache j)
  case (Cons y xs)
  obtain c1 pc1 where y: "y = (c1, pc1)" by (cases y)
  obtain cache' x where x: "bearerAuth E allow c1 pc1 (db (ac_now pc1)) cache = (cache', x)"
    by (cases "bearerAuth E allow c1 pc1 (db (ac_now pc1)) cache")
  show ?case
  proof (cases j)
    case 0
    then have c: "c = c1" "pc = pc1" using Cons.prems(3) y by auto
    have "\<not> is_next x"
    proof
      assume "is_next x"
      then obtain m where "bearerAuth E allow c pc (db (ac_now pc)) cache = (cache', Next m)" using x c by (auto simp: is_next_iff)
      then obtain r where r: "loadRow pc (db (ac_now pc)) (pb_kid p) cache = (cache', Next (Some r))" "live_row r"
        using Cons.prems(4) by (auto elim!: bearerAuth_Next)
      obtain t where "t > ac_now pc - 60000" "find (\<lambda>r. cr_id r = pb_kid p) (db t) = Some r"
        using loadRow_recent [OF Cons.prems(1) r(1)] by blast
      moreover from this have "t0 \<le> t" using Cons.prems(6) by simp
      ultimately show False using Cons.prems(5) r(2) by blast
    qed
    then show ?thesis using bearerAuth_refusal [of E allow c pc "db (ac_now pc)" cache] 0 c x y by simp
  next
    case (Suc i)
    then show ?thesis using Cons.IH [OF bearerAuth_inv [OF Cons.prems(1) x], of i] Cons.prems x y by simp
  qed
qed simp

text \<open>Revoking, disabling or deleting a mailbox credential takes effect within a minute, whatever requests warm the
  cache in the meantime: from sixty seconds on, every request with its key id is refused, and with the one answer that
  says nothing about the reason (or the request fails because a store does).\<close>
theorem revoked_bearer_refused:
  assumes "j < length xs" "xs ! j = (c, pc)" "bearer_of allow c = Some p"
    and "\<forall>t \<ge> t0. \<forall>r. find (\<lambda>r. cr_id r = pb_kid p) (db t) = Some r \<longrightarrow> \<not> live_row r" "t0 + 60000 \<le> ac_now pc"
  shows "bearer_run E allow db xs Map.empty ! j = bearer_failed c \<or> (\<exists>e. bearer_run E allow db xs Map.empty ! j = Threw e)"
  by (rule bearer_run_refused [OF _ assms]) (simp add: cache_inv_def)

definition demo_cred_rows :: "int \<Rightarrow> CachedRow list" where
  "demo_cred_rows t = [demo_cred_row\<lparr> cr_revoked_at := (if t < 0 then None else Some ''now'') \<rparr>]"

lemma revoked_bearer_refused_witness:
  "bearer_run demo_cred [Rest] demo_cred_rows [(demo_bearer, demo_call (- 1)), (demo_bearer, demo_call 60000)] Map.empty ! 1 = bearer_failed demo_bearer \<or>
   (\<exists>e. bearer_run demo_cred [Rest] demo_cred_rows [(demo_bearer, demo_call (- 1)), (demo_bearer, demo_call 60000)] Map.empty ! 1 = Threw e)"
proof -
  have h: "hc_header demo_bearer ''authorization'' = Some (''Bearer '' @ formatBearer Rest (cr_id demo_cred_row) (generateSecret (replicate 32 9)))"
    by (simp add: demo_bearer_def)
  have b: "bearer_of [Rest] demo_bearer = Some \<lparr> pb_type = Rest, pb_prefix = prefixForType Rest, pb_kid = cr_id demo_cred_row,
      pb_secret = generateSecret (replicate 32 9) \<rparr>"
    by (rule bearer_header [OF _ h minted_bearer_parses [OF demo_kid_ulid]]) simp_all
  show ?thesis
    by (rule revoked_bearer_refused [OF _ _ b, of _ _ "demo_call 60000" 0])
      (auto simp: demo_cred_rows_def live_row_def truthy_opt_def demo_call_def)
qed

end
