(* ===== verification/OutConsumer.thy ===== *)
theory OutConsumer
  imports PolicyEngine Mime
begin

text \<open>
  The outbound queue consumer (\<^verbatim>\<open>services/out/src/index.ts\<close>) with its policy hook
  (\<^verbatim>\<open>services/out/src/lib/policy-dispatch.ts\<close>) and the MIME helpers the hook uses
  (\<^verbatim>\<open>packages/policy-engine/src/mime-helpers.ts\<close>). Messages are delivered to the consumer at least once; every
  database, bucket and queue access may throw, and the mail binding of the platform may throw or report bounces.
  The consumer is cut where another delivery of the same message can interleave: before it claims the message
  and before it calls the binding. The world keeps, besides the tables, the log of the calls of the binding.
\<close>

section \<open>MIME helpers\<close>

text \<open>\<^verbatim>\<open>name in map\<close> also finds what every object inherits; of those names two are in lower case.\<close>
definition inherited :: "string \<Rightarrow> bool" where
  "inherited n = (n = ''constructor'' \<or> n = ''__proto__'')"

definition headersMap :: "ParsedMime \<Rightarrow> string \<Rightarrow> string option" where
  "headersMap p n = (if inherited n then None else getHeader p n)"

definition rawHeadersString :: "ParsedMime \<Rightarrow> string" where
  "rawHeadersString p = js_join [CHR 0x0D, CHR 0x0A] (map (\<lambda>h. h_name h @ '': '' @ h_value h) (pm_headers p))"

definition bodyPreviewOf :: "(bytes \<Rightarrow> string) \<Rightarrow> ParsedMime \<Rightarrow> string" where
  "bodyPreviewOf decode p = take 4000 (decode (pm_body p))"

section \<open>Names\<close>

definition fqdn_label :: "string \<Rightarrow> bool" where
  "fqdn_label l =
     (l \<noteq> [] \<and> length l \<le> 63 \<and> is_alnum (hd l) \<and> is_alnum (last l) \<and> list_all (\<lambda>c. is_alnum c \<or> c = CHR ''-'') l)"

definition isValidFqdn :: "string \<Rightarrow> bool" where
  "isValidFqdn name =
     (1 \<le> length name \<and> length name \<le> 253 \<and> \<not> starts_with ''.'' name \<and> \<not> ends_with ''.'' name \<and>
      \<not> js_includes ''..'' name \<and> 2 \<le> length (js_split (CHR ''.'') name) \<and>
      list_all fqdn_label (js_split (CHR ''.'') name))"

definition bindingNameForDomain :: "string \<Rightarrow> string" where
  "bindingNameForDomain name = ''EMAIL_'' @ map (\<lambda>c. if c = CHR ''.'' then CHR ''_'' else c) (js_upper name)"

section \<open>World\<close>

record OutboundMessage =
  om_messageId :: string
  om_r2KeyOrInline :: string
  om_fromDomain :: string
  om_fromAddress :: string
  om_envelopeTo :: "string list option"
  om_mailboxId :: string
  om_domainId :: "string option"
  om_test :: bool \<comment> \<open>\<^verbatim>\<open>mode === 'test'\<close>\<close>

record out_row =
  or_status :: string
  or_stream_type :: string
  or_last_error :: "string option"
  or_bounce_metadata :: "string option"
  or_sending_at :: "string option"
  or_sent_at :: "string option"
  or_bounced_at :: "string option"
  or_failed_at :: "string option"
  or_policy_decision_id :: "string option"

record DomainRow =
  md_id :: string
  md_name :: string
  md_dmarc_promotion_state :: "string option"

record OutFanoutEvent =
  fe_event_id :: string
  fe_event :: string
  fe_message_id :: string
  fe_mailbox_id :: string
  fe_domain_id :: "string option"
  fe_created_at :: int
  fe_data :: json

record sent_mail =
  sm_messageId :: string
  sm_binding :: string
  sm_from :: string
  sm_to :: "string list"
  sm_raw :: bytes

record decision_row =
  dr_id :: string
  dr_message_id :: string
  dr_stream_type :: StreamType
  dr_decision :: PolicyDecision
  dr_decided_at :: string

record held_row =
  hm_id :: string
  hm_message_id :: string
  hm_stream_type :: StreamType
  hm_decision_id :: string
  hm_raw_mime_r2_key :: string
  hm_hold_reason :: string
  hm_hold_until :: string
  hm_created_at :: string

record out_world =
  ow_messages :: "string \<Rightarrow> out_row option" \<comment> \<open>by primary key\<close>
  ow_r2 :: "string \<Rightarrow> bytes option"
  ow_domains :: "DomainRow list"
  ow_abuse :: "string \<Rightarrow> int option" \<comment> \<open>\<^verbatim>\<open>sender_abuse_profile\<close> of sender addresses\<close>
  ow_db :: policy_db
  ow_config :: "ConfigRow list"
  ow_decisions :: "decision_row list"
  ow_held :: "held_row list"
  ow_events :: "OutFanoutEvent list"
  ow_sent :: "sent_mail list" \<comment> \<open>calls of the mail bindings\<close>

datatype send_result = Send_threw string | Send_result "string list" "string list" "string list"
  \<comment> \<open>delivered, permanent bounces, queued\<close>

text \<open>One delivery of a queue message: the attempt counter, the clock, fresh identifiers, the configured bindings,
  what the binding does, and which accesses fail.\<close>
record out_call =
  oc_attempts :: nat
  oc_now_ms :: int
  oc_now_iso :: string
  oc_hold_until :: string
  oc_ulid :: "nat \<Rightarrow> string"
  oc_rnd :: bytes
  oc_outbound_full :: "string option" \<comment> \<open>\<^verbatim>\<open>POLICY_ENGINE_OUTBOUND_FULL\<close>\<close>
  oc_binding :: "string \<Rightarrow> bool"
  oc_send :: "sent_mail \<Rightarrow> send_result"
  oc_fails :: "string \<Rightarrow> bool"

record out_platform =
  op_decode :: "bytes \<Rightarrow> string"
  op_url_hostname :: "string \<Rightarrow> string option"
  op_date_parse :: "string \<Rightarrow> int option"
  op_json :: "json \<Rightarrow> string"
  op_parse :: "string \<Rightarrow> json option"

text \<open>Statements run one after the other; an exception ends the sequence.\<close>
fun andE :: "'w \<times> (string + 'a) \<Rightarrow> ('w \<Rightarrow> 'a \<Rightarrow> 'w \<times> (string + 'b)) \<Rightarrow> 'w \<times> (string + 'b)" where
  "andE (w, Inl e) f = (w, Inl e)"
| "andE (w, Inr a) f = f w a"

lemma andE_Inr: "andE x f = (w', Inr b) \<longleftrightarrow> (\<exists>w a. x = (w, Inr a) \<and> f w a = (w', Inr b))"
  by (cases x; cases "snd x") auto

lemma andE_cases:
  assumes "andE x f = (w', r)"
  obtains (stop) e where "x = (w', Inl e)" "r = Inl e" | (go) w1 a where "x = (w1, Inr a)" "f w1 a = (w', r)"
  using assms by (cases x; cases "snd x") auto

section \<open>Status and events\<close>

definition stamp :: "string \<Rightarrow> string \<Rightarrow> out_row \<Rightarrow> out_row" where
  "stamp status nowIso r =
     (if status = ''sending'' then r\<lparr>or_sending_at := Some nowIso\<rparr>
      else if status = ''sent'' then r\<lparr>or_sent_at := Some nowIso\<rparr>
      else if status = ''bounced'' then r\<lparr>or_bounced_at := Some nowIso\<rparr>
      else if status = ''failed'' then r\<lparr>or_failed_at := Some nowIso\<rparr>
      else r)"

text \<open>\<open>expected\<close> is the optional list of the compare-and-set; the result says whether a row changed.\<close>
definition setStatus ::
  "out_call \<Rightarrow> string \<Rightarrow> string \<Rightarrow> string option \<Rightarrow> string option \<Rightarrow> string list \<Rightarrow> out_world \<Rightarrow> out_world \<times> (string + bool)" where
  "setStatus c mid status last_error bounce expected w =
     (if oc_fails c (''update '' @ status) then (w, Inl ''update'')
      else case ow_messages w mid of
        None \<Rightarrow> (w, Inr False)
      | Some r \<Rightarrow>
          if expected \<noteq> [] \<and> or_status r \<notin> set expected then (w, Inr False)
          else (w\<lparr>ow_messages := (ow_messages w)(mid \<mapsto> stamp status (oc_now_iso c)
                   (r\<lparr>or_status := status, or_last_error := last_error, or_bounce_metadata := bounce\<rparr>))\<rparr>, Inr True))"

definition loadStatus :: "out_call \<Rightarrow> string \<Rightarrow> out_world \<Rightarrow> string + string option" where
  "loadStatus c mid w =
     (if oc_fails c ''select status'' then Inl ''select status'' else Inr (map_option or_status (ow_messages w mid)))"

definition fanout :: "out_call \<Rightarrow> nat \<Rightarrow> string \<Rightarrow> OutboundMessage \<Rightarrow> string option \<Rightarrow> json \<Rightarrow> out_world \<Rightarrow> out_world \<times> (string + unit)" where
  "fanout c n event msg domainId data w =
     (if oc_fails c ''fanout'' then (w, Inl ''fanout'')
      else (w\<lparr>ow_events := ow_events w @ [\<lparr> fe_event_id = oc_ulid c n, fe_event = event, fe_message_id = om_messageId msg,
               fe_mailbox_id = om_mailboxId msg, fe_domain_id = domainId, fe_created_at = oc_now_ms c, fe_data = data \<rparr>]\<rparr>, Inr ()))"

text \<open>The shape shared by the refusals: a terminal status, then one event.\<close>
definition finish ::
  "out_call \<Rightarrow> OutboundMessage \<Rightarrow> string \<Rightarrow> string option \<Rightarrow> string option \<Rightarrow> string \<Rightarrow> string option \<Rightarrow> json \<Rightarrow> out_world \<Rightarrow> out_world \<times> (string + unit)" where
  "finish c msg status last_error bounce event domainId data w =
     andE (setStatus c (om_messageId msg) status last_error bounce [] w) (\<lambda>w _. fanout c 0 event msg domainId data w)"

section \<open>Policy hook\<close>

definition asStreamType :: "string option \<Rightarrow> StreamType" where
  "asStreamType v = (if v = Some ''marketing'' then Marketing else if v = Some ''agent'' then Agent
     else if v = Some ''inbound'' then Stream_inbound else Transactional)"

definition asPromotionState :: "string option \<Rightarrow> promotion_state option" where
  "asPromotionState v = (case v of None \<Rightarrow> None | Some s \<Rightarrow>
     map_of [(''none'', Ps_none), (''quarantine_ready'', Ps_quarantine_ready), (''quarantine'', Ps_quarantine),
       (''reject_ready'', Ps_reject_ready), (''reject'', Ps_reject), (''paused'', Ps_paused)] s)"

definition isSoakActive :: "out_call \<Rightarrow> bool" where
  "isSoakActive c = (oc_outbound_full c \<noteq> Some ''true'')"

definition loadAbuseTier :: "string \<Rightarrow> out_world \<Rightarrow> int" where
  "loadAbuseTier addr w = (case ow_abuse w (js_lower addr) of None \<Rightarrow> 0 | Some t \<Rightarrow> t)"

definition persistDecision ::
  "out_call \<Rightarrow> OutboundMessage \<Rightarrow> StreamType \<Rightarrow> PolicyDecision \<Rightarrow> out_world \<Rightarrow> out_world \<times> (string + unit)" where
  "persistDecision c msg st d w =
     (if oc_fails c ''insert decision'' then (w, Inl ''insert decision'')
      else let w1 = w\<lparr>ow_decisions := ow_decisions w @ [\<lparr> dr_id = pd_decision_id d, dr_message_id = om_messageId msg,
                 dr_stream_type = st, dr_decision = d, dr_decided_at = oc_now_iso c \<rparr>]\<rparr>
           in if oc_fails c ''update decision id'' then (w1, Inl ''update decision id'')
              else (w1\<lparr>ow_messages := (case ow_messages w1 (om_messageId msg) of
                          None \<Rightarrow> ow_messages w1
                        | Some r \<Rightarrow> (ow_messages w1)(om_messageId msg \<mapsto> r\<lparr>or_policy_decision_id := Some (pd_decision_id d)\<rparr>))\<rparr>, Inr ()))"

definition insertHeldMessage ::
  "out_call \<Rightarrow> OutboundMessage \<Rightarrow> StreamType \<Rightarrow> PolicyDecision \<Rightarrow> out_world \<Rightarrow> out_world \<times> (string + string)" where
  "insertHeldMessage c msg st d w =
     (if oc_fails c ''insert held'' then (w, Inl ''insert held'')
      else (w\<lparr>ow_held := ow_held w @ [\<lparr> hm_id = oc_ulid c 1, hm_message_id = om_messageId msg, hm_stream_type = st,
               hm_decision_id = pd_decision_id d, hm_raw_mime_r2_key = om_r2KeyOrInline msg,
               hm_hold_reason = js_join '','' (take 5 (map (\<lambda>r. hr_code r @ ''='' @ int_to_string (hr_score r)) (pd_reasons d))),
               hm_hold_until = oc_hold_until c, hm_created_at = oc_now_iso c \<rparr>]\<rparr>, Inr (oc_ulid c 1)))"

datatype PolicyAction = Act_continue PolicyDecision | Act_hold PolicyDecision string | Act_block PolicyDecision

text \<open>The two synthetic decisions of the hook, both a hold.\<close>
definition synthetic_hold :: "out_call \<Rightarrow> string \<Rightarrow> PolicyDecision" where
  "synthetic_hold c reason =
     \<lparr> pd_verdict = Hold, pd_total_score = -999, pd_reasons = [\<lparr> hr_code = reason, hr_score = -999 \<rparr>],
       pd_llm = no_llm Binding_absent, pd_decision_id = ''pd_'' @ oc_ulid c 2, pd_band = Band_hold \<rparr>"

definition first_recipient :: "OutboundMessage \<Rightarrow> string" where
  "first_recipient msg = (case om_envelopeTo msg of Some (r # rs) \<Rightarrow> r | _ \<Rightarrow> om_fromAddress msg)"

definition outbound_input ::
  "out_platform \<Rightarrow> out_call \<Rightarrow> OutboundMessage \<Rightarrow> ParsedMime \<Rightarrow> string \<Rightarrow> out_world \<Rightarrow> PolicyInput" where
  "outbound_input P c msg parsed domainId w =
     \<lparr> pi_direction = Outbound,
       pi_stream_type = asStreamType (map_option or_stream_type (ow_messages w (om_messageId msg))),
       pi_sender = \<lparr> sc_mailbox_id = Some (om_mailboxId msg), sc_domain_id = Some domainId, sc_address = om_fromAddress msg,
         sc_abuse_tier = Some (loadAbuseTier (om_fromAddress msg) w),
         sc_dmarc_promotion_state = asPromotionState
           (if domainId = [] then None
            else case find (\<lambda>d. md_id d = domainId) (ow_domains w) of None \<Rightarrow> None | Some d \<Rightarrow> md_dmarc_promotion_state d) \<rparr>,
       pi_receiver = \<lparr> rc_address = first_recipient msg, rc_mailbox_id = None, rc_domain_id = None \<rparr>,
       pi_message = \<lparr> mc_raw_headers = rawHeadersString parsed, mc_headers = headersMap parsed,
         mc_body_preview = bodyPreviewOf (op_decode P) parsed,
         mc_content_types = filter (\<lambda>s. s \<noteq> []) [case headersMap parsed ''content-type'' of None \<Rightarrow> [] | Some v \<Rightarrow> v],
         mc_attachment_filenames = [], mc_in_reply_to = None, mc_html_only = False \<rparr>,
       pi_auth = \<lparr> au_spf = None, au_dkim = None, au_dmarc = None, au_dmarc_policy = None \<rparr>,
       pi_env = \<lparr> pe_url_hostname = op_url_hostname P, pe_date_parse = op_date_parse P, pe_now_ms = oc_now_ms c,
         pe_now_iso = oc_now_iso c, pe_db = ow_db w \<rparr> \<rparr>"

text \<open>No model binding and a store that holds nothing.\<close>
definition outbound_llm :: "out_platform \<Rightarrow> out_call \<Rightarrow> llm_env" where
  "outbound_llm P c = \<lparr> le_ai = None, le_model = None, le_daily_budget = None, le_timeout_ms = None, le_today = [],
     le_now_ms = oc_now_ms c, le_json_parse = op_parse P, le_json_string = (\<lambda>s. op_json P (JStr s)) \<rparr>"

definition soaked :: "out_call \<Rightarrow> PolicyDecision \<Rightarrow> PolicyDecision" where
  "soaked c d = (if isSoakActive c \<and> pd_verdict d \<noteq> Pass \<and> pd_verdict d \<noteq> Pass_warn then d\<lparr>pd_verdict := Pass_warn\<rparr> else d)"

text \<open>Lines 284 to 315.\<close>
definition dispatch_decision ::
  "out_call \<Rightarrow> OutboundMessage \<Rightarrow> StreamType \<Rightarrow> PolicyDecision \<Rightarrow> out_world \<Rightarrow> out_world \<times> (string + PolicyAction)" where
  "dispatch_decision c msg st d w =
     andE (persistDecision c msg st d w) (\<lambda>w _.
       let eff = soaked c d in
       case lookupOutcome Outbound st (pd_verdict eff) of
         None \<Rightarrow> (w, Inl ''no dispatch entry'')
       | Some spec \<Rightarrow>
           if os_outcome spec \<in> {Send, Send_with_warning, Send_with_caller_warning} then (w, Inr (Act_continue eff))
           else if os_outcome spec = Bounce_with_reasons then (w, Inr (Act_block eff))
           else andE (insertHeldMessage c msg st eff w) (\<lambda>w hid. (w, Inr (Act_hold eff hid))))"

definition evaluateOutboundPolicy ::
  "out_platform \<Rightarrow> out_call \<Rightarrow> OutboundMessage \<Rightarrow> bytes \<Rightarrow> string \<Rightarrow> out_world \<Rightarrow> out_world \<times> (string + PolicyAction)" where
  "evaluateOutboundPolicy P c msg raw domainId w =
     (case parseStrict (op_decode P) raw of
        Inl _ \<Rightarrow>
          (let d = synthetic_hold c ''mime_parse_error'' in
           andE (persistDecision c msg Transactional d w) (\<lambda>w _.
           andE (insertHeldMessage c msg Transactional d w) (\<lambda>w hid. (w, Inr (Act_hold d hid)))))
      | Inr parsed \<Rightarrow>
          if oc_fails c ''select policy context'' then (w, Inl ''select policy context'')
          else let inp = outbound_input P c msg parsed domainId w;
                   d = (if oc_fails c ''engine'' then synthetic_hold c ''engine_error''
                        else fst (evaluatePolicy (outbound_llm P c) None (ow_config w) (oc_rnd c) inp Map.empty))
               in dispatch_decision c msg (pi_stream_type inp) d w)"

section \<open>The consumer\<close>

definition MAX_DELIVERY_ATTEMPTS :: nat where "MAX_DELIVERY_ATTEMPTS = 5"
definition MAX_MESSAGE_SIZE_VERIFIED :: nat where "MAX_MESSAGE_SIZE_VERIFIED = 25 * 1024 * 1024"

text \<open>What the first part of \<open>handleOne\<close> leaves to do: nothing, or a send.\<close>
record send_plan =
  sp_domainId :: string
  sp_mail :: sent_mail

definition rawRecipients :: "OutboundMessage \<Rightarrow> string list" where
  "rawRecipients msg = (case om_envelopeTo msg of Some (r # rs) \<Rightarrow> r # rs | _ \<Rightarrow> [om_fromAddress msg])"

definition enforcementCtx :: "OutboundMessage \<Rightarrow> string \<Rightarrow> EnforcementContext" where
  "enforcementCtx msg domainId =
     \<lparr> ec_senderAddress = Some (om_fromAddress msg), ec_senderAddressId = None, ec_mailboxId = Some (om_mailboxId msg),
       ec_domainId = Some domainId \<rparr>"

definition host_of :: "out_platform \<Rightarrow> string \<Rightarrow> string option" where
  "host_of P d = op_url_hostname P (''http://'' @ d)"

definition recipient_hit :: "out_platform \<Rightarrow> out_call \<Rightarrow> OutboundMessage \<Rightarrow> string \<Rightarrow> out_world \<Rightarrow> string \<Rightarrow> SuppressionRecord option" where
  "recipient_hit P c msg domainId w r =
     checkRecipientSuppression (host_of P) (op_date_parse P) (db_suppressions (ow_db w)) r (enforcementCtx msg domainId) (oc_now_ms c)"

definition sender_hit :: "out_platform \<Rightarrow> out_call \<Rightarrow> OutboundMessage \<Rightarrow> string \<Rightarrow> out_world \<Rightarrow> SuppressionRecord option" where
  "sender_hit P c msg domainId w =
     checkSenderSuppression (host_of P) (op_date_parse P) (db_suppressions (ow_db w)) (enforcementCtx msg domainId) (oc_now_ms c)"

primrec reason_str :: "Reason \<Rightarrow> string" where
  "reason_str Hard_bounce = ''hard_bounce''"
| "reason_str Spam_complaint = ''spam_complaint''"
| "reason_str Unsubscribe = ''unsubscribe''"
| "reason_str Manual = ''manual''"
| "reason_str Arf_complaint = ''arf_complaint''"
| "reason_str Phishing_report = ''phishing_report''"
| "reason_str Sender_abuse_threshold = ''sender_abuse_threshold''"
| "reason_str Role_account = ''role_account''"
| "reason_str Invalid = ''invalid''"

primrec scope_str :: "Scope \<Rightarrow> string" where
  "scope_str Global = ''global''"
| "scope_str Domain = ''domain''"
| "scope_str Mailbox = ''mailbox''"
| "scope_str Sender_address = ''sender_address''"

definition hit_json :: "SuppressionRecord \<Rightarrow> (string \<times> json) list" where
  "hit_json h = [(''suppression_id'', JStr (sr_id h)), (''reason'', JStr (reason_str (sr_reason h))),
     (''severity'', JStr (severity_str (sr_severity h))), (''scope'', JStr (scope_str (sr_scope h)))]"

text \<open>The evidence texts of the reasons are not part of the model.\<close>
definition reasons_json :: "HeuristicReason list \<Rightarrow> json" where
  "reasons_json rs = JArr (map (\<lambda>r. JObj [(''reason_code'', JStr (hr_code r)), (''score'', JNum (of_int (hr_score r)))]) rs)"

definition dropped_json :: "out_platform \<Rightarrow> out_call \<Rightarrow> OutboundMessage \<Rightarrow> string \<Rightarrow> out_world \<Rightarrow> json" where
  "dropped_json P c msg domainId w =
     JArr (List.map_filter (\<lambda>r. map_option (\<lambda>h. JObj [(''address'', JStr r), (''reason'', JStr (reason_str (sr_reason h))),
         (''suppression_id'', JStr (sr_id h))])
       (recipient_hit P c msg domainId w r)) (rawRecipients msg))"

text \<open>Lines 415 to 459: the policy verdict.\<close>
definition policy_gate ::
  "out_platform \<Rightarrow> out_call \<Rightarrow> OutboundMessage \<Rightarrow> bytes \<Rightarrow> string \<Rightarrow> string \<Rightarrow> string list \<Rightarrow> out_world \<Rightarrow> out_world \<times> (string + send_plan option)" where
  "policy_gate P c msg raw domainId bindingName recipients w =
     andE (evaluateOutboundPolicy P c msg raw domainId w) (\<lambda>w act.
       case act of
         Act_block d \<Rightarrow>
           andE (finish c msg ''failed'' (Some (''policy_block:'' @ int_to_string (pd_total_score d)))
                  (Some (op_json P (JObj [(''policy_block'', JObj [(''decision_id'', JStr (pd_decision_id d)),
                     (''score'', JNum (of_int (pd_total_score d))), (''reasons'', reasons_json (pd_reasons d))])])))
                  ''message.bounced'' (Some domainId)
                  (JObj [(''reason'', JStr ''policy_block''), (''decision_id'', JStr (pd_decision_id d)),
                     (''score'', JNum (of_int (pd_total_score d))), (''top_reasons'', reasons_json (take 5 (pd_reasons d)))]) w)
                (\<lambda>w _. (w, Inr None))
       | Act_hold d hid \<Rightarrow>
           andE (setStatus c (om_messageId msg) ''held'' (Some (''policy_hold:'' @ int_to_string (pd_total_score d)))
                  (Some (op_json P (JObj [(''policy_hold'', JObj [(''decision_id'', JStr (pd_decision_id d)), (''hold_id'', JStr hid),
                     (''score'', JNum (of_int (pd_total_score d))), (''reasons'', reasons_json (pd_reasons d))])]))) [] w)
                (\<lambda>w _. (w, Inr None))
       | Act_continue d \<Rightarrow>
           (w, Inr (Some \<lparr> sp_domainId = domainId,
              sp_mail = \<lparr> sm_messageId = om_messageId msg, sm_binding = bindingName, sm_from = om_fromAddress msg,
                          sm_to = recipients, sm_raw = raw \<rparr> \<rparr>)))"

text \<open>Lines 309 to 408: suppressed senders and recipients, then the policy.\<close>
definition suppression_gate ::
  "out_platform \<Rightarrow> out_call \<Rightarrow> OutboundMessage \<Rightarrow> bytes \<Rightarrow> string \<Rightarrow> string \<Rightarrow> out_world \<Rightarrow> out_world \<times> (string + send_plan option)" where
  "suppression_gate P c msg raw domainId bindingName w =
     (if oc_fails c ''select suppressions'' then (w, Inl ''select suppressions'')
      else case sender_hit P c msg domainId w of
        Some h \<Rightarrow>
          andE (finish c msg ''failed'' (Some (''sender_suppressed:'' @ reason_str (sr_reason h)))
                 (Some (op_json P (JObj [(''suppressed_sender'', JObj (hit_json h @
                    [(''scope_target'', case sr_scope_target h of None \<Rightarrow> JNull | Some t \<Rightarrow> JStr t)]))])))
                 ''message.sender_suppressed'' (Some domainId) (JObj (hit_json h)) w)
               (\<lambda>w _. (w, Inr None))
      | None \<Rightarrow>
          (let survivingRecipients = filter (\<lambda>r. recipient_hit P c msg domainId w r = None) (rawRecipients msg);
               dropped = dropped_json P c msg domainId w
           in andE (if length survivingRecipients < length (rawRecipients msg)
                    then fanout c 3 ''message.suppressed'' msg (Some domainId)
                           (JObj [(''dropped'', dropped), (''kept'', JArr (map JStr survivingRecipients))]) w
                    else (w, Inr ()))
                   (\<lambda>w _.
                      if survivingRecipients = []
                      then andE (finish c msg ''bounced'' (Some ''all_recipients_suppressed'')
                                   (Some (op_json P (JObj [(''suppressed_recipients'', dropped)]))) ''message.bounced'' (Some domainId)
                                   (JObj [(''reason'', JStr ''all_recipients_suppressed''), (''dropped'', dropped)]) w)
                                (\<lambda>w _. (w, Inr None))
                      else policy_gate P c msg raw domainId bindingName survivingRecipients w)))"

definition refuse ::
  "out_call \<Rightarrow> OutboundMessage \<Rightarrow> string \<Rightarrow> string option \<Rightarrow> json \<Rightarrow> out_world \<Rightarrow> out_world \<times> (string + send_plan option)" where
  "refuse c msg err domainId data w =
     andE (finish c msg ''failed'' (Some err) None ''message.failed'' domainId data w) (\<lambda>w _. (w, Inr None))"

text \<open>Lines 184 to 459: everything before the claim.\<close>
definition out_prepare :: "out_platform \<Rightarrow> out_call \<Rightarrow> OutboundMessage \<Rightarrow> out_world \<Rightarrow> out_world \<times> (string + send_plan option)" where
  "out_prepare P c msg w =
     (case loadStatus c (om_messageId msg) w of
        Inl e \<Rightarrow> (w, Inl e)
      | Inr preStatus \<Rightarrow>
          if preStatus \<noteq> None \<and> preStatus \<noteq> Some [] \<and> preStatus \<noteq> Some ''queued'' then (w, Inr None)
          else if oc_fails c ''r2 get'' then (w, Inl ''r2 get'')
          else case ow_r2 w (om_r2KeyOrInline msg) of
            None \<Rightarrow> refuse c msg ''r2_body_missing'' (om_domainId msg)
                      (JObj [(''reason'', JStr ''r2_body_missing''), (''r2_key'', JStr (om_r2KeyOrInline msg))]) w
          | Some raw \<Rightarrow>
              if \<not> isValidFqdn (om_fromDomain msg)
              then refuse c msg (take 256 (''invalid_from_domain: '' @ om_fromDomain msg)) (om_domainId msg)
                     (JObj [(''reason'', JStr ''invalid_from_domain''), (''from_domain'', JStr (om_fromDomain msg))]) w
              else if oc_fails c ''select domain'' then (w, Inl ''select domain'')
              else case find (\<lambda>d. md_name d = om_fromDomain msg) (ow_domains w) of
                None \<Rightarrow> refuse c msg ''no_domain_row'' (om_domainId msg)
                          (JObj [(''reason'', JStr ''no_domain_row''), (''from_domain'', JStr (om_fromDomain msg))]) w
              | Some d \<Rightarrow>
                  (let bindingName = bindingNameForDomain (md_name d) in
                   if om_test msg
                   then andE (finish c msg ''sent'' None None ''message.sent'' (Some (md_id d)) (JObj [(''test'', JBool True)]) w)
                          (\<lambda>w _. (w, Inr None))
                   else if \<not> oc_binding c bindingName
                   then refuse c msg (''binding '' @ bindingName @ '' not configured'') (Some (md_id d))
                          (JObj [(''reason'', JStr ''no_binding''), (''binding'', JStr bindingName)]) w
                   else if length raw > MAX_MESSAGE_SIZE_VERIFIED
                   then refuse c msg (''message_too_large:'' @ nat_to_radix 10 (length raw)) (Some (md_id d))
                          (JObj [(''reason'', JStr ''message_too_large''), (''bytes'', JNum (of_nat (length raw))),
                                 (''cap'', JNum (of_nat MAX_MESSAGE_SIZE_VERIFIED))]) w
                   else suppression_gate P c msg raw (md_id d) bindingName w))"

text \<open>Line 466: the claim.\<close>
definition out_enter :: "out_call \<Rightarrow> OutboundMessage \<Rightarrow> out_world \<Rightarrow> out_world \<times> (string + bool)" where
  "out_enter c msg w = setStatus c (om_messageId msg) ''sending'' None None [''queued'', ''sending''] w"

definition strs :: "string list \<Rightarrow> json" where "strs xs = JArr (map JStr xs)"

text \<open>Lines 469 to 517: the body of the \<^verbatim>\<open>try\<close>.\<close>
definition send_body :: "out_platform \<Rightarrow> out_call \<Rightarrow> OutboundMessage \<Rightarrow> send_plan \<Rightarrow> out_world \<Rightarrow> out_world \<times> (string + unit)" where
  "send_body P c msg plan w =
     (let w1 = w\<lparr>ow_sent := ow_sent w @ [sp_mail plan]\<rparr> in
      case oc_send c (sp_mail plan) of
        Send_threw e \<Rightarrow> (w1, Inl e)
      | Send_result delivered bounces queued \<Rightarrow>
          if bounces \<noteq> []
          then andE (setStatus c (om_messageId msg) ''bounced'' (Some ''permanent_bounce'')
                       (Some (op_json P (JObj [(''permanent_bounces'', strs bounces)]))) [''sending''] w1)
                 (\<lambda>w changed. if \<not> changed then (w, Inr ())
                    else fanout c 0 ''message.bounced'' msg (Some (sp_domainId plan)) (JObj [(''permanent_bounces'', strs bounces)]) w)
          else andE (setStatus c (om_messageId msg) ''sent'' None None [''sending''] w1)
                 (\<lambda>w changed. if \<not> changed then (w, Inr ())
                    else fanout c 0 ''message.sent'' msg (Some (sp_domainId plan))
                           (JObj [(''delivered'', strs delivered), (''queued'', strs queued)]) w))"

text \<open>Lines 468 to 538.\<close>
definition out_send :: "out_platform \<Rightarrow> out_call \<Rightarrow> OutboundMessage \<Rightarrow> send_plan \<Rightarrow> out_world \<Rightarrow> out_world \<times> (string + unit)" where
  "out_send P c msg plan w =
     (case send_body P c msg plan w of
        (w1, Inr u) \<Rightarrow> (w1, Inr u)
      | (w1, Inl e) \<Rightarrow>
          if oc_attempts c \<ge> MAX_DELIVERY_ATTEMPTS
          then andE (setStatus c (om_messageId msg) ''failed'' (Some (take 256 e)) None [] w1)
                 (\<lambda>w _. fanout c 4 ''message.failed'' msg (Some (sp_domainId plan))
                    (JObj [(''reason'', JStr (take 256 e)), (''attempts'', JNum (of_nat (oc_attempts c)))]) w)
          else (w1, Inl e))"

definition handleOne :: "out_platform \<Rightarrow> out_call \<Rightarrow> OutboundMessage \<Rightarrow> out_world \<Rightarrow> out_world \<times> (string + unit)" where
  "handleOne P c msg w =
     andE (out_prepare P c msg w) (\<lambda>w plan.
       case plan of
         None \<Rightarrow> (w, Inr ())
       | Some p \<Rightarrow> andE (out_enter c msg w) (\<lambda>w changed. if \<not> changed then (w, Inr ()) else out_send P c msg p w))"

text \<open>One message of a batch (lines 138 to 173): whether it was acknowledged.\<close>
definition queue_one :: "out_platform \<Rightarrow> out_call \<Rightarrow> OutboundMessage \<Rightarrow> out_world \<Rightarrow> out_world \<times> bool" where
  "queue_one P c msg w =
     (case handleOne P c msg w of
        (w1, Inr _) \<Rightarrow> (w1, True)
      | (w1, Inl err) \<Rightarrow>
          (case loadStatus c (om_messageId msg) w1 of
             Inl _ \<Rightarrow> (w1, False)
           | Inr cur \<Rightarrow>
               if cur = Some ''sending'' \<or> cur = Some ''queued''
               then (fst (setStatus c (om_messageId msg) ''failed'' (Some (take 256 (''uncaught: '' @ err))) None [] w1), False)
               else (w1, False)))"

section \<open>What the phases touch\<close>

definition st :: "out_world \<Rightarrow> string \<Rightarrow> string option" where
  "st w m = map_option or_status (ow_messages w m)"

definition settled :: "string set" where
  "settled = {''sent'', ''bounced'', ''failed'', ''held''}"

text \<open>A phase that calls no binding and at most settles the message it is about.\<close>
definition quiet :: "string \<Rightarrow> out_world \<Rightarrow> out_world \<Rightarrow> bool" where
  "quiet mid w w' \<longleftrightarrow> ow_sent w' = ow_sent w \<and> (\<forall>m. m \<noteq> mid \<longrightarrow> st w' m = st w m) \<and>
     (st w' mid = st w mid \<or> (\<exists>s \<in> settled. st w mid \<noteq> None \<and> st w' mid = Some s))"

lemma quiet_refl [simp, intro]: "quiet mid w w"
  by (simp add: quiet_def)

lemma quiet_trans [trans]: "quiet mid w w1 \<Longrightarrow> quiet mid w1 w2 \<Longrightarrow> quiet mid w w2"
  unfolding quiet_def by metis

lemma andE_quiet:
  assumes "andE x f = (w', r)" "quiet mid w (fst x)" "\<And>w1 a w2 r. f w1 a = (w2, r) \<Longrightarrow> quiet mid w1 w2"
  shows "quiet mid w w'"
  using assms(1)
proof (cases rule: andE_cases)
  case (go w1 a)
  then show ?thesis using assms(2) assms(3) [OF go(2)] quiet_trans by fastforce
qed (use assms(2) in simp)

lemma or_status_stamp [simp]: "or_status (stamp s t r) = or_status r"
  by (simp add: stamp_def)

lemma st_update: "st (w\<lparr>ow_messages := (ow_messages w)(m \<mapsto> r)\<rparr>) = (st w)(m \<mapsto> or_status r)"
  by (auto simp: st_def fun_eq_iff)

lemma st_others [simp]:
  "st (w\<lparr>ow_events := e\<rparr>) = st w" "st (w\<lparr>ow_sent := l\<rparr>) = st w" "st (w\<lparr>ow_held := h\<rparr>) = st w" "st (w\<lparr>ow_decisions := d\<rparr>) = st w"
  by (auto simp: st_def)

lemma setStatus_cases:
  assumes "setStatus c mid s le b ex w = (w', r)"
  obtains (same) "w' = w" "r \<noteq> Inr True"
    | (changed) q where "r = Inr True" "st w mid = Some q" "ex = [] \<or> q \<in> set ex" "st w' = (st w)(mid \<mapsto> s)"
        "ow_sent w' = ow_sent w" "ow_events w' = ow_events w"
proof (cases "ow_messages w mid")
  case None
  then show ?thesis using assms same by (auto simp: setStatus_def split: if_splits)
next
  case (Some q)
  then have "st w mid = Some (or_status q)" by (simp add: st_def)
  then show ?thesis using assms Some same changed by (auto simp: setStatus_def st_update split: if_splits)
qed

lemma setStatus_quiet:
  assumes "setStatus c mid s le b ex w = (w', r)" "s \<in> settled"
  shows "quiet mid w w'"
  using assms(1) by (cases rule: setStatus_cases) (use assms(2) in \<open>auto simp: quiet_def\<close>)

lemma fanout_quiet: "fanout c n e msg d j w = (w', r) \<Longrightarrow> quiet mid w w'"
  by (auto simp: fanout_def quiet_def split: if_splits)

lemma finish_quiet:
  assumes "finish c msg s le b e d j w = (w', r)" "s \<in> settled"
  shows "quiet (om_messageId msg) w w'"
  using assms(1) unfolding finish_def
  by (rule andE_quiet) (metis assms(2) prod.collapse setStatus_quiet, rule fanout_quiet)

lemma persistDecision_st: "persistDecision c msg t d w = (w', r) \<Longrightarrow> st w' = st w \<and> ow_sent w' = ow_sent w"
  by (auto simp: persistDecision_def Let_def st_def fun_eq_iff split: if_splits option.splits)

lemma insertHeldMessage_st: "insertHeldMessage c msg t d w = (w', r) \<Longrightarrow> st w' = st w \<and> ow_sent w' = ow_sent w"
  by (auto simp: insertHeldMessage_def split: if_splits)

lemma dispatch_decision_st: "dispatch_decision c msg t d w = (w', r) \<Longrightarrow> st w' = st w \<and> ow_sent w' = ow_sent w"
  unfolding dispatch_decision_def
  by (auto elim!: andE_cases dest!: persistDecision_st insertHeldMessage_st simp: Let_def split: option.splits if_splits)

lemma evaluateOutboundPolicy_st: "evaluateOutboundPolicy P c msg raw d w = (w', r) \<Longrightarrow> st w' = st w \<and> ow_sent w' = ow_sent w"
  unfolding evaluateOutboundPolicy_def
  by (auto elim!: andE_cases dest!: persistDecision_st insertHeldMessage_st dispatch_decision_st simp: Let_def split: sum.splits if_splits)

lemma policy_gate_quiet:
  assumes "policy_gate P c msg raw d b rs w = (w', r)"
  shows "quiet (om_messageId msg) w w'"
  using assms unfolding policy_gate_def
proof (rule andE_quiet)
  show "quiet (om_messageId msg) w (fst (evaluateOutboundPolicy P c msg raw d w))"
    using evaluateOutboundPolicy_st [of P c msg raw d w] unfolding quiet_def by (metis prod.collapse)
qed (auto elim!: andE_cases dest!: finish_quiet setStatus_quiet simp: settled_def split: PolicyAction.splits)

lemma suppression_gate_quiet:
  assumes "suppression_gate P c msg raw d b w = (w', r)"
  shows "quiet (om_messageId msg) w w'"
proof (cases "oc_fails c ''select suppressions'' \<or> sender_hit P c msg d w \<noteq> None")
  case True
  then show ?thesis
    using assms unfolding suppression_gate_def
    by (auto elim!: andE_cases dest!: finish_quiet simp: settled_def split: if_splits)
next
  case False
  then show ?thesis
    using assms unfolding suppression_gate_def Let_def
    by (auto elim!: andE_cases dest!: finish_quiet policy_gate_quiet fanout_quiet [where mid = "om_messageId msg"]
        intro: quiet_trans simp: settled_def split: if_splits)
qed

lemma refuse_quiet: "refuse c msg e d j w = (w', r) \<Longrightarrow> quiet (om_messageId msg) w w'"
  unfolding refuse_def by (auto elim!: andE_cases dest!: finish_quiet simp: settled_def)

definition claimable :: "out_world \<Rightarrow> string \<Rightarrow> bool" where
  "claimable w mid \<longleftrightarrow> st w mid \<in> {None, Some [], Some ''queued''}"

lemma out_prepare_skip: "\<not> claimable w (om_messageId msg) \<Longrightarrow> fst (out_prepare P c msg w) = w"
  by (auto simp: out_prepare_def loadStatus_def claimable_def st_def)

lemma out_prepare_quiet:
  assumes "out_prepare P c msg w = (w', r)"
  shows "quiet (om_messageId msg) w w'"
  using assms unfolding out_prepare_def
  by (auto elim!: andE_cases dest!: refuse_quiet finish_quiet suppression_gate_quiet simp: Let_def settled_def
      split: sum.splits option.splits if_splits)

section \<open>What a planned send has passed\<close>

lemma dispatch_continue:
  assumes "dispatch_decision c msg t d w = (w', Inr (Act_continue e))"
  shows "pd_verdict (soaked c d) \<in> {Pass, Pass_warn}"
proof -
  have "os_outcome spec \<in> {Send, Send_with_warning, Send_with_caller_warning} \<longrightarrow> v \<in> {Pass, Pass_warn}"
    if "lookupOutcome Outbound t v = Some spec" for spec v
    using that by (cases t; cases v) (auto simp: lookupOutcome_def TABLE_def ENTRY_def)
  then show ?thesis
    using assms unfolding dispatch_decision_def
    by (auto simp: andE_Inr Let_def split: option.splits if_splits)
qed

lemma soaked_pass: "pd_verdict (soaked c d) \<in> {Pass, Pass_warn} \<longleftrightarrow> isSoakActive c \<or> pd_verdict d \<in> {Pass, Pass_warn}"
  by (cases "pd_verdict d") (auto simp: soaked_def)

text \<open>The verdict of the engine on this message.\<close>
definition engine_passes :: "out_platform \<Rightarrow> out_call \<Rightarrow> OutboundMessage \<Rightarrow> bytes \<Rightarrow> string \<Rightarrow> out_world \<Rightarrow> bool" where
  "engine_passes P c msg raw d w \<longleftrightarrow>
     (case parseStrict (op_decode P) raw of
        Inl _ \<Rightarrow> False
      | Inr parsed \<Rightarrow> isSoakActive c \<or>
          \<not> oc_fails c ''engine'' \<and>
          pd_verdict (fst (evaluatePolicy (outbound_llm P c) None (ow_config w) (oc_rnd c) (outbound_input P c msg parsed d w) Map.empty))
            \<in> {Pass, Pass_warn})"

lemma evaluateOutboundPolicy_continue:
  assumes "evaluateOutboundPolicy P c msg raw d w = (w', Inr (Act_continue e))"
  shows "engine_passes P c msg raw d w"
proof (cases "parseStrict (op_decode P) raw")
  case (Inl x)
  then show ?thesis using assms by (auto simp: evaluateOutboundPolicy_def andE_Inr Let_def)
next
  case (Inr parsed)
  then have "pd_verdict (soaked c (if oc_fails c ''engine'' then synthetic_hold c ''engine_error''
      else fst (evaluatePolicy (outbound_llm P c) None (ow_config w) (oc_rnd c) (outbound_input P c msg parsed d w) Map.empty))) \<in> {Pass, Pass_warn}"
    using assms by (auto simp: evaluateOutboundPolicy_def Let_def split: if_splits dest!: dispatch_continue)
  then show ?thesis
    unfolding soaked_pass by (auto simp: engine_passes_def Inr synthetic_hold_def split: if_splits)
qed

lemma engine_passes_events [simp]: "engine_passes P c msg raw d (w\<lparr>ow_events := e\<rparr>) = engine_passes P c msg raw d w"
  by (simp add: engine_passes_def outbound_input_def loadAbuseTier_def split: sum.split)

definition surviving :: "out_platform \<Rightarrow> out_call \<Rightarrow> OutboundMessage \<Rightarrow> string \<Rightarrow> out_world \<Rightarrow> string list" where
  "surviving P c msg d w = filter (\<lambda>r. recipient_hit P c msg d w r = None) (rawRecipients msg)"

text \<open>What the consumer has established when it is about to send.\<close>
definition cleared :: "out_platform \<Rightarrow> out_call \<Rightarrow> OutboundMessage \<Rightarrow> out_world \<Rightarrow> send_plan \<Rightarrow> bool" where
  "cleared P c msg w p \<longleftrightarrow>
     (\<exists>d raw. isValidFqdn (om_fromDomain msg) \<and> find (\<lambda>d. md_name d = om_fromDomain msg) (ow_domains w) = Some d \<and>
        ow_r2 w (om_r2KeyOrInline msg) = Some raw \<and> length raw \<le> MAX_MESSAGE_SIZE_VERIFIED \<and> \<not> om_test msg \<and>
        sender_hit P c msg (md_id d) w = None \<and> surviving P c msg (md_id d) w \<noteq> [] \<and> engine_passes P c msg raw (md_id d) w \<and>
        p = \<lparr> sp_domainId = md_id d,
              sp_mail = \<lparr> sm_messageId = om_messageId msg, sm_binding = bindingNameForDomain (om_fromDomain msg),
                sm_from = om_fromAddress msg, sm_to = surviving P c msg (md_id d) w, sm_raw = raw \<rparr> \<rparr>)"

lemma policy_gate_Some:
  assumes "policy_gate P c msg raw d b rs w = (w', Inr (Some p))"
  shows "st w' = st w \<and> ow_sent w' = ow_sent w \<and> engine_passes P c msg raw d w \<and>
    p = \<lparr> sp_domainId = d, sp_mail = \<lparr> sm_messageId = om_messageId msg, sm_binding = b, sm_from = om_fromAddress msg, sm_to = rs, sm_raw = raw \<rparr> \<rparr>"
proof -
  obtain w1 act where e: "evaluateOutboundPolicy P c msg raw d w = (w1, Inr act)"
    using assms unfolding policy_gate_def andE_Inr by blast
  show ?thesis
  proof (cases act)
    case (Act_continue x)
    then show ?thesis
      using assms e evaluateOutboundPolicy_st [OF e] evaluateOutboundPolicy_continue [OF e [unfolded Act_continue]]
      by (auto simp: policy_gate_def)
  qed (use assms e in \<open>auto simp: policy_gate_def andE_Inr\<close>)
qed

lemma suppression_gate_Some:
  assumes "suppression_gate P c msg raw d b w = (w', Inr (Some p))"
  shows "st w' = st w \<and> ow_sent w' = ow_sent w \<and> sender_hit P c msg d w = None \<and> surviving P c msg d w \<noteq> [] \<and> engine_passes P c msg raw d w \<and>
    p = \<lparr> sp_domainId = d, sp_mail = \<lparr> sm_messageId = om_messageId msg, sm_binding = b, sm_from = om_fromAddress msg,
      sm_to = surviving P c msg d w, sm_raw = raw \<rparr> \<rparr>"
proof -
  have s: "sender_hit P c msg d w = None" "\<not> oc_fails c ''select suppressions''"
    using assms by (auto simp: suppression_gate_def andE_Inr split: if_splits option.splits)
  then obtain w1 where w1: "w1 = w \<or> (\<exists>e. w1 = w\<lparr>ow_events := e\<rparr>)" "surviving P c msg d w \<noteq> []"
    "policy_gate P c msg raw d b (surviving P c msg d w) w1 = (w', Inr (Some p))"
    using assms by (auto simp: suppression_gate_def andE_Inr Let_def fanout_def surviving_def split: if_splits)
  then show ?thesis using policy_gate_Some [OF w1(3)] s by auto
qed

lemma out_prepare_Some:
  assumes "out_prepare P c msg w = (w', Inr (Some p))"
  shows "claimable w (om_messageId msg) \<and> st w' = st w \<and> ow_sent w' = ow_sent w \<and> cleared P c msg w p"
proof -
  have c: "claimable w (om_messageId msg)"
    using assms by (auto simp: out_prepare_def loadStatus_def claimable_def st_def split: if_splits)
  obtain raw d where d: "ow_r2 w (om_r2KeyOrInline msg) = Some raw" "isValidFqdn (om_fromDomain msg)"
    "find (\<lambda>d. md_name d = om_fromDomain msg) (ow_domains w) = Some d" "\<not> om_test msg" "length raw \<le> MAX_MESSAGE_SIZE_VERIFIED"
    "suppression_gate P c msg raw (md_id d) (bindingNameForDomain (md_name d)) w = (w', Inr (Some p))"
    using assms by (auto simp: out_prepare_def refuse_def andE_Inr Let_def split: sum.splits option.splits if_splits)
  have "md_name d = om_fromDomain msg" using d(3) by (auto simp: find_Some_iff)
  then show ?thesis
    using suppression_gate_Some [OF d(6)] c d(1-5) unfolding cleared_def by auto
qed

section \<open>At most one send\<close>

lemma send_body_world:
  assumes "send_body P c msg p w = (w', r)" "sm_messageId (sp_mail p) = om_messageId msg"
  shows "ow_sent w' = ow_sent w @ [sp_mail p] \<and> (\<forall>m. m \<noteq> om_messageId msg \<longrightarrow> st w' m = st w m) \<and>
    (st w' (om_messageId msg) = st w (om_messageId msg) \<or> st w' (om_messageId msg) \<in> Some ` settled)"
  using assms unfolding send_body_def
  by (auto elim!: andE_cases setStatus_cases simp: Let_def fanout_def settled_def split: send_result.splits if_splits)

lemma out_send_world:
  assumes "out_send P c msg p w = (w', r)" "sm_messageId (sp_mail p) = om_messageId msg"
  shows "ow_sent w' = ow_sent w @ [sp_mail p] \<and> (\<forall>m. m \<noteq> om_messageId msg \<longrightarrow> st w' m = st w m) \<and>
    (st w' (om_messageId msg) = st w (om_messageId msg) \<or> st w' (om_messageId msg) \<in> Some ` settled)"
proof -
  obtain w1 x where b: "send_body P c msg p w = (w1, x)" by (cases "send_body P c msg p w")
  show ?thesis
    using send_body_world [OF b assms(2)] assms(1) unfolding out_send_def b
    by (auto elim!: andE_cases setStatus_cases simp: fanout_def settled_def split: sum.splits if_splits)
qed

text \<open>A delivery either sends nothing and settles its message at most, or it found the message claimable, sends
  the one cleared mail and leaves it claimed or settled.\<close>
lemma handleOne_cases:
  assumes "handleOne P c msg w = (w', r)"
  obtains (silent) "quiet (om_messageId msg) w w'"
    | (sent) p where "cleared P c msg w p" "st w (om_messageId msg) = Some ''queued''" "ow_sent w' = ow_sent w @ [sp_mail p]"
        "\<forall>m. m \<noteq> om_messageId msg \<longrightarrow> st w' m = st w m" "st w' (om_messageId msg) \<in> Some ` insert ''sending'' settled"
proof -
  obtain w1 x where p: "out_prepare P c msg w = (w1, x)" by (cases "out_prepare P c msg w")
  show ?thesis
  proof (cases "\<exists>plan. x = Inr (Some plan)")
    case False
    then have "quiet (om_messageId msg) w w'"
      using assms out_prepare_quiet [OF p] unfolding handleOne_def p by (cases x) (auto split: option.splits)
    then show ?thesis by (rule silent)
  next
    case True
    then obtain plan where x: "x = Inr (Some plan)" by blast
    note f = out_prepare_Some [OF p [unfolded x]]
    obtain w2 y where e: "out_enter c msg w1 = (w2, y)" by (cases "out_enter c msg w1")
    show ?thesis
      using e unfolding out_enter_def
    proof (cases rule: setStatus_cases)
      case same
      then have "w' = w1" using assms unfolding handleOne_def p x by (cases y) (auto simp: e)
      then show ?thesis using silent out_prepare_quiet [OF p] by simp
    next
      case (changed q)
      have "sm_messageId (sp_mail plan) = om_messageId msg" using f by (auto simp: cleared_def)
      moreover have "out_send P c msg plan w2 = (w', r)" using assms changed(1) unfolding handleOne_def p x by (simp add: e)
      ultimately show ?thesis
        using sent [of plan] out_send_world [of P c msg plan w2 w' r] f changed by (auto simp: claimable_def)
    qed
  qed
qed

lemma queue_one_cases:
  assumes "queue_one P c msg w = (w', acked)"
  obtains (silent) "quiet (om_messageId msg) w w'"
    | (sent) p where "cleared P c msg w p" "st w (om_messageId msg) = Some ''queued''" "ow_sent w' = ow_sent w @ [sp_mail p]"
        "\<forall>m. m \<noteq> om_messageId msg \<longrightarrow> st w' m = st w m" "st w' (om_messageId msg) \<in> Some ` insert ''sending'' settled"
proof -
  obtain w1 r where h: "handleOne P c msg w = (w1, r)" by (cases "handleOne P c msg w")
  have q: "quiet (om_messageId msg) w1 w'"
  proof -
    have "quiet (om_messageId msg) w1 (fst (setStatus c (om_messageId msg) ''failed'' le None [] w1))" for le
      using setStatus_quiet by (metis insertCI prod.collapse settled_def)
    then show ?thesis using assms unfolding queue_one_def h by (auto split: sum.splits if_splits)
  qed
  show ?thesis
    using h
  proof (cases rule: handleOne_cases)
    case silent
    then show ?thesis using that(1) quiet_trans q by blast
  next
    case (sent p)
    then show ?thesis using that(2) [of p] q unfolding quiet_def settled_def by auto
  qed
qed

definition sends :: "out_world \<Rightarrow> string \<Rightarrow> nat" where
  "sends w mid = length (filter (\<lambda>m. sm_messageId m = mid) (ow_sent w))"

text \<open>Deliveries one after the other; before each, the rest of the system may have changed the world, but it makes no
  call of a binding and does not put a message back into the queue that was sent.\<close>
definition env_ok :: "(out_world \<Rightarrow> out_world) \<Rightarrow> bool" where
  "env_ok env \<longleftrightarrow> (\<forall>w. ow_sent (env w) = ow_sent w \<and> (\<forall>m. 0 < sends w m \<longrightarrow> claimable (env w) m \<longrightarrow> claimable w m))"

fun out_run :: "out_platform \<Rightarrow> ((out_world \<Rightarrow> out_world) \<times> out_call \<times> OutboundMessage) list \<Rightarrow> out_world \<Rightarrow> out_world" where
  "out_run P [] w = w"
| "out_run P ((env, c, msg) # ds) w = out_run P ds (fst (queue_one P c msg (env w)))"

definition once :: "out_world \<Rightarrow> bool" where
  "once w \<longleftrightarrow> (\<forall>m. sends w m \<le> 1 \<and> (0 < sends w m \<longrightarrow> \<not> claimable w m))"

lemma queue_one_once:
  assumes "once w" "queue_one P c msg w = (w', acked)"
  shows "once w'"
  using assms(2)
proof (cases rule: queue_one_cases)
  case silent
  then have "sends w' m = sends w m" for m by (simp add: sends_def quiet_def)
  moreover have "claimable w' m \<longrightarrow> claimable w m" for m
    using silent unfolding quiet_def claimable_def settled_def by (cases "m = om_messageId msg") auto
  ultimately show ?thesis using assms(1) unfolding once_def by auto
next
  case (sent p)
  have i: "sm_messageId (sp_mail p) = om_messageId msg" using sent(1) by (auto simp: cleared_def)
  have s: "sends w' m = sends w m + (if m = om_messageId msg then 1 else 0)" for m
    using sent(3) i by (auto simp: sends_def)
  have "claimable w (om_messageId msg)" using sent(2) by (simp add: claimable_def)
  then have "sends w (om_messageId msg) = 0" using assms(1) unfolding once_def by auto
  moreover have "\<not> claimable w' (om_messageId msg)" using sent(5) by (auto simp: claimable_def settled_def)
  moreover have "claimable w' m = claimable w m" if "m \<noteq> om_messageId msg" for m
    using sent(4) that by (simp add: claimable_def)
  ultimately show ?thesis using assms(1) unfolding once_def by (auto simp: s)
qed

text \<open>C5. However often the queue redelivers, in whatever order and mixed with other messages, and whatever fails on the way,
  the consumer hands a message to the mail binding at most once, as long as deliveries do not overlap in time and nobody
  puts a sent message back to queued.\<close>
theorem at_most_one_send:
  assumes "\<forall>(env, c, msg) \<in> set ds. env_ok env" "ow_sent w = []"
  shows "sends (out_run P ds w) mid \<le> 1"
proof -
  have "once (out_run P ds w)" if "once w" "\<forall>(env, c, msg) \<in> set ds. env_ok env" for w
    using that
  proof (induction P ds w rule: out_run.induct)
    case (2 P env c msg ds w)
    have "once (env w)" using 2(2,3) unfolding once_def env_ok_def sends_def by auto
    then have "once (fst (queue_one P c msg (env w)))" using queue_one_once by (metis prod.collapse)
    then show ?case using 2 by simp
  qed simp
  moreover have "once w" using assms(2) by (simp add: once_def sends_def)
  ultimately show ?thesis using assms(1) by (simp add: once_def)
qed

text \<open>C6. Mail leaves the system only after every gate: a delivery that calls the binding does it once, with the stored body of
  the message, under the binding of the sender's verified domain, to exactly the envelope recipients that are not suppressed
  (at least one), for a sender that is not suppressed, and with a verdict of the policy engine that lets it pass
  unless the soak period is on.\<close>
theorem sends_are_cleared:
  assumes "handleOne P c msg w = (w', r)" "ow_sent w' \<noteq> ow_sent w"
  shows "\<exists>d raw. ow_sent w' = ow_sent w @ [\<lparr> sm_messageId = om_messageId msg, sm_binding = bindingNameForDomain (om_fromDomain msg),
        sm_from = om_fromAddress msg, sm_to = filter (\<lambda>r. recipient_hit P c msg (md_id d) w r = None) (rawRecipients msg),
        sm_raw = raw \<rparr>] \<and>
     st w (om_messageId msg) = Some ''queued'' \<and> isValidFqdn (om_fromDomain msg) \<and> d \<in> set (ow_domains w) \<and> md_name d = om_fromDomain msg \<and>
     ow_r2 w (om_r2KeyOrInline msg) = Some raw \<and> length raw \<le> MAX_MESSAGE_SIZE_VERIFIED \<and> sender_hit P c msg (md_id d) w = None \<and>
     filter (\<lambda>r. recipient_hit P c msg (md_id d) w r = None) (rawRecipients msg) \<noteq> [] \<and> engine_passes P c msg raw (md_id d) w"
  using assms(1)
proof (cases rule: handleOne_cases)
  case silent
  then show ?thesis using assms(2) by (simp add: quiet_def)
next
  case (sent p)
  then obtain d raw where d: "isValidFqdn (om_fromDomain msg)" "find (\<lambda>d. md_name d = om_fromDomain msg) (ow_domains w) = Some d"
    "ow_r2 w (om_r2KeyOrInline msg) = Some raw" "length raw \<le> MAX_MESSAGE_SIZE_VERIFIED"
    "sender_hit P c msg (md_id d) w = None" "surviving P c msg (md_id d) w \<noteq> []" "engine_passes P c msg raw (md_id d) w"
    "sp_mail p = \<lparr> sm_messageId = om_messageId msg, sm_binding = bindingNameForDomain (om_fromDomain msg), sm_from = om_fromAddress msg,
      sm_to = surviving P c msg (md_id d) w, sm_raw = raw \<rparr>"
    unfolding cleared_def by auto
  have "d \<in> set (ow_domains w)" "md_name d = om_fromDomain msg"
    using d(2) unfolding find_Some_iff by auto
  then show ?thesis
    using sent(2,3) d by (intro exI [of _ d] exI [of _ raw]) (simp add: surviving_def)
qed

definition demo_op :: out_platform where
  "demo_op = \<lparr> op_decode = ascii_decode, op_url_hostname = (\<lambda>u. Some (drop 7 u)), op_date_parse = (\<lambda>_. None),
     op_json = (\<lambda>_. []), op_parse = (\<lambda>_. None) \<rparr>"

definition demo_oc :: "nat \<Rightarrow> (string \<Rightarrow> bool) \<Rightarrow> send_result \<Rightarrow> out_call" where
  "demo_oc n fails res = \<lparr> oc_attempts = n, oc_now_ms = 0, oc_now_iso = ''now'', oc_hold_until = ''later'', oc_ulid = (\<lambda>_. ''u''),
     oc_rnd = [], oc_outbound_full = None, oc_binding = (\<lambda>_. True), oc_send = (\<lambda>_. res),
     oc_fails = (\<lambda>s. s = ''engine'' \<or> fails s) \<rparr>"

definition demo_om :: OutboundMessage where
  "demo_om = \<lparr> om_messageId = ''M'', om_r2KeyOrInline = ''k'', om_fromDomain = ''x.org'', om_fromAddress = ''a@x.org'',
     om_envelopeTo = Some [''b@y.org''], om_mailboxId = ''mb'', om_domainId = None, om_test = False \<rparr>"

definition demo_or :: out_row where
  "demo_or = \<lparr> or_status = ''queued'', or_stream_type = ''transactional'', or_last_error = None, or_bounce_metadata = None,
     or_sending_at = None, or_sent_at = None, or_bounced_at = None, or_failed_at = None, or_policy_decision_id = None \<rparr>"

definition demo_ow :: out_world where
  "demo_ow = \<lparr> ow_messages = [''M'' \<mapsto> demo_or], ow_r2 = [''k'' \<mapsto> serialize demo_mime],
     ow_domains = [\<lparr> md_id = ''d'', md_name = ''x.org'', md_dmarc_promotion_state = None \<rparr>], ow_abuse = Map.empty,
     ow_db = pe_db demo_env, ow_config = [], ow_decisions = [], ow_held = [], ow_events = [], ow_sent = [] \<rparr>"

definition demo_plan :: send_plan where
  "demo_plan = \<lparr> sp_domainId = ''d'', sp_mail = \<lparr> sm_messageId = ''M'', sm_binding = ''EMAIL_X_ORG'', sm_from = ''a@x.org'',
     sm_to = [''b@y.org''], sm_raw = serialize demo_mime \<rparr> \<rparr>"

lemma demo_fqdn: "isValidFqdn ''x.org''" "bindingNameForDomain ''x.org'' = ''EMAIL_X_ORG''"
  by code_simp+

lemma demo_hits: "sender_hit demo_op c demo_om ''d'' w = None" "recipient_hit demo_op c demo_om ''d'' w r = None" if "db_suppressions (ow_db w) = []"
  using that
  by (simp_all add: sender_hit_def recipient_hit_def checkSenderSuppression_def checkRecipientSuppression_def suppression_select_def
      split: option.splits)

lemma demo_length: "length (serialize demo_mime) \<le> MAX_MESSAGE_SIZE_VERIFIED"
proof -
  have "length (serialize demo_mime) = 41" by code_simp
  then show ?thesis by (simp add: MAX_MESSAGE_SIZE_VERIFIED_def)
qed

text \<open>The demonstration message passes every gate, the policy engine by the soak rule.\<close>
lemma demo_prepare:
  assumes "\<forall>s \<in> {''select status'', ''r2 get'', ''select domain'', ''select suppressions'', ''select policy context'',
      ''insert decision'', ''update decision id''}. \<not> fails s"
    and "ow_messages w ''M'' = Some r" "or_status r = ''queued''" "or_stream_type r = ''transactional''"
    and "ow_r2 w = ow_r2 demo_ow" "ow_domains w = ow_domains demo_ow" "ow_db w = ow_db demo_ow"
  shows "\<exists>ds. out_prepare demo_op (demo_oc n fails res) demo_om w =
    (w\<lparr>ow_decisions := ds, ow_messages := (ow_messages w)(''M'' \<mapsto> r\<lparr>or_policy_decision_id := Some ''pd_u''\<rparr>)\<rparr>, Inr (Some demo_plan))"
proof -
  let ?c = "demo_oc n fails res"
  have f: "oc_fails ?c s = (s = ''engine'' \<or> fails s)" for s by (simp add: demo_oc_def)
  have db: "db_suppressions (ow_db w) = []" using assms(7) by (simp add: demo_ow_def demo_env_def)
  have d: "lookupOutcome Outbound Transactional Pass_warn = Some (ENTRY Send_with_warning False Info False)"
    by (simp add: lookupOutcome_def TABLE_def)
  have "\<exists>ds. dispatch_decision ?c demo_om Transactional (synthetic_hold ?c ''engine_error'') w =
      (w\<lparr>ow_decisions := ds, ow_messages := (ow_messages w)(''M'' \<mapsto> r\<lparr>or_policy_decision_id := Some ''pd_u''\<rparr>)\<rparr>,
       Inr (Act_continue (soaked ?c (synthetic_hold ?c ''engine_error''))))"
    using assms(1,2) unfolding dispatch_decision_def persistDecision_def Let_def
    by (simp add: f demo_om_def synthetic_hold_def soaked_def isSoakActive_def d ENTRY_def) (auto simp: demo_oc_def)
  moreover have "evaluateOutboundPolicy demo_op ?c demo_om (serialize demo_mime) ''d'' w =
      dispatch_decision ?c demo_om Transactional (synthetic_hold ?c ''engine_error'') w"
    using assms(1,2,4) demo_mime_parses
    by (simp add: evaluateOutboundPolicy_def demo_op_def f outbound_input_def asStreamType_def demo_om_def)
  moreover have "out_prepare demo_op ?c demo_om w = policy_gate demo_op ?c demo_om (serialize demo_mime) ''d'' ''EMAIL_X_ORG'' [''b@y.org''] w"
    using assms demo_length demo_fqdn demo_hits [OF db, of ?c]
    by (simp add: out_prepare_def loadStatus_def f suppression_gate_def rawRecipients_def demo_om_def demo_ow_def demo_oc_def Let_def)
  ultimately show ?thesis
    by (auto simp: policy_gate_def demo_plan_def demo_om_def)
qed

lemma demo_ow_row: "ow_messages demo_ow ''M'' = Some demo_or" "or_status demo_or = ''queued''" "or_stream_type demo_or = ''transactional''"
  by (simp_all add: demo_ow_def demo_or_def)

text \<open>Once the plan is made and the row still is queued, the claim succeeds and the binding is called.\<close>
lemma handleOne_sends:
  assumes "out_prepare P c msg w = (w1, Inr (Some p))" "st w (om_messageId msg) = Some ''queued''" "\<not> oc_fails c ''update sending''"
  obtains w2 where "out_enter c msg w1 = (w2, Inr True)" "st w2 = (st w)(om_messageId msg \<mapsto> ''sending'')" "ow_sent w2 = ow_sent w"
    "ow_events w2 = ow_events w1" "handleOne P c msg w = out_send P c msg p w2"
proof -
  note f = out_prepare_Some [OF assms(1)]
  obtain w2 y where e: "out_enter c msg w1 = (w2, y)" by (cases "out_enter c msg w1")
  have r: "st w1 (om_messageId msg) = Some ''queued''" using f assms(2) by simp
  then have y: "y = Inr True" using e assms(3)
    by (auto simp: out_enter_def setStatus_def st_def split: if_splits option.splits)
  have "st w2 = (st w1)(om_messageId msg \<mapsto> ''sending'') \<and> ow_sent w2 = ow_sent w1 \<and> ow_events w2 = ow_events w1"
    using e unfolding out_enter_def by (cases rule: setStatus_cases) (use y in auto)
  moreover have "handleOne P c msg w = out_send P c msg p w2" by (simp add: handleOne_def assms(1) e y)
  ultimately show ?thesis using that e y f by metis
qed

lemma setStatus_ok:
  assumes "\<not> oc_fails c (''update '' @ s)" "st w mid = Some q" "ex = [] \<or> q \<in> set ex"
  obtains w' where "setStatus c mid s le b ex w = (w', Inr True)" "st w' = (st w)(mid \<mapsto> s)" "ow_sent w' = ow_sent w" "ow_events w' = ow_events w"
proof -
  obtain w' r where e: "setStatus c mid s le b ex w = (w', r)" by (cases "setStatus c mid s le b ex w")
  have "r = Inr True" using e assms by (auto simp: setStatus_def st_def split: if_splits)
  then show ?thesis using e that by (cases rule: setStatus_cases [OF e]) auto
qed

lemma loadStatus_st: "\<not> oc_fails c ''select status'' \<Longrightarrow> loadStatus c mid w = Inr (st w mid)"
  by (simp add: loadStatus_def st_def)

lemma queue_one_skip:
  assumes "st w (om_messageId msg) = Some s" "s \<notin> {[], ''queued''}" "\<not> oc_fails c ''select status''"
  shows "queue_one P c msg w = (w, True)"
proof -
  have "out_prepare P c msg w = (w, Inr None)"
    unfolding out_prepare_def loadStatus_st [OF assms(3)] using assms(1,2) by simp
  then show ?thesis by (simp add: queue_one_def handleOne_def)
qed

lemma queue_one_threw:
  assumes "handleOne P c msg w = (w1, Inl e)" "st w1 (om_messageId msg) = Some s" "s \<notin> {''sending'', ''queued''}"
    "\<not> oc_fails c ''select status''"
  shows "queue_one P c msg w = (w1, False)"
  using assms(1-3) by (simp add: queue_one_def loadStatus_st [OF assms(4)])

text \<open>A transient error of the mail provider ends the message: it is recorded as failed before the queue redelivers, every
  redelivery is skipped and acknowledged, no further send takes place, and no failure event is ever emitted.\<close>
theorem transient_error_is_final:
  assumes "out_prepare P c msg w = (w1, Inr (Some p))" "st w (om_messageId msg) = Some ''queued''"
    and "oc_send c (sp_mail p) = Send_threw e" "oc_attempts c < 5"
    and "\<not> oc_fails c ''update sending''" "\<not> oc_fails c ''update failed''" "\<not> oc_fails c ''select status''"
    and "\<not> oc_fails c' ''select status''"
  shows "\<exists>w'. queue_one P c msg w = (w', False) \<and> st w' (om_messageId msg) = Some ''failed'' \<and>
     ow_events w' = ow_events w1 \<and> queue_one P c' msg w' = (w', True)"
proof -
  obtain w2 where w2: "st w2 = (st w)(om_messageId msg \<mapsto> ''sending'')" "ow_events w2 = ow_events w1"
    "handleOne P c msg w = out_send P c msg p w2"
    using handleOne_sends [OF assms(1,2,5)] by metis
  define w3 where "w3 = w2\<lparr>ow_sent := ow_sent w2 @ [sp_mail p]\<rparr>"
  have h: "handleOne P c msg w = (w3, Inl e)"
    using w2(3) assms(3,4) by (simp add: out_send_def send_body_def w3_def MAX_DELIVERY_ATTEMPTS_def)
  have s3: "st w3 (om_messageId msg) = Some ''sending''" by (simp add: w3_def w2(1))
  obtain w' where w': "setStatus c (om_messageId msg) ''failed'' (Some (take 256 (''uncaught: '' @ e))) None [] w3 = (w', Inr True)"
    "st w' = (st w3)(om_messageId msg \<mapsto> ''failed'')" "ow_events w' = ow_events w3"
    by (rule setStatus_ok [of c "''failed''" w3 "om_messageId msg" "''sending''" "[]" "Some (take 256 (''uncaught: '' @ e))" None])
      (use s3 assms(6) in auto)
  have "queue_one P c msg w = (w', False)"
    using h s3 w'(1) by (simp add: queue_one_def loadStatus_st [OF assms(7)])
  moreover have "queue_one P c' msg w' = (w', True)"
    by (rule queue_one_skip [of _ _ "''failed''"]) (use w'(2) assms(8) in auto)
  ultimately show ?thesis using w' w2(2) by (auto simp: w3_def)
qed

lemma transient_error_is_final_witness:
  "\<exists>w'. queue_one demo_op (demo_oc 1 (\<lambda>_. False) (Send_threw ''timeout'')) demo_om demo_ow = (w', False) \<and>
     st w' ''M'' = Some ''failed'' \<and> queue_one demo_op (demo_oc 2 (\<lambda>_. False) (Send_result [] [] [])) demo_om w' = (w', True)"
proof -
  let ?c = "demo_oc 1 (\<lambda>_. False) (Send_threw ''timeout'')"
  obtain w1 where p: "out_prepare demo_op ?c demo_om demo_ow = (w1, Inr (Some demo_plan))"
    using demo_prepare [of "\<lambda>_. False" demo_ow demo_or 1 "Send_threw ''timeout''"] demo_ow_row by auto
  have "st demo_ow (om_messageId demo_om) = Some ''queued''" by (simp add: st_def demo_om_def demo_ow_row)
  from transient_error_is_final [OF p this, of "''timeout''" "demo_oc 2 (\<lambda>_. False) (Send_result [] [] [])"]
  show ?thesis by (auto simp: demo_oc_def demo_om_def)
qed

text \<open>The last attempt turns a delivered mail into a failed one: when the provider has accepted the mail and only the event
  queue cannot be reached, the fifth attempt overwrites the status sent with failed, and earlier attempts
  lose the sent event for good, since the redelivery skips the message.\<close>
theorem sent_mail_reported_failed:
  assumes "out_prepare P c msg w = (w1, Inr (Some p))" "st w (om_messageId msg) = Some ''queued''"
    and "oc_send c (sp_mail p) = Send_result delivered [] queued" "oc_fails c ''fanout''"
    and "\<not> oc_fails c ''update sending''" "\<not> oc_fails c ''update sent''" "\<not> oc_fails c ''update failed''" "\<not> oc_fails c ''select status''"
    and "\<not> oc_fails c' ''select status''"
  shows "\<exists>w'. queue_one P c msg w = (w', False) \<and> ow_sent w' = ow_sent w @ [sp_mail p] \<and>
     st w' (om_messageId msg) = Some (if oc_attempts c \<ge> 5 then ''failed'' else ''sent'') \<and>
     ow_events w' = ow_events w1 \<and> queue_one P c' msg w' = (w', True)"
proof -
  obtain w2 where w2: "st w2 = (st w)(om_messageId msg \<mapsto> ''sending'')" "ow_sent w2 = ow_sent w" "ow_events w2 = ow_events w1"
    "handleOne P c msg w = out_send P c msg p w2"
    using handleOne_sends [OF assms(1,2,5)] by metis
  define w3 where "w3 = w2\<lparr>ow_sent := ow_sent w2 @ [sp_mail p]\<rparr>"
  obtain w4 where w4: "setStatus c (om_messageId msg) ''sent'' None None [''sending''] w3 = (w4, Inr True)"
    "st w4 = (st w3)(om_messageId msg \<mapsto> ''sent'')" "ow_sent w4 = ow_sent w3" "ow_events w4 = ow_events w3"
    by (rule setStatus_ok [of c "''sent''" w3 "om_messageId msg" "''sending''" "[''sending'']" None None])
      (use w2(1) assms(6) in \<open>auto simp: w3_def\<close>)
  obtain w5 where w5: "setStatus c (om_messageId msg) ''failed'' (Some (take 256 ''fanout'')) None [] w4 = (w5, Inr True)"
    "st w5 = (st w4)(om_messageId msg \<mapsto> ''failed'')" "ow_sent w5 = ow_sent w4" "ow_events w5 = ow_events w4"
    by (rule setStatus_ok [of c "''failed''" w4 "om_messageId msg" "''sent''" "[]" "Some (take 256 ''fanout'')" None])
      (use w4(2) assms(7) in auto)
  let ?w = "if oc_attempts c \<ge> 5 then w5 else w4"
  have b: "send_body P c msg p w2 = (w4, Inl ''fanout'')"
    using assms(3,4) w4(1) by (simp add: send_body_def w3_def [symmetric] Let_def fanout_def)
  have h: "handleOne P c msg w = (?w, Inl ''fanout'')"
    using w2(4) b w5(1) assms(4) by (simp add: out_send_def MAX_DELIVERY_ATTEMPTS_def fanout_def)
  have s: "st ?w (om_messageId msg) = Some (if oc_attempts c \<ge> 5 then ''failed'' else ''sent'')"
    using w4(2) w5(2) by simp
  have "queue_one P c msg w = (?w, False)" by (rule queue_one_threw [OF h s]) (use assms(8) in auto)
  moreover have "queue_one P c' msg ?w = (?w, True)" by (rule queue_one_skip [OF s]) (use assms(9) in auto)
  ultimately show ?thesis using s w4 w5 w2 by (auto simp: w3_def)
qed

lemma sent_mail_reported_failed_witness:
  "\<exists>w'. queue_one demo_op (demo_oc 5 (\<lambda>s. s = ''fanout'') (Send_result [''b@y.org''] [] [])) demo_om demo_ow = (w', False) \<and>
     length (ow_sent w') = 1 \<and> st w' ''M'' = Some ''failed''"
proof -
  let ?c = "demo_oc 5 (\<lambda>s. s = ''fanout'') (Send_result [''b@y.org''] [] [])"
  obtain w1 where p: "out_prepare demo_op ?c demo_om demo_ow = (w1, Inr (Some demo_plan))"
    using demo_prepare [of "\<lambda>s. s = ''fanout''" demo_ow demo_or 5 "Send_result [''b@y.org''] [] []"] demo_ow_row by auto
  have "st demo_ow (om_messageId demo_om) = Some ''queued''" by (simp add: st_def demo_om_def demo_ow_row)
  from sent_mail_reported_failed [OF p this, of "[''b@y.org'']" "[]" "demo_oc 6 (\<lambda>_. False) (Send_threw [])"]
  show ?thesis by (auto simp: demo_oc_def demo_om_def demo_ow_def)
qed

text \<open>The claim does not exclude a second consumer: it also succeeds on a message that is already being sent. Two deliveries of
  one message that both pass the checks before either claims it both call the binding.\<close>
theorem overlapping_deliveries_send_twice:
  assumes "out_prepare P c msg w = (w1, Inr (Some p))" "out_prepare P c' msg w1 = (w2, Inr (Some p'))"
    and "st w (om_messageId msg) = Some ''queued''" "\<not> oc_fails c ''update sending''" "\<not> oc_fails c' ''update sending''"
  shows "\<exists>w3 w4. out_enter c msg w2 = (w3, Inr True) \<and> out_enter c' msg w3 = (w4, Inr True) \<and>
     ow_sent (fst (out_send P c' msg p' (fst (out_send P c msg p w4)))) = ow_sent w @ [sp_mail p, sp_mail p']"
proof -
  note f = out_prepare_Some [OF assms(1)] out_prepare_Some [OF assms(2)]
  have i: "sm_messageId (sp_mail p) = om_messageId msg" "sm_messageId (sp_mail p') = om_messageId msg"
    using f by (auto simp: cleared_def)
  obtain w3 where w3: "out_enter c msg w2 = (w3, Inr True)" "st w3 = (st w2)(om_messageId msg \<mapsto> ''sending'')" "ow_sent w3 = ow_sent w2"
    by (rule setStatus_ok [of c "''sending''" w2 "om_messageId msg" "''queued''" "[''queued'', ''sending'']" None None])
      (use f assms(3,4) in \<open>auto simp: out_enter_def\<close>)
  obtain w4 where w4: "out_enter c' msg w3 = (w4, Inr True)" "ow_sent w4 = ow_sent w3"
    by (rule setStatus_ok [of c' "''sending''" w3 "om_messageId msg" "''sending''" "[''queued'', ''sending'']" None None])
      (use w3(2) assms(5) in \<open>auto simp: out_enter_def\<close>)
  have "ow_sent (fst (out_send P c msg p w4)) = ow_sent w4 @ [sp_mail p]"
    "ow_sent (fst (out_send P c' msg p' (fst (out_send P c msg p w4)))) = ow_sent (fst (out_send P c msg p w4)) @ [sp_mail p']"
    using out_send_world i by (metis prod.collapse)+
  then show ?thesis using w3 w4 f by simp
qed

lemma overlapping_deliveries_send_twice_witness:
  "\<exists>w1 w2 w3 w4. out_prepare demo_op (demo_oc 1 (\<lambda>_. False) (Send_result [] [] [])) demo_om demo_ow = (w1, Inr (Some demo_plan)) \<and>
     out_prepare demo_op (demo_oc 2 (\<lambda>_. False) (Send_result [] [] [])) demo_om w1 = (w2, Inr (Some demo_plan)) \<and>
     out_enter (demo_oc 1 (\<lambda>_. False) (Send_result [] [] [])) demo_om w2 = (w3, Inr True) \<and>
     out_enter (demo_oc 2 (\<lambda>_. False) (Send_result [] [] [])) demo_om w3 = (w4, Inr True)"
proof -
  let ?c = "\<lambda>n. demo_oc n (\<lambda>_. False) (Send_result [] [] [])"
  obtain ds where p: "out_prepare demo_op (?c 1) demo_om demo_ow = (demo_ow\<lparr>ow_decisions := ds,
      ow_messages := (ow_messages demo_ow)(''M'' \<mapsto> demo_or\<lparr>or_policy_decision_id := Some ''pd_u''\<rparr>)\<rparr>, Inr (Some demo_plan))" (is "_ = (?w1, _)")
    using demo_prepare [of "\<lambda>_. False" demo_ow demo_or 1 "Send_result [] [] []"] demo_ow_row by auto
  obtain w2 where q: "out_prepare demo_op (?c 2) demo_om ?w1 = (w2, Inr (Some demo_plan))"
    using demo_prepare [of "\<lambda>_. False" ?w1 "demo_or\<lparr>or_policy_decision_id := Some ''pd_u''\<rparr>" 2 "Send_result [] [] []"] demo_ow_row by auto
  have s: "st demo_ow (om_messageId demo_om) = Some ''queued''" by (simp add: st_def demo_om_def demo_ow_row)
  have "\<not> oc_fails (?c 1) ''update sending''" "\<not> oc_fails (?c 2) ''update sending''" by (simp_all add: demo_oc_def)
  from overlapping_deliveries_send_twice [OF p q s this] p q show ?thesis by blast
qed

lemma at_most_one_send_witness:
  "sends (out_run demo_op [(id, demo_oc 1 (\<lambda>_. False) (Send_result [] [] []), demo_om), (id, demo_oc 2 (\<lambda>_. False) (Send_result [] [] []), demo_om)]
     demo_ow) ''M'' \<le> 1"
  by (rule at_most_one_send) (auto simp: env_ok_def demo_ow_def)

lemma sends_are_cleared_witness:
  "\<exists>w'. handleOne demo_op (demo_oc 1 (\<lambda>_. False) (Send_result [] [] [])) demo_om demo_ow = w' \<and>
     ow_sent (fst w') \<noteq> [] \<and> st demo_ow ''M'' = Some ''queued''"
proof -
  let ?c = "demo_oc 1 (\<lambda>_. False) (Send_result [] [] [])"
  let ?h = "handleOne demo_op ?c demo_om demo_ow"
  obtain w1 where p: "out_prepare demo_op ?c demo_om demo_ow = (w1, Inr (Some demo_plan))"
    using demo_prepare [of "\<lambda>_. False" demo_ow demo_or 1 "Send_result [] [] []"] demo_ow_row by auto
  have i: "sm_messageId (sp_mail demo_plan) = om_messageId demo_om" by (simp add: demo_plan_def demo_om_def)
  have "st demo_ow (om_messageId demo_om) = Some ''queued''" "\<not> oc_fails ?c ''update sending''"
    by (simp_all add: st_def demo_om_def demo_ow_row demo_oc_def)
  then obtain w2 where w2: "?h = out_send demo_op ?c demo_om demo_plan w2" by (rule handleOne_sends [OF p]) blast
  obtain w3 r where o: "out_send demo_op ?c demo_om demo_plan w2 = (w3, r)" by (cases "out_send demo_op ?c demo_om demo_plan w2")
  have "ow_sent (fst ?h) \<noteq> []" using out_send_world [OF o i] unfolding w2 o by simp
  moreover from this have "st demo_ow (om_messageId demo_om) = Some ''queued''"
    using sends_are_cleared [of demo_op ?c demo_om demo_ow "fst ?h" "snd ?h"] by (auto simp: demo_ow_def)
  ultimately show ?thesis by (simp add: demo_om_def)
qed

section \<open>Progress\<close>

lemma finish_settles:
  assumes "\<forall>s. \<not> oc_fails c s" "st w (om_messageId msg) \<noteq> None"
  shows "\<exists>w'. finish c msg s le b e d j w = (w', Inr ()) \<and> st w' (om_messageId msg) = Some s"
proof -
  obtain q where "st w (om_messageId msg) = Some q" using assms(2) by blast
  then obtain w1 where "setStatus c (om_messageId msg) s le b [] w = (w1, Inr True)" "st w1 = (st w)(om_messageId msg \<mapsto> s)"
    by (rule setStatus_ok [where c = c and ex = "[]", rotated]) (use assms(1) in auto)
  then show ?thesis using assms(1) by (simp add: finish_def fanout_def)
qed

lemma finish_settled:
  assumes "finish c msg s le b e d j w = (w', r)" "\<forall>s. \<not> oc_fails c s" "st w (om_messageId msg) \<noteq> None"
  shows "st w' (om_messageId msg) = Some s"
  using finish_settles [OF assms(2,3), of s le b e d j] assms(1) by auto

lemma out_prepare_None_settles:
  assumes "\<forall>s. \<not> oc_fails c s" "st w (om_messageId msg) = Some ''queued''" "out_prepare P c msg w = (w', Inr None)"
  shows "st w' (om_messageId msg) \<in> Some ` settled"
proof -
  note f = finish_settled [OF _ assms(1)]
  have refuse: "st w2 (om_messageId msg) \<in> Some ` settled" if "refuse c msg e d j w = (w2, Inr None)" for e d j w2
    using that assms(2) by (auto simp: refuse_def settled_def andE_Inr dest!: f)
  have policy: "st w2 (om_messageId msg) \<in> Some ` settled"
    if "policy_gate P c msg raw d b rs w1 = (w2, Inr None)" "st w1 (om_messageId msg) \<noteq> None" for raw d b rs w1 w2
  proof -
    note t = that
    obtain w3 act where e: "evaluateOutboundPolicy P c msg raw d w1 = (w3, Inr act)"
      using t(1) unfolding policy_gate_def andE_Inr by blast
    have s: "st w3 (om_messageId msg) \<noteq> None" using evaluateOutboundPolicy_st [OF e] t(2) by simp
    show ?thesis
    proof (cases act)
      case (Act_hold x h)
      then show ?thesis
        using t(1) e s assms(1) by (auto simp: policy_gate_def andE_Inr settled_def setStatus_def st_def split: option.splits)
    next
      case (Act_block x)
      then show ?thesis
        using t(1) e s by (auto simp: policy_gate_def andE_Inr settled_def dest!: f)
    qed (use t(1) e in \<open>auto simp: policy_gate_def\<close>)
  qed
  have supp: "st w2 (om_messageId msg) \<in> Some ` settled" if "suppression_gate P c msg raw d b w = (w2, Inr None)" for raw d b w2
  proof (cases "sender_hit P c msg d w")
    case None
    define w1 where "w1 = (if length (surviving P c msg d w) < length (rawRecipients msg)
      then fst (fanout c 3 ''message.suppressed'' msg (Some d) (JObj [(''dropped'', dropped_json P c msg d w), (''kept'', JArr (map JStr (surviving P c msg d w)))]) w)
      else w)"
    have s1: "st w1 (om_messageId msg) \<noteq> None" using assms(1,2) by (simp add: w1_def fanout_def)
    show ?thesis
    proof (cases "surviving P c msg d w = []")
      case True
      then show ?thesis
        using that None assms(1,2)
        by (auto simp: suppression_gate_def surviving_def fanout_def Let_def andE_Inr settled_def dest!: f split: if_splits)
    next
      case False
      then have "policy_gate P c msg raw d b (surviving P c msg d w) w1 = (w2, Inr None)"
        using that None assms(1) by (auto simp: suppression_gate_def surviving_def w1_def fanout_def Let_def split: if_splits)
      then show ?thesis using policy s1 by blast
    qed
  next
    case (Some h)
    then show ?thesis
      using that assms(1,2) by (auto simp: suppression_gate_def andE_Inr settled_def dest!: f)
  qed
  have test: "st w2 (om_messageId msg) \<in> Some ` settled" if "andE (finish c msg ''sent'' le b e d j w) (\<lambda>w _. (w, Inr None)) = (w2, Inr None)" for le b e d j w2
    using that assms(2) by (auto simp: settled_def andE_Inr dest!: f)
  show ?thesis
    using assms(3) unfolding out_prepare_def loadStatus_st [OF spec [OF assms(1)]]
    by (auto simp: assms(2) Let_def spec [OF assms(1)] dest: refuse supp test split: option.splits if_splits)
qed

lemma out_send_settles:
  assumes "\<forall>s. \<not> oc_fails c s" "st w (om_messageId msg) = Some ''sending''" "out_send P c msg p w = (w', Inr u)"
  shows "st w' (om_messageId msg) \<in> Some ` settled"
proof -
  define w0 where "w0 = w\<lparr>ow_sent := ow_sent w @ [sp_mail p]\<rparr>"
  have upd: "setStatus c (om_messageId msg) s le b ex w0 = (w2, x) \<Longrightarrow> ex = [] \<or> ''sending'' \<in> set ex \<Longrightarrow>
      x = Inr True \<and> st w2 (om_messageId msg) = Some s" for s le b ex w2 x
    using assms(1,2) by (auto simp: setStatus_def w0_def st_def split: option.splits if_splits)
  show ?thesis
    using assms(1,3) unfolding out_send_def send_body_def w0_def [symmetric] Let_def
    by (auto simp: settled_def fanout_def andE_Inr dest!: upd elim!: andE_cases split: send_result.splits if_splits sum.splits prod.splits)
qed

text \<open>C21. A queued message never gets stuck: one delivery whose database and queue accesses succeed leaves it sent, bounced, failed
  or held, whatever the provider does and whatever the policy says; it is never left queued or sending.\<close>
theorem delivery_settles:
  assumes "\<forall>s. \<not> oc_fails c s" "st w (om_messageId msg) = Some ''queued''"
  shows "st (fst (queue_one P c msg w)) (om_messageId msg) \<in> Some ` {''sent'', ''bounced'', ''failed'', ''held''}"
proof -
  note ok = spec [OF assms(1)]
  obtain w1 r where h: "handleOne P c msg w = (w1, r)" by (cases "handleOne P c msg w")
  show ?thesis
  proof (cases r)
    case (Inr u)
    obtain w2 x where p: "out_prepare P c msg w = (w2, Inr x)"
      using h [unfolded Inr handleOne_def andE_Inr] by blast
    have "st w1 (om_messageId msg) \<in> Some ` settled"
    proof (cases x)
      case None
      then show ?thesis using out_prepare_None_settles [OF assms] h p Inr by (auto simp: handleOne_def)
    next
      case (Some plan)
      then obtain w3 where "st w3 = (st w)(om_messageId msg \<mapsto> ''sending'')" "handleOne P c msg w = out_send P c msg plan w3"
        using handleOne_sends [OF p [unfolded Some] assms(2) ok] by metis
      then show ?thesis using out_send_settles [OF assms(1), of w3 msg P plan w1 u] h Inr by simp
    qed
    then show ?thesis using h Inr by (simp add: queue_one_def settled_def)
  next
    case (Inl e)
    obtain s where s: "st w1 (om_messageId msg) = Some s" "s \<in> {''queued'', ''sending''} \<union> settled"
      using h by (cases rule: handleOne_cases) (use assms(2) in \<open>auto simp: quiet_def\<close>)
    show ?thesis
    proof (cases "s \<in> {''queued'', ''sending''}")
      case True
      obtain w2 where "setStatus c (om_messageId msg) ''failed'' (Some (take 256 (''uncaught: '' @ e))) None [] w1 = (w2, Inr True)"
        "st w2 = (st w1)(om_messageId msg \<mapsto> ''failed'')"
        by (rule setStatus_ok [OF ok s(1), of "[]"]) auto
      then show ?thesis using h Inl s True by (auto simp: queue_one_def loadStatus_st [OF ok])
    next
      case False
      then show ?thesis using queue_one_threw [OF h [unfolded Inl] s(1)] ok s by (auto simp: settled_def)
    qed
  qed
qed

lemma delivery_settles_witness:
  "st (fst (queue_one demo_op ((demo_oc 1 (\<lambda>_. False) (Send_threw ''x''))\<lparr>oc_fails := \<lambda>_. False\<rparr>) demo_om demo_ow)) ''M''
     \<in> Some ` {''sent'', ''bounced'', ''failed'', ''held''}"
  using delivery_settles [of "(demo_oc 1 (\<lambda>_. False) (Send_threw ''x''))\<lparr>oc_fails := \<lambda>_. False\<rparr>" demo_ow demo_om demo_op]
  by (simp add: st_def demo_om_def demo_ow_row)

section \<open>Lifecycle\<close>

text \<open>The statuses a message may pass through, as the service documents them; a test message goes straight to sent.\<close>
inductive lifecycle :: "string \<Rightarrow> string \<Rightarrow> bool" where
  claim: "lifecycle ''queued'' ''sending''"
| sent: "lifecycle ''sending'' ''sent''"
| bounced: "lifecycle ''sending'' ''bounced''"
| failed: "lifecycle ''sending'' ''failed''"
| test_mode: "lifecycle ''queued'' ''sent''"
| rejected: "lifecycle ''queued'' ''failed''"
| suppressed: "lifecycle ''queued'' ''bounced''"
| held: "lifecycle ''queued'' ''held''"

lemma lifecycle_queued: "s \<in> insert ''queued'' (insert ''sending'' settled) \<Longrightarrow> lifecycle\<^sup>*\<^sup>* ''queued'' s"
  by (auto simp: settled_def intro: lifecycle.intros)



section \<open>Bindings\<close>

lemma js_split_set: "set s \<subseteq> insert c (\<Union> (set ` set (js_split c s)))"
proof (induction s)
  case (Cons x s)
  obtain y ys where "js_split c s = y # ys" by (metis js_split_nonempty neq_Nil_conv)
  then show ?case using Cons by auto
qed simp

lemma upper_no_underscore:
  assumes "is_alnum c \<or> c = CHR ''-'' \<or> c = CHR ''.''"
  shows "CHR ''_'' \<notin> set (js_upper_char c)"
proof -
  have "CHR ''_'' \<noteq> char_of (n - 32)" if "97 \<le> n" "n \<le> 122" for n :: nat
  proof
    assume "CHR ''_'' = char_of (n - 32)"
    then have "code (CHR ''_'') = code (char_of (n - 32))" by simp
    then show False using that by simp
  qed
  then show ?thesis
    using assms by (auto simp: js_upper_char_def Let_def is_alnum_def is_upper_def is_lower_def is_digit_def)
qed

lemma fqdn_no_underscore:
  assumes "isValidFqdn a"
  shows "CHR ''_'' \<notin> set (js_upper a)"
proof -
  have "is_alnum c \<or> c = CHR ''-'' \<or> c = CHR ''.''" if "c \<in> set a" for c
    using that js_split_set [of a "CHR ''.''"] assms by (auto simp: isValidFqdn_def fqdn_label_def list_all_iff)
  then show ?thesis using upper_no_underscore by (auto simp: js_upper_def)
qed

text \<open>No two tenants share a mail binding by accident: valid domain names get the same binding name only when they are equal up
  to the case of their letters.\<close>
theorem binding_names_distinct:
  assumes "isValidFqdn a" "isValidFqdn b"
  shows "bindingNameForDomain a = bindingNameForDomain b \<longleftrightarrow> js_upper a = js_upper b"
proof -
  let ?f = "\<lambda>c. if c = CHR ''.'' then CHR ''_'' else c"
  have "inj_on ?f (set (js_upper a) \<union> set (js_upper b))"
    using fqdn_no_underscore [OF assms(1)] fqdn_no_underscore [OF assms(2)] by (auto simp: inj_on_def)
  then show ?thesis unfolding bindingNameForDomain_def by (auto simp: inj_on_map_eq_map)
qed

lemma binding_names_distinct_witness:
  "isValidFqdn ''x.org'' \<and> isValidFqdn ''x-org.de'' \<and> bindingNameForDomain ''x.org'' \<noteq> bindingNameForDomain ''x-org.de''"
proof -
  have "isValidFqdn ''x.org''" "isValidFqdn ''x-org.de''" "js_upper ''x.org'' \<noteq> js_upper ''x-org.de''" by code_simp+
  then show ?thesis using binding_names_distinct by blast
qed

end
