(* ===== verification/Ssrf.thy ===== *)
theory Ssrf
  imports Prelude
begin

text \<open>
  The guard around webhook requests (\<^verbatim>\<open>services/api/src/queue/ssrf.ts\<close>): the address deny list, the check
  of a URL and \<open>safeFetch\<close>. The URL parser, the resolver and \<^verbatim>\<open>fetch\<close> are parameters. Addresses are
  32-bit words, as the bit operations of the source make them.
\<close>

unbundle bit_operations_syntax

section \<open>Addresses\<close>

text \<open>The four groups of \<^verbatim>\<open>/^(\d+)\.(\d+)\.(\d+)\.(\d+)$/\<close>.\<close>
definition dotted_quad :: "string \<Rightarrow> string list option" where
  "dotted_quad s =
     (let gs = js_split (CHR ''.'') s in
      if length gs = 4 \<and> list_all (\<lambda>g. g \<noteq> [] \<and> list_all is_digit g) gs then Some gs else None)"

fun v4_octets :: "string list \<Rightarrow> 32 word \<Rightarrow> 32 word option" where
  "v4_octets [] n = Some n"
| "v4_octets (g # gs) n =
     (let octet = digits_value 10 0 g in
      if octet > 255 then None else v4_octets gs (n * 256 + of_nat octet))"

definition v4ToUint32 :: "string \<Rightarrow> 32 word option" where
  "v4ToUint32 ip = (case dotted_quad ip of None \<Rightarrow> None | Some gs \<Rightarrow> v4_octets gs 0)"

record V4Cidr =
  c_network :: "32 word"
  c_bits :: nat

text \<open>\<^const>\<open>None\<close> is the thrown error.\<close>
definition parseCidrV4 :: "string \<Rightarrow> V4Cidr option" where
  "parseCidrV4 cidr =
     (case js_split (CHR ''/'') cidr of
        addr # bitsStr # _ \<Rightarrow> map_option (\<lambda>n. \<lparr> c_network = n, c_bits = digits_value 10 0 bitsStr \<rparr>) (v4ToUint32 addr)
      | _ \<Rightarrow> None)"

definition v4_mask :: "nat \<Rightarrow> 32 word" where
  "v4_mask bits = (if bits = 32 then 0xFFFFFFFF else push_bit (32 - bits) 0xFFFFFFFF)"

definition v4InCidr :: "32 word \<Rightarrow> V4Cidr \<Rightarrow> bool" where
  "v4InCidr ip cidr = (if c_bits cidr = 0 then True else ip AND v4_mask (c_bits cidr) = c_network cidr AND v4_mask (c_bits cidr))"

definition PRIVATE_V4_CIDRS :: "V4Cidr list" where
  "PRIVATE_V4_CIDRS = List.map_filter parseCidrV4
     [''10.0.0.0/8'', ''172.16.0.0/12'', ''192.168.0.0/16'', ''127.0.0.0/8'', ''169.254.0.0/16'', ''100.64.0.0/10'',
      ''0.0.0.0/8'', ''224.0.0.0/4'', ''240.0.0.0/4'']"

definition PRIVATE_V6_PREFIXES :: "string list" where
  "PRIVATE_V6_PREFIXES = [''0000:0000:0000:0000:0000:0000:0000:0001'', ''fc'', ''fd'', ''fe8'', ''fe9'', ''fea'', ''feb'']"

definition FORBIDDEN_HOSTS :: "string list" where
  "FORBIDDEN_HOSTS = [''metadata.google.internal'', ''metadata.aws'', ''metadata'', ''localhost'', ''instance-data.ec2.internal'']"

definition FORBIDDEN_CLOUD_IPS :: "string list" where
  "FORBIDDEN_CLOUD_IPS = [''169.254.169.254'', ''169.254.170.2'']"

definition hex_or_colon :: "char \<Rightarrow> bool" where
  "hex_or_colon c = (is_digit c \<or> (97 \<le> code c \<and> code c \<le> 102) \<or> c = CHR '':'')"

text \<open>\<^verbatim>\<open>split('::')\<close>: never empty.\<close>
fun split_double :: "string \<Rightarrow> string list" where
  "split_double [] = [[]]"
| "split_double [c] = [[c]]"
| "split_double (c # d # s) =
     (if c = CHR '':'' \<and> d = CHR '':'' then [] # split_double s
      else (case split_double (d # s) of [] \<Rightarrow> [[c]] | y # ys \<Rightarrow> (c # y) # ys))"

definition groups_of :: "string \<Rightarrow> string list" where
  "groups_of s = (if s = [] then [] else js_split (CHR '':'') s)"

definition pad4 :: "string \<Rightarrow> string" where
  "pad4 g = replicate (4 - length g) (CHR ''0'') @ g"

definition normaliseV6 :: "string \<Rightarrow> string option" where
  "normaliseV6 addr =
     (let lower = js_trim (js_lower addr) in
      if lower = [] \<or> \<not> list_all hex_or_colon lower then None
      else let halves = split_double lower in
        if length halves > 2 then None
        else let (hd_groups, tl_groups) = (case halves of
                   [h, t] \<Rightarrow> (groups_of h, groups_of t) | _ \<Rightarrow> (js_split (CHR '':'') lower, []))
             in if length hd_groups + length tl_groups > 8 then None
                else Some (js_join '':'' (map pad4 (hd_groups @
                       replicate (8 - length hd_groups - length tl_groups) ''0'' @ tl_groups))))"

definition ipv6Denied :: "string \<Rightarrow> bool" where
  "ipv6Denied addr =
     (case normaliseV6 addr of
        None \<Rightarrow> False
      | Some normal \<Rightarrow>
          list_ex (\<lambda>p. if CHR '':'' \<in> set p then normal = p else starts_with p (hd (js_split (CHR '':'') normal))) PRIVATE_V6_PREFIXES)"

definition ipDenied :: "string \<Rightarrow> bool" where
  "ipDenied ip =
     (case v4ToUint32 ip of
        Some v4 \<Rightarrow> ip \<in> set FORBIDDEN_CLOUD_IPS \<or> list_ex (v4InCidr v4) PRIVATE_V4_CIDRS
      | None \<Rightarrow> ipv6Denied ip)"

section \<open>URLs\<close>

datatype sub_kind = External | Tailnet

text \<open>What \<^verbatim>\<open>new URL(u)\<close> yields of a URL.\<close>
record url_parts =
  u_protocol :: string
  u_hostname :: string
  u_host :: string
  u_pathname :: string
  u_search :: string

datatype SsrfResult = Ssrf_ok | Ssrf_refused string

definition ssrfCheck :: "(string \<Rightarrow> url_parts option) \<Rightarrow> string \<Rightarrow> sub_kind \<Rightarrow> SsrfResult" where
  "ssrfCheck parse url kind =
     (case parse url of
        None \<Rightarrow> Ssrf_refused ''invalid_url''
      | Some u \<Rightarrow>
          if u_protocol u \<noteq> ''https:'' \<and> u_protocol u \<noteq> ''http:'' then Ssrf_refused ''scheme_disallowed''
          else if kind = External \<and> u_protocol u \<noteq> ''https:'' then Ssrf_refused ''external_requires_https''
          else let host = js_lower (u_hostname u) in
            if host \<in> set FORBIDDEN_HOSTS then Ssrf_refused ''forbidden_host''
            else if host \<in> set FORBIDDEN_CLOUD_IPS then Ssrf_refused ''imds_blocked''
            else if dotted_quad host \<noteq> None
            then Ssrf_refused (if ipDenied host then ''private_v4'' else ''ip_literal_disallowed'')
            else if starts_with ''['' host \<and> ends_with '']'' host
            then Ssrf_refused (if ipDenied (js_lower (butlast (tl host))) then ''private_v6'' else ''ip_literal_disallowed'')
            else if ipDenied host then Ssrf_refused ''private_v4''
            else if kind = Tailnet \<and> \<not> ends_with ''.ts.net'' host then Ssrf_refused ''tailnet_host_required''
            else Ssrf_ok)"

section \<open>Requests\<close>

datatype chunk = No_value | Chunk nat string | Read_error string \<comment> \<open>\<^verbatim>\<open>byteLength\<close> and decoded text\<close>

datatype fetch_result = Fetch_threw string | Fetched nat "chunk list"

record http_request =
  hq_url :: string
  hq_method :: string
  hq_headers :: "(string \<times> string) list"
  hq_body :: string

record SafeFetchResult =
  sf_status :: nat
  sf_body :: string
  sf_ok :: bool

definition sf_refused :: SafeFetchResult where
  "sf_refused = \<lparr> sf_status = 0, sf_body = [], sf_ok = False \<rparr>"

text \<open>The loop over the response body; \<^const>\<open>Inl\<close> when a read throws.\<close>
fun read_body :: "nat \<Rightarrow> nat \<Rightarrow> chunk list \<Rightarrow> nat \<Rightarrow> string \<Rightarrow> string + SafeFetchResult" where
  "read_body status mx [] seen text = Inr \<lparr> sf_status = status, sf_body = text, sf_ok = (200 \<le> status \<and> status \<le> 299) \<rparr>"
| "read_body status mx (No_value # cs) seen text = read_body status mx cs seen text"
| "read_body status mx (Read_error e # cs) seen text = Inl e"
| "read_body status mx (Chunk n s # cs) seen text =
     (if seen + n > mx then Inr \<lparr> sf_status = status, sf_body = text, sf_ok = False \<rparr>
      else read_body status mx cs (seen + n) (text @ s))"

record net =
  net_parse :: "string \<Rightarrow> url_parts option"
  net_resolve :: "string \<Rightarrow> string list option" \<comment> \<open>\<^const>\<open>None\<close> when it throws\<close>
  net_fetch :: "http_request \<Rightarrow> fetch_result"

text \<open>The requests that were made, and the result or the exception.\<close>
definition safeFetch ::
  "net \<Rightarrow> string \<Rightarrow> sub_kind \<Rightarrow> string \<Rightarrow> (string \<times> string) list \<Rightarrow> string \<Rightarrow> nat \<Rightarrow> http_request list \<times> (string + SafeFetchResult)" where
  "safeFetch N url kind meth hdrs body mx =
     (case (ssrfCheck (net_parse N) url kind, net_parse N url) of
        (Ssrf_ok, Some u) \<Rightarrow>
          (let resolvedIps = (case net_resolve N (u_hostname u) of None \<Rightarrow> [] | Some ips \<Rightarrow> ips) in
           if resolvedIps = [] then ([], Inr sf_refused)
           else if list_ex ipDenied resolvedIps then ([], Inr sf_refused)
           else let req = \<lparr> hq_url = url, hq_method = meth, hq_headers = filter (\<lambda>h. fst h \<noteq> ''host'') hdrs @ [(''host'', u_host u)],
                            hq_body = body \<rparr>
                in ([req], case net_fetch N req of
                      Fetch_threw e \<Rightarrow> Inl e
                    | Fetched status chunks \<Rightarrow>
                        if 300 \<le> status \<and> status < 400 then Inr \<lparr> sf_status = status, sf_body = [], sf_ok = False \<rparr>
                        else read_body status mx chunks 0 []))
      | _ \<Rightarrow> ([], Inr sf_refused))"

section \<open>Deny list\<close>

text \<open>Reference: an address lies in a range when it shares the network's leading bits.\<close>
definition in_range :: "nat \<Rightarrow> nat \<Rightarrow> nat \<Rightarrow> bool" where
  "in_range ip network bits = (ip div 2 ^ (32 - bits) = network div 2 ^ (32 - bits))"

lemma v4_mask_bit: "b \<le> 32 \<Longrightarrow> n < 32 \<Longrightarrow> bit (v4_mask b) n \<longleftrightarrow> 32 - b \<le> n"
proof -
  have m: "(0xFFFFFFFF :: 32 word) = - 1" by simp
  show "b \<le> 32 \<Longrightarrow> n < 32 \<Longrightarrow> bit (v4_mask b) n \<longleftrightarrow> 32 - b \<le> n"
    unfolding v4_mask_def m by (auto simp: bit_push_bit_iff bit_not_iff bit_mask_iff)
qed

lemma v4InCidr_iff:
  assumes "c_bits c \<le> 32"
  shows "v4InCidr ip c \<longleftrightarrow> in_range (unat ip) (unat (c_network c)) (c_bits c)"
proof -
  let ?k = "32 - c_bits c"
  have "ip AND v4_mask (c_bits c) = c_network c AND v4_mask (c_bits c) \<longleftrightarrow> (\<forall>n. ?k \<le> n \<and> n < 32 \<longrightarrow> bit ip n = bit (c_network c) n)"
    using v4_mask_bit [OF assms] by (auto simp: bit_eq_iff bit_and_iff)
  also have "\<dots> \<longleftrightarrow> drop_bit ?k ip = drop_bit ?k (c_network c)"
  proof
    assume h: "\<forall>n. ?k \<le> n \<and> n < 32 \<longrightarrow> bit ip n = bit (c_network c) n"
    show "drop_bit ?k ip = drop_bit ?k (c_network c)"
    proof (rule bit_eqI)
      fix n
      show "bit (drop_bit ?k ip) n = bit (drop_bit ?k (c_network c)) n"
        using h bit_imp_le_length [of ip "?k + n"] bit_imp_le_length [of "c_network c" "?k + n"]
        by (cases "?k + n < 32") (auto simp: bit_drop_bit_eq)
    qed
  next
    assume h: "drop_bit ?k ip = drop_bit ?k (c_network c)"
    show "\<forall>n. ?k \<le> n \<and> n < 32 \<longrightarrow> bit ip n = bit (c_network c) n"
    proof (intro allI impI)
      fix n
      assume "?k \<le> n \<and> n < 32"
      then show "bit ip n = bit (c_network c) n"
        using arg_cong [OF h, of "\<lambda>w. bit w (n - ?k)"] by (simp add: bit_drop_bit_eq)
    qed
  qed
  also have "\<dots> \<longleftrightarrow> in_range (unat ip) (unat (c_network c)) (c_bits c)"
    unfolding word_unat_eq_iff unat_drop_bit_eq in_range_def unfolding drop_bit_eq_div by (rule refl)
  finally have "c_bits c \<noteq> 0 \<Longrightarrow> ?thesis" by (simp add: v4InCidr_def)
  moreover have "unat v < 4294967296" for v :: "32 word" using unsigned_less [of v, where 'a = nat] by simp
  then have "in_range (unat ip) (unat (c_network c)) 0" by (simp add: in_range_def)
  ultimately show ?thesis by (cases "c_bits c = 0") (simp_all add: v4InCidr_def)
qed

definition quad :: "nat \<Rightarrow> nat \<Rightarrow> nat \<Rightarrow> nat \<Rightarrow> nat" where
  "quad a b c d = ((a * 256 + b) * 256 + c) * 256 + d"

lemma v4ToUint32_quad:
  assumes "dotted_quad ip = Some [ga, gb, gc, gd]"
    and "digits_value 10 0 ga = a" "digits_value 10 0 gb = b" "digits_value 10 0 gc = c" "digits_value 10 0 gd = d"
    and "a \<le> 255" "b \<le> 255" "c \<le> 255" "d \<le> 255"
  shows "v4ToUint32 ip = Some (of_nat (quad a b c d))" "unat (of_nat (quad a b c d) :: 32 word) = quad a b c d"
proof -
  show "v4ToUint32 ip = Some (of_nat (quad a b c d))" using assms by (simp add: v4ToUint32_def quad_def)
  have "quad a b c d < 2 ^ 32" using assms(6-9) by (simp add: quad_def)
  then show "unat (of_nat (quad a b c d) :: 32 word) = quad a b c d" by (simp add: unat_of_nat)
qed

lemma div_by_parts: "x = q * n + r \<Longrightarrow> r < n \<Longrightarrow> x div n = (q :: nat)"
  by simp

lemma quad_div:
  assumes "b \<le> 255" "c \<le> 255" "d \<le> 255"
  shows "quad a b c d div 16777216 = a" "quad a b c d div 65536 = a * 256 + b" "quad a b c d div 1048576 = a * 16 + b div 16"
    "quad a b c d div 4194304 = a * 4 + b div 64" "quad a b c d div 268435456 = a div 16"
proof -
  have 1: "quad a b c d div 65536 = a * 256 + b"
    by (rule div_by_parts [of _ _ _ "c * 256 + d"]) (use assms in \<open>simp_all add: quad_def\<close>)
  then show "quad a b c d div 65536 = a * 256 + b" .
  have 2: "quad a b c d div (65536 * n) = (a * 256 + b) div n" for n by (simp add: div_mult2_eq 1)
  show 3: "quad a b c d div 16777216 = a" using 2 [of 256] assms(1) by simp
  show "quad a b c d div 1048576 = a * 16 + b div 16" using 2 [of 16] div_mult_self3 [of 16 "a * 16" b] by (simp add: mult.assoc)
  show "quad a b c d div 4194304 = a * 4 + b div 64" using 2 [of 64] div_mult_self3 [of 64 "a * 4" b] by (simp add: mult.assoc)
  have "quad a b c d div (16777216 * 16) = a div 16" by (simp only: div_mult2_eq 3)
  then show "quad a b c d div 268435456 = a div 16" by simp
qed

lemma PRIVATE_V4_CIDRS_eq:
  "PRIVATE_V4_CIDRS = [\<lparr> c_network = 0x0A000000, c_bits = 8 \<rparr>, \<lparr> c_network = 0xAC100000, c_bits = 12 \<rparr>, \<lparr> c_network = 0xC0A80000, c_bits = 16 \<rparr>,
     \<lparr> c_network = 0x7F000000, c_bits = 8 \<rparr>, \<lparr> c_network = 0xA9FE0000, c_bits = 16 \<rparr>, \<lparr> c_network = 0x64400000, c_bits = 10 \<rparr>,
     \<lparr> c_network = 0, c_bits = 8 \<rparr>, \<lparr> c_network = 0xE0000000, c_bits = 4 \<rparr>, \<lparr> c_network = 0xF0000000, c_bits = 4 \<rparr>]"
  by code_simp

lemma split_at_base:
  "x < n \<Longrightarrow> a * n + x = k * n + r \<Longrightarrow> r < n \<Longrightarrow> a = k \<and> x = (r :: nat)"
  using div_by_parts [of "a * n + x" a n x] div_by_parts [of "a * n + x" k n r] by simp

lemma lead_bits_iff:
  "x \<le> 15 \<Longrightarrow> a * 16 + x = 2753 \<longleftrightarrow> a = 172 \<and> x = (1 :: nat)"
  "x \<le> 3 \<Longrightarrow> a * 4 + x = 401 \<longleftrightarrow> a = 100 \<and> x = (1 :: nat)"
  "x \<le> 255 \<Longrightarrow> a * 256 + x = 49320 \<longleftrightarrow> a = 192 \<and> x = (168 :: nat)"
  "x \<le> 255 \<Longrightarrow> a * 256 + x = 43518 \<longleftrightarrow> a = 169 \<and> x = (254 :: nat)"
  using split_at_base [of x 16 a 172 1] split_at_base [of x 4 a 100 1] split_at_base [of x 256 a 192 168] split_at_base [of x 256 a 169 254]
  by auto

lemma div_eq_iff_range: "0 < n \<Longrightarrow> b div n = k \<longleftrightarrow> k * n \<le> b \<and> b < Suc k * (n :: nat)"
  using div_times_less_eq_dividend [of b n] dividend_less_div_times [of n b] div_nat_eqI [of n k b] by (auto simp: mult.commute)

lemma div_range_iff:
  fixes b :: nat
  shows "b div 16 = 1 \<longleftrightarrow> 16 \<le> b \<and> b \<le> 31" "b div 64 = 1 \<longleftrightarrow> 64 \<le> b \<and> b \<le> 127"
    "b div 16 = 14 \<longleftrightarrow> 224 \<le> b \<and> b \<le> 239" "b div 16 = 15 \<longleftrightarrow> 240 \<le> b \<and> b \<le> 255"
  by (simp_all add: div_eq_iff_range less_Suc_eq_le [symmetric])

lemma in_private_cidrs:
  assumes "unat v = quad a b c d" "a \<le> 255" "b \<le> 255" "c \<le> 255" "d \<le> 255"
  shows "list_ex (v4InCidr v) PRIVATE_V4_CIDRS \<longleftrightarrow>
     a = 10 \<or> (a = 172 \<and> 16 \<le> b \<and> b \<le> 31) \<or> (a = 192 \<and> b = 168) \<or> a = 127 \<or> (a = 169 \<and> b = 254) \<or>
     (a = 100 \<and> 64 \<le> b \<and> b \<le> 127) \<or> a = 0 \<or> (224 \<le> a \<and> a \<le> 239) \<or> (240 \<le> a \<and> a \<le> 255)"
proof -
  have "list_ex (v4InCidr v) PRIVATE_V4_CIDRS \<longleftrightarrow>
      a = 10 \<or> a * 16 + b div 16 = 2753 \<or> a * 256 + b = 49320 \<or> a = 127 \<or> a * 256 + b = 43518 \<or> a * 4 + b div 64 = 401 \<or>
      a = 0 \<or> a div 16 = 14 \<or> a div 16 = 15"
    unfolding PRIVATE_V4_CIDRS_eq by (simp add: v4InCidr_iff in_range_def assms(1) quad_div [OF assms(3-5)])
  moreover have "b div 16 \<le> 15" "b div 64 \<le> 3"
    using div_le_mono [OF assms(3), of 16] div_le_mono [OF assms(3), of 64] by simp_all
  ultimately show ?thesis by (simp only: lead_bits_iff div_range_iff assms(3))
qed

lemma cloud_ips_link_local:
  "dotted_quad ip = Some [ga, gb, gc, gd] \<Longrightarrow> ip \<in> set FORBIDDEN_CLOUD_IPS \<Longrightarrow>
   digits_value 10 0 ga = 169 \<and> digits_value 10 0 gb = 254"
proof -
  have "dotted_quad ''169.254.169.254'' = Some [''169'', ''254'', ''169'', ''254'']" "dotted_quad ''169.254.170.2'' = Some [''169'', ''254'', ''170'', ''2'']"
    "digits_value 10 0 ''169'' = 169" "digits_value 10 0 ''254'' = 254" by code_simp+
  then show "dotted_quad ip = Some [ga, gb, gc, gd] \<Longrightarrow> ip \<in> set FORBIDDEN_CLOUD_IPS \<Longrightarrow>
     digits_value 10 0 ga = 169 \<and> digits_value 10 0 gb = 254" by (auto simp: FORBIDDEN_CLOUD_IPS_def)
qed

lemma ipDenied_quad:
  assumes "dotted_quad ip = Some [ga, gb, gc, gd]"
    and "digits_value 10 0 ga = a" "digits_value 10 0 gb = b" "digits_value 10 0 gc = c" "digits_value 10 0 gd = d"
    and "a \<le> 255" "b \<le> 255" "c \<le> 255" "d \<le> 255"
  shows "ipDenied ip \<longleftrightarrow> a \<in> {0, 10, 127} \<or> 224 \<le> a \<or> (a = 172 \<and> 16 \<le> b \<and> b \<le> 31) \<or> (a = 192 \<and> b = 168) \<or>
     (a = 169 \<and> b = 254) \<or> (a = 100 \<and> 64 \<le> b \<and> b \<le> 127)"
proof -
  note q = v4ToUint32_quad [OF assms]
  have "ipDenied ip \<longleftrightarrow> ip \<in> set FORBIDDEN_CLOUD_IPS \<or> list_ex (v4InCidr (of_nat (quad a b c d))) PRIVATE_V4_CIDRS"
    by (simp add: ipDenied_def q(1))
  moreover have "ip \<in> set FORBIDDEN_CLOUD_IPS \<Longrightarrow> a = 169 \<and> b = 254" using cloud_ips_link_local assms(1-3) by blast
  moreover have "224 \<le> a \<longleftrightarrow> (224 \<le> a \<and> a \<le> 239) \<or> (240 \<le> a \<and> a \<le> 255)" using assms(6) by linarith
  ultimately show ?thesis unfolding in_private_cidrs [OF q(2) assms(6-9)] by blast
qed

text \<open>C28. The bit arithmetic of the deny list means what the comments say: of the dotted quads, exactly the private, loopback, link-local,
  carrier-grade NAT, this-network, multicast and reserved addresses are denied (the metadata addresses among them).\<close>
theorem ipDenied_v4_iff:
  assumes "dotted_quad ip = Some [ga, gb, gc, gd]"
    and "digits_value 10 0 ga = a" "digits_value 10 0 gb = b" "digits_value 10 0 gc = c" "digits_value 10 0 gd = d"
    and "a \<le> 255" "b \<le> 255" "c \<le> 255" "d \<le> 255"
  shows "ipDenied ip \<longleftrightarrow> a \<in> {0, 10, 127} \<or> 224 \<le> a \<or> (a = 172 \<and> 16 \<le> b \<and> b \<le> 31) \<or> (a = 192 \<and> b = 168) \<or>
     (a = 169 \<and> b = 254) \<or> (a = 100 \<and> 64 \<le> b \<and> b \<le> 127)"
  by (rule ipDenied_quad [OF assms])

lemma ipDenied_v4_iff_witness: "ipDenied ''172.31.0.1'' \<and> \<not> ipDenied ''172.32.0.1''"
proof -
  have "dotted_quad ''172.31.0.1'' = Some [''172'', ''31'', ''0'', ''1'']" "dotted_quad ''172.32.0.1'' = Some [''172'', ''32'', ''0'', ''1'']"
    "digits_value 10 0 ''172'' = 172" "digits_value 10 0 ''31'' = 31" "digits_value 10 0 ''32'' = 32" "digits_value 10 0 ''0'' = 0"
    "digits_value 10 0 ''1'' = 1" by code_simp+
  then show ?thesis using ipDenied_v4_iff [of "''172.31.0.1''"] ipDenied_v4_iff [of "''172.32.0.1''"] by simp
qed

section \<open>What reaches the network\<close>

lemma js_trim_keeps: "c \<in> set s \<Longrightarrow> \<not> is_space c \<Longrightarrow> c \<in> set (js_trim s)"
proof -
  have d: "c \<in> set (dropWhile is_space t)" if "c \<in> set t" "\<not> is_space c" for t
    using that by (induction t) auto
  show "c \<in> set s \<Longrightarrow> \<not> is_space c \<Longrightarrow> c \<in> set (js_trim s)"
    unfolding js_trim_def using d [of "s"] d [of "rev (dropWhile is_space s)"] by simp
qed


definition demo_net :: "(string \<Rightarrow> string list option) \<Rightarrow> net" where
  "demo_net res = \<lparr> net_parse = (\<lambda>u. Some \<lparr> u_protocol = ''https:'', u_hostname = u, u_host = u, u_pathname = ''/'', u_search = [] \<rparr>),
     net_resolve = res, net_fetch = (\<lambda>_. Fetched 200 []) \<rparr>"


text \<open>The deny list does not see through IPv4-mapped IPv6 addresses: no address written as \<^verbatim>\<open>::ffff:\<close> and a dotted quad is
  denied, whatever the quad, and so a host whose only record is such an address for a private network passes; and a
  tailnet subscriber whose host resolves to an address of the tailnet range is always refused.\<close>
theorem mapped_v4_passes_tailnet_refused:
  assumes "dotted_quad q = Some gs" "dotted_quad ip = Some [''100'', gb, gc, gd]" "64 \<le> digits_value 10 0 gb" "digits_value 10 0 gb \<le> 127"
    and "digits_value 10 0 gc \<le> 255" "digits_value 10 0 gd \<le> 255"
    and "net_parse N url = Some u" "net_resolve N (u_hostname u) = Some ips" "ip \<in> set ips"
  shows "\<not> ipDenied (''::ffff:'' @ q) \<and> fst (safeFetch N url Tailnet meth hdrs body mx) = []"
proof -
  have dot: "CHR ''.'' \<in> set q"
  proof (rule ccontr)
    assume "CHR ''.'' \<notin> set q"
    then have "length (js_split (CHR ''.'') q) = 1" using js_split_notin [of "CHR ''.''" q] by simp
    then show False using assms(1) by (simp add: dotted_quad_def)
  qed
  have "CHR ''.'' \<in> set (js_trim (js_lower (''::ffff:'' @ q)))"
    by (rule js_trim_keeps) (use dot in \<open>auto simp: js_lower_def js_lower_char_def is_space_def intro!: image_eqI [of _ _ "CHR ''.''"]\<close>)
  then have "normaliseV6 (''::ffff:'' @ q) = None"
    by (auto simp: normaliseV6_def Let_def list_all_iff hex_or_colon_def is_digit_def)
  moreover have "v4ToUint32 (''::ffff:'' @ q) = None"
  proof -
    obtain y ys where "js_split (CHR ''.'') q = y # ys" by (metis js_split_nonempty neq_Nil_conv)
    then show ?thesis by (simp add: v4ToUint32_def dotted_quad_def is_digit_def)
  qed
  ultimately have "\<not> ipDenied (''::ffff:'' @ q)" by (simp add: ipDenied_def ipv6Denied_def)
  moreover have "digits_value 10 0 ''100'' = 100" by code_simp
  then have "ipDenied ip" using ipDenied_quad [OF assms(2) refl refl refl refl] assms(3-6) by simp
  then have "list_ex ipDenied ips" using assms(9) by (auto simp: list_ex_iff)
  then have "fst (safeFetch N url Tailnet meth hdrs body mx) = []"
    using assms(7,8) by (simp add: safeFetch_def split: SsrfResult.splits)
  ultimately show ?thesis by blast
qed

lemma mapped_v4_passes_tailnet_refused_witness:
  "\<not> ipDenied (''::ffff:'' @ ''10.0.0.1'') \<and> fst (safeFetch (demo_net (\<lambda>_. Some [''100.100.1.2''])) ''a.ts.net'' Tailnet ''POST'' [] [] 10) = []"
proof -
  have "dotted_quad ''10.0.0.1'' = Some [''10'', ''0'', ''0'', ''1'']" "dotted_quad ''100.100.1.2'' = Some [''100'', ''100'', ''1'', ''2'']"
    "digits_value 10 0 ''100'' = 100" "digits_value 10 0 ''1'' = 1" "digits_value 10 0 ''2'' = 2" by code_simp+
  then show ?thesis
    by (intro mapped_v4_passes_tailnet_refused [where u = "\<lparr> u_protocol = ''https:'', u_hostname = ''a.ts.net'', u_host = ''a.ts.net'', u_pathname = ''/'', u_search = [] \<rparr>"
          and ips = "[''100.100.1.2'']"]) (auto simp: demo_net_def)
qed

end
