(* ===== verification/Fanout.thy ===== *)
theory Fanout
  imports Ssrf OutConsumer Pipeline
begin

text \<open>
  The webhook consumer of the API worker: \<^verbatim>\<open>services/api/src/queue/fanout.ts\<close> and the public object URLs of
  \<^verbatim>\<open>services/api/src/lib/r2-public-url.ts\<close>. The world is the subscriptions, the messages, the delivery rows, the
  dead letters, the data points and the requests that left. \<open>mimeToMessage\<close>, the attachment walker, \<^verbatim>\<open>JSON\<close>, the
  network and the clock are parameters; a call also says which database accesses fail.
\<close>

section \<open>Data\<close>

record FanoutEvent =
  fv_event_id :: string
  fv_event :: string
  fv_message_id :: string
  fv_mailbox_id :: "string option"
  fv_webhook_sub_id :: "string option"
  fv_created_at :: int

record SubRow =
  ws_id :: string
  ws_mailbox_id :: string
  ws_url :: string
  ws_kind :: sub_kind
  ws_secret :: string
  ws_events :: string \<comment> \<open>JSON\<close>
  ws_paused_at :: "string option"
  ws_disabled_at :: "string option"

record MessageRowFull = MessageRowMeta +
  mr_r2_key :: string

record delivery_row =
  dl_message_id :: string
  dl_webhook_sub_id :: string
  dl_status :: string
  dl_attempts :: nat
  dl_next_attempt_at :: "string option"
  dl_last_error :: "string option"
  dl_last_response_code :: "nat option"
  dl_created_at :: string

record dlq_row =
  dq_id :: string
  dq_message_id :: string
  dq_webhook_sub_id :: string
  dq_payload_sha256 :: string
  dq_last_status_code :: nat
  dq_last_error :: string
  dq_attempts :: nat
  dq_dlq_at :: string

record data_point =
  pt_indexes :: "string list"
  pt_blobs :: "string list"

record fan_world =
  fw_subs :: "SubRow list"
  fw_messages :: "string \<Rightarrow> MessageRowFull option"
  fw_r2 :: "string \<Rightarrow> bytes option"
  fw_deliveries :: "delivery_row list"
  fw_dlq :: "dlq_row list"
  fw_points :: "data_point list"
  fw_requests :: "http_request list"

record webhook_attachment =
  wa_meta :: MessageAttachmentMeta
  wa_url :: "string option"

record webhook_message =
  wm_message :: UnifiedMessage
  wm_body_url :: "string option"
  wm_attachments :: "webhook_attachment list"

record envelope =
  en_event_id :: string
  en_event :: string
  en_occurred_at :: string
  en_message :: webhook_message

record fan_platform =
  fp_crypto :: platform
  fp_iso :: "int \<Rightarrow> string"
  fp_mime :: mime_runtime
  fp_stringify :: "envelope \<Rightarrow> string"
  fp_parse :: "string \<Rightarrow> json option"
  fp_host :: string \<comment> \<open>\<^verbatim>\<open>R2_PUBLIC_HOST\<close>\<close>

text \<open>Fresh values are per subscription: an event is posted to several.\<close>
record fan_call =
  fc_now :: int
  fc_rnd :: "string \<Rightarrow> bytes"
  fc_ulid :: "string \<Rightarrow> nat \<Rightarrow> string"
  fc_net :: net
  fc_fails :: "string \<Rightarrow> bool"

definition statusClass :: "nat \<Rightarrow> string" where
  "statusClass status =
     (if status = 0 then ''net''
      else if 200 \<le> status \<and> status < 300 then ''succeeded''
      else if 400 \<le> status \<and> status < 500 then ''client''
      else if 500 \<le> status \<and> status < 600 then ''server''
      else ''other'')"

section \<open>Public object URLs\<close>

definition bare_host :: "string \<Rightarrow> string" where
  "bare_host h =
     (let s = (if starts_with ''https://'' h then drop 8 h else if starts_with ''http://'' h then drop 7 h else h)
      in rev (dropWhile (\<lambda>c. c = CHR ''/'') (rev s)))"

definition r2PublicUrl :: "string \<Rightarrow> string \<Rightarrow> string option \<Rightarrow> string" where
  "r2PublicUrl host key filename =
     ''https://'' @ bare_host host @ ''/'' @ dropWhile (\<lambda>c. c = CHR ''/'') key @
     (case filename of None \<Rightarrow> [] | Some f \<Rightarrow> if f = [] then [] else ''/'' @ js_encodeURIComponent f)"

definition attachmentR2Key :: "string \<Rightarrow> string \<Rightarrow> string" where
  "attachmentR2Key sha filename =
     (let safeName = take 255 (map (\<lambda>c. if c = CHR ''/'' \<or> code c = 92 then CHR ''_'' else c) filename)
      in ''att/'' @ sha @ ''/'' @ (if safeName = [] then ''attachment'' else safeName))"

section \<open>Envelope\<close>

fun link_attachments :: "fan_platform \<Rightarrow> webhook_attachment list \<Rightarrow> ExtractedAttachment list \<Rightarrow> webhook_attachment list" where
  "link_attachments P (a # as) (part # parts) =
     a\<lparr>wa_url := Some (r2PublicUrl (fp_host P) (attachmentR2Key (sha256Hex (fp_crypto P) (ea_bytes part)) (ea_filename part))
         (Some (ea_filename part)))\<rparr> # link_attachments P as parts"
| "link_attachments P as parts = as"

text \<open>The body, or nothing when the row or the object is gone.\<close>
definition buildEnvelope :: "fan_platform \<Rightarrow> fan_call \<Rightarrow> FanoutEvent \<Rightarrow> fan_world \<Rightarrow> string + string option" where
  "buildEnvelope P c ev w =
     (if fc_fails c ''select message'' then Inl ''select message''
      else case fw_messages w (fv_message_id ev) of
        None \<Rightarrow> Inr None
      | Some row \<Rightarrow>
          if fc_fails c ''get object'' then Inl ''get object''
          else case fw_r2 w (mr_r2_key row) of
            None \<Rightarrow> Inr None
          | Some raw \<Rightarrow>
              (case mimeToMessage (fp_mime P) (fp_parse P) raw (MessageRowMeta.truncate row) of
                 Inl _ \<Rightarrow> Inl ''mime''
               | Inr message \<Rightarrow>
                   (case extractAttachmentParts (fp_mime P) raw of
                      Inl _ \<Rightarrow> Inl ''mime''
                    | Inr parts \<Rightarrow>
                        let m = \<lparr> wm_message = message, wm_body_url = Some (r2PublicUrl (fp_host P) (mr_r2_key row) None),
                              wm_attachments = link_attachments P (map (\<lambda>a. \<lparr> wa_meta = a, wa_url = None \<rparr>) (um_attachments message)) parts \<rparr>
                        in Inr (Some (fp_stringify P \<lparr> en_event_id = fv_event_id ev, en_event = fv_event ev,
                             en_occurred_at = fp_iso P (fv_created_at ev), en_message = m \<rparr>)))))"

section \<open>One delivery\<close>

text \<open>One statement: it fails, or it changes the tables.\<close>
definition stmt :: "fan_call \<Rightarrow> string \<Rightarrow> (fan_world \<Rightarrow> fan_world) \<Rightarrow> fan_world \<Rightarrow> fan_world \<times> (string + unit)" where
  "stmt c name f w = (if fc_fails c name then (w, Inl name) else (f w, Inr ()))"

definition is_delivery :: "string \<Rightarrow> string \<Rightarrow> delivery_row \<Rightarrow> bool" where
  "is_delivery mid sid r = (dl_message_id r = mid \<and> dl_webhook_sub_id r = sid)"

definition insert_delivery :: "string \<Rightarrow> string \<Rightarrow> string \<Rightarrow> fan_world \<Rightarrow> fan_world" where
  "insert_delivery mid sid nowIso w =
     (if list_ex (is_delivery mid sid) (fw_deliveries w) then w
      else w\<lparr>fw_deliveries := fw_deliveries w @ [\<lparr> dl_message_id = mid, dl_webhook_sub_id = sid, dl_status = ''pending'', dl_attempts = 0,
               dl_next_attempt_at = Some nowIso, dl_last_error = None, dl_last_response_code = None, dl_created_at = nowIso \<rparr>]\<rparr>)"

definition update_delivery :: "string \<Rightarrow> string \<Rightarrow> (delivery_row \<Rightarrow> delivery_row) \<Rightarrow> fan_world \<Rightarrow> fan_world" where
  "update_delivery mid sid f w = w\<lparr>fw_deliveries := map (\<lambda>r. if is_delivery mid sid r then f r else r) (fw_deliveries w)\<rparr>"

definition mark_delivered :: "string \<Rightarrow> string \<Rightarrow> fan_world \<Rightarrow> fan_world" where
  "mark_delivered nowIso mid w =
     (case fw_messages w mid of
        None \<Rightarrow> w
      | Some r \<Rightarrow> if rm_status r \<in> {''sent'', ''sending'', ''received''}
          then w\<lparr>fw_messages := (fw_messages w)(mid \<mapsto> r\<lparr>rm_status := ''delivered'', rm_delivered_at := Some nowIso\<rparr>)\<rparr> else w)"

definition maybeMarkDelivered :: "fan_platform \<Rightarrow> fan_call \<Rightarrow> string \<Rightarrow> fan_world \<Rightarrow> fan_world \<times> (string + unit)" where
  "maybeMarkDelivered P c mid w =
     (if fc_fails c ''select deliveries'' then (w, Inl ''select deliveries'')
      else let rows = filter (\<lambda>r. dl_message_id r = mid) (fw_deliveries w);
               unfinished = length (filter (\<lambda>r. dl_status r \<noteq> ''succeeded'') rows)
           in if length rows = 0 then (w, Inr ())
              else if unfinished > 0 then (w, Inr ())
              else stmt c ''update delivered'' (mark_delivered (fp_iso P (fc_now c)) mid) w)"

definition webhook_headers :: "fan_call \<Rightarrow> FanoutEvent \<Rightarrow> SubRow \<Rightarrow> string \<Rightarrow> (string \<times> string) list" where
  "webhook_headers c ev sub sig =
     [(''content-type'', ''application/json''), (''x-polaris-ts'', int_to_string (fc_now c)),
      (''x-polaris-nonce'', generateNonce (fc_rnd c (ws_id sub))), (''x-polaris-sig'', sig),
      (''x-polaris-event-id'', fv_event_id ev), (''x-polaris-event'', fv_event ev),
      (''x-polaris-delivery-id'', fc_ulid c (ws_id sub) 0)]"

definition webhook_canonical :: "fan_call \<Rightarrow> SubRow \<Rightarrow> url_parts \<Rightarrow> string \<Rightarrow> canonical_input" where
  "webhook_canonical c sub u body =
     \<lparr> ci_direction = Polaris_webhook, ci_method = ''POST'', ci_path = u_pathname u, ci_query = QString (u_search u),
       ci_ts = int_to_string (fc_now c), ci_nonce = generateNonce (fc_rnd c (ws_id sub)), ci_body = Text body \<rparr>"

text \<open>The signed request: what left, and its result or the exception.\<close>
definition signed_post :: "fan_platform \<Rightarrow> fan_call \<Rightarrow> FanoutEvent \<Rightarrow> SubRow \<Rightarrow> string \<Rightarrow> http_request list \<times> (string + SafeFetchResult)" where
  "signed_post P c ev sub body =
     (case net_parse (fc_net c) (ws_url sub) of
        None \<Rightarrow> ([], Inl ''Invalid URL'')
      | Some u \<Rightarrow>
          (case sign (fp_crypto P) (webhook_canonical c sub u body) (Text (ws_secret sub)) of
             Inl e \<Rightarrow> ([], Inl e)
           | Inr sig \<Rightarrow> safeFetch (fc_net c) (ws_url sub) (ws_kind sub) ''POST'' (webhook_headers c ev sub sig) body (1024 * 1024)))"

definition backoff_ms :: "nat \<Rightarrow> int" where
  "backoff_ms attempts = min (60000 * 2 ^ attempts) (60 * 60000)"

text \<open>Lines 278 to 326; the result is an error when the queue is to retry.\<close>
definition delivery_failed :: "fan_platform \<Rightarrow> fan_call \<Rightarrow> FanoutEvent \<Rightarrow> SubRow \<Rightarrow> string \<Rightarrow> SafeFetchResult \<Rightarrow> fan_world \<Rightarrow> fan_world \<times> (string + unit)" where
  "delivery_failed P c ev sub body res w =
     (let mid = fv_message_id ev; sid = ws_id sub; err = take 256 (sf_body res) in
      andE (stmt c ''update attempts'' (update_delivery mid sid (\<lambda>r. r\<lparr>dl_attempts := dl_attempts r + 1,
              dl_last_error := Some err, dl_last_response_code := Some (sf_status res)\<rparr>)) w) (\<lambda>w _.
      let attempts = (case find (is_delivery mid sid) (fw_deliveries w) of None \<Rightarrow> 1 | Some r \<Rightarrow> dl_attempts r);
          isTerminal = (attempts \<ge> 6);
          nextAttemptAt = (if isTerminal then None else Some (fp_iso P (fc_now c + backoff_ms attempts)))
      in andE (stmt c ''update status'' (update_delivery mid sid (\<lambda>r. r\<lparr>dl_status := (if isTerminal then ''dlq'' else ''failed''),
                 dl_next_attempt_at := nextAttemptAt\<rparr>)) w) (\<lambda>w _.
         if isTerminal
         then stmt c ''insert dlq'' (\<lambda>w. w\<lparr>fw_dlq := fw_dlq w @ [\<lparr> dq_id = fc_ulid c sid 1, dq_message_id = mid, dq_webhook_sub_id = sid,
                dq_payload_sha256 = sha256Hex (fp_crypto P) (text_encode body), dq_last_status_code = sf_status res,
                dq_last_error = err, dq_attempts = attempts, dq_dlq_at = fp_iso P (fc_now c) \<rparr>]\<rparr>) w
         else (w, Inl (''webhook '' @ sid @ '' failed '' @ int_to_string (int (sf_status res)))))))"

definition record_point :: "SubRow \<Rightarrow> SafeFetchResult \<Rightarrow> fan_world \<Rightarrow> fan_world" where
  "record_point sub res w = w\<lparr>fw_points := fw_points w @ [\<lparr> pt_indexes = [ws_id sub, statusClass (sf_status res)],
     pt_blobs = [if sf_ok res then ''succeeded'' else ''failed'', int_to_string (int (sf_status res))] \<rparr>]\<rparr>"

definition deliverToSub :: "fan_platform \<Rightarrow> fan_call \<Rightarrow> FanoutEvent \<Rightarrow> SubRow \<Rightarrow> string \<Rightarrow> fan_world \<Rightarrow> fan_world \<times> (string + unit)" where
  "deliverToSub P c ev sub body w =
     andE (stmt c ''insert delivery'' (insert_delivery (fv_message_id ev) (ws_id sub) (fp_iso P (fc_now c))) w) (\<lambda>w _.
     case signed_post P c ev sub body of
       (reqs, Inl e) \<Rightarrow> (w\<lparr>fw_requests := fw_requests w @ reqs\<rparr>, Inl e)
     | (reqs, Inr res) \<Rightarrow>
         let w = record_point sub res (w\<lparr>fw_requests := fw_requests w @ reqs\<rparr>) in
         if sf_ok res
         then andE (stmt c ''update succeeded'' (update_delivery (fv_message_id ev) (ws_id sub)
                (\<lambda>r. r\<lparr>dl_status := ''succeeded'', dl_last_response_code := Some (sf_status res)\<rparr>)) w)
                (\<lambda>w _. maybeMarkDelivered P c (fv_message_id ev) w)
         else delivery_failed P c ev sub body res w)"

section \<open>One event\<close>

definition live_sub :: "SubRow \<Rightarrow> bool" where
  "live_sub s = (ws_paused_at s = None \<and> ws_disabled_at s = None)"

definition subs_for :: "FanoutEvent \<Rightarrow> fan_world \<Rightarrow> SubRow list" where
  "subs_for ev w =
     (case fv_webhook_sub_id ev of
        Some sid \<Rightarrow> if sid \<noteq> [] then take 1 (filter (\<lambda>s. ws_id s = sid \<and> live_sub s) (fw_subs w))
                    else filter (\<lambda>s. Some (ws_mailbox_id s) = fv_mailbox_id ev \<and> live_sub s) (fw_subs w)
      | None \<Rightarrow> filter (\<lambda>s. Some (ws_mailbox_id s) = fv_mailbox_id ev \<and> live_sub s) (fw_subs w))"

text \<open>\<^verbatim>\<open>events.includes\<close> on whatever was parsed.\<close>
definition events_include :: "json \<Rightarrow> string \<Rightarrow> bool option" where
  "events_include j e = (case j of JArr xs \<Rightarrow> Some (JStr e \<in> set xs) | JStr s \<Rightarrow> Some (js_includes e s) | _ \<Rightarrow> None)"

fun deliver_subs :: "fan_platform \<Rightarrow> fan_call \<Rightarrow> FanoutEvent \<Rightarrow> string \<Rightarrow> SubRow list \<Rightarrow> fan_world \<Rightarrow> fan_world \<times> (string + unit)" where
  "deliver_subs P c ev body [] w = (w, Inr ())"
| "deliver_subs P c ev body (sub # subs) w =
     (case fp_parse P (ws_events sub) of
        None \<Rightarrow> deliver_subs P c ev body subs w
      | Some j \<Rightarrow>
          (case events_include j (fv_event ev) of
             None \<Rightarrow> (w, Inl ''events.includes is not a function'')
           | Some False \<Rightarrow> deliver_subs P c ev body subs w
           | Some True \<Rightarrow> andE (deliverToSub P c ev sub body w) (\<lambda>w _. deliver_subs P c ev body subs w)))"

definition deliver :: "fan_platform \<Rightarrow> fan_call \<Rightarrow> FanoutEvent \<Rightarrow> fan_world \<Rightarrow> fan_world \<times> (string + unit)" where
  "deliver P c ev w =
     (if fc_fails c ''select subs'' then (w, Inl ''select subs'')
      else if subs_for ev w = [] then (w, Inr ())
      else case buildEnvelope P c ev w of
        Inl e \<Rightarrow> (w, Inl e)
      | Inr None \<Rightarrow> (w, Inr ())
      | Inr (Some body) \<Rightarrow> deliver_subs P c ev body (subs_for ev w) w)"

text \<open>The messages of a batch, each with its acknowledgement (\<^const>\<open>True\<close>) or retry.\<close>
fun fanoutQueueConsumer :: "fan_platform \<Rightarrow> (fan_call \<times> FanoutEvent) list \<Rightarrow> fan_world \<Rightarrow> fan_world \<times> bool list" where
  "fanoutQueueConsumer P [] w = (w, [])"
| "fanoutQueueConsumer P ((c, ev) # ms) w =
     (case deliver P c ev w of
        (w1, r) \<Rightarrow> (case fanoutQueueConsumer P ms w1 of (w2, acks) \<Rightarrow> (w2, (case r of Inr _ \<Rightarrow> True | Inl _ \<Rightarrow> False) # acks)))"

section \<open>Attempts\<close>

abbreviation row_for :: "FanoutEvent \<Rightarrow> SubRow \<Rightarrow> fan_world \<Rightarrow> delivery_row option" where
  "row_for ev sub w \<equiv> find (is_delivery (fv_message_id ev) (ws_id sub)) (fw_deliveries w)"

definition tries :: "FanoutEvent \<Rightarrow> SubRow \<Rightarrow> fan_world \<Rightarrow> nat" where
  "tries ev sub w = (case row_for ev sub w of None \<Rightarrow> 0 | Some r \<Rightarrow> dl_attempts r)"

definition delivery_status :: "FanoutEvent \<Rightarrow> SubRow \<Rightarrow> fan_world \<Rightarrow> string option" where
  "delivery_status ev sub w = map_option dl_status (row_for ev sub w)"

text \<open>The tables a delivery only reads.\<close>
definition same_reads :: "fan_world \<Rightarrow> fan_world \<Rightarrow> bool" where
  "same_reads w w' = (fw_subs w' = fw_subs w \<and> fw_messages w' = fw_messages w \<and> fw_r2 w' = fw_r2 w)"

lemma find_map_if: "(\<And>r. p r \<Longrightarrow> p (f r)) \<Longrightarrow> find p (map (\<lambda>r. if p r then f r else r) xs) = map_option f (find p xs)"
  by (induction xs) auto

lemma find_append: "find p (xs @ ys) = (case find p xs of None \<Rightarrow> find p ys | Some x \<Rightarrow> Some x)"
  by (induction xs) auto

lemma stmt_ok [simp]: "\<not> fc_fails c n \<Longrightarrow> stmt c n f w = (f w, Inr ())"
  by (simp add: stmt_def)

lemma is_delivery_keys [simp]:
  "is_delivery m s (r\<lparr>dl_attempts := a\<rparr>) = is_delivery m s r" "is_delivery m s (r\<lparr>dl_status := t\<rparr>) = is_delivery m s r"
  "is_delivery m s (r\<lparr>dl_next_attempt_at := n\<rparr>) = is_delivery m s r" "is_delivery m s (r\<lparr>dl_last_error := e\<rparr>) = is_delivery m s r"
  "is_delivery m s (r\<lparr>dl_last_response_code := d\<rparr>) = is_delivery m s r"
  by (simp_all add: is_delivery_def)

lemma update_delivery_fields [simp]:
  "fw_subs (update_delivery m s f w) = fw_subs w" "fw_messages (update_delivery m s f w) = fw_messages w"
  "fw_r2 (update_delivery m s f w) = fw_r2 w" "fw_dlq (update_delivery m s f w) = fw_dlq w"
  "fw_requests (update_delivery m s f w) = fw_requests w" "fw_points (update_delivery m s f w) = fw_points w"
  by (simp_all add: update_delivery_def)

lemma find_update_delivery:
  "(\<And>r. is_delivery m s r \<Longrightarrow> is_delivery m s (f r)) \<Longrightarrow>
   find (is_delivery m s) (fw_deliveries (update_delivery m s f w)) = map_option f (find (is_delivery m s) (fw_deliveries w))"
  by (simp add: update_delivery_def find_map_if)

lemma insert_delivery_fields [simp]:
  "fw_subs (insert_delivery m s n w) = fw_subs w" "fw_messages (insert_delivery m s n w) = fw_messages w"
  "fw_r2 (insert_delivery m s n w) = fw_r2 w" "fw_dlq (insert_delivery m s n w) = fw_dlq w"
  "fw_requests (insert_delivery m s n w) = fw_requests w" "fw_points (insert_delivery m s n w) = fw_points w"
  by (simp_all add: insert_delivery_def)

lemma insert_delivery_row:
  "\<exists>r. row_for ev sub (insert_delivery (fv_message_id ev) (ws_id sub) n w) = Some r \<and> dl_attempts r = tries ev sub w"
proof (cases "list_ex (is_delivery (fv_message_id ev) (ws_id sub)) (fw_deliveries w)")
  case True
  then have "row_for ev sub w \<noteq> None" by (auto simp: find_None_iff list_ex_iff)
  then show ?thesis using True by (auto simp: insert_delivery_def tries_def)
next
  case False
  then have "row_for ev sub w = None" by (auto simp: find_None_iff list_ex_iff)
  then show ?thesis using False by (simp add: insert_delivery_def tries_def find_append is_delivery_def)
qed

lemma record_point_fields [simp]:
  "fw_subs (record_point sub res w) = fw_subs w" "fw_messages (record_point sub res w) = fw_messages w"
  "fw_r2 (record_point sub res w) = fw_r2 w" "fw_dlq (record_point sub res w) = fw_dlq w"
  "fw_requests (record_point sub res w) = fw_requests w" "fw_deliveries (record_point sub res w) = fw_deliveries w"
  by (simp_all add: record_point_def)

text \<open>A refusal is counted: below the sixth the queue retries, the sixth is a dead letter.\<close>
lemma delivery_failed_counts:
  assumes "\<And>n. \<not> fc_fails c n" "row_for ev sub w = Some row" "delivery_failed P c ev sub body res w = (w', r)"
  shows "same_reads w w'" "fw_requests w' = fw_requests w" "tries ev sub w' = Suc (dl_attempts row)"
    "delivery_status ev sub w' = Some (if dl_attempts row \<ge> 5 then ''dlq'' else ''failed'')"
    "r = Inr () \<longleftrightarrow> dl_attempts row \<ge> 5"
    "\<exists>d. fw_dlq w' = fw_dlq w @ (if dl_attempts row \<ge> 5 then [d] else []) \<and> dq_message_id d = fv_message_id ev \<and>
       dq_webhook_sub_id d = ws_id sub \<and> dq_attempts d = Suc (dl_attempts row)"
proof -
  let ?m = "fv_message_id ev" and ?s = "ws_id sub"
  let ?f = "\<lambda>r. r\<lparr>dl_attempts := dl_attempts r + 1, dl_last_error := Some (take 256 (sf_body res)), dl_last_response_code := Some (sf_status res)\<rparr>"
  let ?w1 = "update_delivery ?m ?s ?f w"
  have r1: "row_for ev sub ?w1 = Some (?f row)" using assms(2) by (subst find_update_delivery) auto
  define t where "t = (dl_attempts row \<ge> 5)"
  let ?g = "\<lambda>r. r\<lparr>dl_status := (if t then ''dlq'' else ''failed''),
     dl_next_attempt_at := (if t then None else Some (fp_iso P (fc_now c + backoff_ms (Suc (dl_attempts row)))))\<rparr>"
  let ?w2 = "update_delivery ?m ?s ?g ?w1"
  have r2: "row_for ev sub ?w2 = Some (?g (?f row))" using r1 by (subst find_update_delivery) auto
  have "(w', r) = (if t then (?w2\<lparr>fw_dlq := fw_dlq ?w2 @ [\<lparr> dq_id = fc_ulid c ?s 1, dq_message_id = ?m, dq_webhook_sub_id = ?s,
                dq_payload_sha256 = sha256Hex (fp_crypto P) (text_encode body), dq_last_status_code = sf_status res,
                dq_last_error = take 256 (sf_body res), dq_attempts = Suc (dl_attempts row), dq_dlq_at = fp_iso P (fc_now c) \<rparr>]\<rparr>, Inr ())
       else (?w2, Inl (''webhook '' @ ?s @ '' failed '' @ int_to_string (int (sf_status res)))))"
    using assms(3) [symmetric] by (simp add: delivery_failed_def assms(1) r1 [simplified] t_def Let_def)
  then show "same_reads w w'" "fw_requests w' = fw_requests w" "tries ev sub w' = Suc (dl_attempts row)"
    "delivery_status ev sub w' = Some (if dl_attempts row \<ge> 5 then ''dlq'' else ''failed'')"
    "r = Inr () \<longleftrightarrow> dl_attempts row \<ge> 5"
    "\<exists>d. fw_dlq w' = fw_dlq w @ (if dl_attempts row \<ge> 5 then [d] else []) \<and> dq_message_id d = ?m \<and>
       dq_webhook_sub_id d = ?s \<and> dq_attempts d = Suc (dl_attempts row)"
    using r2 by (auto simp: same_reads_def tries_def delivery_status_def t_def [symmetric] split: if_splits
      intro: exI [of _ "\<lparr> dq_id = [], dq_message_id = ?m, dq_webhook_sub_id = ?s, dq_payload_sha256 = [], dq_last_status_code = 0,
        dq_last_error = [], dq_attempts = Suc (dl_attempts row), dq_dlq_at = [] \<rparr>"])
qed

lemma deliverToSub_refused:
  assumes "\<And>n. \<not> fc_fails c n" "signed_post P c ev sub body = (reqs, Inr res)" "\<not> sf_ok res" "deliverToSub P c ev sub body w = (w', r)"
  shows "same_reads w w'" "fw_requests w' = fw_requests w @ reqs" "tries ev sub w' = Suc (tries ev sub w)"
    "delivery_status ev sub w' = Some (if tries ev sub w \<ge> 5 then ''dlq'' else ''failed'')"
    "r = Inr () \<longleftrightarrow> tries ev sub w \<ge> 5"
    "\<exists>d. fw_dlq w' = fw_dlq w @ (if tries ev sub w \<ge> 5 then [d] else []) \<and> dq_message_id d = fv_message_id ev \<and>
       dq_webhook_sub_id d = ws_id sub \<and> dq_attempts d = Suc (tries ev sub w)"
proof -
  let ?w0 = "insert_delivery (fv_message_id ev) (ws_id sub) (fp_iso P (fc_now c)) w"
  let ?w1 = "record_point sub res (?w0\<lparr>fw_requests := fw_requests ?w0 @ reqs\<rparr>)"
  obtain row where row: "row_for ev sub ?w0 = Some row" "dl_attempts row = tries ev sub w"
    using insert_delivery_row [of ev sub _ w] by blast
  then have 1: "row_for ev sub ?w1 = Some row" by simp
  have 2: "delivery_failed P c ev sub body res ?w1 = (w', r)"
    using assms by (simp add: deliverToSub_def)
  note d = delivery_failed_counts [OF assms(1) 1 2, unfolded row(2)]
  show "same_reads w w'" using d(1) by (simp add: same_reads_def)
  show "fw_requests w' = fw_requests w @ reqs" using d(2) by simp
  show "tries ev sub w' = Suc (tries ev sub w)" by (rule d(3))
  show "delivery_status ev sub w' = Some (if tries ev sub w \<ge> 5 then ''dlq'' else ''failed'')" by (rule d(4))
  show "r = Inr () \<longleftrightarrow> tries ev sub w \<ge> 5" by (rule d(5))
  show "\<exists>d. fw_dlq w' = fw_dlq w @ (if tries ev sub w \<ge> 5 then [d] else []) \<and> dq_message_id d = fv_message_id ev \<and>
       dq_webhook_sub_id d = ws_id sub \<and> dq_attempts d = Suc (tries ev sub w)" using d(6) by simp
qed

section \<open>Redelivery\<close>

text \<open>The queue hands the event out again until it is acknowledged: how often it did, and whether it was.\<close>
fun redeliver :: "fan_platform \<Rightarrow> fan_call list \<Rightarrow> FanoutEvent \<Rightarrow> fan_world \<Rightarrow> fan_world \<times> nat \<times> bool" where
  "redeliver P [] ev w = (w, 0, False)"
| "redeliver P (c # cs) ev w =
     (case deliver P c ev w of
        (w', Inr _) \<Rightarrow> (w', 1, True)
      | (w', Inl _) \<Rightarrow> (case redeliver P cs ev w' of (w'', n, b) \<Rightarrow> (w'', Suc n, b)))"

text \<open>\<open>sub\<close> is the only subscriber, it asked for the event, and the message can be rendered.\<close>
definition sole_target :: "fan_platform \<Rightarrow> FanoutEvent \<Rightarrow> SubRow \<Rightarrow> string \<Rightarrow> fan_world \<Rightarrow> fan_call \<Rightarrow> bool" where
  "sole_target P ev sub body w c =
     ((\<forall>n. \<not> fc_fails c n) \<and> subs_for ev w = [sub] \<and> buildEnvelope P c ev w = Inr (Some body) \<and>
      (case fp_parse P (ws_events sub) of None \<Rightarrow> False | Some j \<Rightarrow> events_include j (fv_event ev) = Some True))"

definition refuses :: "fan_platform \<Rightarrow> FanoutEvent \<Rightarrow> SubRow \<Rightarrow> string \<Rightarrow> fan_call \<Rightarrow> bool" where
  "refuses P ev sub body c = (case snd (signed_post P c ev sub body) of Inl _ \<Rightarrow> False | Inr res \<Rightarrow> \<not> sf_ok res)"

definition breaks :: "fan_platform \<Rightarrow> FanoutEvent \<Rightarrow> SubRow \<Rightarrow> string \<Rightarrow> fan_call \<Rightarrow> bool" where
  "breaks P ev sub body c = (case snd (signed_post P c ev sub body) of Inl _ \<Rightarrow> True | Inr _ \<Rightarrow> False)"

lemma same_reads_subs: "same_reads w w' \<Longrightarrow> subs_for ev w' = subs_for ev w"
  by (auto simp: same_reads_def subs_for_def split: option.splits)

lemma same_reads_envelope: "same_reads w w' \<Longrightarrow> buildEnvelope P c ev w' = buildEnvelope P c ev w"
  by (auto simp: same_reads_def buildEnvelope_def split: option.splits)

lemma same_reads_target: "same_reads w w' \<Longrightarrow> sole_target P ev sub body w' c = sole_target P ev sub body w c"
  by (simp add: sole_target_def same_reads_subs same_reads_envelope)

lemma andE_unit: "andE x (\<lambda>w _. (w, Inr ())) = x"
  by (cases x; cases "snd x") auto

lemma deliver_sole:
  assumes "sole_target P ev sub body w c"
  shows "deliver P c ev w = deliverToSub P c ev sub body w"
  using assms by (auto simp: deliver_def sole_target_def andE_unit split: option.splits)

lemma redeliver_refused:
  assumes "\<forall>c \<in> set cs. sole_target P ev sub body w c \<and> refuses P ev sub body c" "tries ev sub w + n = 5" "n < length cs"
  shows "\<exists>w' d. redeliver P cs ev w = (w', Suc n, True) \<and> tries ev sub w' = 6 \<and> delivery_status ev sub w' = Some ''dlq'' \<and>
     fw_dlq w' = fw_dlq w @ [d] \<and> dq_message_id d = fv_message_id ev \<and> dq_webhook_sub_id d = ws_id sub \<and> dq_attempts d = 6 \<and>
     fw_messages w' = fw_messages w"
  using assms
proof (induction n arbitrary: cs w)
  case 0
  then obtain c cs' where cs: "cs = c # cs'" by (cases cs) auto
  then obtain reqs res where p: "signed_post P c ev sub body = (reqs, Inr res)" "\<not> sf_ok res"
    using 0 by (cases "signed_post P c ev sub body") (auto simp: refuses_def split: sum.splits)
  have f: "\<And>n. \<not> fc_fails c n" and s: "deliver P c ev w = deliverToSub P c ev sub body w"
    using 0 cs deliver_sole by (auto simp: sole_target_def)
  obtain w' r where w': "deliverToSub P c ev sub body w = (w', r)" by force
  from deliverToSub_refused [OF f p w'] show ?case using 0(2) cs s w' by (auto simp: same_reads_def)
next
  case (Suc n)
  then obtain c cs' where cs: "cs = c # cs'" by (cases cs) auto
  then obtain reqs res where p: "signed_post P c ev sub body = (reqs, Inr res)" "\<not> sf_ok res"
    using Suc(2) by (cases "signed_post P c ev sub body") (auto simp: refuses_def split: sum.splits)
  have f: "\<And>n. \<not> fc_fails c n" and s: "deliver P c ev w = deliverToSub P c ev sub body w"
    using Suc(2) cs deliver_sole by (auto simp: sole_target_def)
  obtain w1 r where w1: "deliverToSub P c ev sub body w = (w1, r)" by force
  note d = deliverToSub_refused [OF f p w1]
  have "\<forall>c \<in> set cs'. sole_target P ev sub body w1 c \<and> refuses P ev sub body c" using Suc(2) cs same_reads_target [OF d(1)] by simp
  moreover have "tries ev sub w1 + n = 5" "n < length cs'" using d(3) Suc(3,4) cs by auto
  moreover have "fw_dlq w1 = fw_dlq w" "fw_messages w1 = fw_messages w" using d(1,6) Suc(3) by (auto simp: same_reads_def)
  moreover obtain e where "r = Inl e" using d(5) Suc(3) by (cases r) auto
  ultimately show ?case using Suc(1) [of cs' w1] cs s w1 by auto
qed


text \<open>One subscription per URL, in a world where the endpoints \<^verbatim>\<open>bad\<close> and \<^verbatim>\<open>down\<close> answer with 500 and do not answer.\<close>
definition demo_fn :: net where
  "demo_fn = (demo_net (\<lambda>_. Some [''1.2.3.4'']))\<lparr>net_fetch := (\<lambda>req. if hq_url req = ''bad'' then Fetched 500 []
     else if hq_url req = ''down'' then Fetch_threw ''timeout'' else Fetched 200 [])\<rparr>"

definition demo_fp :: fan_platform where
  "demo_fp = \<lparr> fp_crypto = demo_platform, fp_iso = (\<lambda>_. ''T''), fp_mime = demo_runtime, fp_stringify = (\<lambda>_. ''{}''),
     fp_parse = (\<lambda>_. Some (JArr [JStr ''message.sent''])), fp_host = ''r2'' \<rparr>"

definition demo_mrow :: MessageRowFull where
  "demo_mrow = \<lparr> rm_id = ''m'', rm_mailbox_id = ''mb'', rm_direction = ''out'', rm_status = ''sent'', rm_thread_id = None,
     rm_header_message_id = None, rm_auth_spf = None, rm_auth_dkim = None, rm_auth_dmarc = None, rm_auth_remote_ip = None,
     rm_body_bytes = None, rm_attachments_total_bytes = None, rm_received_at_bridge = None, rm_received_at_api = None,
     rm_queued_at = None, rm_sending_at = None, rm_sent_at = None, rm_delivered_at = None, rm_failed_at = None,
     rm_bounce_metadata = None, rm_last_error = None, rm_created_at = ''T'', mr_r2_key = ''k'' \<rparr>"

definition demo_fc :: fan_call where
  "demo_fc = \<lparr> fc_now = 1000, fc_rnd = (\<lambda>_. replicate 15 7), fc_ulid = (\<lambda>s n. s), fc_net = demo_fn, fc_fails = (\<lambda>_. False) \<rparr>"

definition demo_fev :: FanoutEvent where
  "demo_fev = \<lparr> fv_event_id = ''e'', fv_event = ''message.sent'', fv_message_id = ''m'', fv_mailbox_id = Some ''mb'', fv_webhook_sub_id = None,
     fv_created_at = 1000 \<rparr>"

definition demo_sub :: "string \<Rightarrow> SubRow" where
  "demo_sub u = \<lparr> ws_id = u, ws_mailbox_id = ''mb'', ws_url = u, ws_kind = External, ws_secret = ''key'', ws_events = [],
     ws_paused_at = None, ws_disabled_at = None \<rparr>"

definition demo_fw :: "string list \<Rightarrow> fan_world" where
  "demo_fw us = \<lparr> fw_subs = map demo_sub us,
     fw_messages = (\<lambda>k. if k = ''m'' then Some demo_mrow else None),
     fw_r2 = (\<lambda>_. Some [13, 10, 13, 10]), fw_deliveries = [], fw_dlq = [], fw_points = [], fw_requests = [] \<rparr>"

definition demo_hook :: "string \<Rightarrow> url_parts" where
  "demo_hook u = \<lparr> u_protocol = ''https:'', u_hostname = u, u_host = u, u_pathname = ''/'', u_search = [] \<rparr>"

lemma demo_signs: "\<exists>sig. sign (fp_crypto demo_fp) (webhook_canonical demo_fc (demo_sub u) (demo_hook u) ''{}'') (Text ''key'') = Inr sig"
proof -
  have "webhook_canonical demo_fc (demo_sub u) (demo_hook u) ''{}'' = webhook_canonical demo_fc (demo_sub []) (demo_hook []) ''{}''"
    by (simp add: webhook_canonical_def demo_fc_def demo_hook_def)
  moreover have "case sign (fp_crypto demo_fp) (webhook_canonical demo_fc (demo_sub []) (demo_hook []) ''{}'') (Text ''key'') of Inl _ \<Rightarrow> False | Inr _ \<Rightarrow> True"
    by code_simp
  ultimately show ?thesis by (auto split: sum.splits)
qed

lemma demo_fetch:
  assumes "u \<in> {''bad'', ''down'', ''good''}"
  shows "\<exists>req. signed_post demo_fp demo_fc demo_fev (demo_sub u) ''{}'' = ([req], case net_fetch demo_fn req of Fetch_threw e \<Rightarrow> Inl e
      | Fetched status chunks \<Rightarrow> if 300 \<le> status \<and> status < 400 then Inr \<lparr> sf_status = status, sf_body = [], sf_ok = False \<rparr>
        else read_body status (1024 * 1024) chunks 0 []) \<and> hq_url req = u"
proof -
  have "ssrfCheck (net_parse demo_fn) u External = Ssrf_ok" using assms by (elim insertE) (simp_all, code_simp+)
  moreover have "ipDenied ''1.2.3.4'' = False" by code_simp
  moreover have "net_parse demo_fn u = Some (demo_hook u)" "net_resolve demo_fn u = Some [''1.2.3.4'']"
    by (simp_all add: demo_fn_def demo_net_def demo_hook_def)
  moreover obtain sig where "sign (fp_crypto demo_fp) (webhook_canonical demo_fc (demo_sub u) (demo_hook u) ''{}'') (Text ''key'') = Inr sig"
    using demo_signs by blast
  moreover have "ws_url (demo_sub u) = u" "ws_secret (demo_sub u) = ''key''" "ws_kind (demo_sub u) = External" "fc_net demo_fc = demo_fn"
    "u_hostname (demo_hook u) = u"
    by (simp_all add: demo_sub_def demo_fc_def demo_hook_def)
  ultimately show ?thesis unfolding signed_post_def safeFetch_def Let_def by simp
qed

lemma demo_posts:
  "snd (signed_post demo_fp demo_fc demo_fev (demo_sub ''bad'') ''{}'') = Inr \<lparr> sf_status = 500, sf_body = [], sf_ok = False \<rparr>"
  "snd (signed_post demo_fp demo_fc demo_fev (demo_sub ''down'') ''{}'') = Inl ''timeout''"
  "snd (signed_post demo_fp demo_fc demo_fev (demo_sub ''good'') ''{}'') = Inr \<lparr> sf_status = 200, sf_body = [], sf_ok = True \<rparr>"
  using demo_fetch [of "''bad''"] demo_fetch [of "''down''"] demo_fetch [of "''good''"] by (auto simp: demo_fn_def)

lemma demo_envelope: "buildEnvelope demo_fp demo_fc demo_fev (demo_fw us) = Inr (Some ''{}'')"
proof -
  have "extractAttachmentParts demo_runtime [13, 10, 13, 10] = Inr []"
    "case summarizeMime demo_runtime [13, 10, 13, 10] of Inr _ \<Rightarrow> True | Inl _ \<Rightarrow> False" by code_simp+
  then show ?thesis
    by (auto simp: buildEnvelope_def demo_fp_def demo_fc_def demo_fev_def demo_fw_def mimeToMessage_def Let_def split: sum.splits)
qed

lemma demo_target: "sole_target demo_fp demo_fev (demo_sub u) ''{}'' (demo_fw [u]) demo_fc"
  using demo_envelope [of "[u]"]
  by (simp add: sole_target_def) (simp add: demo_fp_def demo_fc_def demo_fev_def demo_fw_def demo_sub_def subs_for_def live_sub_def events_include_def)

lemma demo_tries: "tries demo_fev s (demo_fw us) = 0"
  by (simp add: tries_def demo_fw_def)


lemma redeliver_broken:
  assumes "\<forall>c \<in> set cs. sole_target P ev sub body w c \<and> breaks P ev sub body c"
  shows "\<exists>w'. redeliver P cs ev w = (w', length cs, False) \<and> tries ev sub w' = tries ev sub w \<and> fw_dlq w' = fw_dlq w \<and>
     fw_points w' = fw_points w \<and> fw_messages w' = fw_messages w"
  using assms
proof (induction cs arbitrary: w)
  case (Cons c cs)
  then obtain reqs e where p: "signed_post P c ev sub body = (reqs, Inl e)"
    by (cases "signed_post P c ev sub body") (auto simp: breaks_def split: sum.splits)
  have "fc_fails c ''insert delivery'' = False" and s: "deliver P c ev w = deliverToSub P c ev sub body w"
    using Cons(2) deliver_sole by (auto simp: sole_target_def)
  let ?w0 = "insert_delivery (fv_message_id ev) (ws_id sub) (fp_iso P (fc_now c)) w"
  let ?w1 = "?w0\<lparr>fw_requests := fw_requests ?w0 @ reqs\<rparr>"
  have d: "deliver P c ev w = (?w1, Inl e)" using s p \<open>_ = False\<close> by (simp add: deliverToSub_def)
  have r: "same_reads w ?w1" by (simp add: same_reads_def)
  have t: "tries ev sub ?w1 = tries ev sub w" using insert_delivery_row [of ev sub "fp_iso P (fc_now c)" w] by (auto simp: tries_def)
  have "\<forall>c \<in> set cs. sole_target P ev sub body ?w1 c \<and> breaks P ev sub body c" using Cons(2) same_reads_target [OF r] by simp
  from Cons(1) [OF this] show ?case using t d by auto
qed simp

text \<open>Failures of the transport are never counted: when the request throws (a time-out, a refused connection), the delivery row keeps its
  attempt count, however often the queue delivers the event. No dead letter and no data point records the failures, the
  event is retried every time, and nothing in the database ever ends it, although \<open>statusClass\<close> has a class for it.\<close>
theorem transport_failure_uncounted:
  assumes "\<forall>c \<in> set cs. sole_target P ev sub body w c \<and> breaks P ev sub body c"
  shows "\<exists>w'. redeliver P cs ev w = (w', length cs, False) \<and> tries ev sub w' = tries ev sub w \<and> fw_dlq w' = fw_dlq w \<and> fw_points w' = fw_points w"
  using redeliver_broken [OF assms] by blast

lemma transport_failure_uncounted_witness:
  "\<exists>w'. redeliver demo_fp (replicate 7 demo_fc) demo_fev (demo_fw [''down'']) = (w', 7, False) \<and> fw_dlq w' = [] \<and> tries demo_fev (demo_sub ''down'') w' = 0"
proof -
  have "\<forall>c \<in> set (replicate 7 demo_fc). sole_target demo_fp demo_fev (demo_sub ''down'') ''{}'' (demo_fw [''down'']) c \<and>
      breaks demo_fp demo_fev (demo_sub ''down'') ''{}'' c"
    using demo_target demo_posts(2) by (simp add: breaks_def)
  from transport_failure_uncounted [OF this] show ?thesis by (auto simp: demo_tries) (auto simp: demo_fw_def)
qed

section \<open>Signatures\<close>

text \<open>What the subscriber checks: the request it received, with the secret it shares.\<close>
definition receiver_view :: "http_request \<Rightarrow> url_parts \<Rightarrow> string \<Rightarrow> int \<Rightarrow> verify_input" where
  "receiver_view req u secret now =
     \<lparr> vi_direction = Polaris_webhook, vi_method = hq_method req, vi_path = u_pathname u, vi_query = QString (u_search u),
       vi_headers = map_of (hq_headers req), vi_body = Text (hq_body req), vi_secret = Text secret, vi_skewSeconds = None, vi_now = now \<rparr>"

lemma safeFetch_request:
  assumes "req \<in> set (fst (safeFetch N url kind meth hdrs body mx))" "net_parse N url = Some u"
  shows "req = \<lparr> hq_url = url, hq_method = meth, hq_headers = filter (\<lambda>h. fst h \<noteq> ''host'') hdrs @ [(''host'', u_host u)], hq_body = body \<rparr>"
  using assms by (auto simp: safeFetch_def Let_def split: SsrfResult.splits if_splits option.splits)

text \<open>Every webhook request that leaves is one the subscriber can check: \<open>verify\<close>, run on the received request with the shared secret, accepts
  it while the clocks differ by at most five minutes, and yields the time and the nonce of this attempt.\<close>
theorem webhook_signature_verifies:
  assumes "\<forall>k d. hmac_raw (fp_crypto P) k d \<noteq> []" "15 \<le> length (fc_rnd c (ws_id sub))"
    and "net_parse (fc_net c) (ws_url sub) = Some u" "req \<in> set (fst (signed_post P c ev sub body))" "\<bar>now - fc_now c\<bar> \<le> 300000"
  shows "verify (fp_crypto P) (receiver_view req u (ws_secret sub) now) = VOk (fc_now c) (generateNonce (fc_rnd c (ws_id sub)))"
proof -
  obtain sig where sig: "sign (fp_crypto P) (webhook_canonical c sub u body) (Text (ws_secret sub)) = Inr sig"
    using assms(3,4) by (cases "sign (fp_crypto P) (webhook_canonical c sub u body) (Text (ws_secret sub))") (auto simp: signed_post_def)
  then obtain can where can: "buildCanonical (fp_crypto P) (webhook_canonical c sub u body) = Inr can"
    "sig = toHex (hmacSha256 (fp_crypto P) (secretBytes (Text (ws_secret sub))) (text_encode can))"
    by (auto simp: sign_def split: sum.splits)
  have req: "req = \<lparr> hq_url = ws_url sub, hq_method = ''POST'',
      hq_headers = filter (\<lambda>h. fst h \<noteq> ''host'') (webhook_headers c ev sub sig) @ [(''host'', u_host u)], hq_body = body \<rparr>"
    using assms(4) sig by (intro safeFetch_request [OF _ assms(3)]) (simp add: signed_post_def assms(3))
  have vc: "verify_canonical (receiver_view req u (ws_secret sub) now) (int_to_string (fc_now c)) (generateNonce (fc_rnd c (ws_id sub))) =
      webhook_canonical c sub u body"
    by (simp add: req verify_canonical_def receiver_view_def webhook_canonical_def)
  show ?thesis
    by (rule verify_ok_I [where c = can and tag = "hmacSha256 (fp_crypto P) (secretBytes (Text (ws_secret sub))) (text_encode can)"])
      (use assms(1,5) generateNonce_clean [OF assms(2)] can vc in
        \<open>simp_all add: receiver_view_def req webhook_headers_def hmacSha256_def verify_skew_def\<close>)
qed

lemma webhook_signature_verifies_witness:
  "\<exists>req. fst (signed_post demo_fp demo_fc demo_fev (demo_sub ''good'') ''{}'') = [req] \<and>
     verify demo_platform (receiver_view req (demo_hook ''good'') ''key'' 2000) = VOk 1000 (generateNonce (replicate 15 7))"
proof -
  obtain req where req: "fst (signed_post demo_fp demo_fc demo_fev (demo_sub ''good'') ''{}'') = [req]"
    using demo_fetch [of "''good''"] by auto
  have "verify (fp_crypto demo_fp) (receiver_view req (demo_hook ''good'') (ws_secret (demo_sub ''good'')) 2000) =
      VOk (fc_now demo_fc) (generateNonce (fc_rnd demo_fc (ws_id (demo_sub ''good''))))"
    by (rule webhook_signature_verifies [where ev = demo_fev and body = "''{}''"])
      (simp_all add: req, simp_all add: demo_fp_def demo_platform_def demo_fc_def demo_fn_def demo_net_def demo_hook_def demo_sub_def)
  then show ?thesis using req by (simp add: demo_fp_def demo_fc_def demo_sub_def)
qed

section \<open>Attachment links\<close>

lemma sanitize_no_slash: "CHR ''/'' \<notin> set (sanitizeAttachmentFilename name)"
proof -
  have "CHR ''/'' \<notin> set (take 255 (map (\<lambda>c. if attachment_char c then c else CHR ''_'') name))"
    using set_take_subset by (fastforce simp: attachment_char_def is_alnum_def is_upper_def is_lower_def is_digit_def)
  then show ?thesis by (simp add: sanitizeAttachmentFilename_def Let_def)
qed

text \<open>The attachment links of a webhook lead nowhere: the pipeline stores an attachment under a key that ends in its file name, the link
  appends the file name to that key once more. For every attachment with a file name the link differs from the public URL
  of the stored object.\<close>
theorem attachment_link_dangles:
  assumes "ea_filename part \<noteq> []" "pp_crypto Q = fp_crypto P"
  shows "link_attachments P (a # as) (part # parts) = a\<lparr>wa_url := Some url\<rparr> # link_attachments P as parts \<Longrightarrow>
     url \<noteq> r2PublicUrl (fp_host P) (attachment_key Q part) None"
proof
  assume l: "link_attachments P (a # as) (part # parts) = a\<lparr>wa_url := Some url\<rparr> # link_attachments P as parts"
    and e: "url = r2PublicUrl (fp_host P) (attachment_key Q part) None"
  have u: "url = r2PublicUrl (fp_host P) (attachmentR2Key (sha256Hex (fp_crypto P) (ea_bytes part)) (ea_filename part)) (Some (ea_filename part))"
    using arg_cong [OF l, of "\<lambda>xs. wa_url (hd xs)"] by simp
  obtain n where n: "attachmentR2Key (sha256Hex (fp_crypto P) (ea_bytes part)) (ea_filename part) =
      ''att/'' @ sha256Hex (fp_crypto P) (ea_bytes part) @ ''/'' @ n" by (simp add: attachmentR2Key_def Let_def)
  have "''https://'' @ bare_host (fp_host P) @ ''/'' @ ''att/'' @ sha256Hex (fp_crypto P) (ea_bytes part) @ ''/'' @
        sanitizeAttachmentFilename (ea_filename part) =
      ''https://'' @ bare_host (fp_host P) @ ''/'' @ ''att/'' @ sha256Hex (fp_crypto P) (ea_bytes part) @ ''/'' @
        n @ ''/'' @ js_encodeURIComponent (ea_filename part)"
    using u unfolding e n using assms by (simp add: r2PublicUrl_def attachment_key_def)
  then have "sanitizeAttachmentFilename (ea_filename part) = n @ CHR ''/'' # js_encodeURIComponent (ea_filename part)" by simp
  then have "CHR ''/'' \<in> set (sanitizeAttachmentFilename (ea_filename part))" by simp
  then show False using sanitize_no_slash by blast
qed

definition demo_part :: ExtractedAttachment where
  "demo_part = \<lparr> ea_filename = ''a.pdf'', ea_content_type = ''application/pdf'', ea_size_bytes = 1, ea_bytes = [1] \<rparr>"

definition demo_fpp :: pipe_platform where
  "demo_fpp = \<lparr> pp_crypto = demo_platform, pp_hostname = Some, pp_mime = demo_runtime, pp_json = (\<lambda>_. []) \<rparr>"

lemma attachment_link_dangles_witness:
  "r2PublicUrl ''r2'' (attachmentR2Key (sha256Hex demo_platform [1]) ''a.pdf'') (Some ''a.pdf'') \<noteq> r2PublicUrl ''r2'' (attachment_key demo_fpp demo_part) None"
  using attachment_link_dangles [of demo_part demo_fpp demo_fp "\<lparr> wa_meta = meta_of demo_part, wa_url = None \<rparr>" "[]" "[]"]
  by (simp add: demo_part_def demo_fpp_def demo_fp_def)

section \<open>Delivered\<close>

text \<open>How a run may change message rows: that of the event, from one of the three open states, to delivered.\<close>
definition settles_only :: "string \<Rightarrow> fan_world \<Rightarrow> fan_world \<Rightarrow> bool" where
  "settles_only mid w w' \<longleftrightarrow> fw_messages w' = fw_messages w \<or>
     (\<exists>r t. fw_messages w mid = Some r \<and> rm_status r \<in> {''sent'', ''sending'', ''received''} \<and>
        fw_messages w' = (fw_messages w)(mid \<mapsto> r\<lparr>rm_status := ''delivered'', rm_delivered_at := Some t\<rparr>))"

lemma settles_only_refl [simp]: "settles_only mid w w"
  by (simp add: settles_only_def)

lemma settles_only_trans: "settles_only mid w w1 \<Longrightarrow> settles_only mid w1 w2 \<Longrightarrow> settles_only mid w w2"
  unfolding settles_only_def by (elim disjE exE conjE) auto

lemma settles_only_same: "fw_messages w' = fw_messages w \<Longrightarrow> settles_only mid w w'"
  by (simp add: settles_only_def)

lemma stmt_cases: "stmt c n f w = (w', r) \<Longrightarrow> w' = w \<or> w' = f w"
  by (auto simp: stmt_def split: if_splits)

lemma maybeMarkDelivered_settles:
  assumes "maybeMarkDelivered P c mid w = (w', r)"
  shows "settles_only mid w w'"
proof -
  have "settles_only mid w (mark_delivered t mid w)" for t
    by (auto simp: mark_delivered_def settles_only_def split: option.splits)
  then show ?thesis using assms by (auto simp: maybeMarkDelivered_def Let_def split: if_splits dest!: stmt_cases)
qed

lemma andE_settles:
  assumes "andE x f = (w', r)" "\<And>w1 s. x = (w1, s) \<Longrightarrow> settles_only mid w w1" "\<And>w1 a w2 s. f w1 a = (w2, s) \<Longrightarrow> settles_only mid w1 w2"
  shows "settles_only mid w w'"
  using assms(1) by (cases rule: andE_cases) (use assms(2,3) settles_only_trans in blast)+

lemma delivery_failed_settles: "delivery_failed P c ev sub body res w = (w', r) \<Longrightarrow> settles_only mid w w'"
  unfolding delivery_failed_def Let_def
  by (erule andE_settles, force simp: settles_only_same dest: stmt_cases)
    (erule andE_settles, force simp: settles_only_same dest: stmt_cases, force simp: settles_only_same split: if_splits dest: stmt_cases)

lemma deliverToSub_settles: "deliverToSub P c ev sub body w = (w', r) \<Longrightarrow> settles_only (fv_message_id ev) w w'"
  unfolding deliverToSub_def
proof (erule andE_settles)
  show "stmt c ''insert delivery'' (insert_delivery (fv_message_id ev) (ws_id sub) (fp_iso P (fc_now c))) w = (w1, s) \<Longrightarrow>
      settles_only (fv_message_id ev) w w1" for w1 s by (force simp: settles_only_same dest: stmt_cases)
next
  fix w1 a w2 s
  assume h: "(case signed_post P c ev sub body of
       (reqs, Inl e) \<Rightarrow> (w1\<lparr>fw_requests := fw_requests w1 @ reqs\<rparr>, Inl e)
     | (reqs, Inr res) \<Rightarrow>
         let w = record_point sub res (w1\<lparr>fw_requests := fw_requests w1 @ reqs\<rparr>) in
         if sf_ok res
         then andE (stmt c ''update succeeded'' (update_delivery (fv_message_id ev) (ws_id sub)
                (\<lambda>r. r\<lparr>dl_status := ''succeeded'', dl_last_response_code := Some (sf_status res)\<rparr>)) w)
                (\<lambda>w _. maybeMarkDelivered P c (fv_message_id ev) w)
         else delivery_failed P c ev sub body res w) = (w2, s)"
  obtain reqs x where p: "signed_post P c ev sub body = (reqs, x)" by force
  show "settles_only (fv_message_id ev) w1 w2"
  proof (cases x)
    case (Inl e)
    then show ?thesis using h p by (auto intro: settles_only_same)
  next
    case (Inr res)
    let ?w = "record_point sub res (w1\<lparr>fw_requests := fw_requests w1 @ reqs\<rparr>)"
    have "settles_only (fv_message_id ev) w1 ?w" by (rule settles_only_same) simp
    moreover have "settles_only (fv_message_id ev) ?w w2"
    proof (cases "sf_ok res")
      case True
      then have "andE (stmt c ''update succeeded'' (update_delivery (fv_message_id ev) (ws_id sub)
          (\<lambda>r. r\<lparr>dl_status := ''succeeded'', dl_last_response_code := Some (sf_status res)\<rparr>)) ?w)
          (\<lambda>w _. maybeMarkDelivered P c (fv_message_id ev) w) = (w2, s)" using h p Inr by simp
      then show ?thesis
        by (rule andE_settles) (force simp: settles_only_same dest: stmt_cases, rule maybeMarkDelivered_settles)
    qed (use h p Inr delivery_failed_settles in auto)
    ultimately show ?thesis by (rule settles_only_trans)
  qed
qed

lemma deliver_subs_settles: "deliver_subs P c ev body subs w = (w', r) \<Longrightarrow> settles_only (fv_message_id ev) w w'"
proof (induction subs arbitrary: w w' r)
  case (Cons sub subs)
  then show ?case
    by (auto split: option.splits bool.splits elim!: andE_settles dest: deliverToSub_settles)
qed simp

text \<open>C27. The webhook consumer never overwrites an outcome: whatever the subscribers answer and whichever accesses fail, handling an event leaves
  every message row as it was, or turns the row of the event's own message from sent, sending or received into delivered.
  A message that bounced or failed stays so.\<close>
theorem consumer_keeps_outcomes:
  assumes "fw_messages w mid = Some r" "fw_messages (fst (deliver P c ev w)) mid \<noteq> Some r"
  shows "mid = fv_message_id ev \<and> rm_status r \<in> {''sent'', ''sending'', ''received''} \<and>
     map_option rm_status (fw_messages (fst (deliver P c ev w)) mid) = Some ''delivered''"
proof -
  obtain w' x where d: "deliver P c ev w = (w', x)" by force
  then have "settles_only (fv_message_id ev) w w'"
    by (auto simp: deliver_def split: if_splits sum.splits option.splits dest: deliver_subs_settles)
  then show ?thesis using assms d by (auto simp: settles_only_def split: if_splits)
qed

text \<open>The first success of a message whose deliveries all succeeded so far.\<close>
lemma deliverToSub_first_ok:
  assumes "\<And>n. \<not> fc_fails c n" "signed_post P c ev sub body = (reqs, Inr res)" "sf_ok res"
    and "\<forall>x \<in> set (fw_deliveries w). dl_message_id x \<noteq> fv_message_id ev"
    and "fw_messages w (fv_message_id ev) = Some r" "rm_status r \<in> {''sent'', ''sending'', ''received''}"
  shows "\<exists>w' x. deliverToSub P c ev sub body w = (w', Inr ()) \<and> map_option rm_status (fw_messages w' (fv_message_id ev)) = Some ''delivered'' \<and>
     fw_deliveries w' = fw_deliveries w @ [x] \<and> dl_webhook_sub_id x = ws_id sub"
proof -
  let ?m = "fv_message_id ev" and ?s = "ws_id sub" and ?t = "fp_iso P (fc_now c)"
  define x where "x = \<lparr> dl_message_id = ?m, dl_webhook_sub_id = ?s, dl_status = ''succeeded'', dl_attempts = 0,
     dl_next_attempt_at = Some ?t, dl_last_error = None, dl_last_response_code = Some (sf_status res), dl_created_at = ?t \<rparr>"
  have n: "\<not> list_ex (is_delivery ?m ?s) (fw_deliveries w)" and fi: "filter (\<lambda>y. dl_message_id y = ?m) (fw_deliveries w) = []"
    and mp: "map (\<lambda>y. if is_delivery ?m ?s y then y\<lparr>dl_status := ''succeeded'', dl_last_response_code := Some (sf_status res)\<rparr> else y)
      (fw_deliveries w) = fw_deliveries w"
    using assms(4) by (auto simp: list_ex_iff is_delivery_def filter_empty_conv intro!: map_idI)
  let ?w0 = "insert_delivery ?m ?s ?t w"
  define w1 where "w1 = update_delivery ?m ?s (\<lambda>r. r\<lparr>dl_status := ''succeeded'', dl_last_response_code := Some (sf_status res)\<rparr>)
    (record_point sub res (?w0\<lparr>fw_requests := fw_requests ?w0 @ reqs\<rparr>))"
  have ms: "fw_messages w1 = fw_messages w" by (simp add: w1_def)
  have dl: "fw_deliveries w1 = fw_deliveries w @ [x]"
    using n mp by (simp add: w1_def update_delivery_def insert_delivery_def x_def is_delivery_def)
  have "deliverToSub P c ev sub body w = maybeMarkDelivered P c ?m w1"
    by (simp add: deliverToSub_def assms(1-3) w1_def)
  also have "\<dots> = (mark_delivered ?t ?m w1, Inr ())"
    by (simp add: maybeMarkDelivered_def dl fi assms(1)) (simp add: x_def)
  finally show ?thesis using assms(5,6) by (auto simp: mark_delivered_def dl ms) (simp_all add: x_def)
qed

lemma demo_facts:
  "fv_message_id demo_fev = ''m''" "\<not> fc_fails demo_fc n" "fw_deliveries (demo_fw us) = []"
  "fw_messages (demo_fw us) ''m'' = Some demo_mrow" "rm_status demo_mrow = ''sent''"
  by (simp_all add: demo_fev_def demo_fc_def demo_fw_def demo_mrow_def)

lemma consumer_keeps_outcomes_witness:
  "map_option rm_status (fw_messages (fst (deliver demo_fp demo_fc demo_fev (demo_fw [''good'']))) ''m'') = Some ''delivered''"
proof -
  let ?w = "demo_fw [''good'']" and ?s = "demo_sub ''good''"
  obtain reqs where p: "signed_post demo_fp demo_fc demo_fev ?s ''{}'' = (reqs, Inr \<lparr> sf_status = 200, sf_body = [], sf_ok = True \<rparr>)"
    using demo_posts(3) by (metis surjective_pairing)
  have "\<exists>w' x. deliverToSub demo_fp demo_fc demo_fev ?s ''{}'' ?w = (w', Inr ()) \<and> map_option rm_status (fw_messages w' ''m'') = Some ''delivered'' \<and>
     fw_deliveries w' = fw_deliveries ?w @ [x] \<and> dl_webhook_sub_id x = ws_id ?s"
    by (rule deliverToSub_first_ok [OF demo_facts(2) p, unfolded demo_facts(1), OF _ _ demo_facts(4)]) (simp_all add: demo_facts)
  then have "fw_messages (fst (deliver demo_fp demo_fc demo_fev ?w)) ''m'' \<noteq> fw_messages ?w ''m''"
    by (auto simp: deliver_sole [OF demo_target] demo_facts)
  then show ?thesis using consumer_keeps_outcomes [of ?w "''m''", OF demo_facts(4)] by (simp add: demo_facts(4))
qed

text \<open>Delivered means delivered to the first subscriber: delivery rows are written one by one, so when the first subscriber accepts and
  the second refuses, the message already counts as delivered. The second delivery is marked failed, the event goes back to
  the queue, and the status is not taken back.\<close>
theorem delivered_before_all_subscribers:
  assumes "\<And>n. \<not> fc_fails c n" "subs_for ev w = s1 # s2 # rest" "ws_id s1 \<noteq> ws_id s2" "buildEnvelope P c ev w = Inr (Some body)"
    and "fp_parse P (ws_events s1) = Some j1" "events_include j1 (fv_event ev) = Some True"
    and "fp_parse P (ws_events s2) = Some j2" "events_include j2 (fv_event ev) = Some True"
    and "signed_post P c ev s1 body = (q1, Inr a1)" "sf_ok a1" "signed_post P c ev s2 body = (q2, Inr a2)" "\<not> sf_ok a2"
    and "list_all (\<lambda>x. dl_message_id x \<noteq> fv_message_id ev) (fw_deliveries w)"
    and "fw_messages w (fv_message_id ev) = Some r" "rm_status r \<in> {''sent'', ''sending'', ''received''}"
  shows "\<exists>w' e. deliver P c ev w = (w', Inl e) \<and> map_option rm_status (fw_messages w' (fv_message_id ev)) = Some ''delivered'' \<and>
     delivery_status ev s2 w' = Some ''failed''"
proof -
  have l: "\<forall>x \<in> set (fw_deliveries w). dl_message_id x \<noteq> fv_message_id ev" using assms(13) by (simp add: list_all_iff)
  obtain w1 x where w1: "deliverToSub P c ev s1 body w = (w1, Inr ())"
    "map_option rm_status (fw_messages w1 (fv_message_id ev)) = Some ''delivered''" "fw_deliveries w1 = fw_deliveries w @ [x]" "dl_webhook_sub_id x = ws_id s1"
    using deliverToSub_first_ok [OF assms(1,9,10) l assms(14,15)] by blast
  have "find (is_delivery (fv_message_id ev) (ws_id s2)) (fw_deliveries w) = None" using l by (auto simp: find_None_iff is_delivery_def)
  then have t: "tries ev s2 w1 = 0" using w1(3,4) assms(3) by (simp add: tries_def find_append is_delivery_def)
  obtain w2 y where w2: "deliverToSub P c ev s2 body w1 = (w2, y)" by force
  note d = deliverToSub_refused [OF assms(1,11,12) w2, unfolded t]
  obtain e where "y = Inl e" using d(5) by (cases y) auto
  then have "deliver P c ev w = (w2, Inl e)"
    using w2 w1(1) by (simp add: deliver_def assms(1,2,4-8))
  then show ?thesis using d(1,4) w1(2) by (auto simp: same_reads_def)
qed

lemma delivered_before_all_subscribers_witness:
  "\<exists>w' e. deliver demo_fp demo_fc demo_fev (demo_fw [''good'', ''bad'']) = (w', Inl e) \<and>
     map_option rm_status (fw_messages w' ''m'') = Some ''delivered'' \<and> delivery_status demo_fev (demo_sub ''bad'') w' = Some ''failed''"
proof -
  let ?w = "demo_fw [''good'', ''bad'']" and ?j = "JArr [JStr ''message.sent'']"
  obtain q1 where p1: "signed_post demo_fp demo_fc demo_fev (demo_sub ''good'') ''{}'' = (q1, Inr \<lparr> sf_status = 200, sf_body = [], sf_ok = True \<rparr>)"
    using demo_posts(3) by (metis surjective_pairing)
  obtain q2 where p2: "signed_post demo_fp demo_fc demo_fev (demo_sub ''bad'') ''{}'' = (q2, Inr \<lparr> sf_status = 500, sf_body = [], sf_ok = False \<rparr>)"
    using demo_posts(1) by (metis surjective_pairing)
  have "subs_for demo_fev ?w = [demo_sub ''good'', demo_sub ''bad'']"
    by (simp add: subs_for_def demo_fev_def demo_fw_def demo_sub_def live_sub_def)
  moreover have "ws_id (demo_sub ''good'') \<noteq> ws_id (demo_sub ''bad'')" by (simp add: demo_sub_def)
  moreover have "buildEnvelope demo_fp demo_fc demo_fev ?w = Inr (Some ''{}'')"
    by (rule demo_envelope)
  moreover have "fp_parse demo_fp (ws_events s) = Some ?j" "events_include ?j (fv_event demo_fev) = Some True" for s
    by (simp_all add: demo_fp_def events_include_def demo_fev_def)
  ultimately have "\<exists>w' e. deliver demo_fp demo_fc demo_fev ?w = (w', Inl e) \<and>
      map_option rm_status (fw_messages w' (fv_message_id demo_fev)) = Some ''delivered'' \<and> delivery_status demo_fev (demo_sub ''bad'') w' = Some ''failed''"
    by (intro delivered_before_all_subscribers [OF demo_facts(2) _ _ _ _ _ _ _ p1 _ p2 _ _ demo_facts(4) [folded demo_facts(1)]]) (simp_all add: demo_facts)
  then show ?thesis by (simp add: demo_facts)
qed

lemma deliver_subs_blocked:
  assumes "deliverToSub P c ev sub body w = (w', Inl e)" "fp_parse P (ws_events sub) = Some j" "events_include j (fv_event ev) = Some True"
  shows "deliver_subs P c ev body (sub # rest) w = (w', Inl e)"
  using assms by simp

text \<open>A failing subscriber holds up those after it: while it has attempts left, its failure ends the event's run, so the queue retries and none
  of the other subscribers of the mailbox has been sent anything.\<close>
theorem failing_subscriber_blocks_rest:
  assumes "\<And>n. \<not> fc_fails c n" "subs_for ev w = sub # rest" "buildEnvelope P c ev w = Inr (Some body)"
    and "fp_parse P (ws_events sub) = Some j" "events_include j (fv_event ev) = Some True"
    and "signed_post P c ev sub body = (reqs, Inr res)" "\<not> sf_ok res" "tries ev sub w < 5"
  shows "\<exists>w' e. deliver P c ev w = (w', Inl e) \<and> fw_requests w' = fw_requests w @ reqs \<and> length reqs \<le> 1 \<and> fw_messages w' = fw_messages w"
proof -
  obtain w1 r where w1: "deliverToSub P c ev sub body w = (w1, r)" by force
  note d = deliverToSub_refused [OF assms(1,6,7) w1]
  obtain e where e: "r = Inl e" using d(5) assms(8) by (cases r) auto
  have "deliver P c ev w = deliver_subs P c ev body (sub # rest) w" by (simp add: deliver_def assms(1-3))
  also have "\<dots> = (w1, Inl e)" using deliver_subs_blocked [OF _ assms(4,5)] w1 e by simp
  finally have "deliver P c ev w = (w1, Inl e)" .
  moreover have "length (fst (signed_post P c ev sub body)) \<le> 1"
    by (auto simp: signed_post_def safeFetch_def Let_def split: option.splits sum.splits SsrfResult.splits)
  ultimately show ?thesis using d(1,2) assms(6) by (auto simp: same_reads_def)
qed

lemma failing_subscriber_blocks_rest_witness:
  "\<exists>w' e. deliver demo_fp demo_fc demo_fev (demo_fw [''bad'', ''good'']) = (w', Inl e) \<and> length (fw_requests w') \<le> 1"
proof -
  let ?w = "demo_fw [''bad'', ''good'']" and ?j = "JArr [JStr ''message.sent'']"
  obtain q where p: "signed_post demo_fp demo_fc demo_fev (demo_sub ''bad'') ''{}'' = (q, Inr \<lparr> sf_status = 500, sf_body = [], sf_ok = False \<rparr>)"
    using demo_posts(1) by (metis surjective_pairing)
  have "subs_for demo_fev ?w = demo_sub ''bad'' # [demo_sub ''good'']"
    by (simp add: subs_for_def demo_fev_def demo_fw_def demo_sub_def live_sub_def)
  moreover have "buildEnvelope demo_fp demo_fc demo_fev ?w = Inr (Some ''{}'')"
    by (rule demo_envelope)
  moreover have "fp_parse demo_fp (ws_events s) = Some ?j" "events_include ?j (fv_event demo_fev) = Some True" for s
    by (simp_all add: demo_fp_def events_include_def demo_fev_def)
  ultimately have "\<exists>w' e. deliver demo_fp demo_fc demo_fev ?w = (w', Inl e) \<and> fw_requests w' = fw_requests ?w @ q \<and> length q \<le> 1 \<and>
      fw_messages w' = fw_messages ?w"
    by (intro failing_subscriber_blocks_rest [OF demo_facts(2) _ _ _ _ p]) (simp_all add: demo_tries)
  moreover have "fw_requests ?w = []" by (simp add: demo_fw_def)
  ultimately show ?thesis by auto
qed

end
