(* ===== verification/Unsub.thy ===== *)
theory Unsub
  imports OutConsumer Secrets ApiAuth AuditLog MimeJson
begin

text \<open>
  Unsubscribing: the one-click endpoint \<^verbatim>\<open>services/api/src/routes/unsub.ts\<close> and its mail form
  \<^verbatim>\<open>services/in/src/unsub-ingest.ts\<close>. Both verify a token (\<open>Secrets\<close>) and insert a suppression (\<open>Suppressions\<close>); what
  the outbound consumer makes of the row is stated over \<open>OutConsumer\<close>. The columns of a suppression that no look-up reads are
  left out.
\<close>

section \<open>Runtime\<close>

text \<open>\<^verbatim>\<open>decodeURIComponent\<close>, \<^const>\<open>None\<close> when it throws. Escapes of characters above Latin-1 are outside the model and count as
  malformed.\<close>
fun js_decodeURIComponent :: "string \<Rightarrow> string option" where
  "js_decodeURIComponent [] = Some []"
| "js_decodeURIComponent (c # s) =
     (if c \<noteq> CHR ''%'' then map_option ((#) c) (js_decodeURIComponent s)
      else case s of
        h # l # s1 \<Rightarrow>
          (case hex_pair h l of
             None \<Rightarrow> None
           | Some n \<Rightarrow>
               if n < 128 then map_option ((#) (char_of n)) (js_decodeURIComponent s1)
               else if n = 194 \<or> n = 195 then
                 (case s1 of
                    p # h2 # l2 # s2 \<Rightarrow>
                      (case hex_pair h2 l2 of
                         None \<Rightarrow> None
                       | Some k \<Rightarrow>
                           if p = CHR ''%'' \<and> 128 \<le> k \<and> k < 192
                           then map_option ((#) (char_of ((n - 192) * 64 + (k - 128)))) (js_decodeURIComponent s2) else None)
                  | _ \<Rightarrow> None)
               else None)
      | _ \<Rightarrow> None)"

lemma js_decodeURIComponent_plain: "CHR ''%'' \<notin> set s \<Longrightarrow> js_decodeURIComponent s = Some s"
  by (induction s) auto

section \<open>State\<close>

record unsub_world =
  uw_suppressions :: "SuppressionRecord list"
  uw_audit :: audit_table

record unsub_platform =
  up_env :: unsub_env
  up_crypto :: platform
  up_hostname :: "string \<Rightarrow> string option"

text \<open>\<open>uc_others\<close> is what concurrent writers do to the audit log.\<close>
record unsub_call =
  uc_secret :: "string option"
  uc_now :: int
  uc_now_iso :: string
  uc_ulid :: string
  uc_insert_fails :: bool
  uc_others :: "nat \<Rightarrow> audit_table \<Rightarrow> audit_table"

definition unsub_row :: "unsub_call \<Rightarrow> NormAddress \<Rightarrow> string \<Rightarrow> SuppressionRecord" where
  "unsub_row c recipient senderDomain =
     \<lparr> sr_id = uc_ulid c, sr_entity_type = Recipient, sr_address_normalized = sn_normalized recipient, sr_scope = Domain,
       sr_scope_target = Some senderDomain, sr_reason = Unsubscribe, sr_source = One_click, sr_severity = Info,
       sr_created_at = uc_now_iso c, sr_expires_at = None, sr_disabled_at = None \<rparr>"

text \<open>\<^verbatim>\<open>INSERT ... ON CONFLICT DO NOTHING\<close>, any other failure is swallowed.\<close>
definition insert_unsub :: "unsub_call \<Rightarrow> NormAddress \<Rightarrow> string \<Rightarrow> SuppressionRecord list \<Rightarrow> SuppressionRecord list" where
  "insert_unsub c recipient senderDomain t =
     (if uc_insert_fails c then t else fst (insert_or_ignore suppression_key (unsub_row c recipient senderDomain) t))"

section \<open>One-click endpoint\<close>

definition unsub_audit :: "unsub_platform \<Rightarrow> unsub_call \<Rightarrow> NormAddress \<Rightarrow> string \<Rightarrow> UnsubTokenPayload \<Rightarrow> AuditArgs" where
  "unsub_audit P c recipient senderDomain p =
     \<lparr> aa_actor = ''system:unsub-one-click'', aa_action = ''suppression.create'', aa_target = Some (uc_ulid c),
       aa_meta = ue_stringify (up_env P) (JObj [(''source'', JStr ''one_click''), (''recipient'', JStr (sn_normalized recipient)),
         (''sender_domain'', JStr senderDomain), (''message_id'', JStr (ut_message_id p))]),
       aa_at = uc_now c \<rparr>"

text \<open>\<^verbatim>\<open>POST /v1/unsub/:token\<close>; the status of a success is the value passed on.\<close>
definition unsub_post :: "unsub_platform \<Rightarrow> http_ctx \<Rightarrow> unsub_call \<Rightarrow> string \<Rightarrow> unsub_world \<Rightarrow> unsub_world \<times> nat outcome" where
  "unsub_post P h c token_param w =
     (case uc_secret c of
        None \<Rightarrow> (w, Respond (buildError h Degraded ''UNSUB_HMAC_SECRET not configured'' []))
      | Some secret \<Rightarrow>
          if secret = [] then (w, Respond (buildError h Degraded ''UNSUB_HMAC_SECRET not configured'' []))
          else case js_decodeURIComponent token_param of
            None \<Rightarrow> (w, Threw ''URIError'')
          | Some token \<Rightarrow>
              (case verifyUnsubToken (up_env P) token secret (uc_now c) of
                 Inl reason \<Rightarrow> (w, Respond (buildError h Bad_request (''unsub token invalid: '' @ reason) []))
               | Inr p \<Rightarrow>
                   (case Suppressions.normalizeAddress (up_hostname P) (Some (ut_recipient p)) of
                      None \<Rightarrow> (w, Respond (buildError h Bad_request ''unsub token recipient invalid'' []))
                    | Some recipient \<Rightarrow>
                        let senderDomain = js_lower (ut_sender_domain p);
                            w1 = w\<lparr>uw_suppressions := insert_unsub c recipient senderDomain (uw_suppressions w)\<rparr>
                        in (case audit (up_crypto P) (unsub_audit P c recipient senderDomain p) (uc_others c) (uw_audit w1) of
                              (t, Some _) \<Rightarrow> (w1\<lparr>uw_audit := t\<rparr>, Next 200)
                            | (t, None) \<Rightarrow> (w1\<lparr>uw_audit := t\<rparr>, Threw ''audit: too many retries'')))))"

text \<open>\<^verbatim>\<open>GET\<close> only shows a page: its status and the values put into it.\<close>
definition unsub_get :: "unsub_platform \<Rightarrow> unsub_call \<Rightarrow> string \<Rightarrow> string + nat \<times> string list" where
  "unsub_get P c token_param =
     (case uc_secret c of
        None \<Rightarrow> Inr (503, [])
      | Some secret \<Rightarrow>
          if secret = [] then Inr (503, [])
          else case js_decodeURIComponent token_param of
            None \<Rightarrow> Inl ''URIError''
          | Some token \<Rightarrow>
              (case verifyUnsubToken (up_env P) token secret (uc_now c) of
                 Inl reason \<Rightarrow> Inr (400, [reason])
               | Inr p \<Rightarrow> Inr (200, [ut_sender_domain p, ut_recipient p])))"

section \<open>Mail form\<close>

text \<open>The second copy of the verifier.\<close>
definition verifyToken :: "unsub_env \<Rightarrow> string \<Rightarrow> string \<Rightarrow> int \<Rightarrow> UnsubTokenPayload option" where
  "verifyToken E token secret nowMs =
     (case index_of (CHR ''.'') token of
        None \<Rightarrow> None
      | Some dot \<Rightarrow>
          if dot = 0 then None
          else let body = take dot token; sig = drop (dot + 1) token; expected = hmacHex E secret body in
            if length expected \<noteq> length sig then None
            else if char_diff expected sig \<noteq> 0 then None
            else case Option.bind (b64uDecode body) (ue_parse E) of
                   None \<Rightarrow> None
                 | Some j \<Rightarrow>
                     (case json_payload j of
                        None \<Rightarrow> None
                      | Some p \<Rightarrow> if of_int nowMs - ut_issued_at p > of_int TOKEN_TTL_MS then None else Some p))"

text \<open>The id of the suppression, \<^verbatim>\<open>null\<close>, or an exception.\<close>
definition handleUnsubMailto ::
  "unsub_platform \<Rightarrow> unsub_call \<Rightarrow> string \<Rightarrow> string \<Rightarrow> SuppressionRecord list \<Rightarrow> SuppressionRecord list \<times> (string + string option)" where
  "handleUnsubMailto P c secret token t =
     (if secret = [] then (t, Inr None)
      else case js_decodeURIComponent token of
        None \<Rightarrow> (t, Inl ''URIError'')
      | Some decodedToken \<Rightarrow>
          (case verifyToken (up_env P) decodedToken secret (uc_now c) of
             None \<Rightarrow> (t, Inr None)
           | Some p \<Rightarrow>
               (case Suppressions.normalizeAddress (up_hostname P) (Some (ut_recipient p)) of
                  None \<Rightarrow> (t, Inr None)
                | Some recipient \<Rightarrow>
                    (insert_unsub c recipient (js_lower (ut_sender_domain p)) t, Inr (Some (uc_ulid c))))))"

section \<open>The two verifiers\<close>

text \<open>The mail form accepts what the endpoint accepts: the two copies of the verifier agree on every token, except that the mail
  form also takes tokens that claim to be issued more than a minute in the future.\<close>
theorem verifiers_agree:
  "(verifyUnsubToken E token secret nowMs = Inr p \<longrightarrow> verifyToken E token secret nowMs = Some p) \<and>
   (verifyToken E token secret nowMs = Some p \<longrightarrow> verifyUnsubToken E token secret nowMs =
      (if ut_issued_at p - of_int nowMs > 60000 then Inl ''future_issued_at'' else Inr p))"
proof (cases "index_of (CHR ''.'') token")
  case (Some dot)
  then show ?thesis unfolding verifyToken_def verifyUnsubToken_def Some option.case Let_def
    by (auto split: option.splits)
next
  case None
  then show ?thesis unfolding verifyToken_def verifyUnsubToken_def None option.case by simp
qed

definition demo_payload :: UnsubTokenPayload where
  "demo_payload = \<lparr>ut_recipient = ''a@b.c'', ut_sender_domain = ''X.org'', ut_message_id = ''m'', ut_issued_at = 5\<rparr>"

definition demo_uenv :: unsub_env where
  "demo_uenv = \<lparr> ue_hmac = (\<lambda>k d. take 2 (k @ d)), ue_stringify = (\<lambda>j. ''{123''), ue_parse = (\<lambda>s. if s = [] then None else Some (payload_json demo_payload)) \<rparr>"

definition demo_token :: string where
  "demo_token = mintUnsubToken demo_uenv demo_payload ''key'' 5"

lemma demo_token_ok: "5 \<le> now \<Longrightarrow> now \<le> 1000 \<Longrightarrow> verifyUnsubToken demo_uenv demo_token ''key'' now = Inr demo_payload"
  using verifyUnsubToken_mint [where E = demo_uenv and payload = demo_payload and nowMs = 5 and later = now and secret = "''key''"]
  by (simp add: demo_token_def demo_uenv_def demo_payload_def TOKEN_TTL_MS_def)

lemma verifiers_agree_witness: "verifyToken demo_uenv demo_token ''key'' 6 = Some demo_payload"
  using verifiers_agree [of demo_uenv demo_token "''key''" 6 demo_payload] demo_token_ok [of 6] by simp

definition demo_up :: unsub_platform where
  "demo_up = \<lparr> up_env = demo_uenv, up_crypto = demo_platform, up_hostname = Some \<rparr>"

definition demo_uc :: "int \<Rightarrow> unsub_call" where
  "demo_uc now = \<lparr> uc_secret = Some ''key'', uc_now = now, uc_now_iso = ''T'', uc_ulid = ''u'', uc_insert_fails = False, uc_others = (\<lambda>_ t. t) \<rparr>"

definition demo_uctx :: http_ctx where
  "demo_uctx = \<lparr> hc_method = ''POST'', hc_path = ''/'', hc_query = [], hc_header = (\<lambda>_. None), hc_body = [], hc_requestId = None, hc_rnd = [] \<rparr>"

definition demo_uw :: unsub_world where
  "demo_uw = \<lparr> uw_suppressions = [], uw_audit = [] \<rparr>"

lemma audit_alone: "\<exists>t'. audit P args (\<lambda>_ t. t) t = (t', Some ())"
proof -
  have "run_insert (buildAuditInsert P t args) t \<noteq> None"
    by (auto simp: run_insert_def buildAuditInsert_def Let_def audit_tip_def max_id_def)
  then obtain t' where "run_insert (buildAuditInsert P t args) t = Some t'" by blast
  then have "audit_attempts P args (\<lambda>_ t. t) 0 (Suc 7) t = (t', Some ())"
    by (simp only: audit_attempts.simps Let_def option.case)
  moreover have "audit P args (\<lambda>_ t. t) t = audit_attempts P args (\<lambda>_ t. t) 0 (Suc 7) t"
    by (simp add: audit_def MAX_AUDIT_RETRIES_def)
  ultimately show ?thesis by auto
qed

lemma demo_token_plain: "js_decodeURIComponent demo_token = Some demo_token"
proof (rule js_decodeURIComponent_plain)
  have "list_all (\<lambda>c. c \<noteq> CHR ''%'') demo_token" by code_simp
  then show "CHR ''%'' \<notin> set demo_token" by (auto simp: list_all_iff)
qed

lemma demo_recipient: "Suppressions.normalizeAddress Some (Some ''a@b.c'') = Some \<lparr> sn_normalized = ''a@b.c'', sn_local = ''a'', sn_domain = ''b.c'' \<rparr>"
  by code_simp

lemma demo_post:
  assumes "5 \<le> now" "now \<le> 1000"
  shows "\<exists>w'. unsub_post demo_up demo_uctx (demo_uc now) demo_token w = (w', Next 200)"
proof -
  let ?r = "\<lparr> sn_normalized = ''a@b.c'', sn_local = ''a'', sn_domain = ''b.c'' \<rparr>"
  let ?d = "js_lower (ut_sender_domain demo_payload)"
  obtain t where "audit demo_platform (unsub_audit demo_up (demo_uc now) ?r ?d demo_payload) (\<lambda>_ t. t) (uw_audit w) = (t, Some ())"
    using audit_alone by blast
  moreover have "ut_recipient demo_payload = ''a@b.c''" "uc_secret (demo_uc now) = Some ''key''" "uc_now (demo_uc now) = now"
    "uc_others (demo_uc now) = (\<lambda>_ t. t)" "up_env demo_up = demo_uenv" "up_crypto demo_up = demo_platform" "up_hostname demo_up = Some"
    by (simp_all add: demo_payload_def demo_uc_def demo_up_def)
  ultimately show ?thesis
    by (simp add: unsub_post_def demo_token_plain demo_token_ok [OF assms] demo_recipient)
qed

section \<open>Replay\<close>

lemma insert_or_ignore_again: "key r \<noteq> None \<Longrightarrow> key r' = key r \<Longrightarrow>
   fst (insert_or_ignore key r' (fst (insert_or_ignore key r t))) = fst (insert_or_ignore key r t)"
  by (auto simp: insert_or_ignore_def)

lemma insert_or_ignore_present: "key r \<noteq> None \<Longrightarrow> \<exists>x \<in> set (fst (insert_or_ignore key r t)). key x = key r"
  by (auto simp: insert_or_ignore_def)

lemma unsub_row_key: "suppression_key (unsub_row c recipient d) = Some (Recipient, sn_normalized recipient, Domain, d)"
  by (simp add: suppression_key_def unsub_row_def coalesce_def)

lemma insert_unsub_again:
  "\<not> uc_insert_fails c \<Longrightarrow> insert_unsub c' r d (insert_unsub c r d t) = insert_unsub c r d t"
  unfolding insert_unsub_def using insert_or_ignore_again [of suppression_key "unsub_row c r d" "unsub_row c' r d" t]
  by (simp add: unsub_row_key)

text \<open>Unsubscribing is idempotent: a valid link answers 200 and leaves a suppression of its recipient in force, and using
  it again, at any later moment at which it is still valid, answers 200 and leaves the table as it is (the audit log, which
  records every use, aside).\<close>
theorem one_click_replay:
  assumes "unsub_post P h c tok w = (w1, Next s)" "unsub_post P h' c' tok w1 = (w2, Next s')"
    and "uc_secret c' = uc_secret c" "\<not> uc_insert_fails c"
  shows "s = 200 \<and> s' = 200 \<and> uw_suppressions w2 = uw_suppressions w1 \<and>
     (\<exists>token p r x. js_decodeURIComponent tok = Some token \<and> verifyUnsubToken (up_env P) token (the (uc_secret c)) (uc_now c) = Inr p \<and>
        Suppressions.normalizeAddress (up_hostname P) (Some (ut_recipient p)) = Some r \<and> x \<in> set (uw_suppressions w1) \<and>
        suppression_key x = Some (Recipient, sn_normalized r, Domain, js_lower (ut_sender_domain p)))"
proof -
  have d: "\<exists>sec token p r. uc_secret c = Some sec \<and> js_decodeURIComponent tok = Some token \<and> verifyUnsubToken (up_env P) token sec (uc_now c) = Inr p \<and>
      Suppressions.normalizeAddress (up_hostname P) (Some (ut_recipient p)) = Some r \<and> s = 200 \<and>
      uw_suppressions w' = insert_unsub c r (js_lower (ut_sender_domain p)) (uw_suppressions w)"
    if "unsub_post P h c tok w = (w', Next s)" for h c w w' s
    using that by (auto simp: unsub_post_def Let_def split: option.splits if_splits sum.splits prod.splits)
  obtain sec token p r where 1: "uc_secret c = Some sec" "js_decodeURIComponent tok = Some token"
    "verifyUnsubToken (up_env P) token sec (uc_now c) = Inr p" "Suppressions.normalizeAddress (up_hostname P) (Some (ut_recipient p)) = Some r" "s = 200"
    "uw_suppressions w1 = insert_unsub c r (js_lower (ut_sender_domain p)) (uw_suppressions w)" using d [OF assms(1)] by blast
  obtain sec' token' p' r' where 2: "uc_secret c' = Some sec'" "js_decodeURIComponent tok = Some token'"
    "verifyUnsubToken (up_env P) token' sec' (uc_now c') = Inr p'" "Suppressions.normalizeAddress (up_hostname P) (Some (ut_recipient p')) = Some r'" "s' = 200"
    "uw_suppressions w2 = insert_unsub c' r' (js_lower (ut_sender_domain p')) (uw_suppressions w1)" using d [OF assms(2)] by blast
  have pp: "p' = p"
    using 1(1-3) 2(1-3) assms(3) by (auto simp: verifyUnsubToken_def Let_def split: option.splits if_splits)
  then have "r' = r" using 1(4) 2(4) by simp
  then have "uw_suppressions w2 = uw_suppressions w1" using 1(6) 2(6) insert_unsub_again [OF assms(4)] pp by simp
  moreover obtain x where "x \<in> set (uw_suppressions w1)" "suppression_key x = Some (Recipient, sn_normalized r, Domain, js_lower (ut_sender_domain p))"
    using insert_or_ignore_present [of suppression_key "unsub_row c r (js_lower (ut_sender_domain p))" "uw_suppressions w"] assms(4)
    unfolding 1(6) insert_unsub_def by (auto simp: unsub_row_key)
  ultimately show ?thesis using 1 2(5) by auto
qed

lemma one_click_replay_witness:
  "\<exists>w1 w2. unsub_post demo_up demo_uctx (demo_uc 6) demo_token demo_uw = (w1, Next 200) \<and>
     unsub_post demo_up demo_uctx (demo_uc 7) demo_token w1 = (w2, Next 200) \<and> uw_suppressions w2 = uw_suppressions w1"
proof -
  obtain w1 where 1: "unsub_post demo_up demo_uctx (demo_uc 6) demo_token demo_uw = (w1, Next 200)" using demo_post by force
  obtain w2 where 2: "unsub_post demo_up demo_uctx (demo_uc 7) demo_token w1 = (w2, Next 200)" using demo_post by force
  from one_click_replay [OF 1 2] 1 2 show ?thesis by (auto simp: demo_uc_def)
qed

section \<open>Enforcement\<close>

lemma unsub_row_no_match:
  assumes "ec_domainId ctx \<noteq> Some d"
  shows "\<not> suppression_match et a (senderScopeCandidates ctx) (unsub_row c r d)"
  using assms by (auto simp: suppression_match_def unsub_row_def senderScopeCandidates_def scope_candidate_def nonempty_opt_def coalesce_def
      list_ex_iff split: option.splits list.splits)

lemma insert_unsub_select:
  assumes "ec_domainId ctx \<noteq> Some d"
  shows "suppression_select et a (senderScopeCandidates ctx) (insert_unsub c r d t) = suppression_select et a (senderScopeCandidates ctx) t"
  using unsub_row_no_match [OF assms, of et a c r] by (simp add: insert_unsub_def insert_or_ignore_def suppression_select_def)

text \<open>An unsubscribe is recorded but never enforced: the row names the sender's domain, the outbound consumer looks rows up by the
  domain's id. For every message of a domain whose id is not that domain name, the recipients the consumer drops after
  the unsubscribe are the ones it dropped before.\<close>
theorem unsubscribe_never_enforced:
  assumes "unsub_post P h c tok w = (w', Next s)" "verifyUnsubToken (up_env P) token secret (uc_now c) = Inr p"
    and "js_decodeURIComponent tok = Some token" "uc_secret c = Some secret"
    and "domainId \<noteq> js_lower (ut_sender_domain p)" "db_suppressions (ow_db ow) = uw_suppressions w"
  shows "recipient_hit Q oc msg domainId (ow\<lparr>ow_db := (ow_db ow)\<lparr>db_suppressions := uw_suppressions w'\<rparr>\<rparr>) r = recipient_hit Q oc msg domainId ow r"
proof -
  obtain n where "uw_suppressions w' = insert_unsub c n (js_lower (ut_sender_domain p)) (uw_suppressions w)"
    using assms(1-4) by (auto simp: unsub_post_def Let_def split: option.splits if_splits prod.splits)
  moreover have "ec_domainId (enforcementCtx msg domainId) \<noteq> Some (js_lower (ut_sender_domain p))"
    using assms(5) by (simp add: enforcementCtx_def)
  ultimately show ?thesis
    using assms(6) by (auto simp: recipient_hit_def checkRecipientSuppression_def insert_unsub_select split: option.splits)
qed

lemma unsubscribe_never_enforced_witness:
  "\<exists>w'. unsub_post demo_up demo_uctx (demo_uc 6) demo_token demo_uw = (w', Next 200) \<and>
     recipient_hit demo_op (demo_oc 1 (\<lambda>_. False) (Send_threw [])) demo_om ''01DOMAIN'' (demo_ow\<lparr>ow_db := (ow_db demo_ow)\<lparr>db_suppressions := uw_suppressions w'\<rparr>\<rparr>) ''a@b.c'' =
     recipient_hit demo_op (demo_oc 1 (\<lambda>_. False) (Send_threw [])) demo_om ''01DOMAIN'' demo_ow ''a@b.c''"
proof -
  obtain w' where 1: "unsub_post demo_up demo_uctx (demo_uc 6) demo_token demo_uw = (w', Next 200)" using demo_post by force
  note demo_token_plain
  moreover have "''01DOMAIN'' \<noteq> js_lower (ut_sender_domain demo_payload)" by code_simp
  moreover have "db_suppressions (ow_db demo_ow) = uw_suppressions demo_uw" by code_simp
  moreover have "verifyUnsubToken (up_env demo_up) demo_token ''key'' (uc_now (demo_uc 6)) = Inr demo_payload"
    using demo_token_ok [of 6] by (simp add: demo_up_def demo_uc_def)
  ultimately show ?thesis using unsubscribe_never_enforced [OF 1] 1 by (auto simp: demo_uc_def)
qed

end
