(* ===== verification/MimeCompose.thy ===== *)
theory MimeCompose
  imports MimeJson
begin

text \<open>
  From JSON to MIME: \<open>composeFromJson\<close> of \<^verbatim>\<open>packages/mime/src/json.ts\<close>, and what the part walker of \<open>MimeJson\<close> makes of
  a composed message: the delimited body is split into the parts it was joined from, the part headers are read back, and the
  round trip follows.
\<close>

section \<open>Composition\<close>

definition printable :: "string \<Rightarrow> bool" where
  "printable v = list_all (\<lambda>c. 32 \<le> code c \<and> code c \<le> 126) v"

text \<open>\<open>b64encode\<close> reads the bytes as code units.\<close>
definition b64encode :: "bytes \<Rightarrow> string" where
  "b64encode bs = btoa (map (\<lambda>b. char_of (unat b)) bs)"

definition randomBoundary :: "bytes \<Rightarrow> string" where
  "randomBoundary r = ''----=_polaris_'' @ concat (map (\<lambda>b. js_padStart 2 (CHR ''0'') (nat_to_radix 16 (unat b))) r)"

definition encodeHeaderValue :: "string \<Rightarrow> string" where
  "encodeHeaderValue v = (if printable v then v else ''=?utf-8?B?'' @ b64encode (text_encode v) @ ''?='')"

record send_attachment =
  sa_filename :: string
  sa_content_type :: string
  sa_content_base64 :: string

record SendRequestLike =
  sq_from :: string
  sq_to :: "string list"
  sq_cc :: "string list option"
  sq_bcc :: "string list option"
  sq_subject :: "string option"
  sq_text :: "string option"
  sq_html :: "string option"
  sq_headers :: "(string \<times> string) list option"
  sq_attachments :: "send_attachment list option"
  sq_reply_to :: "string option"

definition hdr :: "string \<Rightarrow> string \<Rightarrow> Header" where
  "hdr n v = \<lparr> h_nameLc = js_lower n, h_name = n, h_value = v \<rparr>"

definition list_header :: "string \<Rightarrow> string list option \<Rightarrow> Header list" where
  "list_header n v = (case v of Some (x # xs) \<Rightarrow> [hdr n (js_join '', '' (x # xs))] | _ \<Rightarrow> [])"

definition base_headers :: "string \<Rightarrow> SendRequestLike \<Rightarrow> Header list" where
  "base_headers now req =
     [hdr ''Date'' now, hdr ''From'' (sq_from req), hdr ''To'' (js_join '', '' (sq_to req))] @
     list_header ''Cc'' (sq_cc req) @ list_header ''Bcc'' (sq_bcc req) @
     (if is_set (sq_reply_to req) then [hdr ''Reply-To'' (the (sq_reply_to req))] else []) @
     (case sq_subject req of Some v \<Rightarrow> [hdr ''Subject'' (encodeHeaderValue v)] | None \<Rightarrow> []) @
     [hdr ''MIME-Version'' ''1.0'']"

definition add_custom :: "Header list \<Rightarrow> string \<times> string \<Rightarrow> Header list" where
  "add_custom hs kv =
     (if js_lower (fst kv) \<in> set (map h_nameLc hs) then hs else hs @ [hdr (fst kv) (encodeHeaderValue (snd kv))])"

definition compose_headers :: "string \<Rightarrow> SendRequestLike \<Rightarrow> Header list" where
  "compose_headers now req =
     foldl add_custom (base_headers now req) (case sq_headers req of Some kvs \<Rightarrow> kvs | None \<Rightarrow> [])"

definition text_part :: "string \<Rightarrow> string \<Rightarrow> string \<Rightarrow> string" where
  "text_part boundary t v =
     ''--'' @ boundary @ CRLF @ ''Content-Type: '' @ t @ ''; charset=utf-8'' @ CRLF @
     ''Content-Transfer-Encoding: 8bit'' @ CRLF @ CRLF @ v @ CRLF"

definition end_delim :: "string \<Rightarrow> string" where
  "end_delim boundary = ''--'' @ boundary @ ''--'' @ CRLF"

definition alternative_parts :: "string \<Rightarrow> SendRequestLike \<Rightarrow> string" where
  "alternative_parts boundary req =
     text_part boundary ''text/plain'' (the (sq_text req)) @ text_part boundary ''text/html'' (the (sq_html req)) @
     end_delim boundary"

text \<open>\<^verbatim>\<open>cleaned.replace(/(.{76})/g, '$1\r\n')\<close>.\<close>
fun wrap_76 :: "string \<Rightarrow> string" where
  "wrap_76 s = (if length s < 76 then s else take 76 s @ CRLF @ wrap_76 (drop 76 s))"

declare wrap_76.simps [simp del]

definition no_space :: "string \<Rightarrow> string" where
  "no_space s = filter (\<lambda>c. \<not> is_space c) s"

definition attachment_part :: "string \<Rightarrow> send_attachment \<Rightarrow> string option" where
  "attachment_part boundary a =
     (let cleaned = no_space (sa_content_base64 a); q = [CHR 0x22] in
      case atob cleaned of
        None \<Rightarrow> None
      | Some _ \<Rightarrow>
          Some (''--'' @ boundary @ CRLF @ ''Content-Type: '' @ sa_content_type a @ ''; name='' @ q @ sa_filename a @ q @ CRLF @
            ''Content-Disposition: attachment; filename='' @ q @ sa_filename a @ q @ CRLF @
            ''Content-Transfer-Encoding: base64'' @ CRLF @ CRLF @ wrap_76 cleaned @ CRLF))"

definition mixed_body :: "string \<Rightarrow> string \<Rightarrow> SendRequestLike \<Rightarrow> send_attachment list \<Rightarrow> json_error + string" where
  "mixed_body outer alt req atts =
     (let first =
        (if is_set (sq_html req) \<and> is_set (sq_text req) then
           ''--'' @ outer @ CRLF @ ''Content-Type: multipart/alternative; boundary='' @ [CHR 0x22] @ alt @ [CHR 0x22] @ CRLF @ CRLF @
           alternative_parts alt req
         else if is_set (sq_html req) then text_part outer ''text/html'' (the (sq_html req))
         else text_part outer ''text/plain'' (case sq_text req of Some v \<Rightarrow> v | None \<Rightarrow> []))
      in case all_some (map (attachment_part outer) atts) of
           None \<Rightarrow> Inl Invalid_attachment_base64
         | Some ps \<Rightarrow> Inr (first @ concat ps @ end_delim outer))"

definition boundary_type :: "string \<Rightarrow> string \<Rightarrow> string" where
  "boundary_type t b = t @ ''; boundary='' @ [CHR 0x22] @ b @ [CHR 0x22]"

text \<open>Content type and body; \<open>b0\<close> and \<open>b1\<close> are the first and second random boundary.\<close>
definition compose_body :: "string \<Rightarrow> string \<Rightarrow> SendRequestLike \<Rightarrow> json_error + string \<times> string" where
  "compose_body b0 b1 req =
     (case sq_attachments req of
        Some (a # atts) \<Rightarrow>
          (case mixed_body b0 b1 req (a # atts) of
             Inl e \<Rightarrow> Inl e
           | Inr body \<Rightarrow> Inr (boundary_type ''multipart/mixed'' b0, body))
      | _ \<Rightarrow>
          if is_set (sq_html req) \<and> is_set (sq_text req) then
            Inr (boundary_type ''multipart/alternative'' b0, alternative_parts b0 req)
          else if is_set (sq_html req) then Inr (''text/html; charset=utf-8'', the (sq_html req))
          else Inr (''text/plain; charset=utf-8'', case sq_text req of Some v \<Rightarrow> v | None \<Rightarrow> []))"

text \<open>\<open>now\<close> is the current date, \<open>r0\<close> and \<open>r1\<close> the random bytes of the two boundaries.\<close>
definition composeFromJson :: "string \<Rightarrow> bytes \<Rightarrow> bytes \<Rightarrow> SendRequestLike \<Rightarrow> json_error + bytes" where
  "composeFromJson now r0 r1 req =
     (case compose_body (randomBoundary r0) (randomBoundary r1) req of
        Inl e \<Rightarrow> Inl e
      | Inr (ct, body) \<Rightarrow>
          Inr (serialize \<lparr> pm_headers = compose_headers now req @ [hdr ''Content-Type'' ct], pm_body = text_encode body \<rparr>))"

section \<open>Splitting what was joined\<close>

lemma starts_with_drop_includes: "starts_with d (drop j p) \<Longrightarrow> d \<noteq> [] \<Longrightarrow> js_includes d p"
proof (induction p arbitrary: j)
  case (Cons x p)
  then show ?case by (cases j) auto
qed (simp add: starts_with_def)

lemma no_straddle:
  assumes "\<not> js_includes d p" "d \<noteq> []" "c \<notin> set d" "j \<le> length p"
  shows "\<not> starts_with d (drop j (p @ c # rest))"
proof
  assume "starts_with d (drop j (p @ c # rest))"
  then obtain t where t: "drop j p @ c # rest = d @ t" using assms(4) by (auto simp: starts_with_iff)
  have "length d \<le> length (drop j p)"
  proof (rule ccontr)
    assume "\<not> ?thesis"
    then have "(d @ t) ! length (drop j p) \<in> set d" by (simp add: nth_append)
    moreover have "(drop j p @ c # rest) ! length (drop j p) = c" by (rule nth_append_length)
    ultimately show False using assms(3) unfolding t [symmetric] by simp
  qed
  then have "take (length d) (drop j p) = d" using arg_cong [OF t, of "take (length d)"] by simp
  then show False using starts_with_drop_includes [of d j p] assms by (simp add: starts_with_def)
qed

lemma find_sub_at:
  "(\<And>j. j < length u \<Longrightarrow> \<not> starts_with d (drop j (u @ d @ v))) \<Longrightarrow> find_sub d (u @ d @ v) = Some (length u)"
proof (induction u)
  case Nil
  have "starts_with d (d @ v)" by simp
  then show ?case by (cases "d @ v") (auto simp: starts_with_def)
next
  case (Cons x u)
  have "find_sub d (u @ d @ v) = Some (length u)"
    using Cons.prems [of "Suc j" for j] by (intro Cons.IH) simp
  then show ?case using Cons.prems [of 0] by simp
qed

text \<open>A delimiter without line breaks that does not occur in a part is next found right after the part's line break.\<close>
lemma find_delim:
  assumes "\<not> js_includes d p" "d \<noteq> []" "CHR 0x0D \<notin> set d" "CHR 0x0A \<notin> set d"
  shows "find_sub d (CRLF @ p @ CRLF @ d @ v) = Some (length (CRLF @ p @ CRLF))"
proof -
  have "\<not> starts_with d (drop j ((CRLF @ p @ CRLF) @ d @ v))" if j: "j < length (CRLF @ p @ CRLF)" for j
  proof -
    obtain a d' where d: "d = a # d'" using assms(2) by (cases d) auto
    have "j < length p + 4" using j by (simp add: CRLF_def)
    then have "j = 0 \<or> j = 1 \<or> (\<exists>i. j = i + 2 \<and> i \<le> length p) \<or> j = length p + 3" by presburger
    then consider "j = 0" | "j = 1" | i where "j = i + 2" "i \<le> length p" | "j = length p + 3" by blast
    then show ?thesis
    proof cases
      case 3
      then show ?thesis using no_straddle [OF assms(1-3), of i "CHR 0x0A # d @ v"] by (simp add: CRLF_def)
    qed (use assms d in \<open>auto simp: CRLF_def starts_with_def numeral_3_eq_3\<close>)
  qed
  then have "find_sub d ((CRLF @ p @ CRLF) @ d @ v) = Some (length (CRLF @ p @ CRLF))" by (rule find_sub_at)
  then show ?thesis by simp
qed

lemma trim_newlines_part: "drop_trailing_newline (drop_leading_newline (CRLF @ p @ CRLF)) = p"
  by (simp add: drop_trailing_newline_def drop_leading_newline_def CRLF_def starts_with_def ends_with_def)

fun delimited :: "string \<Rightarrow> string \<Rightarrow> string list \<Rightarrow> string" where
  "delimited d tail [] = d @ ''--'' @ tail"
| "delimited d tail (p # ps) = d @ CRLF @ p @ CRLF @ delimited d tail ps"

definition delim_ok :: "string \<Rightarrow> string list \<Rightarrow> bool" where
  "delim_ok d ps = (d \<noteq> [] \<and> CHR 0x0D \<notin> set d \<and> CHR 0x0A \<notin> set d \<and> (\<forall>p \<in> set ps. \<not> js_includes d p))"

lemma delimited_eq: "delimited d tail ps = d @ drop (length d) (delimited d tail ps)"
  by (cases ps) auto

lemma mime_chunks_delimited:
  "delim_ok d (p # ps) \<Longrightarrow> mime_chunks d (CRLF @ p @ CRLF @ delimited d tail ps) = p # ps"
proof (induction ps arbitrary: p)
  case Nil
  then have f: "find_sub d (CRLF @ p @ CRLF @ d @ ''--'' @ tail) = Some (length (CRLF @ p @ CRLF))"
    by (intro find_delim) (auto simp: delim_ok_def)
  have "drop (length (CRLF @ p @ CRLF)) (CRLF @ p @ CRLF @ d @ ''--'' @ tail) = d @ ''--'' @ tail"
    "take (length (CRLF @ p @ CRLF)) (CRLF @ p @ CRLF @ d @ ''--'' @ tail) = CRLF @ p @ CRLF" by simp_all
  then show ?case using Nil f trim_newlines_part [of p]
    by (simp add: mime_chunks.simps [of d] delim_ok_def starts_with_def)
next
  case (Cons q ps)
  let ?s = "CRLF @ p @ CRLF @ d @ CRLF @ q @ CRLF @ delimited d tail ps"
  have f: "find_sub d ?s = Some (length (CRLF @ p @ CRLF))"
    using Cons.prems by (intro find_delim) (auto simp: delim_ok_def)
  have s: "drop (length (CRLF @ p @ CRLF)) ?s = d @ CRLF @ q @ CRLF @ delimited d tail ps"
    "take (length (CRLF @ p @ CRLF)) ?s = CRLF @ p @ CRLF"
    "drop (length (CRLF @ p @ CRLF) + length d) ?s = CRLF @ q @ CRLF @ delimited d tail ps" by simp_all
  have "mime_chunks d (CRLF @ q @ CRLF @ delimited d tail ps) = q # ps"
    using Cons.prems by (intro Cons.IH) (simp add: delim_ok_def)
  moreover have "\<not> starts_with (d @ ''--'') (d @ CRLF @ q @ CRLF @ delimited d tail ps)"
    by (simp add: starts_with_def CRLF_def)
  moreover have "d \<noteq> []" using Cons.prems by (simp add: delim_ok_def)
  ultimately show ?case
    using trim_newlines_part [of p]
    by (simp only: mime_chunks.simps [of d ?s] delimited.simps f s option.case if_False)
qed

lemma boundary_chunks_delimited:
  assumes "delim_ok (''--'' @ b) ps" "ps \<noteq> []"
  shows "boundary_chunks b (delimited (''--'' @ b) tail ps) = ps"
proof -
  obtain p qs where ps: "ps = p # qs" using assms(2) by (cases ps) auto
  have "find_sub (''--'' @ b) (delimited (''--'' @ b) tail ps) = Some 0"
    using find_sub_at [of "[]" "''--'' @ b"] delimited_eq [of "''--'' @ b" tail ps] by (metis append_Nil length_0_conv less_nat_zero_code)
  moreover have "drop (0 + length (''--'' @ b)) (delimited (''--'' @ b) tail ps) = CRLF @ p @ CRLF @ delimited (''--'' @ b) tail qs"
    by (simp add: ps)
  moreover have "mime_chunks (''--'' @ b) (CRLF @ p @ CRLF @ delimited (''--'' @ b) tail qs) = ps"
    using mime_chunks_delimited [of "''--'' @ b" p qs] assms(1) ps by blast
  ultimately show ?thesis by (simp only: boundary_chunks_def Let_def option.case)
qed

section \<open>Part headers\<close>

lemma find_blank_line_skip:
  "CHR 0x0D \<notin> set l \<Longrightarrow>
     find_sub (CRLF @ CRLF) (l @ s) = map_option (\<lambda>k. length l + k) (find_sub (CRLF @ CRLF) s)"
  by (cases "find_sub (CRLF @ CRLF) s"; induction l) (auto simp: starts_with_def CRLF_def)

lemma find_blank_line_break:
  "c \<noteq> CHR 0x0D \<Longrightarrow>
     find_sub (CRLF @ CRLF) (CRLF @ c # s) = map_option (\<lambda>k. Suc (Suc k)) (find_sub (CRLF @ CRLF) (c # s))"
  by (auto simp: starts_with_def CRLF_def option.map_comp comp_def)

definition header_text_line :: "string \<Rightarrow> bool" where
  "header_text_line l = (l \<noteq> [] \<and> hd l \<noteq> CHR '' '' \<and> hd l \<noteq> CHR 0x09 \<and> CHR 0x0D \<notin> set l \<and> CHR 0x0A \<notin> set l)"

lemma split_at_blank_line:
  assumes "ls \<noteq> []" "\<forall>l \<in> set ls. header_text_line l"
  shows "find_sub (CRLF @ CRLF) (js_join CRLF ls @ CRLF @ CRLF @ body) = Some (length (js_join CRLF ls))"
  using assms
proof (induction ls rule: induct_list012)
  case (2 l)
  then have "find_sub (CRLF @ CRLF) (l @ CRLF @ CRLF @ body) = map_option (\<lambda>k. length l + k) (find_sub (CRLF @ CRLF) (CRLF @ CRLF @ body))"
    by (intro find_blank_line_skip) (simp add: header_text_line_def)
  then show ?case by (simp add: CRLF_def starts_with_def)
next
  case (3 l m ls)
  have cr: "CHR 0x0D \<notin> set l" "header_text_line m" using 3 by (auto simp: header_text_line_def)
  obtain c t where c: "js_join CRLF (m # ls) @ CRLF @ CRLF @ body = c # t" "c \<noteq> CHR 0x0D"
    using cr(2) by (cases m; cases ls) (auto simp: header_text_line_def)
  have "find_sub (CRLF @ CRLF) (js_join CRLF (m # ls) @ CRLF @ CRLF @ body) = Some (length (js_join CRLF (m # ls)))"
    using 3 by simp
  then have "find_sub (CRLF @ CRLF) (CRLF @ c # t) = Some (Suc (Suc (length (js_join CRLF (m # ls)))))"
    using find_blank_line_break [OF c(2), of t] c(1) by simp
  then show ?case using find_blank_line_skip [OF cr(1), of "CRLF @ c # t"] c(1) by (simp add: CRLF_def)
qed simp

lemma splitHeadersBodyText_lines:
  assumes "ls \<noteq> []" "\<forall>l \<in> set ls. header_text_line l"
  shows "splitHeadersBodyText (js_join CRLF ls @ CRLF @ CRLF @ body) = (js_join CRLF ls, body)"
  using split_at_blank_line [OF assms, of body] by (simp add: splitHeadersBodyText_def CRLF_def)

lemma split_newlines_line:
  "CHR 0x0D \<notin> set l \<Longrightarrow> CHR 0x0A \<notin> set l \<Longrightarrow> split_newlines (l @ CRLF @ s) = l # split_newlines s"
  "CHR 0x0D \<notin> set l \<Longrightarrow> CHR 0x0A \<notin> set l \<Longrightarrow> split_newlines l = [l]"
  by (induction l) (auto simp: CRLF_def starts_with_def)

lemma split_newlines_join:
  "ls \<noteq> [] \<Longrightarrow> \<forall>l \<in> set ls. header_text_line l \<Longrightarrow> split_newlines (js_join CRLF ls) = ls"
  by (induction ls rule: induct_list012) (auto simp: split_newlines_line header_text_line_def)

lemma parseSubHeaders_lines:
  assumes "ls \<noteq> []" "\<forall>l \<in> set ls. header_text_line l" "map sub_header ls = map Some hs"
  shows "parseSubHeaders (js_join CRLF ls) = hs"
proof -
  have "foldl add_sub_line out ls = out @ hs" if "\<forall>l \<in> set ls. header_text_line l" "map sub_header ls = map Some hs" for ls hs out
    using that
  proof (induction ls arbitrary: hs out)
    case (Cons l ls)
    then obtain h hs' where "hs = h # hs'" "sub_header l = Some h" "map sub_header ls = map Some hs'" by (cases hs) auto
    then show ?case using Cons.IH [of hs' "out @ [h]"] Cons.prems by (auto simp: add_sub_line_def header_text_line_def)
  qed simp
  from this [OF assms(2,3), of "[]"] show ?thesis using assms by (simp add: parseSubHeaders_def split_newlines_join)
qed

section \<open>The parts of a composed message\<close>

definition ascii :: "string \<Rightarrow> bool" where
  "ascii s = list_all (\<lambda>c. code c < 128) s"

lemma js_words_ascii: "ascii s \<Longrightarrow> js_words s = text_encode s"
  by (induction s) (auto simp: ascii_def js_words_def text_encode_def utf8_char_def Let_def)

definition text_chunk :: "string \<Rightarrow> string \<Rightarrow> string" where
  "text_chunk t v = js_join CRLF [''Content-Type: '' @ t @ ''; charset=utf-8'', ''Content-Transfer-Encoding: 8bit''] @ CRLF @ CRLF @ v"

definition att_lines :: "send_attachment \<Rightarrow> string list" where
  "att_lines a = [''Content-Type: '' @ sa_content_type a @ ''; name='' @ [CHR 0x22] @ sa_filename a @ [CHR 0x22],
     ''Content-Disposition: attachment; filename='' @ [CHR 0x22] @ sa_filename a @ [CHR 0x22], ''Content-Transfer-Encoding: base64'']"

definition att_chunk :: "send_attachment \<Rightarrow> string" where
  "att_chunk a = js_join CRLF (att_lines a) @ CRLF @ CRLF @ wrap_76 (no_space (sa_content_base64 a))"

definition alt_chunks :: "SendRequestLike \<Rightarrow> string list" where
  "alt_chunks req = [text_chunk ''text/plain'' (the (sq_text req)), text_chunk ''text/html'' (the (sq_html req))]"

definition nested_chunk :: "string \<Rightarrow> SendRequestLike \<Rightarrow> string" where
  "nested_chunk alt req =
     js_join CRLF [''Content-Type: '' @ boundary_type ''multipart/alternative'' alt] @ CRLF @ CRLF @ delimited (''--'' @ alt) [] (alt_chunks req)"

definition first_chunk :: "string \<Rightarrow> SendRequestLike \<Rightarrow> string" where
  "first_chunk alt req =
     (if is_set (sq_html req) \<and> is_set (sq_text req) then nested_chunk alt req
      else if is_set (sq_html req) then text_chunk ''text/html'' (the (sq_html req))
      else text_chunk ''text/plain'' (case sq_text req of Some v \<Rightarrow> v | None \<Rightarrow> []))"

lemma text_part_chunk: "text_part b t v = ''--'' @ b @ CRLF @ text_chunk t v @ CRLF"
  by (simp add: text_part_def text_chunk_def)

lemma attachment_part_chunk: "attachment_part b a = Some p \<Longrightarrow> p = ''--'' @ b @ CRLF @ att_chunk a @ CRLF"
  by (auto simp: attachment_part_def att_chunk_def att_lines_def Let_def split: option.splits)

lemma alternative_parts_delimited: "alternative_parts b req = delimited (''--'' @ b) CRLF (alt_chunks req)"
  by (simp add: alternative_parts_def alt_chunks_def text_part_chunk end_delim_def)

lemma delimited_tail: "delimited d (u @ v) ps = delimited d u ps @ v"
  by (induction ps) simp_all

lemma all_some_attachments:
  "all_some (map (attachment_part b) atts) = Some ps \<Longrightarrow>
     concat ps @ end_delim b = delimited (''--'' @ b) CRLF (map att_chunk atts)"
proof (induction atts arbitrary: ps)
  case (Cons a atts)
  then obtain p qs where "attachment_part b a = Some p" "all_some (map (attachment_part b) atts) = Some qs" "ps = p # qs"
    by (auto split: option.splits)
  then show ?case using Cons.IH [of qs] attachment_part_chunk [of b a p] by simp
qed (simp add: end_delim_def)

lemma mixed_body_delimited:
  assumes "mixed_body outer alt req atts = Inr body"
  shows "body = delimited (''--'' @ outer) CRLF (first_chunk alt req # map att_chunk atts)"
proof -
  obtain ps where ps: "all_some (map (attachment_part outer) atts) = Some ps"
    using assms by (auto simp: mixed_body_def Let_def split: option.splits)
  have n: "alternative_parts alt req = delimited (''--'' @ alt) [] (alt_chunks req) @ CRLF"
    using delimited_tail [of "''--'' @ alt" "[]" CRLF] by (simp add: alternative_parts_delimited)
  show ?thesis
    using assms all_some_attachments [OF ps] ps
    by (auto simp: mixed_body_def Let_def first_chunk_def nested_chunk_def text_part_chunk n boundary_type_def)
qed

definition att_ok :: "send_attachment \<Rightarrow> bool" where
  "att_ok a =
     (sa_content_type a \<noteq> [] \<and> list_all (\<lambda>c. 32 < code c \<and> code c < 127 \<and> code c \<noteq> 59) (sa_content_type a) \<and>
      sa_filename a \<noteq> [] \<and> length (sa_filename a) \<le> 255 \<and>
      list_all (\<lambda>c. 31 < code c \<and> code c < 127 \<and> code c \<notin> {34, 39, 59}) (sa_filename a))"

lemma no_control:
  "list_all (\<lambda>c. 31 < code c \<and> P c) s \<Longrightarrow> CHR 0x0D \<notin> set s \<and> CHR 0x0A \<notin> set s"
  by (auto simp: list_all_iff)

lemma att_ok_no_control:
  assumes "att_ok a"
  shows "CHR 0x0D \<notin> set (sa_content_type a)" "CHR 0x0A \<notin> set (sa_content_type a)"
    "CHR 0x0D \<notin> set (sa_filename a)" "CHR 0x0A \<notin> set (sa_filename a)"
  using assms by (auto simp: att_ok_def list_all_iff)

lemma att_lines_ok: "att_ok a \<Longrightarrow> \<forall>l \<in> set (att_lines a). header_text_line l"
  using att_ok_no_control [of a] by (simp add: att_lines_def header_text_line_def)

lemma js_trim_blank: "s \<noteq> [] \<Longrightarrow> \<not> is_space (hd s) \<Longrightarrow> \<not> is_space (last s) \<Longrightarrow> js_trim (CHR '' '' # s) = s"
  using js_trim_id [of s] by (simp add: js_trim_def is_space_def)

lemma sub_header_line:
  assumes "CHR '':'' \<notin> set n" "n \<noteq> []" "js_trim n = n" "v \<noteq> []" "\<not> is_space (hd v)" "\<not> is_space (last v)" "CHR 0x0D \<notin> set v"
  shows "sub_header (n @ '': '' @ v) = Some (js_lower n, v)"
proof -
  have "index_of (CHR '':'') (n @ CHR '':'' # CHR '' '' # v) = Some (length n)" using assms(1) by (rule index_of_append_notin)
  then obtain k where "index_of (CHR '':'') (n @ CHR '':'' # CHR '' '' # v) = Some (Suc k)" "length n = Suc k"
    using assms(2) by (cases n) auto
  then show ?thesis
    using assms js_trim_blank [OF assms(4-6)] by (simp add: sub_header_def Let_def is_space_def)
qed

lemma header_names:
  "CHR '':'' \<notin> set ''Content-Type''" "js_trim ''Content-Type'' = ''Content-Type''" "js_lower ''Content-Type'' = ''content-type''"
  "CHR '':'' \<notin> set ''Content-Disposition''" "js_trim ''Content-Disposition'' = ''Content-Disposition''"
  "js_lower ''Content-Disposition'' = ''content-disposition''"
  "CHR '':'' \<notin> set ''Content-Transfer-Encoding''" "js_trim ''Content-Transfer-Encoding'' = ''Content-Transfer-Encoding''"
  "js_lower ''Content-Transfer-Encoding'' = ''content-transfer-encoding''"
  by code_simp+

lemma sub_header_names:
  assumes "v \<noteq> []" "\<not> is_space (hd v)" "\<not> is_space (last v)" "CHR 0x0D \<notin> set v"
  shows "sub_header (''Content-Type: '' @ v) = Some (''content-type'', v)"
    "sub_header (''Content-Disposition: '' @ v) = Some (''content-disposition'', v)"
    "sub_header (''Content-Transfer-Encoding: '' @ v) = Some (''content-transfer-encoding'', v)"
  using sub_header_line [OF header_names(1) _ header_names(2) assms] sub_header_line [OF header_names(4) _ header_names(5) assms]
    sub_header_line [OF header_names(7) _ header_names(8) assms] header_names(3,6,9) by simp_all

lemma sub_part_of_lines:
  assumes "ls \<noteq> []" "\<forall>l \<in> set ls. header_text_line l" "map sub_header ls = map Some hs"
  shows "sub_part_of (js_join CRLF ls @ CRLF @ CRLF @ body) =
    \<lparr> sp_ct = (case map_of hs ''content-type'' of Some v \<Rightarrow> v | None \<Rightarrow> ''text/plain''),
      sp_disp = (case map_of hs ''content-disposition'' of Some v \<Rightarrow> v | None \<Rightarrow> []),
      sp_xfer = js_lower (case map_of hs ''content-transfer-encoding'' of Some v \<Rightarrow> v | None \<Rightarrow> []), sp_body = body \<rparr>"
proof -
  have "js_lower ''content-type'' = ''content-type''" "js_lower ''content-disposition'' = ''content-disposition''"
    "js_lower ''content-transfer-encoding'' = ''content-transfer-encoding''" by code_simp+
  then show ?thesis
    using splitHeadersBodyText_lines [OF assms(1,2), of body] parseSubHeaders_lines [OF assms]
    by (simp add: sub_part_of_def getSubHeader_def Let_def)
qed

definition text_leaf :: "string \<Rightarrow> string \<Rightarrow> mime_leaf" where
  "text_leaf t v = \<lparr> lf_body = v, lf_decoded = js_words v, lf_ct = \<lparr> ct_type = t, ct_boundary = None, ct_charset = ''utf-8'' \<rparr>,
     lf_xfer = ''8bit'', lf_filename = None \<rparr>"

lemma text_types:
  "parseContentType ''text/plain; charset=utf-8'' = \<lparr> ct_type = ''text/plain'', ct_boundary = None, ct_charset = ''utf-8'' \<rparr>"
  "parseContentType ''text/html; charset=utf-8'' = \<lparr> ct_type = ''text/html'', ct_boundary = None, ct_charset = ''utf-8'' \<rparr>"
  "part_filename [] ''text/plain; charset=utf-8'' = None" "part_filename [] ''text/html; charset=utf-8'' = None"
  "sub_header ''Content-Type: text/plain; charset=utf-8'' = Some (''content-type'', ''text/plain; charset=utf-8'')"
  "sub_header ''Content-Type: text/html; charset=utf-8'' = Some (''content-type'', ''text/html; charset=utf-8'')"
  "sub_header ''Content-Transfer-Encoding: 8bit'' = Some (''content-transfer-encoding'', ''8bit'')"
  "js_lower ''8bit'' = ''8bit''"
  by code_simp+

lemma text_chunk_part:
  assumes "t \<in> {''text/plain'', ''text/html''}"
  shows "sub_part_of (text_chunk t v) = \<lparr> sp_ct = t @ ''; charset=utf-8'', sp_disp = [], sp_xfer = ''8bit'', sp_body = v \<rparr>"
proof -
  have "sub_part_of (text_chunk t v) =
    \<lparr> sp_ct = (case map_of [(''content-type'', t @ ''; charset=utf-8''), (''content-transfer-encoding'', ''8bit'')] ''content-type'' of
        Some v \<Rightarrow> v | None \<Rightarrow> ''text/plain''),
      sp_disp = (case map_of [(''content-type'', t @ ''; charset=utf-8''), (''content-transfer-encoding'', ''8bit'')] ''content-disposition'' of
        Some v \<Rightarrow> v | None \<Rightarrow> []),
      sp_xfer = js_lower (case map_of [(''content-type'', t @ ''; charset=utf-8''), (''content-transfer-encoding'', ''8bit'')]
        ''content-transfer-encoding'' of Some v \<Rightarrow> v | None \<Rightarrow> []), sp_body = v \<rparr>"
    unfolding text_chunk_def using assms by (intro sub_part_of_lines) (auto simp: header_text_line_def text_types)
  then show ?thesis using text_types(8) by simp
qed

lemma text_chunk_leaf:
  assumes "t \<in> {''text/plain'', ''text/html''}"
  shows "sub_leaf (sub_part_of (text_chunk t v)) = text_leaf t v"
    "is_multipart (parseContentType (sp_ct (sub_part_of (text_chunk t v)))) = False"
  using assms text_chunk_part [OF assms, of v] text_types(1-4)
  by (auto simp: sub_leaf_def text_leaf_def decodePart_def is_multipart_def)

subsection \<open>Attachment parts\<close>

lemma split_attachment_type:
  assumes "CHR '';'' \<notin> set ct" "CHR '';'' \<notin> set fn"
  shows "js_split (CHR '';'') (ct @ ''; name='' @ [CHR 0x22] @ fn @ [CHR 0x22]) = [ct, '' name='' @ [CHR 0x22] @ fn @ [CHR 0x22]]"
  using js_split_append_sep [OF assms(1), of "'' name='' @ [CHR 0x22] @ fn @ [CHR 0x22]"]
    js_split_notin [of "CHR '';''" "'' name='' @ [CHR 0x22] @ fn @ [CHR 0x22]"] assms(2) by simp

lemma js_lower_name: "js_lower ''name'' = ''name''" "js_lower ''filename'' = ''filename''" "js_lower ''boundary'' = ''boundary''"
  by code_simp+

lemma att_ok_type:
  assumes "att_ok a"
  shows "js_trim (sa_content_type a) = sa_content_type a" "\<not> is_space (hd (sa_content_type a))"
    "CHR '';'' \<notin> set (sa_content_type a)" "CHR '';'' \<notin> set (sa_filename a)" "CHR 0x22 \<notin> set (sa_filename a)" "CHR 0x27 \<notin> set (sa_filename a)"
proof -
  have "\<not> is_space c" if "c \<in> set (sa_content_type a)" for c
    using assms that by (auto simp: att_ok_def list_all_iff is_space_def) 
  then show "js_trim (sa_content_type a) = sa_content_type a" "\<not> is_space (hd (sa_content_type a))"
    using assms js_trim_id [of "sa_content_type a"] by (auto simp: att_ok_def)
  show "CHR '';'' \<notin> set (sa_content_type a)" "CHR '';'' \<notin> set (sa_filename a)" "CHR 0x22 \<notin> set (sa_filename a)" "CHR 0x27 \<notin> set (sa_filename a)"
    using assms by (auto simp: att_ok_def list_all_iff)
qed

lemma quoted_param:
  assumes "CHR 0x22 \<notin> set v" "CHR ''='' \<notin> set n" "n \<noteq> []"
  shows "ct_param (n @ ''='' @ [CHR 0x22] @ v @ [CHR 0x22]) = Some (js_lower n, v)"
proof -
  have "index_of (CHR ''='') (n @ CHR ''='' # CHR 0x22 # v @ [CHR 0x22]) = Some (length n)" using assms(2) by (rule index_of_append_notin)
  moreover obtain k where "length n = Suc k" using assms(3) by (cases n) auto
  ultimately show ?thesis using assms(1) by (simp add: ct_param_def Let_def)
qed

lemma trim_quoted: "js_trim (CHR '' '' # c # s @ [CHR 0x22]) = c # s @ [CHR 0x22]" if "\<not> is_space c"
  using js_trim_blank [of "c # s @ [CHR 0x22]"] that by (simp add: is_space_def)

lemma attachment_content_type:
  assumes "att_ok a"
  shows "parseContentType (sa_content_type a @ ''; name='' @ [CHR 0x22] @ sa_filename a @ [CHR 0x22]) =
    \<lparr> ct_type = js_lower (sa_content_type a), ct_boundary = None, ct_charset = ''utf-8'' \<rparr>"
proof -
  note t = att_ok_type [OF assms]
  have p: "ct_param (CHR ''n'' # ''ame='' @ [CHR 0x22] @ sa_filename a @ [CHR 0x22]) = Some (''name'', sa_filename a)"
    using quoted_param [OF t(5), of "''name''"] js_lower_name by simp
  have "js_trim ('' name='' @ [CHR 0x22] @ sa_filename a @ [CHR 0x22]) = CHR ''n'' # ''ame='' @ [CHR 0x22] @ sa_filename a @ [CHR 0x22]"
    using trim_quoted [of "CHR ''n''" "''ame='' @ [CHR 0x22] @ sa_filename a"] by (simp add: is_space_def)
  then show ?thesis using t(1) p split_attachment_type [OF t(3,4)] by (simp add: parseContentType_def Let_def map_filter_def)
qed

lemma takeWhile_filename:
  assumes "att_ok a"
  shows "takeWhile (\<lambda>c. code c \<notin> {34, 39, 59}) (sa_filename a @ [CHR 0x22]) = sa_filename a"
proof -
  have "\<forall>c \<in> set (sa_filename a). code c \<notin> {34, 39, 59}" using assms by (auto simp: att_ok_def list_all_iff)
  then show ?thesis by (subst takeWhile_append2) auto
qed

lemma disposition_filename:
  assumes "att_ok a"
  shows "part_filename (''attachment; filename='' @ [CHR 0x22] @ sa_filename a @ [CHR 0x22]) ct = Some (sa_filename a)"
proof -
  have "name_value_at ''filename'' True (''filename='' @ [CHR 0x22] @ sa_filename a @ [CHR 0x22]) = Some (sa_filename a)"
    using takeWhile_filename [OF assms] assms js_lower_name by (simp add: name_value_at_def starts_with_def att_ok_def)
  moreover have "name_value_at ''filename'' True (c # t) = None" if "js_lower_char c \<noteq> CHR ''f''" for c t
    using that by (simp add: name_value_at_def Let_def)
  ultimately have "first_match (name_value_at ''filename'' True) (''attachment; filename='' @ [CHR 0x22] @ sa_filename a @ [CHR 0x22]) = Some (sa_filename a)"
    by (simp add: js_lower_char_def)
  then show ?thesis using assms by (simp add: part_filename_def att_ok_def)
qed

lemma no_space_wrap: "list_all (\<lambda>c. \<not> is_space c) s \<Longrightarrow> filter (\<lambda>c. \<not> is_space c) (wrap_76 s) = s"
proof (induction s rule: wrap_76.induct)
  case (1 s)
  have id: "list_all (\<lambda>c. \<not> is_space c) t \<Longrightarrow> filter (\<lambda>c. \<not> is_space c) t = t" for t
    by (simp add: filter_id_conv list_all_iff)
  show ?case
  proof (cases "length s < 76")
    case True
    then show ?thesis using id [OF 1(2)] by (simp add: wrap_76.simps [of s])
  next
    case False
    have "list_all (\<lambda>c. \<not> is_space c) (take 76 s)" "list_all (\<lambda>c. \<not> is_space c) (drop 76 s)"
      using 1(2) by (metis append_take_drop_id list_all_append)+
    moreover have "filter (\<lambda>c. \<not> is_space c) CRLF = []" by (simp add: CRLF_def is_space_def)
    ultimately show ?thesis using 1(1) [OF False] id [of "take 76 s"] False by (simp add: wrap_76.simps [of s])
  qed
qed

definition att_bytes :: "send_attachment \<Rightarrow> bytes" where
  "att_bytes a = (case atob (no_space (sa_content_base64 a)) of Some bin \<Rightarrow> js_words bin | None \<Rightarrow> [])"

definition att_leaf :: "send_attachment \<Rightarrow> mime_leaf" where
  "att_leaf a = \<lparr> lf_body = wrap_76 (no_space (sa_content_base64 a)), lf_decoded = att_bytes a,
     lf_ct = \<lparr> ct_type = js_lower (sa_content_type a), ct_boundary = None, ct_charset = ''utf-8'' \<rparr>,
     lf_xfer = ''base64'', lf_filename = Some (sa_filename a) \<rparr>"

lemma quote_not_space: "\<not> is_space (CHR 0x22)" "\<not> is_space (CHR ''a'')"
  by (simp_all add: is_space_def)

lemma att_chunk_part:
  assumes "att_ok a"
  shows "sub_part_of (att_chunk a) =
    \<lparr> sp_ct = sa_content_type a @ ''; name='' @ [CHR 0x22] @ sa_filename a @ [CHR 0x22],
      sp_disp = ''attachment; filename='' @ [CHR 0x22] @ sa_filename a @ [CHR 0x22], sp_xfer = ''base64'',
      sp_body = wrap_76 (no_space (sa_content_base64 a)) \<rparr>"
proof -
  let ?ct = "sa_content_type a @ ''; name='' @ [CHR 0x22] @ sa_filename a @ [CHR 0x22]"
  let ?d = "''attachment; filename='' @ [CHR 0x22] @ sa_filename a @ [CHR 0x22]"
  let ?hs = "[(''content-type'', ?ct), (''content-disposition'', ?d), (''content-transfer-encoding'', ''base64'')]"
  note cr = att_ok_no_control [OF assms]
  have "sub_header (''Content-Type: '' @ ?ct) = Some (''content-type'', ?ct)"
    using assms att_ok_type(2) [OF assms] cr quote_not_space by (intro sub_header_names) (auto simp: att_ok_def)
  moreover have "sub_header (''Content-Disposition: '' @ ?d) = Some (''content-disposition'', ?d)"
    using cr quote_not_space by (intro sub_header_names) simp_all
  moreover have "sub_header ''Content-Transfer-Encoding: base64'' = Some (''content-transfer-encoding'', ''base64'')" by code_simp
  ultimately have "map sub_header (att_lines a) = map Some ?hs" by (simp add: att_lines_def)
  moreover have "att_lines a \<noteq> []" "js_lower ''base64'' = ''base64''" by (simp add: att_lines_def, code_simp)
  ultimately show ?thesis
    unfolding att_chunk_def using sub_part_of_lines [OF _ att_lines_ok [OF assms], of ?hs] by simp
qed

lemma att_chunk_leaf:
  assumes "att_ok a" "atob (no_space (sa_content_base64 a)) \<noteq> None"
  shows "sub_leaf (sub_part_of (att_chunk a)) = att_leaf a"
    "is_multipart (parseContentType (sp_ct (sub_part_of (att_chunk a)))) = False"
proof -
  have "list_all (\<lambda>c. \<not> is_space c) (no_space (sa_content_base64 a))" by (simp add: no_space_def list_all_iff)
  from no_space_wrap [OF this]
  have "decodePart (wrap_76 (no_space (sa_content_base64 a))) ''base64'' = att_bytes a"
    using assms(2) by (auto simp: decodePart_def att_bytes_def)
  then show "sub_leaf (sub_part_of (att_chunk a)) = att_leaf a"
    "is_multipart (parseContentType (sp_ct (sub_part_of (att_chunk a)))) = False"
    using att_chunk_part [OF assms(1)] attachment_content_type [OF assms(1)] disposition_filename [OF assms(1)]
    by (simp_all add: sub_leaf_def att_leaf_def is_multipart_def)
qed

subsection \<open>Boundaries\<close>

definition boundary_char :: "char \<Rightarrow> bool" where
  "boundary_char c = (32 < code c \<and> code c < 127 \<and> code c \<notin> {34, 59})"

lemma randomBoundary_chars: "c \<in> set (randomBoundary r) \<Longrightarrow> boundary_char c"
proof -
  assume "c \<in> set (randomBoundary r)"
  then consider "c \<in> set ''----=_polaris_''" | b where "c \<in> set (hex_byte b)"
    by (auto simp: randomBoundary_def hex_byte_def)
  then show ?thesis
  proof cases
    case 1
    then show ?thesis by (auto simp: boundary_char_def)
  next
    case (2 b)
    have "unat b div 16 < 16" "unat b mod 16 < 16" using unat_byte_less [of b] by linarith+
    moreover have "boundary_char (digit_char d)" if "d < 16" for d
      using that by (auto simp: boundary_char_def code_digit_char)
    ultimately show ?thesis using 2 by (fastforce simp: hex_byte_eq)
  qed
qed

lemma randomBoundary_nonempty: "randomBoundary r \<noteq> []"
  by (simp add: randomBoundary_def)

lemma boundary_no_special:
  "CHR 0x22 \<notin> set (randomBoundary r)" "CHR '';'' \<notin> set (randomBoundary r)" "CHR 0x0D \<notin> set (randomBoundary r)"
  "CHR 0x0A \<notin> set (randomBoundary r)"
  using randomBoundary_chars [of _ r] by (force simp: boundary_char_def)+

lemma boundary_content_type:
  assumes "t \<in> {''multipart/mixed'', ''multipart/alternative''}"
  shows "parseContentType (boundary_type t (randomBoundary r)) =
    \<lparr> ct_type = t, ct_boundary = Some (randomBoundary r), ct_charset = ''utf-8'' \<rparr>"
proof -
  let ?p = "'' boundary='' @ [CHR 0x22] @ randomBoundary r @ [CHR 0x22]"
  have s: "js_split (CHR '';'') (boundary_type t (randomBoundary r)) = [t, ?p]"
    using js_split_append_sep [of "CHR '';''" t ?p] js_split_notin [of "CHR '';''" ?p] boundary_no_special(2) [of r] assms
    by (auto simp: boundary_type_def)
  have p: "ct_param (''boundary='' @ [CHR 0x22] @ randomBoundary r @ [CHR 0x22]) = Some (''boundary'', randomBoundary r)"
    using quoted_param [OF boundary_no_special(1), of "''boundary''"] js_lower_name by simp
  have j: "js_trim ?p = ''boundary='' @ [CHR 0x22] @ randomBoundary r @ [CHR 0x22]"
    using trim_quoted [of "CHR ''b''" "''oundary='' @ [CHR 0x22] @ randomBoundary r"] by (simp add: is_space_def)
  have t: "js_lower (js_trim t) = t"
    using assms by (elim insertE emptyE; simp only:) code_simp+
  show ?thesis
    using t p j randomBoundary_nonempty [of r] by (simp add: parseContentType_def Let_def s map_filter_def)
qed

lemma is_multipart_boundary:
  "t \<in> {''multipart/mixed'', ''multipart/alternative''} \<Longrightarrow> is_multipart (parseContentType (boundary_type t (randomBoundary r)))"
  by (auto simp: boundary_content_type is_multipart_def starts_with_def)

lemma nested_chunk_part:
  "sub_part_of (nested_chunk (randomBoundary r) req) =
     \<lparr> sp_ct = boundary_type ''multipart/alternative'' (randomBoundary r), sp_disp = [], sp_xfer = [],
       sp_body = delimited (''--'' @ randomBoundary r) [] (alt_chunks req) \<rparr>"
proof -
  let ?ct = "boundary_type ''multipart/alternative'' (randomBoundary r)"
  have b: "hd ?ct = CHR ''m''" "last ?ct = CHR 0x22" "?ct \<noteq> []" "CHR 0x0D \<notin> set ?ct" "CHR 0x0A \<notin> set ?ct"
    using boundary_no_special [of r] by (simp_all add: boundary_type_def)
  then have "sub_header (''Content-Type: '' @ ?ct) = Some (''content-type'', ?ct)"
    by (intro sub_header_names) (auto simp: is_space_def)
  moreover have "header_text_line (''Content-Type: '' @ ?ct)" using b by (simp add: header_text_line_def)
  ultimately show ?thesis
    unfolding nested_chunk_def
    using sub_part_of_lines [of "[''Content-Type: '' @ ?ct]" "[(''content-type'', ?ct)]" "delimited (''--'' @ randomBoundary r) [] (alt_chunks req)"]
    by simp
qed

lemma visit_all_map: "(\<And>x. x \<in> set xs \<Longrightarrow> f x = (g x, None)) \<Longrightarrow> visit_all f xs = (concat (map g xs), None)"
  by (induction xs) simp_all

lemma walkParts_delimited:
  assumes "t \<in> {''multipart/mixed'', ''multipart/alternative''}" "depth \<le> MAX_MULTIPART_DEPTH" "ps \<noteq> []"
    and "delim_ok (''--'' @ randomBoundary r) ps"
    and "\<And>p. p \<in> set ps \<Longrightarrow> (let sp = sub_part_of p in
        if is_multipart (parseContentType (sp_ct sp)) then walkParts (sp_body sp) (sp_ct sp) (sp_xfer sp) (depth + 1)
        else ([sub_leaf sp], None)) = (g p, None)"
  shows "walkParts (delimited (''--'' @ randomBoundary r) tail ps) (boundary_type t (randomBoundary r)) xfer depth = (concat (map g ps), None)"
proof -
  have "boundary_chunks (randomBoundary r) (delimited (''--'' @ randomBoundary r) tail ps) = ps"
    using boundary_chunks_delimited [OF assms(4,3)] .
  moreover have "\<not> depth > MAX_MULTIPART_DEPTH" using assms(2) by simp
  moreover note is_multipart_boundary [OF assms(1), of r] boundary_content_type [OF assms(1), of r]
    visit_all_map [OF assms(5), of ps "\<lambda>x. x"]
  ultimately show ?thesis
    by (subst walkParts.simps) (simp only: Let_def if_False not_True_eq_False content_type.select_convs option.sel)
qed

section \<open>Composed messages read back\<close>

definition plain_text :: "SendRequestLike \<Rightarrow> string" where
  "plain_text req = (case sq_text req of Some v \<Rightarrow> v | None \<Rightarrow> [])"

definition first_leaves :: "SendRequestLike \<Rightarrow> mime_leaf list" where
  "first_leaves req =
     (if is_set (sq_html req) \<and> is_set (sq_text req) then
        [text_leaf ''text/plain'' (the (sq_text req)), text_leaf ''text/html'' (the (sq_html req))]
      else if is_set (sq_html req) then [text_leaf ''text/html'' (the (sq_html req))]
      else [text_leaf ''text/plain'' (plain_text req)])"

definition request_attachments :: "SendRequestLike \<Rightarrow> send_attachment list" where
  "request_attachments req = (case sq_attachments req of Some as \<Rightarrow> as | None \<Rightarrow> [])"

definition alternative :: "SendRequestLike \<Rightarrow> bool" where
  "alternative req = (is_set (sq_html req) \<and> is_set (sq_text req))"

text \<open>The boundaries do not occur in what they delimit, and the file names and types fit in a header parameter.\<close>
definition parts_ok :: "string \<Rightarrow> string \<Rightarrow> SendRequestLike \<Rightarrow> bool" where
  "parts_ok b0 b1 req =
     (list_all att_ok (request_attachments req) \<and>
      (if request_attachments req = [] then alternative req \<longrightarrow> delim_ok (''--'' @ b0) (alt_chunks req)
       else delim_ok (''--'' @ b0) (first_chunk b1 req # map att_chunk (request_attachments req)) \<and>
            (alternative req \<longrightarrow> delim_ok (''--'' @ b1) (alt_chunks req))))"

lemma alt_leaves:
  assumes "delim_ok (''--'' @ randomBoundary r) (alt_chunks req)" "depth \<le> MAX_MULTIPART_DEPTH"
  shows "walkParts (delimited (''--'' @ randomBoundary r) tail (alt_chunks req)) (boundary_type ''multipart/alternative'' (randomBoundary r)) xfer depth =
    ([text_leaf ''text/plain'' (the (sq_text req)), text_leaf ''text/html'' (the (sq_html req))], None)"
proof -
  have ne: "alt_chunks req \<noteq> []" by (simp add: alt_chunks_def)
  have "(let sp = sub_part_of p in
        if is_multipart (parseContentType (sp_ct sp)) then walkParts (sp_body sp) (sp_ct sp) (sp_xfer sp) (depth + 1)
        else ([sub_leaf sp], None)) = ([sub_leaf (sub_part_of p)], None)" if "p \<in> set (alt_chunks req)" for p
    using that text_chunk_leaf(2) [of "''text/plain''"] text_chunk_leaf(2) [of "''text/html''"]
    by (auto simp: alt_chunks_def Let_def)
  from walkParts_delimited [OF _ assms(2) ne assms(1) this, of "''multipart/alternative''" tail xfer]
  show ?thesis by (simp add: alt_chunks_def text_chunk_leaf(1))
qed

lemma first_chunk_visit:
  assumes "alternative req \<Longrightarrow> delim_ok (''--'' @ randomBoundary r) (alt_chunks req)"
  shows "(let sp = sub_part_of (first_chunk (randomBoundary r) req) in
     if is_multipart (parseContentType (sp_ct sp)) then walkParts (sp_body sp) (sp_ct sp) (sp_xfer sp) (0 + 1)
     else ([sub_leaf sp], None)) = (first_leaves req, None)"
proof (cases "is_set (sq_html req) \<and> is_set (sq_text req)")
  case True
  have "(0::nat) + 1 \<le> MAX_MULTIPART_DEPTH" by (simp add: MAX_MULTIPART_DEPTH_def)
  then show ?thesis
    using True alt_leaves [OF assms, of "0 + 1" "[]" "[]", unfolded alternative_def] nested_chunk_part [of r req]
      is_multipart_boundary [of "''multipart/alternative''" r]
    by (simp only: first_chunk_def first_leaves_def if_True Let_def sub_part.select_convs) simp
next
  case False
  then show ?thesis
    using text_chunk_leaf [of "''text/plain''"] text_chunk_leaf [of "''text/html''"]
    by (auto simp: first_chunk_def first_leaves_def plain_text_def Let_def)
qed

lemma attachment_decodes:
  "mixed_body b0 b1 req atts = Inr body \<Longrightarrow> \<forall>a \<in> set atts. atob (no_space (sa_content_base64 a)) \<noteq> None"
proof -
  assume "mixed_body b0 b1 req atts = Inr body"
  then obtain ps where "all_some (map (attachment_part b0) atts) = Some ps"
    by (auto simp: mixed_body_def Let_def split: option.splits)
  then show ?thesis
    by (induction atts arbitrary: ps) (auto simp: attachment_part_def Let_def split: option.splits)
qed

lemma mixed_leaves:
  assumes "mixed_body (randomBoundary r0) (randomBoundary r1) req atts = Inr body" "list_all att_ok atts"
    and "delim_ok (''--'' @ randomBoundary r0) (first_chunk (randomBoundary r1) req # map att_chunk atts)"
    and "alternative req \<longrightarrow> delim_ok (''--'' @ randomBoundary r1) (alt_chunks req)"
  shows "walkParts body (boundary_type ''multipart/mixed'' (randomBoundary r0)) xfer 0 = (first_leaves req @ map att_leaf atts, None)"
proof -
  let ?f = "first_chunk (randomBoundary r1) req"
  let ?ps = "?f # map att_chunk atts"
  let ?v = "\<lambda>p. let sp = sub_part_of p in
      if is_multipart (parseContentType (sp_ct sp)) then walkParts (sp_body sp) (sp_ct sp) (sp_xfer sp) (0 + 1)
      else ([sub_leaf sp], None)"
  have att: "?v (att_chunk a) = ([att_leaf a], None)" if "a \<in> set atts" for a
    using att_chunk_leaf [of a] assms(2) attachment_decodes [OF assms(1)] that by (simp add: list_all_iff)
  have first: "?v ?f = (first_leaves req, None)" using assms(4) by (intro first_chunk_visit) blast
  have "?v p = (fst (?v p), None)" if "p \<in> set ?ps" for p using that att first by fastforce
  from walkParts_delimited [OF _ _ _ assms(3) this, of "''multipart/mixed''" CRLF xfer]
  have "walkParts body (boundary_type ''multipart/mixed'' (randomBoundary r0)) xfer 0 = (concat (map (\<lambda>p. fst (?v p)) ?ps), None)"
    using mixed_body_delimited [OF assms(1)] by simp
  moreover have "concat (map (\<lambda>p. fst (?v p)) (map att_chunk as)) = map att_leaf as" if "set as \<subseteq> set atts" for as
    using that att by (induction as) auto
  ultimately show ?thesis using first by simp
qed

text \<open>The leaves of a composed message; a message of one part has no transfer encoding.\<close>
lemma composed_leaves:
  assumes "compose_body (randomBoundary r0) (randomBoundary r1) req = Inr (ct, body)"
    and "parts_ok (randomBoundary r0) (randomBoundary r1) req"
  shows "\<exists>ls. walkParts body ct [] 0 = (ls @ map att_leaf (request_attachments req), None) \<and>
    map (\<lambda>l. l\<lparr>lf_xfer := []\<rparr>) ls = map (\<lambda>l. l\<lparr>lf_xfer := []\<rparr>) (first_leaves req)"
proof (cases "request_attachments req = []")
  case True
  then have c: "compose_body (randomBoundary r0) (randomBoundary r1) req =
      (if is_set (sq_html req) \<and> is_set (sq_text req) then
         Inr (boundary_type ''multipart/alternative'' (randomBoundary r0), alternative_parts (randomBoundary r0) req)
       else if is_set (sq_html req) then Inr (''text/html; charset=utf-8'', the (sq_html req))
       else Inr (''text/plain; charset=utf-8'', plain_text req))"
    by (auto simp: compose_body_def request_attachments_def plain_text_def split: option.splits list.splits)
  show ?thesis
  proof (cases "is_set (sq_html req) \<and> is_set (sq_text req)")
    case both: True
    then have "ct = boundary_type ''multipart/alternative'' (randomBoundary r0)"
        "body = delimited (''--'' @ randomBoundary r0) CRLF (alt_chunks req)"
      using assms(1) c by (auto simp: alternative_parts_delimited)
    then show ?thesis
      using alt_leaves [of r0 req 0 CRLF "[]"] assms(2) True both
      by (simp add: parts_ok_def MAX_MULTIPART_DEPTH_def first_leaves_def alternative_def)
  next
    case False
    then show ?thesis
      using assms(1) c True text_types
      by (auto simp: walkParts.simps [of body] MAX_MULTIPART_DEPTH_def is_multipart_def first_leaves_def text_leaf_def decodePart_def)
  qed
next
  case False
  then obtain a as where as: "sq_attachments req = Some (a # as)" "request_attachments req = a # as"
    by (auto simp: request_attachments_def split: option.splits) (metis list.exhaust)
  then have "mixed_body (randomBoundary r0) (randomBoundary r1) req (a # as) = Inr body"
      "ct = boundary_type ''multipart/mixed'' (randomBoundary r0)"
    using assms(1) by (auto simp: compose_body_def split: sum.splits)
  then show ?thesis
    using mixed_leaves [of r0 r1 req "a # as" body "[]"] assms(2) as(2) False by (auto simp: parts_ok_def)
qed

lemma set_xfer [simp]:
  "set_html D (l\<lparr>lf_xfer := x\<rparr>) s = set_html D l s" "set_text D (l\<lparr>lf_xfer := x\<rparr>) s = set_text D l s"
  "push_attachment f (l\<lparr>lf_xfer := x\<rparr>) s = push_attachment f l s"
  by (simp_all add: set_html_def set_text_def push_attachment_def cong: option.case_cong)

lemma summary_visit_xfer [simp]: "summary_visit D b (l\<lparr>lf_xfer := x\<rparr>) s = summary_visit D b l s"
  by (simp add: summary_visit_def Let_def)

lemma summary_fold_xfer: "summary_fold D b (map (\<lambda>l. l\<lparr>lf_xfer := []\<rparr>) ls) s = summary_fold D b ls s"
  by (induction ls arbitrary: b s) (simp_all split: sum.splits)

lemma extract_all_xfer: "extract_all b (map (\<lambda>l. l\<lparr>lf_xfer := []\<rparr>) ls) = extract_all b ls"
  by (induction ls arbitrary: b) (simp_all add: extract_visit_def extracted_def Let_def)

lemma summary_fold_append:
  "ls \<noteq> [] \<Longrightarrow> summary_fold D b (ls @ ms) s =
     (case summary_fold D b ls s of Inl e \<Rightarrow> Inl e | Inr s' \<Rightarrow> summary_fold D False ms s')"
  by (induction ls arbitrary: b s rule: induct_list012) (simp_all split: sum.splits)

lemma extract_all_append: "ls \<noteq> [] \<Longrightarrow> extract_all b (ls @ ms) = extract_all b ls @ extract_all False ms"
  by (induction ls arbitrary: b rule: induct_list012) simp_all

definition att_result :: "send_attachment \<Rightarrow> ExtractedAttachment" where
  "att_result a = \<lparr> ea_filename = sa_filename a, ea_content_type = js_lower (sa_content_type a),
     ea_size_bytes = length (att_bytes a), ea_bytes = att_bytes a \<rparr>"

lemma extract_all_atts: "extract_all False (map att_leaf atts) = map att_result atts"
  by (induction atts) (simp_all add: extract_visit_def extracted_def att_leaf_def att_result_def file_or_default_def)

lemma summary_fold_atts: "\<exists>s'. summary_fold D False (map att_leaf atts) s = Inr s' \<and> bs_text s' = bs_text s \<and> bs_html s' = bs_html s"
proof (induction atts arbitrary: s)
  case (Cons a atts)
  have "summary_visit D False (att_leaf a) s = Inr (push_attachment (sa_filename a) (att_leaf a) s)"
    by (simp add: summary_visit_def att_leaf_def file_or_default_def)
  then show ?case using Cons.IH [of "push_attachment (sa_filename a) (att_leaf a) s"] by (simp add: push_attachment_def)
qed simp

definition runtime_ok :: "mime_runtime \<Rightarrow> bool" where
  "runtime_ok R =
     (\<forall>s. ascii s \<longrightarrow> mr_utf8 R (text_encode s) = s \<and> mr_latin1 R (text_encode s) = s \<and>
        (\<exists>u. mr_decoders R ''utf-8'' = Some u \<and> u (text_encode s) = s))"

definition expected_text :: "SendRequestLike \<Rightarrow> string option" where
  "expected_text req = (if is_set (sq_html req) \<and> \<not> is_set (sq_text req) then None else Some (plain_text req))"

definition expected_html :: "SendRequestLike \<Rightarrow> string option" where
  "expected_html req = (if is_set (sq_html req) then sq_html req else None)"

lemma first_leaves_summary:
  assumes "runtime_ok R" "ascii (plain_text req)" "\<forall>h. sq_html req = Some h \<longrightarrow> ascii h"
  shows "\<exists>s. summary_fold (mr_decoders R) True (first_leaves req) empty_summary = Inr s \<and>
     bs_text s = expected_text req \<and> bs_html s = expected_html req"
    and "extract_all True (first_leaves req) = []"
proof -
  obtain u where u: "mr_decoders R ''utf-8'' = Some u"
    using assms(1) by (auto simp: runtime_ok_def ascii_def dest: spec [of _ "[]"])
  have dec: "u (js_words v) = v" if "ascii v" for v
    using that assms(1) u js_words_ascii [OF that] unfolding runtime_ok_def by fastforce
  obtain h where h: "is_set (sq_html req) \<Longrightarrow> sq_html req = Some h \<and> u (js_words h) = h"
    using assms(3) dec by (cases "sq_html req") (auto simp: is_set_def)
  have t: "u (js_words (plain_text req)) = plain_text req" using dec assms(2) by blast
  have tv: "is_set (sq_text req) \<Longrightarrow> the (sq_text req) = plain_text req" by (auto simp: is_set_def plain_text_def)
  show "\<exists>s. summary_fold (mr_decoders R) True (first_leaves req) empty_summary = Inr s \<and>
     bs_text s = expected_text req \<and> bs_html s = expected_html req"
    using h t tv u
    by (auto simp: first_leaves_def summary_defs text_leaf_def starts_with_def expected_text_def expected_html_def
        empty_summary_def is_set_def [of None] binary_type_def)
  show "extract_all True (first_leaves req) = []"
    by (auto simp: first_leaves_def text_leaf_def extract_visit_def starts_with_def binary_type_def)
qed

lemma map_of_headerMap:
  "map_of (headerMap hs) k =
     (if k = ''__proto__'' then None else map_of (rev (map (\<lambda>h. (h_nameLc h, h_value h)) hs)) k)"
  by (induction hs rule: rev_induct) (auto simp: headerMap_def AList.update_conv')

lemma no_transfer_encoding:
  assumes "mime_wf p"
  shows "field_or [] (headerMap (pm_headers p)) ''content-transfer-encoding'' = []"
proof -
  have "\<forall>h \<in> set (pm_headers p). h_nameLc h \<noteq> ''content-transfer-encoding''"
    using assms by (auto simp: mime_wf_def enforceHeaderPolicy_def header_policy_None TRANSPORT_FORBIDDEN_HEADERS_def)
  then have "map_of (rev (map (\<lambda>h. (h_nameLc h, h_value h)) (pm_headers p))) ''content-transfer-encoding'' = None"
    unfolding map_of_eq_None_iff by auto
  then show ?thesis by (simp only: field_or_def map_of_headerMap if_False option.case split: if_splits) simp
qed

definition composed :: "string \<Rightarrow> SendRequestLike \<Rightarrow> string \<Rightarrow> string \<Rightarrow> ParsedMime" where
  "composed now req ct body = \<lparr> pm_headers = compose_headers now req @ [hdr ''Content-Type'' ct], pm_body = text_encode body \<rparr>"

text \<open>Requests in ASCII whose header section fits the limits of the parser and whose boundaries are fresh.\<close>
definition request_ok :: "string \<Rightarrow> bytes \<Rightarrow> bytes \<Rightarrow> SendRequestLike \<Rightarrow> bool" where
  "request_ok now r0 r1 req =
     (parts_ok (randomBoundary r0) (randomBoundary r1) req \<and> ascii (plain_text req) \<and>
      (case sq_html req of Some h \<Rightarrow> ascii h | None \<Rightarrow> True) \<and>
      (case compose_body (randomBoundary r0) (randomBoundary r1) req of
         Inr (ct, body) \<Rightarrow> mime_wf (composed now req ct body) \<and> ascii (header_section (composed now req ct body)) \<and> ascii body
       | Inl _ \<Rightarrow> True))"

lemma composed_parses:
  assumes "composeFromJson now r0 r1 req = Inr raw" "runtime_ok R" "request_ok now r0 r1 req"
  obtains ct body where "compose_body (randomBoundary r0) (randomBoundary r1) req = Inr (ct, body)"
    "parseStrict (mr_utf8 R) raw = Inr (composed now req ct body)" "mr_latin1 R (pm_body (composed now req ct body)) = body"
    "field_or ''text/plain; charset=us-ascii'' (headerMap (pm_headers (composed now req ct body))) ''content-type'' = ct"
    "js_lower (field_or [] (headerMap (pm_headers (composed now req ct body))) ''content-transfer-encoding'') = []"
proof -
  obtain ct body where cb: "compose_body (randomBoundary r0) (randomBoundary r1) req = Inr (ct, body)"
      "raw = serialize (composed now req ct body)"
    using assms(1) by (auto simp: composeFromJson_def composed_def split: sum.splits)
  let ?p = "composed now req ct body"
  have wf: "mime_wf ?p" "ascii (header_section ?p)" "ascii body" using assms(3) cb by (auto simp: request_ok_def)
  have "parseStrict (mr_utf8 R) raw = Inr ?p"
    unfolding cb(2) using wf assms(2) by (intro parse_serialize_lemma) (auto simp: runtime_ok_def)
  moreover have "mr_latin1 R (pm_body ?p) = body" using wf(3) assms(2) by (simp add: composed_def runtime_ok_def)
  moreover have "js_lower ''Content-Type'' = ''content-type''" by code_simp
  then have "map_of (headerMap (pm_headers ?p)) ''content-type'' = Some ct" by (simp add: composed_def map_of_headerMap hdr_def)
  then have "field_or ''text/plain; charset=us-ascii'' (headerMap (pm_headers ?p)) ''content-type'' = ct" by (simp add: field_or_def)
  ultimately show ?thesis using that cb(1) no_transfer_encoding [OF wf(1)] by simp
qed

section \<open>Properties\<close>



definition demo_send :: SendRequestLike where
  "demo_send = \<lparr> sq_from = ''a@x.y'', sq_to = [''b@z.w''], sq_cc = None, sq_bcc = Some [''c@z.w''], sq_subject = Some ''Hi'', sq_text = Some ''hello'',
     sq_html = None, sq_headers = None,
     sq_attachments = Some [\<lparr> sa_filename = ''a.png'', sa_content_type = ''image/PNG'', sa_content_base64 = ''aGk='' \<rparr>], sq_reply_to = None \<rparr>"

lemma ascii_decode_encode: "ascii s \<Longrightarrow> ascii_decode (text_encode s) = s"
  by (induction s) (auto simp: ascii_def ascii_decode_def text_encode_def utf8_char_def)

lemma demo_runtime_ok: "runtime_ok demo_runtime"
  by (simp add: runtime_ok_def demo_runtime_def ascii_decode_encode)

definition demo_raw :: bytes where
  "demo_raw = (case composeFromJson ''now'' [1] [2] demo_send of Inr raw \<Rightarrow> raw | Inl _ \<Rightarrow> [])"

lemma demo_composes: "composeFromJson ''now'' [1] [2] demo_send = Inr demo_raw"
proof -
  have "case composeFromJson ''now'' [1] [2] demo_send of Inr _ \<Rightarrow> True | Inl _ \<Rightarrow> False" by code_simp
  then show ?thesis by (simp add: demo_raw_def split: sum.splits)
qed

lemma demo_send_ok: "request_ok ''now'' [1] [2] demo_send"
proof -
  have a: "parts_ok (randomBoundary [1]) (randomBoundary [2]) demo_send" "ascii (plain_text demo_send)" by code_simp+
  define ct where "ct = boundary_type ''multipart/mixed'' (randomBoundary [1])"
  obtain body where b: "compose_body (randomBoundary [1]) (randomBoundary [2]) demo_send = Inr (ct, body)"
    using demo_composes by (auto simp: composeFromJson_def compose_body_def demo_send_def ct_def split: sum.splits)
  have "case compose_body (randomBoundary [1]) (randomBoundary [2]) demo_send of Inr (ct, body) \<Rightarrow> ascii body | _ \<Rightarrow> False" by code_simp
  then have asc: "ascii body" by (simp add: b)
  let ?p = "composed ''now'' demo_send ct body"
  have hs: "pm_headers ?p = compose_headers ''now'' demo_send @ [hdr ''Content-Type'' ct]" by (simp add: composed_def)
  have h: "list_all (\<lambda>h. header_wf h \<and> CHR '':'' \<notin> set (h_name h) \<and> js_trim (h_value h) = h_value h \<and> line_safe (h_value h)) (pm_headers ?p)"
    "map (\<lambda>h. length (header_line h)) (pm_headers ?p) = [9, 11, 9, 10, 11, 17, 58]" "enforceHeaderPolicy (pm_headers ?p) = None"
    "ascii (js_join CRLF (map header_line (pm_headers ?p)) @ CRLF)"
    "length (text_encode (js_join CRLF (map header_line (pm_headers ?p)) @ CRLF)) = 139"
    unfolding hs ct_def by code_simp+
  moreover have "length (pm_headers ?p) = 7" using arg_cong [OF h(2), of length] by simp
  moreover have "\<forall>h \<in> set (pm_headers ?p). length (header_line h) \<in> set [9, 11, 9, 10, 11, 17, 58]"
    unfolding h(2) [symmetric] by simp
  ultimately have "mime_wf ?p"
    unfolding mime_wf_def list_all_iff MAX_HEADER_LINE_def MAX_HEADERS_def MAX_TOTAL_HEADER_BYTES_def header_section_def by fastforce
  then show ?thesis using a asc b h(4) by (simp add: request_ok_def demo_send_def header_section_def)
qed


section \<open>Observations\<close>

text \<open>Blind-copy recipients are written into the message itself.\<close>
lemma bcc_header_emitted:
  assumes "composeFromJson now r0 r1 req = Inr raw" "runtime_ok R" "request_ok now r0 r1 req" "sq_bcc req = Some (x # xs)"
  shows "\<exists>p. parseStrict (mr_utf8 R) raw = Inr p \<and> hdr ''Bcc'' (js_join '', '' (x # xs)) \<in> set (pm_headers p)"
proof -
  have mono: "h \<in> set hs \<Longrightarrow> h \<in> set (foldl add_custom hs kvs)" for h hs kvs
    by (induction kvs arbitrary: hs) (auto simp: add_custom_def)
  have "hdr ''Bcc'' (js_join '', '' (x # xs)) \<in> set (compose_headers now req)"
    unfolding compose_headers_def using assms(4) by (intro mono) (simp add: base_headers_def list_header_def)
  then show ?thesis using composed_parses [OF assms(1-3)] by (metis (no_types, lifting) UnI1 ParsedMime.select_convs(1) composed_def set_append)
qed

end
