(* ===== verification/InWorker.thy ===== *)
theory InWorker
  imports Fanout Unsub BearerAuth
begin

text \<open>
  The inbound worker: the e-mail handler \<^verbatim>\<open>services/in/src/index.ts\<close> with its policy hook
  \<^verbatim>\<open>services/in/src/lib/policy-dispatch.ts\<close> and the verdict guards of
  \<^verbatim>\<open>packages/policy-engine/src/mime-helpers.ts\<close>. It composes the unsubscription by mail (\<open>Unsub\<close>), the policy engine
  (\<open>PolicyEngine\<close>), the pipeline (\<open>Pipeline\<close>) and the events of the webhook consumer (\<open>Fanout\<close>). The world is the pipeline's,
  with the tables, queue and counters of the worker. A report for one of the two platform mailboxes is handed over as it is; its
  ingestion is not part of this theory.
\<close>

section \<open>Authentication verdicts\<close>

definition asSpf :: "string option \<Rightarrow> SpfResult option" where
  "asSpf v = Option.bind v (map_of [(''pass'', Spf_pass), (''fail'', Spf_fail), (''softfail'', Spf_softfail), (''neutral'', Spf_neutral),
     (''none'', Spf_none), (''temperror'', Spf_temperror), (''permerror'', Spf_permerror)])"

definition asDkimResult :: "string option \<Rightarrow> DkimResult option" where
  "asDkimResult v = Option.bind v (map_of [(''pass'', Dkim_pass), (''fail'', Dkim_fail), (''none'', Dkim_none), (''policy'', Dkim_policy),
     (''neutral'', Dkim_neutral), (''temperror'', Dkim_temperror), (''permerror'', Dkim_permerror)])"

definition asDmarc :: "string option \<Rightarrow> DmarcResult option" where
  "asDmarc v = Option.bind v (map_of [(''pass'', Dmarc_pass), (''fail'', Dmarc_fail), (''none'', Dmarc_none)])"

section \<open>State\<close>

record in_decision_row =
  idr_id :: string
  idr_message_id :: "string option"
  idr_decision :: PolicyDecision
  idr_decided_at :: string

record in_held_row =
  ihm_id :: string
  ihm_decision_id :: string
  ihm_raw_mime_r2_key :: string
  ihm_hold_reason :: string
  ihm_hold_until :: string
  ihm_created_at :: string

record FanoutInbound =
  fi_event_id :: string
  fi_event :: string
  fi_message_id :: string
  fi_mailbox_id :: string
  fi_webhook_sub_id :: string
  fi_created_at :: int

record in_world =
  iw_pipe :: pipe_world
  iw_disabled :: "string list" \<comment> \<open>ids of the disabled domains\<close>
  iw_kv :: "string ApiAuth.kv" \<comment> \<open>\<^verbatim>\<open>KV_RATE_LIMIT\<close>\<close>
  iw_db :: policy_db
  iw_config :: "ConfigRow list"
  iw_llm_kv :: PolicyEngine.kv \<comment> \<open>\<^verbatim>\<open>KV_IDEMPOTENCY\<close>\<close>
  iw_decisions :: "in_decision_row list"
  iw_held :: "in_held_row list"
  iw_message_decision :: "string \<Rightarrow> string option" \<comment> \<open>column \<^verbatim>\<open>policy_decision_id\<close>\<close>
  iw_fanout :: "FanoutInbound list"
  iw_forwarded :: "(string \<times> bytes) list"
  iw_reports :: "(string \<times> bytes) list" \<comment> \<open>mailbox and message handed to the report ingestion\<close>
  iw_points :: "data_point list"

datatype read_event = Read_chunk bytes | Read_nothing | Read_error

record email_message =
  em_raw :: "read_event list"
  em_to :: "string option"
  em_from :: "string option"
  em_auth_header :: "string option"

record in_platform =
  ip_pipe :: pipe_platform
  ip_out :: out_platform
  ip_unsub :: unsub_platform
  ip_llm :: llm_env

text \<open>One delivery: clocks, fresh identifiers, secrets, and which accesses fail.\<close>
record in_call =
  ic_now_ms :: int
  ic_now_iso :: string
  ic_hold_until :: string
  ic_ulid :: "nat \<Rightarrow> string"
  ic_rnd :: bytes
  ic_pipe :: pipe_call
  ic_unsub :: unsub_call
  ic_secret :: "string option"
  ic_has_kv :: bool
  ic_fails :: "string \<Rightarrow> bool"

datatype email_outcome = Accepted | Rejected string | Threw_out string

section \<open>Reading the message\<close>

fun read_chunks :: "nat \<Rightarrow> read_event list \<Rightarrow> bytes list \<Rightarrow> string + bytes" where
  "read_chunks n [] chunks = Inr (concat (rev chunks))"
| "read_chunks n (Read_nothing # es) chunks = read_chunks n es chunks"
| "read_chunks n (Read_error # es) chunks = Inl ''read''"
| "read_chunks n (Read_chunk b # es) chunks =
     (if n + length b > MAX_MESSAGE_SIZE_VERIFIED then Inl ''too_large'' else read_chunks (n + length b) es (b # chunks))"

definition readAll :: "read_event list \<Rightarrow> string + bytes" where
  "readAll es = read_chunks 0 es []"

section \<open>Rate\<close>

definition shed_key :: "string \<Rightarrow> int \<Rightarrow> string" where
  "shed_key domainId nowMs = ''dom:'' @ domainId @ '':'' @ int_to_string (nowMs div 60000)"

definition shed_count :: "string option \<Rightarrow> int option" where
  "shed_count cur = (case cur of None \<Rightarrow> Some 0 | Some s \<Rightarrow> if s = [] then Some 0 else js_parseInt 10 s)"

text \<open>Whether the message is shed; \<^const>\<open>None\<close> as a count is \<^verbatim>\<open>NaN\<close>.\<close>
definition rateShed :: "int \<Rightarrow> string \<Rightarrow> string ApiAuth.kv \<Rightarrow> string ApiAuth.kv \<times> bool" where
  "rateShed nowMs domainId kv =
     (let key = shed_key domainId nowMs in
      case shed_count (kv_get nowMs kv key) of
        None \<Rightarrow> (kv_put_ttl nowMs 90 kv key ''NaN'', False)
      | Some n \<Rightarrow> if n \<ge> 120 then (kv, True) else (kv_put_ttl nowMs 90 kv key (int_to_string (n + 1)), False))"

section \<open>Policy hook\<close>

definition in_persistDecision :: "in_call \<Rightarrow> string option \<Rightarrow> PolicyDecision \<Rightarrow> in_world \<Rightarrow> in_world \<times> (string + unit)" where
  "in_persistDecision c messageId d w =
     (if ic_fails c ''insert decision'' then (w, Inl ''insert decision'')
      else (w\<lparr>iw_decisions := iw_decisions w @ [\<lparr> idr_id = pd_decision_id d, idr_message_id = messageId, idr_decision = d,
              idr_decided_at = ic_now_iso c \<rparr>]\<rparr>, Inr ()))"

definition storeRawMime :: "in_call \<Rightarrow> bytes \<Rightarrow> string \<Rightarrow> string \<Rightarrow> in_world \<Rightarrow> in_world \<times> (string + string)" where
  "storeRawMime c raw prefix decisionId w =
     (let key = ''policy_'' @ prefix @ ''/'' @ decisionId @ ''.eml'' in
      if ic_fails c ''r2 put'' then (w, Inl ''r2 put'')
      else (w\<lparr>iw_pipe := (iw_pipe w)\<lparr>pw_r2 := (pw_r2 (iw_pipe w))(key \<mapsto> raw)\<rparr>\<rparr>, Inr key))"

definition in_insertHeldMessage :: "in_call \<Rightarrow> PolicyDecision \<Rightarrow> string \<Rightarrow> in_world \<Rightarrow> in_world \<times> (string + string)" where
  "in_insertHeldMessage c d r2Key w =
     (if ic_fails c ''insert held'' then (w, Inl ''insert held'')
      else (w\<lparr>iw_held := iw_held w @ [\<lparr> ihm_id = ic_ulid c 1, ihm_decision_id = pd_decision_id d, ihm_raw_mime_r2_key = r2Key,
              ihm_hold_reason = js_join '','' (take 5 (map (\<lambda>r. hr_code r @ ''='' @ int_to_string (hr_score r)) (pd_reasons d))),
              ihm_hold_until = ic_hold_until c, ihm_created_at = ic_now_iso c \<rparr>]\<rparr>, Inr (ic_ulid c 1)))"

datatype InboundPolicyAction =
  In_continue PolicyDecision | In_hold PolicyDecision string string | In_block PolicyDecision string

text \<open>The stand-in decision of the two failures, a hold.\<close>
definition in_synthetic_hold :: "in_call \<Rightarrow> string \<Rightarrow> PolicyDecision" where
  "in_synthetic_hold c reason =
     \<lparr> pd_verdict = Hold, pd_total_score = -999, pd_reasons = [\<lparr> hr_code = reason, hr_score = -999 \<rparr>],
       pd_llm = no_llm Binding_absent, pd_decision_id = ''pd_'' @ ic_ulid c 0, pd_band = Band_hold \<rparr>"

record InboundPolicyInput =
  ipi_mailboxId :: string
  ipi_domainId :: "string option"
  ipi_envelopeFrom :: string
  ipi_envelopeTo :: string
  ipi_rawMime :: bytes
  ipi_authResults :: ParsedAuthResults

definition inbound_auth :: "ParsedAuthResults \<Rightarrow> AuthResults" where
  "inbound_auth a =
     \<lparr> au_spf = asSpf (ar_spf a),
       au_dkim = (if is_set (ar_dkim a)
                  then Some (case asDkimResult (ar_dkim a) of Some r \<Rightarrow> r | None \<Rightarrow> Dkim_none, None) else None),
       au_dmarc = asDmarc (ar_dmarc a), au_dmarc_policy = None \<rparr>"

definition inbound_input :: "in_platform \<Rightarrow> in_call \<Rightarrow> InboundPolicyInput \<Rightarrow> ParsedMime \<Rightarrow> in_world \<Rightarrow> PolicyInput" where
  "inbound_input P c inp parsed w =
     \<lparr> pi_direction = Inbound, pi_stream_type = Stream_inbound,
       pi_sender = \<lparr> sc_mailbox_id = None, sc_domain_id = None, sc_address = ipi_envelopeFrom inp, sc_abuse_tier = None,
         sc_dmarc_promotion_state = None \<rparr>,
       pi_receiver = \<lparr> rc_address = ipi_envelopeTo inp, rc_mailbox_id = Some (ipi_mailboxId inp), rc_domain_id = ipi_domainId inp \<rparr>,
       pi_message = \<lparr> mc_raw_headers = rawHeadersString parsed, mc_headers = headersMap parsed,
         mc_body_preview = bodyPreviewOf (op_decode (ip_out P)) parsed,
         mc_content_types = filter (\<lambda>s. s \<noteq> []) [case headersMap parsed ''content-type'' of None \<Rightarrow> [] | Some v \<Rightarrow> v],
         mc_attachment_filenames = [], mc_in_reply_to = None, mc_html_only = False \<rparr>,
       pi_auth = inbound_auth (ipi_authResults inp),
       pi_env = \<lparr> pe_url_hostname = op_url_hostname (ip_out P), pe_date_parse = op_date_parse (ip_out P), pe_now_ms = ic_now_ms c,
         pe_now_iso = ic_now_iso c, pe_db = iw_db w \<rparr> \<rparr>"

text \<open>The engine's decision; without the namespace its counters go nowhere.\<close>
definition inbound_decision :: "in_platform \<Rightarrow> in_call \<Rightarrow> InboundPolicyInput \<Rightarrow> ParsedMime \<Rightarrow> in_world \<Rightarrow> in_world \<times> PolicyDecision" where
  "inbound_decision P c inp parsed w =
     (if ic_fails c ''engine'' then (w, in_synthetic_hold c ''engine_error'')
      else case evaluatePolicy (ip_llm P) None (iw_config w) (ic_rnd c) (inbound_input P c inp parsed w)
                  (if ic_has_kv c then iw_llm_kv w else Map.empty) of
        (d, kv) \<Rightarrow> (if ic_has_kv c then w\<lparr>iw_llm_kv := kv\<rparr> else w, d))"

definition hold_message :: "in_call \<Rightarrow> bytes \<Rightarrow> PolicyDecision \<Rightarrow> in_world \<Rightarrow> in_world \<times> (string + InboundPolicyAction)" where
  "hold_message c raw d w =
     andE (in_persistDecision c None d w) (\<lambda>w _.
     andE (storeRawMime c raw ''held'' (pd_decision_id d) w) (\<lambda>w r2Key.
     andE (in_insertHeldMessage c d r2Key w) (\<lambda>w hid. (w, Inr (In_hold d hid r2Key)))))"

definition block_message :: "in_call \<Rightarrow> bytes \<Rightarrow> PolicyDecision \<Rightarrow> in_world \<Rightarrow> in_world \<times> (string + InboundPolicyAction)" where
  "block_message c raw d w =
     andE (in_persistDecision c None d w) (\<lambda>w _.
     andE (storeRawMime c raw ''blocked'' (pd_decision_id d) w) (\<lambda>w r2Key. (w, Inr (In_block d r2Key))))"

definition evaluateInboundPolicy ::
  "in_platform \<Rightarrow> in_call \<Rightarrow> InboundPolicyInput \<Rightarrow> in_world \<Rightarrow> in_world \<times> (string + InboundPolicyAction)" where
  "evaluateInboundPolicy P c inp w =
     (case parseStrict (mr_utf8 (pp_mime (ip_pipe P))) (ipi_rawMime inp) of
        Inl _ \<Rightarrow> hold_message c (ipi_rawMime inp) (in_synthetic_hold c ''mime_parse_error'') w
      | Inr parsed \<Rightarrow>
          (case inbound_decision P c inp parsed w of
             (w, d) \<Rightarrow>
               (case pd_verdict d of
                  Pass \<Rightarrow> (w, Inr (In_continue d))
                | Pass_warn \<Rightarrow> (w, Inr (In_continue d))
                | Hold \<Rightarrow> hold_message c (ipi_rawMime inp) d w
                | Block \<Rightarrow> block_message c (ipi_rawMime inp) d w)))"

definition attachDecisionToMessage :: "in_call \<Rightarrow> PolicyDecision \<Rightarrow> string \<Rightarrow> in_world \<Rightarrow> in_world \<times> (string + unit)" where
  "attachDecisionToMessage c d messageId w =
     andE (in_persistDecision c (Some messageId) d w) (\<lambda>w _.
       if ic_fails c ''update decision id'' then (w, Inl ''update decision id'')
       else (w\<lparr>iw_message_decision := (iw_message_decision w)(messageId \<mapsto> pd_decision_id d)\<rparr>, Inr ()))"

section \<open>The handler\<close>

definition PLATFORM_COMPLAINTS_MAILBOX_ID :: string where
  "PLATFORM_COMPLAINTS_MAILBOX_ID = ''01HXPLATFORMCOMPLAINTS0000''"

definition PLATFORM_TLS_REPORTS_MAILBOX_ID :: string where
  "PLATFORM_TLS_REPORTS_MAILBOX_ID = ''01HXPLATFORMTLSREPORTS0000''"

definition local_part :: "string \<Rightarrow> string" where
  "local_part s = hd (js_split (CHR ''@'') s)"

definition live_domain :: "string \<Rightarrow> in_world \<Rightarrow> string option" where
  "live_domain name w = map_option fst (find (\<lambda>(i, n). n = name \<and> i \<notin> set (iw_disabled w)) (pw_domains (iw_pipe w)))"

definition matching_receiver :: "string \<Rightarrow> string \<Rightarrow> in_world \<Rightarrow> receiver option" where
  "matching_receiver domainId envelopeTo w =
     find (\<lambda>r. addressMatches (rv_address_pattern r) envelopeTo)
       (take 100 (sort_key rv_priority
          (filter (\<lambda>r. rv_domain_id r = domainId \<and> rv_enabled r \<and> rv_disabled_at r = None) (pw_receivers (iw_pipe w)))))"

text \<open>The loop over \<open>FANOUT_QUEUE.send\<close>; it stops at the first failure.\<close>
fun enqueue_all :: "in_call \<Rightarrow> string \<Rightarrow> string \<Rightarrow> nat \<Rightarrow> FanoutEnqueue list \<Rightarrow> in_world \<Rightarrow> in_world \<times> (string + unit)" where
  "enqueue_all c messageId mailboxId n [] w = (w, Inr ())"
| "enqueue_all c messageId mailboxId n (e # es) w =
     (if ic_fails c (''fanout '' @ nat_to_radix 10 n) then (w, Inl ''fanout'')
      else enqueue_all c messageId mailboxId (Suc n) es
        (w\<lparr>iw_fanout := iw_fanout w @ [\<lparr> fi_event_id = ic_ulid c (10 + n), fi_event = fo_event e, fi_message_id = messageId,
            fi_mailbox_id = mailboxId, fi_webhook_sub_id = fo_webhookSubId e, fi_created_at = ic_now_ms c \<rparr>]\<rparr>))"

definition in_args :: "string \<Rightarrow> bytes \<Rightarrow> string \<Rightarrow> ParsedAuthResults \<Rightarrow> ProcessMessageArgs" where
  "in_args mailboxId raw envelopeTo a =
     \<lparr> pm_direction = Dir_in, pm_mailboxId = mailboxId, pm_principalId = None, pm_bridgeId = None, pm_rawMime = raw,
       pm_source = ''cf_email_routing'', pm_idempotencyKey = None,
       pm_auth = Some \<lparr> pa_spf = ar_spf a, pa_dkim = ar_dkim a, pa_dmarc = ar_dmarc a, pa_remoteIp = None \<rparr>,
       pm_envelopeTo = None, pm_recipientAddress = Some envelopeTo \<rparr>"

definition in_point :: "string \<Rightarrow> data_point" where
  "in_point envelopeTo =
     \<lparr> pt_indexes = [case js_split (CHR ''@'') envelopeTo of _ # d # _ \<Rightarrow> d | _ \<Rightarrow> ''unknown''], pt_blobs = [''received''] \<rparr>"

text \<open>Lines 343 to 413: the pipeline, the decision row, the fanout.\<close>
definition ingest_passed ::
  "in_platform \<Rightarrow> in_call \<Rightarrow> string \<Rightarrow> bytes \<Rightarrow> string \<Rightarrow> ParsedAuthResults \<Rightarrow> PolicyDecision \<Rightarrow> in_world \<Rightarrow> in_world \<times> email_outcome" where
  "ingest_passed P c mailboxId raw envelopeTo a d w =
     (case processMessage (ip_pipe P) (ic_pipe c) (in_args mailboxId raw envelopeTo a) (iw_pipe w) of
        (pw, Inl _) \<Rightarrow> (w\<lparr>iw_pipe := pw\<rparr>, Rejected ''451 4.7.1 ingest error'')
      | (pw, Inr r) \<Rightarrow>
          (let w1 = w\<lparr>iw_pipe := pw, iw_points := iw_points w @ [in_point envelopeTo]\<rparr>;
               w2 = fst (attachDecisionToMessage c d (pr_messageId r) w1)
           in case enqueue_all c (pr_messageId r) mailboxId 0 (case pr_fanoutEnqueues r of Some es \<Rightarrow> es | None \<Rightarrow> []) w2 of
                (w3, Inl _) \<Rightarrow> (w3, Rejected ''451 4.7.1 fanout enqueue failed'')
              | (w3, Inr _) \<Rightarrow> (w3, Accepted)))"

definition policy_input :: "receiver \<Rightarrow> string \<Rightarrow> string \<Rightarrow> string \<Rightarrow> bytes \<Rightarrow> ParsedAuthResults \<Rightarrow> InboundPolicyInput" where
  "policy_input r domainId envelopeFrom envelopeTo raw a =
     \<lparr> ipi_mailboxId = rv_mailbox_id r, ipi_domainId = Some domainId, ipi_envelopeFrom = envelopeFrom, ipi_envelopeTo = envelopeTo,
       ipi_rawMime = raw, ipi_authResults = a \<rparr>"

text \<open>Lines 220 to 413: what the receiver asks for.\<close>
definition deliver_to ::
  "in_platform \<Rightarrow> in_call \<Rightarrow> email_message \<Rightarrow> receiver \<Rightarrow> string \<Rightarrow> string \<Rightarrow> string \<Rightarrow> bytes \<Rightarrow> in_world \<Rightarrow> in_world \<times> email_outcome" where
  "deliver_to P c m r domainId envelopeFrom envelopeTo raw w =
     (if rv_action r = ''forward'' \<and> is_set (rv_forward_to r) then
        (if ic_fails c ''forward'' then (w, Threw_out ''forward'')
         else (w\<lparr>iw_forwarded := iw_forwarded w @ [(the (rv_forward_to r), raw)]\<rparr>, Accepted))
      else if rv_mailbox_id r = PLATFORM_TLS_REPORTS_MAILBOX_ID \<or> rv_mailbox_id r = PLATFORM_COMPLAINTS_MAILBOX_ID then
        (w\<lparr>iw_reports := iw_reports w @ [(rv_mailbox_id r, raw)]\<rparr>, Accepted)
      else let a = parseAuthResults (Some (case em_auth_header m of Some h \<Rightarrow> h | None \<Rightarrow> [])) in
        case evaluateInboundPolicy P c (policy_input r domainId envelopeFrom envelopeTo raw a) w of
          (w, Inl e) \<Rightarrow> (w, Threw_out e)
        | (w, Inr (In_block _ _)) \<Rightarrow> (w, Accepted)
        | (w, Inr (In_hold _ _ _)) \<Rightarrow> (w, Accepted)
        | (w, Inr (In_continue d)) \<Rightarrow> ingest_passed P c (rv_mailbox_id r) raw envelopeTo a d w)"

text \<open>Lines 180 to 218: domain, receiver, rate.\<close>
definition route ::
  "in_platform \<Rightarrow> in_call \<Rightarrow> email_message \<Rightarrow> string \<Rightarrow> string \<Rightarrow> bytes \<Rightarrow> in_world \<Rightarrow> in_world \<times> email_outcome" where
  "route P c m envelopeFrom envelopeTo raw w =
     (if ic_fails c ''select domain'' then (w, Threw_out ''select domain'')
      else case live_domain (domain_part envelopeTo) w of
        None \<Rightarrow> (w, Rejected ''550 5.1.1 unknown domain'')
      | Some domainId \<Rightarrow>
          if ic_fails c ''select receivers'' then (w, Threw_out ''select receivers'')
          else case matching_receiver domainId envelopeTo w of
            None \<Rightarrow> (w, Rejected ''550 5.1.1 unknown user'')
          | Some r \<Rightarrow>
              if rv_action r = ''drop'' then (w, Rejected ''550 5.1.1 unknown user'')
              else if ic_fails c ''kv'' then (w, Threw_out ''kv'')
              else case rateShed (ic_now_ms c) domainId (iw_kv w) of
                (kv, shed) \<Rightarrow>
                  if shed then (w\<lparr>iw_kv := kv\<rparr>, Rejected ''451 4.7.1 rate limit'')
                  else deliver_to P c m r domainId envelopeFrom envelopeTo raw (w\<lparr>iw_kv := kv\<rparr>))"

definition text_or_empty :: "string option \<Rightarrow> string" where
  "text_or_empty v = (case v of Some s \<Rightarrow> s | None \<Rightarrow> [])"

definition email :: "in_platform \<Rightarrow> in_call \<Rightarrow> email_message \<Rightarrow> in_world \<Rightarrow> in_world \<times> email_outcome" where
  "email P c m w =
     (case readAll (em_raw m) of
        Inl e \<Rightarrow> (w, Rejected (if e = ''too_large'' then ''552 5.3.4 too large'' else ''451 4.7.1 ingest error''))
      | Inr raw \<Rightarrow>
          let envelopeTo = js_lower (text_or_empty (em_to m)); envelopeFrom = js_lower (text_or_empty (em_from m));
              localPart = local_part envelopeTo
          in if starts_with ''unsub+'' localPart then
               (w\<lparr>iw_db := (iw_db w)\<lparr>db_suppressions := fst (handleUnsubMailto (ip_unsub P) (ic_unsub c) (text_or_empty (ic_secret c))
                  (drop 6 localPart) (db_suppressions (iw_db w)))\<rparr>\<rparr>, Accepted)
             else route P c m envelopeFrom envelopeTo raw w)"


section \<open>Reading and rate\<close>

fun chunk_bytes :: "read_event \<Rightarrow> bytes" where
  "chunk_bytes (Read_chunk b) = b"
| "chunk_bytes _ = []"

lemma read_chunks_Inr:
  "read_chunks n es cs = Inr raw \<Longrightarrow> n = length (concat cs) \<Longrightarrow> n \<le> MAX_MESSAGE_SIZE_VERIFIED \<Longrightarrow>
     raw = concat (rev cs) @ concat (map chunk_bytes es) \<and> length raw \<le> MAX_MESSAGE_SIZE_VERIFIED"
proof (induction n es cs rule: read_chunks.induct)
  case (1 n cs)
  have e: "length (concat (rev cs)) = length (concat cs)" by (simp add: length_concat rev_map [symmetric])
  show ?case using 1 by (auto simp: e)
qed (auto split: if_splits)

lemma readAll_Inr:
  assumes "readAll es = Inr raw"
  shows "raw = concat (map chunk_bytes es)" "length raw \<le> MAX_MESSAGE_SIZE_VERIFIED"
  using read_chunks_Inr [of 0 es "[]" raw] assms unfolding readAll_def by auto

text \<open>The messages of one domain within one minute, in order: who is shed.\<close>
fun shed_run :: "string \<Rightarrow> int list \<Rightarrow> string ApiAuth.kv \<Rightarrow> bool list" where
  "shed_run domainId [] kv = []"
| "shed_run domainId (t # ts) kv = (case rateShed t domainId kv of (kv', shed) \<Rightarrow> shed # shed_run domainId ts kv')"

text \<open>The counter of a minute holds the number of admitted messages and outlives the minute.\<close>
definition shed_inv :: "string \<Rightarrow> int \<Rightarrow> nat \<Rightarrow> string ApiAuth.kv \<Rightarrow> bool" where
  "shed_inv d b n kv =
     (if n = 0 then kv (shed_key d (b * 60000)) = None
      else (\<exists>e. kv (shed_key d (b * 60000)) = Some (int_to_string (int n), Some e) \<and> (b + 1) * 60000 \<le> e))"

lemma minute_bounds: "t div 60000 = b \<Longrightarrow> b * 60000 \<le> t \<and> t < (b + 1) * (60000 :: int)"
proof -
  assume "t div 60000 = b"
  then have "t = b * 60000 + t mod 60000" by (metis div_mult_mod_eq)
  moreover have "t mod 60000 < 60000" "0 \<le> t mod 60000" by simp_all
  ultimately show ?thesis unfolding distrib_right mult_1 by linarith
qed

lemma shed_inv_step:
  assumes "shed_inv d b n kv" "t div 60000 = b"
  shows "\<exists>kv'. rateShed t d kv = (kv', n \<ge> 120) \<and> shed_inv d b (if n \<ge> 120 then n else Suc n) kv'"
proof -
  have key: "shed_key d t = shed_key d (b * 60000)" using assms(2) by (simp add: shed_key_def)
  have "shed_count (kv_get t kv (shed_key d t)) = Some (int n)"
    using assms(1) minute_bounds [OF assms(2)] by (auto simp: shed_inv_def kv_get_def key shed_count_def split: if_splits)
  moreover have "(b + 1) * 60000 \<le> t + 90 * 1000" using minute_bounds [OF assms(2)] by (simp add: algebra_simps)
  ultimately show ?thesis
    using assms(1) by (cases "n \<ge> 120") (auto simp: rateShed_def shed_inv_def kv_put_ttl_def key Let_def add.commute)
qed

lemma shed_run_from:
  "shed_inv d b n kv \<Longrightarrow> \<forall>t \<in> set ts. t div 60000 = b \<Longrightarrow> n \<le> 120 \<Longrightarrow>
     shed_run d ts kv = map (\<lambda>i. n + i \<ge> 120) [0 ..< length ts]"
proof (induction ts arbitrary: n kv)
  case (Cons t ts)
  obtain kv' where kv': "rateShed t d kv = (kv', n \<ge> 120)" "shed_inv d b (if n \<ge> 120 then n else Suc n) kv'"
    using shed_inv_step [OF Cons.prems(1)] Cons.prems(2) by auto
  have up: "map (\<lambda>i. n + i \<ge> 120) [0 ..< length (t # ts)] = (n \<ge> 120) # map (\<lambda>i. Suc n + i \<ge> 120) [0 ..< length ts]"
    by (simp add: upt_conv_Cons map_Suc_upt [symmetric] del: upt_Suc)
  have "shed_run d ts kv' = map (\<lambda>i. Suc n + i \<ge> 120) [0 ..< length ts]"
    using Cons.IH [OF kv'(2)] Cons.prems(2,3) by (cases "n \<ge> 120") auto
  then show ?case unfolding up using kv'(1) by simp
qed simp

section \<open>Policy hook\<close>

lemmas hook_defs = in_persistDecision_def storeRawMime_def in_insertHeldMessage_def

lemma hold_message_world:
  "pw_messages (iw_pipe (fst (hold_message c raw d w))) = pw_messages (iw_pipe w)"
  "iw_fanout (fst (hold_message c raw d w)) = iw_fanout w"
  "snd (hold_message c raw d w) \<noteq> Inr (In_continue d')"
  by (simp_all add: hold_message_def hook_defs Let_def)

lemma block_message_world:
  "pw_messages (iw_pipe (fst (block_message c raw d w))) = pw_messages (iw_pipe w)"
  "iw_fanout (fst (block_message c raw d w)) = iw_fanout w"
  "snd (block_message c raw d w) \<noteq> Inr (In_continue d')"
  by (simp_all add: block_message_def hook_defs Let_def)

lemma inbound_decision_world:
  "iw_pipe (fst (inbound_decision P c inp parsed w)) = iw_pipe w" "iw_fanout (fst (inbound_decision P c inp parsed w)) = iw_fanout w"
  by (auto simp: inbound_decision_def split: prod.splits)

lemma evaluateInboundPolicy_world:
  "pw_messages (iw_pipe (fst (evaluateInboundPolicy P c inp w))) = pw_messages (iw_pipe w)"
  "iw_fanout (fst (evaluateInboundPolicy P c inp w)) = iw_fanout w"
  using inbound_decision_world [of P c inp _ w]
  by (auto simp: evaluateInboundPolicy_def hold_message_world block_message_world split: sum.splits prod.splits Verdict.splits)
    (metis fst_conv)+

lemma evaluateInboundPolicy_continue:
  assumes "evaluateInboundPolicy P c inp w = (w', Inr (In_continue d))"
  shows "\<exists>parsed. parseStrict (mr_utf8 (pp_mime (ip_pipe P))) (ipi_rawMime inp) = Inr parsed \<and>
    inbound_decision P c inp parsed w = (w', d) \<and> pd_verdict d \<in> {Pass, Pass_warn}"
proof (cases "parseStrict (mr_utf8 (pp_mime (ip_pipe P))) (ipi_rawMime inp)")
  case (Inl e)
  then show ?thesis using assms hold_message_world(3) by (simp add: evaluateInboundPolicy_def) (metis snd_conv)
next
  case (Inr parsed)
  then show ?thesis
    using assms hold_message_world(3) block_message_world(3)
    by (auto simp: evaluateInboundPolicy_def split: prod.splits Verdict.splits) (metis snd_conv)+
qed

lemma evaluateInboundPolicy_kept_world:
  assumes "evaluateInboundPolicy P c inp w = (w', Inr (In_continue d))"
  shows "iw_pipe w' = iw_pipe w" "iw_fanout w' = iw_fanout w"
  using evaluateInboundPolicy_continue [OF assms] inbound_decision_world [of P c inp _ w] by (metis fst_conv)+

section \<open>Storing\<close>

lemma processMessage_in:
  assumes "pm_direction args = Dir_in" "processMessage P pc args w = (w', res)"
  defines "sha \<equiv> sha256Hex (pp_crypto P) (pm_rawMime args)"
  obtains (seen) x r where "w' = w" "res = Inr r" "x \<in> set (pw_messages w)" "pm_id x = pr_messageId r" "pm_mailbox_id x = pm_mailboxId args"
      "pm_r2_key x = r2_key_of sha"
  | (new) "ingest P pc args sha (r2_key_of sha) w = (w', res)"
proof (cases "find (\<lambda>m. pm_mailbox_id m = pm_mailboxId args \<and> pm_r2_key m = r2_key_of sha) (pw_messages w)")
  case None
  then show thesis using assms that(2) by (auto simp: processMessage_def Let_def split: if_splits)
next
  case (Some x)
  then have x: "x \<in> set (pw_messages w)" "pm_mailbox_id x = pm_mailboxId args" "pm_r2_key x = r2_key_of sha"
    by (auto simp: find_Some_iff)
  show thesis
  proof (cases "pc_fails pc ''select dedup''")
    case True
    then show thesis using assms that(2) by (auto simp: processMessage_def Let_def)
  next
    case False
    have "w' = w" "\<exists>r. res = Inr r \<and> pm_id x = pr_messageId r"
      using False assms Some by (auto simp: processMessage_def Let_def)
    then show thesis using that(1) [OF _ _ x(1)] x by blast
  qed
qed

lemma ingest_row:
  assumes "ingest P pc args sha key w = (w', Inr r)" "pm_direction args = Dir_in"
  shows "\<exists>x \<in> set (pw_messages w'). pm_id x = pr_messageId r \<and> pm_mailbox_id x = pm_mailboxId args \<and> pm_r2_key x = key"
  using assms(1)
proof (cases rule: ingest_cases)
  case (row r2 r2' mid sm parts)
  let ?f = "normalized_from P (ps_from sm)"
  let ?w2 = "insert_message P pc args sm mid ?f sha key (w\<lparr>pw_r2 := r2'\<rparr>)"
  have "(w', Inr r) = inbound_tail P pc args mid ?f sha ?w2" using row(4) assms(2) by (simp add: ingest_tail_def Let_def)
  then have "pw_messages w' = pw_messages ?w2" "pr_messageId r = mid"
    using inbound_tail_world(3,4) [of P pc args mid ?f sha ?w2] by (metis fst_conv snd_conv)+
  then show ?thesis using insert_message_world(4) [of P pc args sm mid ?f sha key "w\<lparr>pw_r2 := r2'\<rparr>"] by auto
qed simp_all

text \<open>A message of the mailbox with the bytes, or bytes of the same hash, in the bucket.\<close>
definition stored :: "pipe_platform \<Rightarrow> string \<Rightarrow> bytes \<Rightarrow> string \<Rightarrow> pipe_world \<Rightarrow> bool" where
  "stored P mailboxId raw messageId w =
     (\<exists>x \<in> set (pw_messages w). \<exists>b. pm_id x = messageId \<and> pm_mailbox_id x = mailboxId \<and> pw_r2 w (pm_r2_key x) = Some b \<and>
        sha256Hex (pp_crypto P) b = sha256Hex (pp_crypto P) raw)"

lemma processMessage_stores:
  assumes "pm_direction args = Dir_in" "processMessage P pc args w = (w', Inr r)" "pipe_wf P w"
  shows "stored P (pm_mailboxId args) (pm_rawMime args) (pr_messageId r) w'"
proof -
  let ?sha = "sha256Hex (pp_crypto P) (pm_rawMime args)"
  have row: "pipe_wf P w' \<and> (\<exists>x \<in> set (pw_messages w'). pm_id x = pr_messageId r \<and> pm_mailbox_id x = pm_mailboxId args \<and> pm_r2_key x = r2_key_of ?sha)"
    using assms(1,2)
  proof (cases rule: processMessage_in)
    case (seen x r)
    then show ?thesis using assms(3) by auto
  next
    case new
    then show ?thesis using ingest_row [OF new assms(1)] ingest_wf [OF assms(3) refl, of pc args] by (metis fst_conv)
  qed
  then obtain x where x: "x \<in> set (pw_messages w')" "pm_id x = pr_messageId r" "pm_mailbox_id x = pm_mailboxId args" "pm_r2_key x = r2_key_of ?sha"
    by blast
  have b: "has_body (pw_r2 w') x" "bodies_ok P (pw_r2 w')" using row x(1) by (auto simp: pipe_wf_def list_all_iff)
  then obtain b where "pw_r2 w' (r2_key_of ?sha) = Some b" unfolding has_body_def x(4) by auto
  then show ?thesis using x b(2) unfolding stored_def bodies_ok_def by auto
qed

section \<open>Ways through the handler\<close>

lemma enqueue_all_world:
  "iw_pipe (fst (enqueue_all c mid mb n es w)) = iw_pipe w"
  "enqueue_all c mid mb n es w = (w', Inr ()) \<Longrightarrow> map fi_webhook_sub_id (iw_fanout w') = map fi_webhook_sub_id (iw_fanout w) @ map fo_webhookSubId es \<and>
     list_all (\<lambda>f. fi_message_id f = mid) (drop (length (iw_fanout w)) (iw_fanout w'))"
proof -
  show "iw_pipe (fst (enqueue_all c mid mb n es w)) = iw_pipe w" by (induction c mid mb n es w rule: enqueue_all.induct) auto
  have "\<exists>fs. iw_fanout w' = iw_fanout w @ fs \<and> map fi_webhook_sub_id fs = map fo_webhookSubId es \<and> list_all (\<lambda>f. fi_message_id f = mid) fs"
    if "enqueue_all c mid mb n es w = (w', Inr ())"
    using that by (induction c mid mb n es w arbitrary: w' rule: enqueue_all.induct) (fastforce split: if_splits)+
  then show "enqueue_all c mid mb n es w = (w', Inr ()) \<Longrightarrow> map fi_webhook_sub_id (iw_fanout w') = map fi_webhook_sub_id (iw_fanout w) @ map fo_webhookSubId es \<and>
     list_all (\<lambda>f. fi_message_id f = mid) (drop (length (iw_fanout w)) (iw_fanout w'))" by fastforce
qed

lemma attach_world: "iw_pipe (fst (attachDecisionToMessage c d mid w)) = iw_pipe w" "iw_fanout (fst (attachDecisionToMessage c d mid w)) = iw_fanout w"
  by (simp_all add: attachDecisionToMessage_def hook_defs)

lemma ingest_passed_accepted:
  assumes "ingest_passed P c mb raw to a d w = (w', Accepted)"
  obtains pw r where "processMessage (ip_pipe P) (ic_pipe c) (in_args mb raw to a) (iw_pipe w) = (pw, Inr r)" "iw_pipe w' = pw"
    "map fi_webhook_sub_id (iw_fanout w') = map fi_webhook_sub_id (iw_fanout w) @
       map fo_webhookSubId (case pr_fanoutEnqueues r of Some es \<Rightarrow> es | None \<Rightarrow> [])"
proof -
  obtain pw res where p: "processMessage (ip_pipe P) (ic_pipe c) (in_args mb raw to a) (iw_pipe w) = (pw, res)" by fastforce
  with assms obtain r where r: "res = Inr r" by (cases res) (auto simp: ingest_passed_def)
  define w2 where "w2 = fst (attachDecisionToMessage c d (pr_messageId r) (w\<lparr>iw_pipe := pw, iw_points := iw_points w @ [in_point to]\<rparr>))"
  have w2: "iw_pipe w2 = pw" "iw_fanout w2 = iw_fanout w" by (simp_all add: w2_def attach_world)
  have e: "enqueue_all c (pr_messageId r) mb 0 (case pr_fanoutEnqueues r of Some es \<Rightarrow> es | None \<Rightarrow> []) w2 = (w', Inr ())"
    using assms p r by (auto simp: ingest_passed_def Let_def w2_def split: prod.splits sum.splits)
  show thesis
    using that [of pw r] p r enqueue_all_world(1) [of c "pr_messageId r" mb 0 _ w2] enqueue_all_world(2) [OF e] w2 e by (metis fst_conv)
qed

lemma hold_message_kept:
  "hold_message c raw d w = (w', Inr act) \<Longrightarrow> \<exists>h \<in> set (iw_held w'). ihm_decision_id h = pd_decision_id d \<and> pw_r2 (iw_pipe w') (ihm_raw_mime_r2_key h) = Some raw"
  by (auto simp: hold_message_def hook_defs Let_def split: if_splits)

lemma block_message_kept:
  "block_message c raw d w = (w', Inr act) \<Longrightarrow> pw_r2 (iw_pipe w') (''policy_blocked/'' @ pd_decision_id d @ ''.eml'') = Some raw \<and>
     pd_decision_id d \<in> set (map idr_id (iw_decisions w'))"
  by (auto simp: block_message_def hook_defs Let_def split: if_splits)


lemma find_mem: "find Q xs = Some x \<Longrightarrow> x \<in> set xs \<and> Q x"
  by (induction xs) (auto split: if_splits)

lemma matching_receiver_mem:
  "matching_receiver did to w = Some r \<Longrightarrow> r \<in> set (pw_receivers (iw_pipe w)) \<and> rv_domain_id r = did \<and> rv_enabled r \<and>
     rv_disabled_at r = None \<and> addressMatches (rv_address_pattern r) to"
  unfolding matching_receiver_def by (auto dest!: find_mem in_set_takeD)

lemma route_delivers:
  assumes "route P c m from to raw w = (w', out)" "out = Accepted \<or> iw_pipe w' \<noteq> iw_pipe w \<or> iw_fanout w' \<noteq> iw_fanout w"
  obtains did r kv where "live_domain (domain_part to) w = Some did" "matching_receiver did to w = Some r" "rv_action r \<noteq> ''drop''"
    "rateShed (ic_now_ms c) did (iw_kv w) = (kv, False)" "deliver_to P c m r did from to raw (w\<lparr>iw_kv := kv\<rparr>) = (w', out)"
  using assms by (auto simp: route_def split: option.splits if_splits prod.splits)

text \<open>What becomes of an accepted message.\<close>
lemma deliver_to_accepted:
  assumes "deliver_to P c m r did from to raw w = (w', Accepted)"
  obtains (forward) "(the (rv_forward_to r), raw) \<in> set (iw_forwarded w')" "rv_action r = ''forward''"
  | (report) "(rv_mailbox_id r, raw) \<in> set (iw_reports w')" "rv_mailbox_id r \<in> {PLATFORM_TLS_REPORTS_MAILBOX_ID, PLATFORM_COMPLAINTS_MAILBOX_ID}"
  | (held) h where "h \<in> set (iw_held w')" "pw_r2 (iw_pipe w') (ihm_raw_mime_r2_key h) = Some raw"
  | (blocked) d :: PolicyDecision where "pw_r2 (iw_pipe w') (''policy_blocked/'' @ pd_decision_id d @ ''.eml'') = Some raw"
      "pd_decision_id d \<in> set (map idr_id (iw_decisions w'))"
  | (passed) a d w1 where "evaluateInboundPolicy P c (policy_input r did from to raw a) w = (w1, Inr (In_continue d))"
      "ingest_passed P c (rv_mailbox_id r) raw to a d w1 = (w', Accepted)"
proof -
  define a where "a = parseAuthResults (Some (case em_auth_header m of Some h \<Rightarrow> h | None \<Rightarrow> []))"
  let ?i = "policy_input r did from to raw a"
  consider (f) "rv_action r = ''forward'' \<and> is_set (rv_forward_to r)"
    | (p) "\<not> (rv_action r = ''forward'' \<and> is_set (rv_forward_to r))"
        "rv_mailbox_id r \<in> {PLATFORM_TLS_REPORTS_MAILBOX_ID, PLATFORM_COMPLAINTS_MAILBOX_ID}"
    | (e) w1 x where "evaluateInboundPolicy P c ?i w = (w1, x)"
        "\<not> (rv_action r = ''forward'' \<and> is_set (rv_forward_to r))"
        "rv_mailbox_id r \<notin> {PLATFORM_TLS_REPORTS_MAILBOX_ID, PLATFORM_COMPLAINTS_MAILBOX_ID}" by fastforce
  then show thesis
  proof cases
    case f
    then show thesis using assms that(1) by (auto simp: deliver_to_def split: if_splits)
  next
    case p
    then show thesis using assms that(2) by (auto simp: deliver_to_def)
  next
    case (e w1 x)
    then have c: "(case x of Inl e \<Rightarrow> (w1, Threw_out e) | Inr (In_block _ _) \<Rightarrow> (w1, Accepted) | Inr (In_hold _ _ _) \<Rightarrow> (w1, Accepted)
        | Inr (In_continue d) \<Rightarrow> ingest_passed P c (rv_mailbox_id r) raw to a d w1) = (w', Accepted)"
      using assms by (auto simp: deliver_to_def a_def Let_def split: sum.splits InboundPolicyAction.splits)
    have raw: "ipi_rawMime ?i = raw" by (simp add: policy_input_def)
    show thesis
    proof (cases x)
      case (Inl e)
      then show thesis using c by simp
    next
      case (Inr act)
      note v = e(1) [unfolded Inr evaluateInboundPolicy_def raw]
      show thesis
      proof (cases act)
        case (In_continue d)
        then show thesis using c Inr e(1) that(5) by simp
      next
        case (In_hold d x y)
        then have "w' = w1" using c Inr by simp
        moreover have "\<exists>d w0. hold_message c raw d w0 = (w1, Inr act)"
          using v In_hold by (auto simp: block_message_def hook_defs Let_def split: sum.splits prod.splits Verdict.splits if_splits)
        ultimately show thesis using that(3) hold_message_kept by blast
      next
        case (In_block d x)
        then have "w' = w1" using c Inr by simp
        moreover have "\<exists>d w0. block_message c raw d w0 = (w1, Inr act)"
          using v In_block by (auto simp: hold_message_def hook_defs Let_def split: sum.splits prod.splits Verdict.splits if_splits)
        ultimately obtain d' w0 where "block_message c raw d' w0 = (w', Inr act)" by blast
        from block_message_kept [OF this] show thesis using that(4) [of d'] by simp
      qed
    qed
  qed
qed


text \<open>What stores a message or announces it: reading, routing and a favourable verdict.\<close>
lemma deliver_to_changes:
  assumes "deliver_to P c m r did from to raw w = (w', out)"
    and "pw_messages (iw_pipe w') \<noteq> pw_messages (iw_pipe w) \<or> iw_fanout w' \<noteq> iw_fanout w"
  obtains a d w1 where "evaluateInboundPolicy P c (policy_input r did from to raw a) w = (w1, Inr (In_continue d))"
proof -
  define a where "a = parseAuthResults (Some (case em_auth_header m of Some h \<Rightarrow> h | None \<Rightarrow> []))"
  let ?e = "evaluateInboundPolicy P c (policy_input r did from to raw a) w"
  have "\<exists>d. snd ?e = Inr (In_continue d)"
    using assms evaluateInboundPolicy_world [of P c "policy_input r did from to raw a" w]
    by (auto simp: deliver_to_def a_def [symmetric] Let_def split: if_splits prod.splits sum.splits InboundPolicyAction.splits)
  then show thesis using that by (metis prod.collapse)
qed

lemma email_route:
  assumes "email P c m w = (w', out)" "out = Accepted \<or> iw_pipe w' \<noteq> iw_pipe w \<or> iw_fanout w' \<noteq> iw_fanout w"
    and "\<not> starts_with ''unsub+'' (local_part (js_lower (text_or_empty (em_to m))))"
  obtains raw where "readAll (em_raw m) = Inr raw"
    "route P c m (js_lower (text_or_empty (em_from m))) (js_lower (text_or_empty (em_to m))) raw w = (w', out)"
  using assms by (cases "readAll (em_raw m)") (auto simp: email_def Let_def)

lemma email_unsub_world:
  "starts_with ''unsub+'' (local_part (js_lower (text_or_empty (em_to m)))) \<Longrightarrow>
     iw_pipe (fst (email P c m w)) = iw_pipe w \<and> iw_fanout (fst (email P c m w)) = iw_fanout w"
  by (auto simp: email_def Let_def split: sum.splits)

lemma email_changes:
  assumes "email P c m w = (w', out)"
    and "pw_messages (iw_pipe w') \<noteq> pw_messages (iw_pipe w) \<or> iw_fanout w' \<noteq> iw_fanout w"
  defines "to \<equiv> js_lower (text_or_empty (em_to m))" and "from \<equiv> js_lower (text_or_empty (em_from m))"
  obtains raw did r kv a w1 d parsed where "readAll (em_raw m) = Inr raw" "live_domain (domain_part to) w = Some did"
    "matching_receiver did to w = Some r" "rv_action r \<noteq> ''drop''" "rateShed (ic_now_ms c) did (iw_kv w) = (kv, False)"
    "parseStrict (mr_utf8 (pp_mime (ip_pipe P))) raw = Inr parsed"
    "inbound_decision P c (policy_input r did from to raw a) parsed (w\<lparr>iw_kv := kv\<rparr>) = (w1, d)" "pd_verdict d \<in> {Pass, Pass_warn}"
proof -
  have ch: "out = Accepted \<or> iw_pipe w' \<noteq> iw_pipe w \<or> iw_fanout w' \<noteq> iw_fanout w" using assms(2) by auto
  have nu: "\<not> starts_with ''unsub+'' (local_part to)" using email_unsub_world [of m P c w] assms(1,2) by (auto simp: to_def)
  obtain raw where raw: "readAll (em_raw m) = Inr raw" "route P c m from to raw w = (w', out)"
    using email_route [OF assms(1) ch] nu unfolding to_def from_def by metis
  obtain did r kv where r: "live_domain (domain_part to) w = Some did" "matching_receiver did to w = Some r" "rv_action r \<noteq> ''drop''"
      "rateShed (ic_now_ms c) did (iw_kv w) = (kv, False)" "deliver_to P c m r did from to raw (w\<lparr>iw_kv := kv\<rparr>) = (w', out)"
    by (rule route_delivers [OF raw(2) ch])
  obtain a d w1 where e: "evaluateInboundPolicy P c (policy_input r did from to raw a) (w\<lparr>iw_kv := kv\<rparr>) = (w1, Inr (In_continue d))"
    using deliver_to_changes [OF r(5)] assms(2) by (metis in_world.select_convs(1,10) in_world.surjective in_world.update_convs(3))
  have "ipi_rawMime (policy_input r did from to raw a) = raw" by (simp add: policy_input_def)
  with evaluateInboundPolicy_continue [OF e] show thesis using that [OF raw(1) r(1-4)] by auto
qed

section \<open>Properties\<close>



text \<open>Each domain gets 120 messages a minute: of the messages that arrive one after the other within a minute whose counter is
  still unset, exactly those after the first 120 are shed. A shed message does not count.\<close>
theorem inbound_rate_exact:
  assumes "kv (shed_key domainId (b * 60000)) = None" "\<forall>t \<in> set ts. t div 60000 = b"
  shows "shed_run domainId ts kv = map (\<lambda>i. i \<ge> 120) [0 ..< length ts]"
  using shed_run_from [of domainId b 0 kv ts] assms by (simp add: shed_inv_def)


text \<open>A forbidden header stops the strict parse, wherever it stands.\<close>
lemma header_policy_forbidden: "h \<in> set hs \<Longrightarrow> h_nameLc h \<in> set TRANSPORT_FORBIDDEN_HEADERS \<Longrightarrow> header_policy seen hs \<noteq> None"
  by (induction seen hs rule: header_policy.induct) auto

lemma parseStrict_forbidden:
  assumes "scan_boundary 0 raw = Inr k" "parseHeaders decode (take k raw) = Inr hs"
    and "h \<in> set hs" "h_nameLc h \<in> set TRANSPORT_FORBIDDEN_HEADERS"
  shows "\<exists>e. parseStrict decode raw = Inl e"
  using assms(1,2) header_policy_forbidden [OF assms(3,4), of "[]"]
  by (auto simp: parseStrict_def Let_def enforceHeaderPolicy_def split: option.splits)

text \<open>C39. Relayed mail never arrives. Every mail server that passes a message on prepends a \<^verbatim>\<open>Received\<close> header, and the policy hook parses
  inbound mail with the strict parser of outbound submissions, which refuses that header (and signatures, authentication results
  and content encodings) as forbidden. So a message with such a header is never stored as a message of a mailbox and never reaches
  a webhook, whatever the engine thinks of it: it is held, rejected or handed on.\<close>
theorem relayed_mail_never_stored:
  assumes "readAll (em_raw m) = Inr raw" "scan_boundary 0 raw = Inr k"
    and "parseHeaders (mr_utf8 (pp_mime (ip_pipe P))) (take k raw) = Inr hs" "h \<in> set hs"
    and "h_nameLc h \<in> {''received'', ''dkim-signature'', ''authentication-results'', ''content-transfer-encoding''}"
  shows "pw_messages (iw_pipe (fst (email P c m w))) = pw_messages (iw_pipe w) \<and> iw_fanout (fst (email P c m w)) = iw_fanout w"
proof (rule ccontr)
  assume ch: "\<not> ?thesis"
  have f: "h_nameLc h \<in> set TRANSPORT_FORBIDDEN_HEADERS" using assms(5) by (auto simp: TRANSPORT_FORBIDDEN_HEADERS_def)
  obtain w' out where e: "email P c m w = (w', out)" by fastforce
  with ch have "pw_messages (iw_pipe w') \<noteq> pw_messages (iw_pipe w) \<or> iw_fanout w' \<noteq> iw_fanout w" by auto
  from email_changes [OF e this] show False using assms(1) parseStrict_forbidden [OF assms(2,3,4) f] by (metis Inr_inject sum.distinct(1))
qed

section \<open>Demonstration\<close>

definition demo_receiver :: receiver where
  "demo_receiver = \<lparr> rv_domain_id = ''d'', rv_mailbox_id = ''mb'', rv_enabled = True, rv_priority = 0, rv_action = ''store'',
     rv_webhook_sub_id = None, rv_address_pattern = ''*@b.c'', rv_disabled_at = None, rv_forward_to = None \<rparr>"

definition demo_ip :: in_platform where
  "demo_ip = \<lparr> ip_pipe = demo_pp, ip_out = demo_op, ip_unsub = demo_up, ip_llm = demo_llm \<rparr>"

definition demo_ic :: in_call where
  "demo_ic = \<lparr> ic_now_ms = 0, ic_now_iso = ''now'', ic_hold_until = ''later'', ic_ulid = (\<lambda>_. ''u''), ic_rnd = [],
     ic_pipe = demo_pc (\<lambda>_. False) (\<lambda>_. False), ic_unsub = demo_uc 6, ic_secret = Some ''key'', ic_has_kv = True, ic_fails = (\<lambda>_. False) \<rparr>"

definition demo_iw :: in_world where
  "demo_iw = \<lparr> iw_pipe = demo_w0\<lparr>pw_domains := [(''d'', ''b.c'')], pw_receivers := [demo_receiver]\<rparr>, iw_disabled = [], iw_kv = Map.empty,
     iw_db = pe_db demo_env, iw_config = [], iw_llm_kv = Map.empty, iw_decisions = [], iw_held = [], iw_message_decision = Map.empty,
     iw_fanout = [], iw_forwarded = [], iw_reports = [], iw_points = [] \<rparr>"

definition demo_em :: "bytes \<Rightarrow> email_message" where
  "demo_em raw = \<lparr> em_raw = [Read_nothing, Read_chunk raw], em_to = Some ''A@b.c'', em_from = Some ''x@y.z'', em_auth_header = Some ''mx; spf=pass; dkim=pass; dmarc=pass'' \<rparr>"

definition demo_auth :: ParsedAuthResults where
  "demo_auth = \<lparr> ar_spf = Some ''pass'', ar_dkim = Some ''pass'', ar_dmarc = Some ''pass'' \<rparr>"

definition demo_pinput :: InboundPolicyInput where
  "demo_pinput = policy_input demo_receiver ''d'' ''x@y.z'' ''a@b.c'' [13, 10, 13, 10] demo_auth"

definition demo_iw1 :: in_world where
  "demo_iw1 = demo_iw\<lparr>iw_kv := fst (rateShed 0 ''d'' Map.empty)\<rparr>"

lemma demo_read: "readAll (em_raw (demo_em raw)) = Inr raw" if "length raw \<le> 100"
  using that by (simp add: demo_em_def readAll_def MAX_MESSAGE_SIZE_VERIFIED_def)

lemma demo_heuristics:
  "runHeuristics (inbound_input demo_ip demo_ic demo_pinput \<lparr> pm_headers = [], pm_body = [] \<rparr> demo_iw1) demo_cfg =
     [\<lparr>hr_code = ''auth_dmarc_pass'', hr_score = 3\<rparr>, \<lparr>hr_code = ''header_message_id_missing'', hr_score = - 2\<rparr>]"
  by code_simp

lemma demo_passes: "\<exists>d. evaluateInboundPolicy demo_ip demo_ic demo_pinput demo_iw1 = (demo_iw1, Inr (In_continue d))"
proof -
  let ?i = "inbound_input demo_ip demo_ic demo_pinput \<lparr> pm_headers = [], pm_body = [] \<rparr> demo_iw1"
  have cfg: "policy_config None (le_json_parse demo_llm) [] ?i = demo_cfg" by (simp add: policy_config_def loadPolicyConfig_def apply_layer_def demo_cfg_def nonempty_opt_def Let_def split: option.splits)
  have in': "pi_direction ?i = Inbound" by (simp add: inbound_input_def)
  obtain d where d: "evaluatePolicy demo_llm None [] [] ?i Map.empty = (d, Map.empty)" "pd_verdict d = Pass"
    using demo_heuristics by (simp add: evaluatePolicy_def cfg score_sum_def classifyBand_def demo_cfg_def DEFAULT_BANDS_def BLOCK_DECISIVE_THRESHOLD_def Let_def)
  have "inbound_decision demo_ip demo_ic demo_pinput \<lparr> pm_headers = [], pm_body = [] \<rparr> demo_iw1 = (demo_iw1, d)"
    using d(1) by (simp add: inbound_decision_def demo_ip_def demo_ic_def demo_iw1_def demo_iw_def)
  moreover have "parseStrict (mr_utf8 (pp_mime (ip_pipe demo_ip))) (ipi_rawMime demo_pinput) = Inr \<lparr> pm_headers = [], pm_body = [] \<rparr>"
    by code_simp
  ultimately show ?thesis using d(2) by (simp add: evaluateInboundPolicy_def)
qed

lemma demo_ingest:
  "snd (processMessage demo_pp (demo_pc (\<lambda>_. False) (\<lambda>_. False)) (in_args ''mb'' [13, 10, 13, 10] ''a@b.c'' demo_auth) (iw_pipe demo_iw1)) =
     Inr \<lparr> pr_messageId = ''00000000050000000000000000'', pr_status = ''received'', pr_fresh = True, pr_fanoutEnqueues = Some [] \<rparr>"
  by code_simp

lemma demo_route:
  "route demo_ip demo_ic (demo_em raw) ''x@y.z'' ''a@b.c'' raw demo_iw =
     deliver_to demo_ip demo_ic (demo_em raw) demo_receiver ''d'' ''x@y.z'' ''a@b.c'' raw demo_iw1"
proof -
  have "live_domain (domain_part ''a@b.c'') demo_iw = Some ''d''" "matching_receiver ''d'' ''a@b.c'' demo_iw = Some demo_receiver" by code_simp+
  moreover have "rateShed 0 ''d'' (iw_kv demo_iw) = (fst (rateShed 0 ''d'' Map.empty), False)"
    by (simp add: rateShed_def kv_get_def shed_count_def demo_iw_def Let_def)
  ultimately show ?thesis by (simp add: route_def demo_iw1_def demo_ic_def demo_receiver_def [THEN arg_cong [of _ _ rv_action]])
qed

lemma demo_email:
  "\<exists>w'. email demo_ip demo_ic (demo_em [13, 10, 13, 10]) demo_iw = (w', Accepted) \<and> pw_messages (iw_pipe w') \<noteq> []"
proof -
  let ?m = "demo_em [13, 10, 13, 10]"
  obtain d where d: "evaluateInboundPolicy demo_ip demo_ic demo_pinput demo_iw1 = (demo_iw1, Inr (In_continue d))" using demo_passes by blast
  obtain pw where pw: "processMessage demo_pp (demo_pc (\<lambda>_. False) (\<lambda>_. False)) (in_args ''mb'' [13, 10, 13, 10] ''a@b.c'' demo_auth) (iw_pipe demo_iw1) =
     (pw, Inr \<lparr> pr_messageId = ''00000000050000000000000000'', pr_status = ''received'', pr_fresh = True, pr_fanoutEnqueues = Some [] \<rparr>)"
    using demo_ingest by (metis prod.collapse)
  have ne: "pw_messages pw \<noteq> []" using processMessage_stores [OF _ pw] by (auto simp: in_args_def stored_def demo_iw1_def demo_iw_def demo_w0_def pipe_wf_def bodies_ok_def state_wf_def)
  have parse: "parseAuthResults (Some ''mx; spf=pass; dkim=pass; dmarc=pass'') = demo_auth" by code_simp
  have "deliver_to demo_ip demo_ic ?m demo_receiver ''d'' ''x@y.z'' ''a@b.c'' [13, 10, 13, 10] demo_iw1 =
      ingest_passed demo_ip demo_ic ''mb'' [13, 10, 13, 10] ''a@b.c'' demo_auth d demo_iw1"
    using d parse by (simp add: deliver_to_def demo_em_def demo_pinput_def demo_receiver_def PLATFORM_TLS_REPORTS_MAILBOX_ID_def
        PLATFORM_COMPLAINTS_MAILBOX_ID_def)
  moreover have "\<exists>w'. ingest_passed demo_ip demo_ic ''mb'' [13, 10, 13, 10] ''a@b.c'' demo_auth d demo_iw1 = (w', Accepted) \<and> iw_pipe w' = pw"
    using pw by (simp add: ingest_passed_def demo_ip_def demo_ic_def Let_def attach_world)
  moreover have "js_lower (text_or_empty (em_to ?m)) = ''a@b.c''" "js_lower (text_or_empty (em_from ?m)) = ''x@y.z''" "local_part ''a@b.c'' = ''a''"
    by code_simp+
  ultimately show ?thesis using demo_read [of "[13, 10, 13, 10]"] ne by (auto simp: email_def Let_def demo_route starts_with_def)
qed




lemma inbound_rate_exact_witness: "shed_run ''d'' [0, 5, 59999] Map.empty = [False, False, False]"
  using inbound_rate_exact [of Map.empty "''d''" 0 "[0, 5, 59999]"] by (simp add: upt_rec)

definition demo_relayed :: bytes where
  "demo_relayed = text_encode (''Received: a'' @ CRLF @ CRLF)"

lemma relayed_mail_never_stored_witness:
  "iw_fanout (fst (email demo_ip demo_ic (demo_em demo_relayed) demo_iw)) = []"
proof -
  have "length demo_relayed = 15" "scan_boundary 0 demo_relayed = Inr 13" by code_simp+
  moreover have "parseHeaders (mr_utf8 (pp_mime (ip_pipe demo_ip))) (take 13 demo_relayed) =
      Inr [\<lparr> h_nameLc = ''received'', h_name = ''Received'', h_value = ''a'' \<rparr>]" by code_simp
  ultimately show ?thesis
    using relayed_mail_never_stored [OF demo_read, of demo_relayed 13 demo_ip] by (simp add: demo_iw_def)
qed

section \<open>Unsubscribing by mail\<close>

definition url_safe :: "char \<Rightarrow> bool" where
  "url_safe c = (c \<noteq> CHR ''@'' \<and> c \<noteq> CHR ''%'')"

lemma js_lower_plain: "c \<notin> set s \<Longrightarrow> c \<in> {CHR ''@'', CHR ''%'', CHR ''.''} \<Longrightarrow> c \<notin> set (js_lower s)"
proof
  assume "c \<notin> set s" and c: "c \<in> {CHR ''@'', CHR ''%'', CHR ''.''}" and "c \<in> set (js_lower s)"
  then obtain x where x: "x \<in> set s" "js_lower_char x = c" by (auto simp: js_lower_def)
  have "x = c" by (rule js_lower_char_neq [OF x(2)]) (use c in auto)
  with x(1) \<open>c \<notin> set s\<close> show False by simp
qed

lemma b64u_safe: "list_all url_safe (b64uEncode s)"
proof -
  have "list_all (\<lambda>d. url_safe (url_char (b64_char d))) [0 ..< 64]" unfolding url_safe_def by code_simp
  then show ?thesis using b64uEncode_digits(2) [of s] unfolding b64uEncode_digits(1) by (auto simp: list_all_iff)
qed

lemma hexes_lower:
  "js_lower (concat (map hex_byte bs)) = concat (map hex_byte bs)" "list_all url_safe (concat (map hex_byte bs))"
proof -
  have "js_lower_char c = c \<and> url_safe c" if "is_hex_lower c" for c
    using that by (auto simp: is_hex_lower_def is_digit_def js_lower_char_def url_safe_def Let_def)
  then have d: "js_lower_char (digit_char d) = digit_char d \<and> url_safe (digit_char d)" if "d < 16" for d using that digit_char_hex by blast
  have b: "unat b div 16 < 16" for b :: byte using less_mult_imp_div_less [of "unat b" 16 16] by simp
  show "js_lower (concat (map hex_byte bs)) = concat (map hex_byte bs)" "list_all url_safe (concat (map hex_byte bs))"
    by (induction bs) (auto simp: hex_byte_eq d b)
qed

text \<open>An object's text starts with a brace and a quote, so its encoding has a capital third letter.\<close>
lemma b64u_capital: "js_lower (b64uEncode (CHR ''{'' # CHR 0x22 # c # s)) \<noteq> b64uEncode (CHR ''{'' # CHR 0x22 # c # s)"
proof -
  have "(of_char c :: nat) div 64 < 4" using of_char_of [of "of_char c :: nat"] by (intro less_mult_imp_div_less) simp
  then consider "(of_char c :: nat) div 64 = 0" | "(of_char c :: nat) div 64 = 1" | "(of_char c :: nat) div 64 = 2" | "(of_char c :: nat) div 64 = 3"
    by linarith
  then have "js_lower_char (url_char (b64_char (8 + of_char c div 64))) \<noteq> url_char (b64_char (8 + of_char c div 64))"
    by cases (simp_all add: b64_char_def B64_def url_char_def js_lower_char_def Let_def char_of_eq_iff)
  then show ?thesis by (simp add: b64uEncode_digits(1))
qed

text \<open>The handler lower-cases the whole recipient before it cuts the token out of it, and the token's first half is case sensitive.
  So a link minted by the platform, mailed back to the address the platform put into the message, changes nothing, as long as the
  keyed hash tells the two spellings apart: unsubscribing by mail does not work.\<close>
theorem mailto_unsubscribe_lost:
  assumes "em_to m = Some (''unsub+'' @ mintUnsubToken (up_env (ip_unsub P)) p secret now @ ''@'' @ host)" "ic_secret c = Some secret"
    and "ue_stringify (up_env (ip_unsub P)) (payload_json (p\<lparr>ut_issued_at := of_int now\<rparr>)) = CHR ''{'' # CHR 0x22 # x # rest"
    and mac: "\<And>b b'. b \<noteq> b' \<Longrightarrow> js_lower b = b' \<Longrightarrow> hmacHex (up_env (ip_unsub P)) secret b' \<noteq> hmacHex (up_env (ip_unsub P)) secret b"
  shows "db_suppressions (iw_db (fst (email P c m w))) = db_suppressions (iw_db w)"
proof -
  let ?E = "up_env (ip_unsub P)"
  define body where "body = b64uEncode (CHR ''{'' # CHR 0x22 # x # rest)"
  define sig where "sig = hmacHex ?E secret body"
  define token where "token = js_lower body @ CHR ''.'' # sig"
  have sig: "js_lower sig = sig" "list_all url_safe sig" by (simp_all add: sig_def hexes_lower hmacHex_def)
  have safe: "list_all url_safe (body @ CHR ''.'' # sig)" using sig(2) b64u_safe by (auto simp: body_def url_safe_def js_lower_char_def)
  have token: "js_lower (body @ CHR ''.'' # sig) = token" using sig(1) by (simp add: token_def js_lower_char_def)
  have plain: "CHR ''@'' \<notin> set token" "CHR ''%'' \<notin> set token"
    unfolding token [symmetric] by (rule js_lower_plain; use safe in \<open>auto simp: url_safe_def list_all_iff\<close>)+
  have to: "js_lower (text_or_empty (em_to m)) = (''unsub+'' @ token) @ CHR ''@'' # js_lower host"
    using token assms(1,3) by (simp add: text_or_empty_def mintUnsubToken_def body_def sig_def Let_def js_lower_char_def)
  have lp: "local_part (js_lower (text_or_empty (em_to m))) = ''unsub+'' @ token"
    unfolding to local_part_def using plain(1) by (subst js_split_append_sep) auto
  have "CHR ''.'' \<notin> set (js_lower body)"
    unfolding body_def by (rule js_lower_plain) (simp_all add: b64uEncode_no_dot)
  then have ix: "index_of (CHR ''.'') token = Some (length body)" unfolding token_def by (metis index_of_append_notin length_js_lower)
  have "hmacHex ?E secret (js_lower body) \<noteq> sig" using mac [of body "js_lower body"] b64u_capital [of x rest] by (auto simp: body_def sig_def)
  then have "verifyToken ?E token secret now' = None" for now'
    using ix char_diff_zero by (simp add: verifyToken_def Let_def token_def)
  then have "fst (handleUnsubMailto (ip_unsub P) (ic_unsub c) secret token t) = t" for t
    by (simp add: handleUnsubMailto_def js_decodeURIComponent_plain [OF plain(2)])
  moreover have "text_or_empty (ic_secret c) = secret" using assms(2) by (simp add: text_or_empty_def)
  ultimately show ?thesis by (auto simp: email_def Let_def lp starts_with_def split: sum.splits)
qed

end
