(* ===== verification/Jobs.thy ===== *)
theory Jobs
  imports Prelude
begin

text \<open>
  The contract of a scheduled job: an operation that is called again and again, each time with the clock, the configuration and the
  faults of that call. What every call of a kind keeps holds after any number of them, and what every call leaves alone is left
  alone by all of them. The alerts, the abuse tiers and the promotion of policies interpret it.
\<close>

fun job_runs :: "('c \<Rightarrow> 's \<Rightarrow> 's) \<Rightarrow> 'c list \<Rightarrow> 's \<Rightarrow> 's" where
  "job_runs step [] s = s"
| "job_runs step (c # cs) s = job_runs step cs (step c s)"

lemma job_runs_append: "job_runs step (as @ bs) s = job_runs step bs (job_runs step as s)"
  by (induction as arbitrary: s) auto

locale scheduled_job =
  fixes step :: "'c \<Rightarrow> 's \<Rightarrow> 's" and proper :: "'c \<Rightarrow> bool" and inv :: "'s \<Rightarrow> bool"
  assumes keeps: "proper c \<Longrightarrow> inv s \<Longrightarrow> inv (step c s)"
begin

lemma runs_keep_inv: "list_all proper cs \<Longrightarrow> inv s \<Longrightarrow> inv (job_runs step cs s)"
  by (induction cs arbitrary: s) (auto intro: keeps)

lemma runs_frame:
  assumes "\<And>c s. proper c \<Longrightarrow> inv s \<Longrightarrow> view (step c s) = view s" "list_all proper cs" "inv s"
  shows "view (job_runs step cs s) = view s"
  using assms(2,3) by (induction cs arbitrary: s) (auto simp: assms(1) keeps)

text \<open>A property that may change from call to call; \<open>Q k\<close> holds before the \<open>k\<close>-th.\<close>
lemma runs_indexed:
  assumes "\<And>k s. k < length cs \<Longrightarrow> inv s \<Longrightarrow> Q k s \<Longrightarrow> Q (Suc k) (step (cs ! k) s)" "list_all proper cs" "inv s" "Q 0 s"
  shows "Q (length cs) (job_runs step cs s)"
  using assms
proof (induction cs arbitrary: s Q)
  case (Cons c cs)
  have "Q (Suc 0) (step c s)" using Cons.prems(1) [of 0 s] Cons.prems(3,4) by simp
  moreover have "inv (step c s)" using Cons.prems(2,3) keeps by simp
  moreover have "Q (Suc (Suc k)) (step (cs ! k) v)" if "k < length cs" "inv v" "Q (Suc k) v" for k v
    using Cons.prems(1) [of "Suc k" v] that by simp
  ultimately show ?case using Cons.IH [where Q = "\<lambda>k. Q (Suc k)"] Cons.prems(2) by simp
qed simp

end

end
