(* ===== verification/Alerts.thy ===== *)
theory Alerts
  imports Jobs ApiAuth AuditLog PolicyEngine
begin

text \<open>
  The operator alerts of \<^verbatim>\<open>services/api/src/lib/admin-alert.ts\<close>: a row, an audit entry and, once an hour for each kind and
  target, a call of the alert webhook. The scheduled jobs of the later theories raise them.
\<close>

section \<open>Data\<close>

datatype AdminAlertType =
  Sender_suppressed | Phishing_report_received | Legal_takedown_received | Sender_threshold_breached | Tls_rpt_failure_burst
  | Dmarc_alignment_drop | Synthetic_check_failed | Manual_alert

primrec alert_type_str :: "AdminAlertType \<Rightarrow> string" where
  "alert_type_str Sender_suppressed = ''sender_suppressed''"
| "alert_type_str Phishing_report_received = ''phishing_report_received''"
| "alert_type_str Legal_takedown_received = ''legal_takedown_received''"
| "alert_type_str Sender_threshold_breached = ''sender_threshold_breached''"
| "alert_type_str Tls_rpt_failure_burst = ''tls_rpt_failure_burst''"
| "alert_type_str Dmarc_alignment_drop = ''dmarc_alignment_drop''"
| "alert_type_str Synthetic_check_failed = ''synthetic_check_failed''"
| "alert_type_str Manual_alert = ''manual''"

text \<open>Body and payload, texts for the operator only, are left out.\<close>
record AdminAlertInput =
  al_type :: AdminAlertType
  al_severity :: Severity
  al_target :: string
  al_subject :: string

record alert_delivery =
  ad_channel :: string
  ad_ok :: bool
  ad_status :: "nat option"

record alert_row =
  alr_id :: string
  alr_input :: AdminAlertInput
  alr_deduped :: bool
  alr_delivery :: "alert_delivery list"
  alr_dedupe_key :: string
  alr_created_at :: string

record alert_world =
  alw_alerts :: "alert_row list"
  alw_audit :: audit_table
  alw_kv :: "string ApiAuth.kv"
  alw_pages :: "AdminAlertInput list" \<comment> \<open>requests to \<^verbatim>\<open>ALERT_WEBHOOK\<close>\<close>

record alert_platform =
  alp_crypto :: platform
  alp_json :: "(string \<times> string) list \<Rightarrow> string" \<comment> \<open>\<^verbatim>\<open>JSON.stringify\<close> of an object of texts\<close>

text \<open>One call: clock, fresh id, configuration, the webhook's answer and which accesses fail; \<open>alc_others\<close> is what concurrent
  writers do to the audit table between the tip read and the insert.\<close>
record alert_call =
  alc_now :: int
  alc_now_iso :: string
  alc_ulid :: string
  alc_has_kv :: bool
  alc_webhook :: bool
  alc_ttl :: "string option"
  alc_fetch :: "nat option" \<comment> \<open>status of the webhook, \<^const>\<open>None\<close> when the request throws\<close>
  alc_fails :: "string \<Rightarrow> bool"
  alc_others :: "audit_table \<Rightarrow> audit_table"

record AdminAlertResult =
  alx_id :: string
  alx_delivered :: bool
  alx_deduped :: bool
  alx_delivery :: "alert_delivery list"

section \<open>Operations\<close>

definition DEFAULT_DEDUPE_TTL :: int where
  "DEFAULT_DEDUPE_TTL = 3600"

definition hourBucket :: "int \<Rightarrow> int" where
  "hourBucket nowMs = nowMs div 3600000"

definition alert_shaHex :: "platform \<Rightarrow> string \<Rightarrow> string" where
  "alert_shaHex P s = take 32 (concat (map hex_byte (sha256 P (text_encode s))))"

definition dedupe_key :: "platform \<Rightarrow> AdminAlertInput \<Rightarrow> int \<Rightarrow> string" where
  "dedupe_key P inp nowMs = alert_shaHex P (alert_type_str (al_type inp) @ ''|'' @ al_target inp @ ''|'' @ int_to_string (hourBucket nowMs))"

definition channel :: "string \<Rightarrow> bool \<Rightarrow> nat option \<Rightarrow> alert_delivery" where
  "channel ch ok st = \<lparr> ad_channel = ch, ad_ok = ok, ad_status = st \<rparr>"

definition alert_audit :: "alert_platform \<Rightarrow> alert_call \<Rightarrow> AdminAlertInput \<Rightarrow> bool \<Rightarrow> AuditArgs" where
  "alert_audit P c inp deduped =
     \<lparr> aa_actor = ''system:admin-alert'', aa_action = ''admin.alert.sent'', aa_target = Some (al_target inp),
       aa_meta = alp_json P [(''alert_id'', alc_ulid c), (''alert_type'', alert_type_str (al_type inp)),
         (''severity'', severity_str (al_severity inp)), (''deduped'', if deduped then ''true'' else ''false'')], aa_at = alc_now c \<rparr>"

text \<open>A statement of a batch: its guard may find another tip, then it writes nothing and nothing is reported.\<close>
definition batch_insert :: "audit_insert \<Rightarrow> audit_table \<Rightarrow> audit_table" where
  "batch_insert st t = (case run_insert st t of Some u \<Rightarrow> u | None \<Rightarrow> t)"

definition alert_row_channel :: "alert_platform \<Rightarrow> alert_call \<Rightarrow> AdminAlertInput \<Rightarrow> bool \<Rightarrow> alert_world \<Rightarrow> alert_world \<times> alert_delivery" where
  "alert_row_channel P c inp deduped w =
     (if alc_fails c ''insert alert'' then (w, channel ''admin_alerts'' False None)
      else (w\<lparr>alw_alerts := alw_alerts w @ [\<lparr> alr_id = alc_ulid c, alr_input = inp, alr_deduped = deduped,
                alr_delivery = [channel ''admin_alerts'' True None], alr_dedupe_key = dedupe_key (alp_crypto P) inp (alc_now c),
                alr_created_at = alc_now_iso c \<rparr>]\<rparr>, channel ''admin_alerts'' True None))"

definition alert_audit_channel :: "alert_platform \<Rightarrow> alert_call \<Rightarrow> AdminAlertInput \<Rightarrow> bool \<Rightarrow> alert_world \<Rightarrow> alert_world \<times> alert_delivery" where
  "alert_audit_channel P c inp deduped w =
     (let t1 = alc_others c (alw_audit w) in
      if alc_fails c ''audit'' then (w\<lparr>alw_audit := t1\<rparr>, channel ''audit_log'' False None)
      else (w\<lparr>alw_audit := batch_insert (buildAuditInsert (alp_crypto P) (alw_audit w) (alert_audit P c inp deduped)) t1\<rparr>,
            channel ''audit_log'' True None))"

definition alert_page_channel :: "alert_call \<Rightarrow> AdminAlertInput \<Rightarrow> bool \<Rightarrow> alert_world \<Rightarrow> alert_world \<times> alert_delivery list" where
  "alert_page_channel c inp deduped w =
     (if deduped \<or> \<not> alc_webhook c then (w, [])
      else (w\<lparr>alw_pages := alw_pages w @ [inp]\<rparr>,
            case alc_fetch c of
              None \<Rightarrow> [channel ''webhook'' False None]
            | Some s \<Rightarrow> [channel ''webhook'' (200 \<le> s \<and> s < 300) (Some s)]))"

definition set_delivery :: "alert_call \<Rightarrow> alert_delivery list \<Rightarrow> alert_world \<Rightarrow> alert_world" where
  "set_delivery c ds w =
     (if alc_fails c ''update alert'' then w
      else w\<lparr>alw_alerts := map (\<lambda>r. if alr_id r = alc_ulid c then r\<lparr>alr_delivery := ds\<rparr> else r) (alw_alerts w)\<rparr>)"

text \<open>The \<^verbatim>\<open>KV\<close> accesses are outside every \<^verbatim>\<open>try\<close>.\<close>
definition sendAlert :: "alert_platform \<Rightarrow> alert_call \<Rightarrow> AdminAlertInput \<Rightarrow> alert_world \<Rightarrow> alert_world \<times> (string + AdminAlertResult)" where
  "sendAlert P c inp w =
     (let key = dedupe_key (alp_crypto P) inp (alc_now c) in
      if alc_has_kv c \<and> alc_fails c ''kv get'' then (w, Inl ''kv get'')
      else let deduped = (alc_has_kv c \<and> truthy_opt (kv_get (alc_now c) (alw_kv w) key));
               (w1, d1) = alert_row_channel P c inp deduped w;
               (w2, d2) = alert_audit_channel P c inp deduped w1;
               (w3, d3) = alert_page_channel c inp deduped w2;
               delivery = [d1, d2] @ d3;
               w4 = set_delivery c delivery w3;
               res = \<lparr> alx_id = alc_ulid c, alx_delivered = list_ex (\<lambda>d. ad_ok d \<and> ad_channel d \<noteq> ''admin_alerts'') delivery,
                       alx_deduped = deduped, alx_delivery = delivery \<rparr>
           in if \<not> deduped \<and> alc_has_kv c then
                (if alc_fails c ''kv put'' then (w4, Inl ''kv put'')
                 else (w4\<lparr>alw_kv := kv_put_ttl (alc_now c) (number_or (alc_ttl c) DEFAULT_DEDUPE_TTL) (alw_kv w4) key (alc_ulid c)\<rparr>, Inr res))
              else (w4, Inr res))"


section \<open>Paging\<close>

definition alert_run :: "alert_platform \<Rightarrow> alert_call list \<Rightarrow> AdminAlertInput \<Rightarrow> alert_world \<Rightarrow> alert_world" where
  "alert_run P cs inp w = job_runs (\<lambda>c. fst \<circ> sendAlert P c inp) cs w"

text \<open>The mark of an hour: set, and valid at least to the hour's end.\<close>
definition marked :: "alert_platform \<Rightarrow> AdminAlertInput \<Rightarrow> int \<Rightarrow> alert_world \<Rightarrow> bool" where
  "marked P inp h w = (\<exists>v e. alw_kv w (dedupe_key (alp_crypto P) inp (h * 3600000)) = Some (v, Some e) \<and> v \<noteq> [] \<and> (h + 1) * 3600000 \<le> e)"

text \<open>A call in the hour \<open>h\<close> with the store, a fresh id, and the default or a longer life of the mark.\<close>
definition hour_call :: "int \<Rightarrow> alert_call \<Rightarrow> bool" where
  "hour_call h c = (hourBucket (alc_now c) = h \<and> alc_has_kv c \<and> alc_ulid c \<noteq> [] \<and> 3600 \<le> number_or (alc_ttl c) DEFAULT_DEDUPE_TTL \<and>
     \<not> alc_fails c ''kv put'')"

lemma hour_bounds: "hourBucket t = h \<Longrightarrow> h * 3600000 \<le> t \<and> t < (h + 1) * 3600000"
proof -
  assume "hourBucket t = h"
  then have "t = h * 3600000 + t mod 3600000" by (metis div_mult_mod_eq hourBucket_def)
  moreover have "t mod 3600000 < 3600000" "0 \<le> t mod 3600000" by simp_all
  ultimately show ?thesis unfolding distrib_right mult_1 by linarith
qed

lemma dedupe_key_hour: "hourBucket t = h \<Longrightarrow> dedupe_key P inp t = dedupe_key P inp (h * 3600000)"
  by (simp add: dedupe_key_def hourBucket_def)

lemmas channel_defs = alert_row_channel_def alert_audit_channel_def alert_page_channel_def set_delivery_def

lemma sendAlert_pages:
  "alw_pages (fst (sendAlert P c inp w)) =
     (if alc_has_kv c \<and> alc_fails c ''kv get'' \<or> alc_has_kv c \<and> truthy_opt (kv_get (alc_now c) (alw_kv w) (dedupe_key (alp_crypto P) inp (alc_now c)))
         \<or> \<not> alc_webhook c
      then alw_pages w else alw_pages w @ [inp])"
  by (simp add: sendAlert_def channel_defs Let_def)

lemma sendAlert_kv:
  "alw_kv (fst (sendAlert P c inp w)) =
     (if alc_has_kv c \<and> \<not> alc_fails c ''kv get'' \<and> \<not> truthy_opt (kv_get (alc_now c) (alw_kv w) (dedupe_key (alp_crypto P) inp (alc_now c))) \<and>
         \<not> alc_fails c ''kv put''
      then kv_put_ttl (alc_now c) (number_or (alc_ttl c) DEFAULT_DEDUPE_TTL) (alw_kv w) (dedupe_key (alp_crypto P) inp (alc_now c)) (alc_ulid c)
      else alw_kv w)"
  by (simp add: sendAlert_def channel_defs Let_def)

lemma marked_hit:
  "marked P inp h w \<Longrightarrow> hour_call h c \<Longrightarrow> truthy_opt (kv_get (alc_now c) (alw_kv w) (dedupe_key (alp_crypto P) inp (alc_now c)))"
  using hour_bounds [of "alc_now c" h] dedupe_key_hour [of "alc_now c" h]
  by (auto simp: marked_def hour_call_def kv_get_def truthy_opt_def split: list.splits)

lemma marked_step:
  assumes "hour_call h c"
  shows "marked P inp h w \<Longrightarrow> marked P inp h (fst (sendAlert P c inp w)) \<and> alw_pages (fst (sendAlert P c inp w)) = alw_pages w"
    and "alw_pages (fst (sendAlert P c inp w)) \<noteq> alw_pages w \<Longrightarrow> marked P inp h (fst (sendAlert P c inp w)) \<and>
      alw_pages (fst (sendAlert P c inp w)) = alw_pages w @ [inp]"
proof -
  show "marked P inp h w \<Longrightarrow> marked P inp h (fst (sendAlert P c inp w)) \<and> alw_pages (fst (sendAlert P c inp w)) = alw_pages w"
    using marked_hit [OF _ assms] assms by (simp add: sendAlert_pages sendAlert_kv marked_def hour_call_def)
next
  assume ch: "alw_pages (fst (sendAlert P c inp w)) \<noteq> alw_pages w"
  have "h * 3600000 \<le> alc_now c" using hour_bounds assms by (auto simp: hour_call_def)
  then have "(h + 1) * 3600000 \<le> alc_now c + number_or (alc_ttl c) DEFAULT_DEDUPE_TTL * 1000"
    using assms unfolding distrib_right mult_1 by (simp add: hour_call_def)
  then show "marked P inp h (fst (sendAlert P c inp w)) \<and> alw_pages (fst (sendAlert P c inp w)) = alw_pages w @ [inp]"
    using ch assms dedupe_key_hour [of "alc_now c" h "alp_crypto P" inp]
    by (auto simp: sendAlert_pages sendAlert_kv marked_def hour_call_def kv_put_ttl_def split: if_splits)
qed

interpretation alert_job: scheduled_job "\<lambda>c. fst \<circ> sendAlert P c inp" "hour_call h" "marked P inp h" for P inp h
  by unfold_locales (simp add: marked_step(1))

lemma marked_run: "marked P inp h w \<Longrightarrow> \<forall>c \<in> set cs. hour_call h c \<Longrightarrow> alw_pages (alert_run P cs inp w) = alw_pages w"
  unfolding alert_run_def by (rule alert_job.runs_frame) (auto simp: marked_step(1) list_all_iff)

lemma alert_run_Cons: "alert_run P (c # cs) inp w = alert_run P cs inp (fst (sendAlert P c inp w))"
  by (simp add: alert_run_def)

lemma page_once:
  "\<forall>c \<in> set cs. hour_call h c \<Longrightarrow> alw_pages (alert_run P cs inp w) \<in> {alw_pages w, alw_pages w @ [inp]}"
proof (induction cs arbitrary: w)
  case (Cons c cs)
  let ?w = "fst (sendAlert P c inp w)"
  have c: "hour_call h c" "\<forall>c \<in> set cs. hour_call h c" using Cons.prems by auto
  show ?case
  proof (cases "alw_pages ?w = alw_pages w")
    case True
    then show ?thesis using Cons.IH [OF c(2), of ?w] by (simp add: alert_run_Cons)
  next
    case False
    then show ?thesis using marked_step(2) [OF c(1) False] marked_run [OF _ c(2)] by (simp add: alert_run_Cons)
  qed
qed (simp add: alert_run_def)

text \<open>An alert storm pages once: of any number of alerts of one kind for one target within an hour, whatever else fails, the
  webhook is called for at most one.\<close>
theorem alert_pages_once_an_hour:
  assumes "\<forall>c \<in> set cs. hour_call h c"
  shows "length (alw_pages (alert_run P cs inp w)) \<le> length (alw_pages w) + 1"
  using page_once [OF assms, of P inp w] by auto

text \<open>A failed page is not repeated: the mark is set after the attempt whether or not the webhook answered, so an alert whose page
  failed silences the alerts that follow it within the hour.\<close>
theorem failed_page_not_repeated:
  assumes "hour_call h c" "alc_fetch c = None" "alc_webhook c" "\<not> alc_fails c ''kv get''" "alw_kv w = Map.empty" "\<forall>c \<in> set cs. hour_call h c"
  shows "alw_pages (alert_run P (c # cs) inp w) = alw_pages w @ [inp] \<and>
    (\<exists>r. snd (sendAlert P c inp w) = Inr r \<and> channel ''webhook'' False None \<in> set (alx_delivery r))"
proof -
  have p: "alw_pages (fst (sendAlert P c inp w)) = alw_pages w @ [inp]" using assms(3-5) by (simp add: sendAlert_pages kv_get_def truthy_opt_def)
  then have "marked P inp h (fst (sendAlert P c inp w))" using marked_step(2) [OF assms(1)] by simp
  moreover have "\<exists>r. snd (sendAlert P c inp w) = Inr r \<and> channel ''webhook'' False None \<in> set (alx_delivery r)"
    using assms(1-5) by (auto simp: sendAlert_def channel_defs Let_def kv_get_def truthy_opt_def hour_call_def)
  ultimately show ?thesis using marked_run assms(6) p by (simp add: alert_run_Cons)
qed

lemma sendAlert_audit:
  assumes "alc_others c (alw_audit w) = alw_audit w"
  shows "alw_audit (fst (sendAlert P c inp w)) = alw_audit w \<or>
    (\<exists>d. alw_audit (fst (sendAlert P c inp w)) = batch_insert (buildAuditInsert (alp_crypto P) (alw_audit w) (alert_audit P c inp d)) (alw_audit w))"
  using assms by (auto simp: sendAlert_def channel_defs Let_def)

section \<open>Demonstration\<close>

definition demo_alp :: alert_platform where
  "demo_alp = \<lparr> alp_crypto = demo_platform, alp_json = (\<lambda>_. ''{}'') \<rparr>"

definition demo_alert :: AdminAlertInput where
  "demo_alert = \<lparr> al_type = Manual_alert, al_severity = Warn, al_target = ''t'', al_subject = ''s'' \<rparr>"

definition demo_alc :: "int \<Rightarrow> alert_call" where
  "demo_alc t = \<lparr> alc_now = t, alc_now_iso = ''now'', alc_ulid = ''u'', alc_has_kv = True, alc_webhook = True, alc_ttl = None,
     alc_fetch = None, alc_fails = (\<lambda>_. False), alc_others = (\<lambda>t. t) \<rparr>"

definition demo_alw :: alert_world where
  "demo_alw = \<lparr> alw_alerts = [], alw_audit = [demo_genesis], alw_kv = Map.empty, alw_pages = [] \<rparr>"

lemma demo_hour: "hour_call 0 (demo_alc 5)" "hour_call 0 (demo_alc 3599999)"
proof -
  have "js_Number [] = Some 0" by code_simp
  then show "hour_call 0 (demo_alc 5)" "hour_call 0 (demo_alc 3599999)"
    by (simp_all add: hour_call_def demo_alc_def hourBucket_def number_or_def coalesce_def DEFAULT_DEDUPE_TTL_def)
qed

lemma alert_pages_once_an_hour_witness: "length (alw_pages (alert_run demo_alp [demo_alc 5, demo_alc 3599999] demo_alert demo_alw)) \<le> 1"
  using alert_pages_once_an_hour [of "[demo_alc 5, demo_alc 3599999]" 0 demo_alp demo_alert demo_alw] demo_hour by (simp add: demo_alw_def)

lemma failed_page_not_repeated_witness: "alw_pages (alert_run demo_alp [demo_alc 5, demo_alc 3599999] demo_alert demo_alw) = [demo_alert]"
  using failed_page_not_repeated [OF demo_hour(1), of demo_alw "[demo_alc 3599999]" demo_alp demo_alert] demo_hour(2)
  by (simp add: demo_alc_def demo_alw_def)

end
