(* ===== verification/AbuseTiers.thy ===== *)
theory AbuseTiers
  imports Alerts OutConsumer
begin

text \<open>
  The cron job \<^verbatim>\<open>services/api/src/scheduled/sender-abuse-threshold.ts\<close>: complaints of the last day are added up for each sender
  address, mailbox and domain; one that passes its threshold is suppressed for a time that grows with its tier, and moves up a
  tier. The table of suppressions is the one the outbound consumer reads (\<open>Suppressions\<close>, \<open>OutConsumer\<close>); the unique index on
  it is the model's \<^const>\<open>suppression_key\<close>. Time stamps are texts that order like their instants.
\<close>

section \<open>Thresholds\<close>

datatype PrincipalType = PT_sender_address | PT_mailbox | PT_domain

record ThresholdConfig =
  tc_triggers :: "int list"
  tc_durations :: "int option list" \<comment> \<open>seconds; \<^const>\<open>None\<close> is for ever\<close>
  tc_multiplier :: int

definition BASE :: ThresholdConfig where
  "BASE = \<lparr> tc_triggers = [5, 4, 3, 2, 1],
     tc_durations = [Some (24 * 3600), Some (7 * 24 * 3600), Some (30 * 24 * 3600), Some (90 * 24 * 3600), None], tc_multiplier = 1 \<rparr>"

definition MAILBOX_CONFIG :: ThresholdConfig where
  "MAILBOX_CONFIG = \<lparr> tc_triggers = [tc_triggers BASE ! 0 * 3, tc_triggers BASE ! 1 * 3, tc_triggers BASE ! 2 * 3,
     tc_triggers BASE ! 3 * 3, tc_triggers BASE ! 4 * 3], tc_durations = tc_durations BASE, tc_multiplier = 3 \<rparr>"

definition DOMAIN_CONFIG :: ThresholdConfig where
  "DOMAIN_CONFIG = \<lparr> tc_triggers = [tc_triggers BASE ! 0 * 10, tc_triggers BASE ! 1 * 10, tc_triggers BASE ! 2 * 10,
     tc_triggers BASE ! 3 * 10, tc_triggers BASE ! 4 * 10], tc_durations = tc_durations BASE, tc_multiplier = 10 \<rparr>"

primrec configFor :: "PrincipalType \<Rightarrow> ThresholdConfig" where
  "configFor PT_mailbox = MAILBOX_CONFIG"
| "configFor PT_domain = DOMAIN_CONFIG"
| "configFor PT_sender_address = BASE"

section \<open>State\<close>

text \<open>A row of \<^verbatim>\<open>abuse_events\<close>.\<close>
record abuse_event =
  abe_id :: string
  abe_sender_address :: "string option"
  abe_mailbox_id :: "string option"
  abe_sender_id :: "string option"
  abe_domain_id :: "string option"
  abe_classification :: string
  abe_source :: string
  abe_weight :: int
  abe_reporter_address :: "string option"
  abe_reporter_org :: "string option"
  abe_original_message_id :: "string option"
  abe_caused_suppression_id :: "string option"
  abe_reported_at :: string

record ProfileRow =
  pf_lifetime_event_count :: nat
  pf_lifetime_weighted_score :: int
  pf_suppression_count :: nat
  pf_current_tier :: nat
  pf_current_tier_started_at :: "string option"
  pf_last_suppressed_at :: "string option"
  pf_last_event_at :: "string option"
  pf_created_at :: string
  pf_updated_at :: string

record tier_world =
  tw_events :: "abuse_event list"
  tw_profiles :: "PrincipalType \<times> string \<Rightarrow> ProfileRow option" \<comment> \<open>primary key: type and id\<close>
  tw_suppressions :: "SuppressionRecord list"
  tw_alerts :: alert_world

text \<open>One run: the clock, the time stamp of an instant, fresh ids, failing accesses, and what others do to the audit table.\<close>
record tier_call =
  tk_now :: int
  tk_iso :: "int \<Rightarrow> string"
  tk_ulid :: "PrincipalType \<Rightarrow> string \<Rightarrow> string"
  tk_fails :: "string \<Rightarrow> bool"
  tk_others :: "audit_table \<Rightarrow> audit_table"
  tk_alert :: alert_call

record tier_platform =
  tp_alert :: alert_platform
  tp_json :: "(string \<times> json) list \<Rightarrow> string"

record abuse_aggregate =
  ag_principal_id :: string
  ag_event_count :: nat
  ag_weighted_24h :: int
  ag_has_critical :: bool
  ag_last_event_at :: string

section \<open>Operations\<close>

primrec principalColumnFor :: "PrincipalType \<Rightarrow> abuse_event \<Rightarrow> string option" where
  "principalColumnFor PT_sender_address = abe_sender_address"
| "principalColumnFor PT_mailbox = abe_mailbox_id"
| "principalColumnFor PT_domain = abe_domain_id"

primrec principal_str :: "PrincipalType \<Rightarrow> string" where
  "principal_str PT_sender_address = ''sender_address''"
| "principal_str PT_mailbox = ''mailbox''"
| "principal_str PT_domain = ''domain''"

primrec principal_scope :: "PrincipalType \<Rightarrow> Scope" where
  "principal_scope PT_sender_address = Sender_address"
| "principal_scope PT_mailbox = Mailbox"
| "principal_scope PT_domain = Domain"

definition aggregate :: "string \<Rightarrow> abuse_event list \<Rightarrow> abuse_aggregate" where
  "aggregate i es =
     \<lparr> ag_principal_id = i, ag_event_count = length es, ag_weighted_24h = sum_list (map abe_weight es),
       ag_has_critical = list_ex (\<lambda>e. abe_classification e \<in> {''phishing_report'', ''legal_takedown''}) es,
       ag_last_event_at = foldr max (map abe_reported_at es) [] \<rparr>"

text \<open>\<^verbatim>\<open>GROUP BY\<close>: one row for each value of the column, in the order of its index.\<close>
definition aggregateRecent :: "PrincipalType \<Rightarrow> string \<Rightarrow> tier_world \<Rightarrow> abuse_aggregate list" where
  "aggregateRecent t sinceIso w =
     (let es = filter (\<lambda>e. principalColumnFor t e \<noteq> None \<and> sinceIso \<le> abe_reported_at e) (tw_events w);
          ids = sort (remdups (map (\<lambda>e. the (principalColumnFor t e)) es))
      in map (\<lambda>i. aggregate i (filter (\<lambda>e. principalColumnFor t e = Some i) es)) ids)"

definition sender_row_active :: "PrincipalType \<Rightarrow> string \<Rightarrow> string \<Rightarrow> SuppressionRecord \<Rightarrow> bool" where
  "sender_row_active t i nowIso r =
     (sr_entity_type r = Sender \<and> sr_scope r = principal_scope t \<and> sr_scope_target r = Some i \<and> sr_disabled_at r = None \<and>
      (case sr_expires_at r of None \<Rightarrow> True | Some e \<Rightarrow> nowIso < e))"

definition activeSenderSuppressionExists :: "PrincipalType \<Rightarrow> string \<Rightarrow> string \<Rightarrow> tier_world \<Rightarrow> bool" where
  "activeSenderSuppressionExists t i nowIso w = list_ex (sender_row_active t i nowIso) (tw_suppressions w)"

text \<open>\<^verbatim>\<open>replace(/^<|>$/g, '')\<close>: each bracket by itself.\<close>
definition drop_brackets :: "string \<Rightarrow> string" where
  "drop_brackets s =
     (let s1 = (if starts_with ''<'' s then tl s else s) in if ends_with ''>'' s1 then butlast s1 else s1)"

record AddressLookup =
  lk_normalized :: string
  lk_local :: "string option"
  lk_domain :: "string option"

definition fallbackNormalize :: "string \<Rightarrow> AddressLookup" where
  "fallbackNormalize addr =
     (let t = js_lower (drop_brackets (js_trim addr)) in
      case last_index_of (CHR ''@'') t of
        None \<Rightarrow> \<lparr> lk_normalized = t, lk_local = None, lk_domain = None \<rparr>
      | Some at0 \<Rightarrow>
          if at0 = 0 then \<lparr> lk_normalized = t, lk_local = None, lk_domain = None \<rparr>
          else \<lparr> lk_normalized = t, lk_local = Some (take at0 t), lk_domain = Some (drop (at0 + 1) t) \<rparr>)"

definition fresh_profile :: "string \<Rightarrow> ProfileRow" where
  "fresh_profile nowIso =
     \<lparr> pf_lifetime_event_count = 0, pf_lifetime_weighted_score = 0, pf_suppression_count = 0, pf_current_tier = 0,
       pf_current_tier_started_at = None, pf_last_suppressed_at = None, pf_last_event_at = None, pf_created_at = nowIso,
       pf_updated_at = nowIso \<rparr>"

definition loadProfile :: "PrincipalType \<Rightarrow> string \<Rightarrow> string \<Rightarrow> tier_world \<Rightarrow> ProfileRow" where
  "loadProfile t i nowIso w = (case tw_profiles w (t, i) of Some p \<Rightarrow> p | None \<Rightarrow> fresh_profile nowIso)"

text \<open>The insert's row when there is none, the update's row otherwise.\<close>
definition upsert_profile :: "abuse_aggregate \<Rightarrow> nat \<Rightarrow> string \<Rightarrow> ProfileRow option \<Rightarrow> ProfileRow" where
  "upsert_profile agg read_tier nowIso old =
     (case old of
        None \<Rightarrow>
          \<lparr> pf_lifetime_event_count = ag_event_count agg, pf_lifetime_weighted_score = ag_weighted_24h agg, pf_suppression_count = 1,
            pf_current_tier = min (read_tier + 1) 5, pf_current_tier_started_at = Some nowIso, pf_last_suppressed_at = Some nowIso,
            pf_last_event_at = Some (ag_last_event_at agg), pf_created_at = nowIso, pf_updated_at = nowIso \<rparr>
      | Some p \<Rightarrow>
          p\<lparr> pf_lifetime_event_count := pf_lifetime_event_count p + ag_event_count agg,
             pf_lifetime_weighted_score := pf_lifetime_weighted_score p + ag_weighted_24h agg,
             pf_suppression_count := pf_suppression_count p + 1, pf_current_tier := min (pf_current_tier p + 1) 5,
             pf_current_tier_started_at := Some nowIso, pf_last_suppressed_at := Some nowIso,
             pf_last_event_at := Some (ag_last_event_at agg), pf_updated_at := nowIso \<rparr>)"

definition tier_row :: "tier_call \<Rightarrow> PrincipalType \<Rightarrow> string \<Rightarrow> int option \<Rightarrow> SuppressionRecord" where
  "tier_row c t i duration =
     \<lparr> sr_id = tk_ulid c t i, sr_entity_type = Sender,
       sr_address_normalized = (if t = PT_sender_address then lk_normalized (fallbackNormalize i) else i),
       sr_scope = principal_scope t, sr_scope_target = Some i, sr_reason = Sender_abuse_threshold, sr_source = Sender_threshold_cron,
       sr_severity = Critical, sr_created_at = tk_iso c (tk_now c),
       sr_expires_at = map_option (\<lambda>d. tk_iso c (tk_now c + d * 1000)) duration, sr_disabled_at = None \<rparr>"

definition tier_audit :: "tier_platform \<Rightarrow> tier_call \<Rightarrow> PrincipalType \<Rightarrow> string \<Rightarrow> string \<Rightarrow> (string \<times> json) list \<Rightarrow> AuditArgs" where
  "tier_audit P c t i action meta =
     \<lparr> aa_actor = ''system:sender-abuse-threshold'', aa_action = action, aa_target = Some (principal_str t @ '':'' @ i),
       aa_meta = tp_json P meta, aa_at = tk_now c \<rparr>"

definition tier_alert :: "PrincipalType \<Rightarrow> string \<Rightarrow> bool \<Rightarrow> AdminAlertInput" where
  "tier_alert t i hasCritical =
     \<lparr> al_type = (if hasCritical then Phishing_report_received else Sender_threshold_breached), al_severity = Critical,
       al_target = principal_str t @ '':'' @ i,
       al_subject = ''[POLARIS][CRITICAL] sender suppressed: '' @
         (if t = PT_sender_address then ''sender '' else if t = PT_mailbox then ''mailbox '' else ''domain '') @ i \<rparr>"

text \<open>The batch is one transaction. Both audit statements were built before it ran.\<close>
definition fire_batch ::
  "tier_platform \<Rightarrow> tier_call \<Rightarrow> PrincipalType \<Rightarrow> string \<Rightarrow> abuse_aggregate \<Rightarrow> ProfileRow \<Rightarrow> tier_world \<Rightarrow> tier_world" where
  "fire_batch P c t i agg profile w =
     (let nowIso = tk_iso c (tk_now c);
          tier = min (pf_current_tier profile) 5;
          duration = tc_durations (configFor t) ! tier;
          crypto = alp_crypto (tp_alert P);
          a1 = buildAuditInsert crypto (alw_audit (tw_alerts w)) (tier_audit P c t i ''sender_abuse_profile.tier_advance''
                 [(''from_tier'', JNum (of_nat (pf_current_tier profile))), (''to_tier'', JNum (of_nat (min (pf_current_tier profile + 1) 5))),
                  (''weighted_24h'', JNum (of_int (ag_weighted_24h agg))), (''threshold'', JNum (of_int (tc_triggers (configFor t) ! tier))),
                  (''bypass'', JBool (ag_has_critical agg))]);
          a2 = buildAuditInsert crypto (alw_audit (tw_alerts w)) (tier_audit P c t i ''sender.suppress_auto''
                 [(''suppression_id'', JStr (tk_ulid c t i)), (''tier_fired_from'', JNum (of_nat (pf_current_tier profile))),
                  (''duration_seconds'', case duration of None \<Rightarrow> JNull | Some d \<Rightarrow> JNum (of_int d)),
                  (''expires_at'', case sr_expires_at (tier_row c t i duration) of None \<Rightarrow> JNull | Some e \<Rightarrow> JStr e),
                  (''weighted_24h'', JNum (of_int (ag_weighted_24h agg))), (''event_count'', JNum (of_nat (ag_event_count agg))),
                  (''has_critical'', JBool (ag_has_critical agg))])
      in w\<lparr> tw_suppressions := fst (insert_or_ignore suppression_key (tier_row c t i duration) (tw_suppressions w)),
            tw_profiles := (tw_profiles w)((t, i) \<mapsto> upsert_profile agg (pf_current_tier profile) nowIso (tw_profiles w (t, i))),
            tw_alerts := (tw_alerts w)\<lparr>alw_audit := batch_insert a2 (batch_insert a1 (tk_others c (alw_audit (tw_alerts w))))\<rparr> \<rparr>)"

text \<open>Whether it fired, and why not; an exception ends the run. A failing alert is ignored.\<close>
definition fireOne ::
  "tier_platform \<Rightarrow> tier_call \<Rightarrow> PrincipalType \<Rightarrow> string \<Rightarrow> abuse_aggregate \<Rightarrow> tier_world \<Rightarrow> tier_world \<times> (string + bool \<times> string)" where
  "fireOne P c t i agg w =
     (let nowIso = tk_iso c (tk_now c) in
      if tk_fails c ''select suppression'' then (w, Inl ''select suppression'')
      else if activeSenderSuppressionExists t i nowIso w then (w, Inr (False, ''already_suppressed''))
      else if tk_fails c ''select profile'' then (w, Inl ''select profile'')
      else let profile = loadProfile t i nowIso w; tier = min (pf_current_tier profile) 5 in
        if tier \<ge> 5 then (w, Inr (False, ''tier_5_permanent_already''))
        else let trigger = tc_triggers (configFor t) ! tier in
          if \<not> ag_has_critical agg \<and> ag_weighted_24h agg < trigger then
            (w, Inr (False, ''under_threshold ('' @ int_to_string (ag_weighted_24h agg) @ '' < '' @ int_to_string trigger @ '')''))
          else if tk_fails c ''batch'' then (w, Inl ''batch'')
          else let w1 = fire_batch P c t i agg profile w in
            (w1\<lparr>tw_alerts := fst (sendAlert (tp_alert P) (tk_alert c) (tier_alert t i (ag_has_critical agg)) (tw_alerts w1))\<rparr>,
             Inr (True, ''suppressed'')))"

record tier_detail =
  td_principal_type :: PrincipalType
  td_principal_id :: string
  td_fired :: bool
  td_reason :: string

fun fire_all :: "tier_platform \<Rightarrow> tier_call \<Rightarrow> PrincipalType \<Rightarrow> abuse_aggregate list \<Rightarrow> tier_world \<Rightarrow> tier_world \<times> (string + tier_detail list)" where
  "fire_all P c t [] w = (w, Inr [])"
| "fire_all P c t (a # as) w =
     (if ag_principal_id a = [] then fire_all P c t as w
      else case fireOne P c t (ag_principal_id a) a w of
        (w1, Inl e) \<Rightarrow> (w1, Inl e)
      | (w1, Inr (hit, reason)) \<Rightarrow>
          (case fire_all P c t as w1 of
             (w2, Inl e) \<Rightarrow> (w2, Inl e)
           | (w2, Inr ds) \<Rightarrow> (w2, Inr (\<lparr> td_principal_type = t, td_principal_id = ag_principal_id a, td_fired = hit, td_reason = reason \<rparr> # ds))))"

definition DAY_MS :: int where
  "DAY_MS = 24 * 3600000"

fun fire_types :: "tier_platform \<Rightarrow> tier_call \<Rightarrow> PrincipalType list \<Rightarrow> tier_world \<Rightarrow> tier_world \<times> (string + nat \<times> tier_detail list)" where
  "fire_types P c [] w = (w, Inr (0, []))"
| "fire_types P c (t # ts) w =
     (if tk_fails c ''select events'' then (w, Inl ''select events'')
      else let aggs = aggregateRecent t (tk_iso c (tk_now c - DAY_MS)) w in
        case fire_all P c t aggs w of
          (w1, Inl e) \<Rightarrow> (w1, Inl e)
        | (w1, Inr ds) \<Rightarrow>
            (case fire_types P c ts w1 of
               (w2, Inl e) \<Rightarrow> (w2, Inl e)
             | (w2, Inr (n, ds')) \<Rightarrow> (w2, Inr (length aggs + n, ds @ ds'))))"

text \<open>Number of candidates, number fired, details.\<close>
definition senderAbuseThresholdRun :: "tier_platform \<Rightarrow> tier_call \<Rightarrow> tier_world \<Rightarrow> tier_world \<times> (string + nat \<times> nat \<times> tier_detail list)" where
  "senderAbuseThresholdRun P c w =
     (case fire_types P c [PT_sender_address, PT_mailbox, PT_domain] w of
        (w1, Inl e) \<Rightarrow> (w1, Inl e)
      | (w1, Inr (n, ds)) \<Rightarrow> (w1, Inr (n, length (filter td_fired ds), ds)))"


section \<open>When a principal is suppressed\<close>

definition breaches :: "PrincipalType \<Rightarrow> abuse_aggregate \<Rightarrow> nat \<Rightarrow> bool" where
  "breaches t agg tier = (ag_has_critical agg \<or> tc_triggers (configFor t) ! tier \<le> ag_weighted_24h agg)"

definition tier_of :: "PrincipalType \<Rightarrow> string \<Rightarrow> tier_world \<Rightarrow> nat" where
  "tier_of t i w = (case tw_profiles w (t, i) of Some p \<Rightarrow> pf_current_tier p | None \<Rightarrow> 0)"

definition would_fire :: "tier_call \<Rightarrow> PrincipalType \<Rightarrow> string \<Rightarrow> abuse_aggregate \<Rightarrow> tier_world \<Rightarrow> bool" where
  "would_fire c t i agg w = (\<not> activeSenderSuppressionExists t i (tk_iso c (tk_now c)) w \<and> tier_of t i w < 5 \<and> breaches t agg (tier_of t i w))"

lemma tier_loaded: "pf_current_tier (loadProfile t i now w) = tier_of t i w"
  by (simp add: loadProfile_def tier_of_def fresh_profile_def split: option.splits)

lemma tier_upsert: "pf_current_tier (upsert_profile agg (tier_of t i w) now (tw_profiles w (t, i))) = min (tier_of t i w + 1) 5"
  by (simp add: upsert_profile_def tier_of_def split: option.splits)

lemma fireOne_cases:
  assumes "fireOne P c t i agg w = (w', res)"
  obtains (failed) e where "w' = w" "res = Inl e"
  | (quiet) reason where "w' = w" "res = Inr (False, reason)" "\<not> would_fire c t i agg w"
  | (hit) "would_fire c t i agg w" "res = Inr (True, ''suppressed'')"
      "tw_suppressions w' = fst (insert_or_ignore suppression_key (tier_row c t i (tc_durations (configFor t) ! tier_of t i w)) (tw_suppressions w))"
      "tw_profiles w' = (tw_profiles w)((t, i) \<mapsto> upsert_profile agg (tier_of t i w) (tk_iso c (tk_now c)) (tw_profiles w (t, i)))"
      "tw_events w' = tw_events w"
proof (cases "tk_fails c ''select suppression'' \<or> \<not> activeSenderSuppressionExists t i (tk_iso c (tk_now c)) w \<and> tk_fails c ''select profile''")
  case True
  then show thesis using assms that(1) by (auto simp: fireOne_def Let_def split: if_splits)
next
  case f: False
  show thesis
  proof (cases "would_fire c t i agg w")
    case False
    then show thesis
      using assms f that(2) by (auto simp: fireOne_def Let_def tier_loaded would_fire_def breaches_def split: if_splits)
  next
    case True
    then have g: "\<not> activeSenderSuppressionExists t i (tk_iso c (tk_now c)) w" "tier_of t i w < 5"
        "\<not> (\<not> ag_has_critical agg \<and> ag_weighted_24h agg < tc_triggers (configFor t) ! tier_of t i w)"
      by (auto simp: would_fire_def breaches_def)
    have m: "min (tier_of t i w) 5 = tier_of t i w" using g(2) by simp
    show thesis
    proof (cases "tk_fails c ''batch''")
      case True
      then show thesis using assms f g m that(1) by (auto simp: fireOne_def Let_def tier_loaded)
    next
      case False
      have g3: "(\<not> ag_has_critical agg \<and> ag_weighted_24h agg < tc_triggers (configFor t) ! tier_of t i w) = False" using g(3) by simp
      let ?w1 = "fire_batch P c t i agg (loadProfile t i (tk_iso c (tk_now c)) w) w"
      have e: "fireOne P c t i agg w = (?w1\<lparr>tw_alerts := fst (sendAlert (tp_alert P) (tk_alert c) (tier_alert t i (ag_has_critical agg)) (tw_alerts ?w1))\<rparr>,
          Inr (True, ''suppressed''))"
        using f g(1,2) False by (simp add: fireOne_def Let_def tier_loaded m g3 not_le)
      have w': "w' = ?w1\<lparr>tw_alerts := fst (sendAlert (tp_alert P) (tk_alert c) (tier_alert t i (ag_has_critical agg)) (tw_alerts ?w1))\<rparr>"
          "res = Inr (True, ''suppressed'')" using assms e by simp_all
      show thesis by (rule that(3) [OF True w'(2)]) (simp_all add: w'(1) fire_batch_def Let_def tier_loaded m)
    qed
  qed
qed

text \<open>Every row of the table that is not disabled also has not expired.\<close>
definition no_stale :: "string \<Rightarrow> tier_world \<Rightarrow> bool" where
  "no_stale nowIso w = list_all (\<lambda>r. sr_disabled_at r = None \<longrightarrow> (case sr_expires_at r of None \<Rightarrow> True | Some e \<Rightarrow> nowIso < e)) (tw_suppressions w)"

definition clock_ok :: "tier_call \<Rightarrow> bool" where
  "clock_ok c = (\<forall>d > 0. tk_iso c (tk_now c) < tk_iso c (tk_now c + d * 1000))"

lemma durations_pos: "tier < 5 \<Longrightarrow> tc_durations (configFor t) ! tier = Some d \<Longrightarrow> d > 0"
  by (cases t) (auto simp: less_Suc_eq numeral_eq_Suc MAILBOX_CONFIG_def DOMAIN_CONFIG_def BASE_def)

lemma active_mono:
  "activeSenderSuppressionExists t i now w \<Longrightarrow> tw_suppressions w' = fst (insert_or_ignore k r (tw_suppressions w)) \<Longrightarrow>
     activeSenderSuppressionExists t i now w'"
  using insert_or_ignore_mono by (fastforce simp: activeSenderSuppressionExists_def list_ex_iff)

lemma tier_row_active:
  assumes "clock_ok c" "tier < 5"
  shows "sender_row_active t i (tk_iso c (tk_now c)) (tier_row c t i (tc_durations (configFor t) ! tier))"
  using assms durations_pos [OF assms(2)] by (auto simp: sender_row_active_def tier_row_def clock_ok_def split: option.splits)

lemma fired_is_active:
  assumes "fireOne P c t i agg w = (w', Inr (True, reason))" "clock_ok c" "no_stale (tk_iso c (tk_now c)) w" "i \<noteq> []"
  shows "activeSenderSuppressionExists t i (tk_iso c (tk_now c)) w' \<and> no_stale (tk_iso c (tk_now c)) w'"
  using assms(1)
proof (cases rule: fireOne_cases)
  case hit
  let ?r = "tier_row c t i (tc_durations (configFor t) ! tier_of t i w)"
  have a: "sender_row_active t i (tk_iso c (tk_now c)) ?r" using hit(1) assms(2) by (intro tier_row_active) (auto simp: would_fire_def)
  show ?thesis
  proof (cases "suppression_key ?r \<in> set (map suppression_key (tw_suppressions w))")
    case True
    then obtain x where x: "x \<in> set (tw_suppressions w)" "suppression_key x = suppression_key ?r" by auto
    then have "sender_row_active t i (tk_iso c (tk_now c)) x"
      using assms(3,4) by (auto simp: sender_row_active_def suppression_key_def tier_row_def no_stale_def list_all_iff coalesce_def split: if_splits option.splits)
    then have False using hit(1) x(1) by (auto simp: would_fire_def activeSenderSuppressionExists_def list_ex_iff)
    then show ?thesis ..
  next
    case False
    then have "tw_suppressions w' = tw_suppressions w @ [?r]" using hit(3) by (simp add: insert_or_ignore_def)
    then show ?thesis using a assms(3) by (simp add: activeSenderSuppressionExists_def no_stale_def sender_row_active_def)
  qed
qed simp_all


section \<open>Running again\<close>

lemma settled_kept:
  assumes "fireOne P c u j agg' w = (w', res)" "\<not> would_fire c t i agg w" "clock_ok c" "no_stale (tk_iso c (tk_now c)) w" "j \<noteq> []"
  shows "\<not> would_fire c t i agg w'"
  using assms(1)
proof (cases rule: fireOne_cases)
  case hit
  show ?thesis
  proof (cases "(u, j) = (t, i)")
    case True
    then have "activeSenderSuppressionExists t i (tk_iso c (tk_now c)) w'"
      using fired_is_active [OF assms(1) [unfolded hit(2)] assms(3,4,5)] by simp
    then show ?thesis by (simp add: would_fire_def)
  next
    case False
    then have "tier_of t i w' = tier_of t i w" using hit(4) by (auto simp: tier_of_def)
    then show ?thesis using assms(2) active_mono [OF _ hit(3)] by (auto simp: would_fire_def)
  qed
qed (use assms(2) in simp_all)

lemma fireOne_settles:
  assumes "fireOne P c t i agg w = (w', Inr res)" "clock_ok c" "no_stale (tk_iso c (tk_now c)) w" "i \<noteq> []"
  shows "\<not> would_fire c t i agg w' \<and> no_stale (tk_iso c (tk_now c)) w' \<and> tw_events w' = tw_events w"
  using assms(1)
proof (cases rule: fireOne_cases)
  case hit
  have a: "activeSenderSuppressionExists t i (tk_iso c (tk_now c)) w' \<and> no_stale (tk_iso c (tk_now c)) w'"
    using fired_is_active [OF _ assms(2-4)] assms(1) hit(2) by blast
  then show ?thesis using hit(5) by (auto simp: would_fire_def)
qed (use assms(3) in simp_all)

lemma fire_all_settles:
  assumes "fire_all P c t as w = (w', Inr ds)" "clock_ok c" "no_stale (tk_iso c (tk_now c)) w"
  shows "no_stale (tk_iso c (tk_now c)) w' \<and> tw_events w' = tw_events w \<and>
    (\<forall>a \<in> set as. ag_principal_id a \<noteq> [] \<longrightarrow> \<not> would_fire c t (ag_principal_id a) a w') \<and>
    (\<forall>u i agg. \<not> would_fire c u i agg w \<longrightarrow> \<not> would_fire c u i agg w')"
  using assms(1,3)
proof (induction as arbitrary: w ds)
  case (Cons a as)
  show ?case
  proof (cases "ag_principal_id a = []")
    case True
    then show ?thesis using Cons by auto
  next
    case False
    obtain w1 res where r: "fireOne P c t (ag_principal_id a) a w = (w1, Inr res)"
      using Cons.prems(1) False by (cases "fireOne P c t (ag_principal_id a) a w"; cases "snd (fireOne P c t (ag_principal_id a) a w)") auto
    then obtain ds' where ds': "fire_all P c t as w1 = (w', Inr ds')"
      using Cons.prems(1) False by (cases res) (auto split: prod.splits sum.splits)
    note s = fireOne_settles [OF r assms(2) Cons.prems(2) False]
    show ?thesis
      using Cons.IH [OF ds'] s settled_kept [OF r _ assms(2) Cons.prems(2) False] by auto
  qed
qed simp

lemma fire_types_settles:
  assumes "fire_types P c ts w = (w', Inr res)" "clock_ok c" "no_stale (tk_iso c (tk_now c)) w"
  shows "no_stale (tk_iso c (tk_now c)) w' \<and> tw_events w' = tw_events w \<and>
    (\<forall>t \<in> set ts. \<forall>a \<in> set (aggregateRecent t (tk_iso c (tk_now c - DAY_MS)) w). ag_principal_id a \<noteq> [] \<longrightarrow> \<not> would_fire c t (ag_principal_id a) a w') \<and>
    (\<forall>u i agg. \<not> would_fire c u i agg w \<longrightarrow> \<not> would_fire c u i agg w')"
  using assms(1,3)
proof (induction ts arbitrary: w res)
  case (Cons t ts)
  let ?as = "aggregateRecent t (tk_iso c (tk_now c - DAY_MS)) w"
  obtain w1 ds where r: "fire_all P c t ?as w = (w1, Inr ds)"
    using Cons.prems(1) by (auto simp: Let_def split: prod.splits sum.splits if_splits)
  then obtain res' where r': "fire_types P c ts w1 = (w', Inr res')"
    using Cons.prems(1) by (auto simp: Let_def split: prod.splits sum.splits if_splits)
  note s = fire_all_settles [OF r assms(2) Cons.prems(2)]
  have same: "aggregateRecent u k w1 = aggregateRecent u k w" for u k using s by (simp add: aggregateRecent_def)
  show ?case using Cons.IH [OF r'] s same by auto
qed simp

lemma fire_all_quiet:
  assumes "\<forall>a \<in> set as. ag_principal_id a \<noteq> [] \<longrightarrow> \<not> would_fire c t (ag_principal_id a) a w"
  shows "fst (fire_all P c t as w) = w \<and> (\<forall>ds. snd (fire_all P c t as w) = Inr ds \<longrightarrow> filter td_fired ds = [])"
  using assms
proof (induction as)
  case (Cons a as)
  show ?case
  proof (cases "ag_principal_id a = []")
    case False
    obtain w1 res where r: "fireOne P c t (ag_principal_id a) a w = (w1, res)" by fastforce
    then have "w1 = w \<and> (\<exists>e. res = Inl e) \<or> w1 = w \<and> (\<exists>x. res = Inr (False, x))"
      by (cases rule: fireOne_cases) (use Cons.prems False in auto)
    then show ?thesis using Cons r False by (auto split: prod.splits sum.splits)
  qed (use Cons in auto)
qed simp

lemma fire_types_quiet:
  assumes "\<forall>t \<in> set ts. \<forall>a \<in> set (aggregateRecent t (tk_iso c (tk_now c - DAY_MS)) w). ag_principal_id a \<noteq> [] \<longrightarrow> \<not> would_fire c t (ag_principal_id a) a w"
  shows "fst (fire_types P c ts w) = w \<and> (\<forall>n ds. snd (fire_types P c ts w) = Inr (n, ds) \<longrightarrow> filter td_fired ds = [])"
  using assms
proof (induction ts)
  case (Cons t ts)
  let ?as = "aggregateRecent t (tk_iso c (tk_now c - DAY_MS)) w"
  obtain res where r: "fire_all P c t ?as w = (w, res)" "\<And>ds. res = Inr ds \<Longrightarrow> filter td_fired ds = []"
    using fire_all_quiet [of ?as c t w P] Cons.prems by (cases "fire_all P c t ?as w") auto
  obtain res' where r': "fire_types P c ts w = (w, res')" "\<And>n ds. res' = Inr (n, ds) \<Longrightarrow> filter td_fired ds = []"
    using Cons.IH Cons.prems by (cases "fire_types P c ts w") auto
  show ?case using r r' by (cases res; cases res') (auto simp: Let_def split: prod.splits)
qed simp

section \<open>Properties\<close>

text \<open>The job is idempotent while no suppression has run out: a second run at the same moment suppresses nobody, changes no
  profile and writes no alert.\<close>
theorem threshold_rerun_is_noop:
  assumes "senderAbuseThresholdRun P c w = (w', Inr res)" "clock_ok c" "no_stale (tk_iso c (tk_now c)) w"
  shows "fst (senderAbuseThresholdRun P c w') = w' \<and> (\<forall>n k ds. snd (senderAbuseThresholdRun P c w') = Inr (n, k, ds) \<longrightarrow> k = 0)"
proof -
  obtain n ds where r: "fire_types P c [PT_sender_address, PT_mailbox, PT_domain] w = (w', Inr (n, ds))"
    using assms(1) by (auto simp: senderAbuseThresholdRun_def split: prod.splits sum.splits)
  note s = fire_types_settles [OF r assms(2,3)]
  then have "aggregateRecent u k w' = aggregateRecent u k w" for u k by (simp add: aggregateRecent_def)
  then have "fst (fire_types P c [PT_sender_address, PT_mailbox, PT_domain] w') = w' \<and>
      (\<forall>n ds. snd (fire_types P c [PT_sender_address, PT_mailbox, PT_domain] w') = Inr (n, ds) \<longrightarrow> filter td_fired ds = [])"
    using s by (intro fire_types_quiet) simp
  then show ?thesis by (auto simp: senderAbuseThresholdRun_def split: prod.splits sum.splits)
qed


lemma fireOne_tier:
  assumes "fireOne P c t i agg w = (w', res)"
  shows "tier_of t i w' \<in> {tier_of t i w, min (tier_of t i w + 1) 5}" "(u, j) \<noteq> (t, i) \<Longrightarrow> tier_of u j w' = tier_of u j w"
    and "unique_by suppression_key (tw_suppressions w) \<Longrightarrow> unique_by suppression_key (tw_suppressions w')" "tw_events w' = tw_events w"
proof -
  have "tier_of t i w' \<in> {tier_of t i w, min (tier_of t i w + 1) 5} \<and> ((u, j) \<noteq> (t, i) \<longrightarrow> tier_of u j w' = tier_of u j w) \<and>
    (unique_by suppression_key (tw_suppressions w) \<longrightarrow> unique_by suppression_key (tw_suppressions w')) \<and> tw_events w' = tw_events w"
    using assms
  proof (cases rule: fireOne_cases)
    case hit
    have "tier_of t i w' = min (tier_of t i w + 1) 5" using tier_upsert [of agg t i w] hit(4) by (simp add: tier_of_def)
    then show ?thesis using hit(3,4,5) by (auto simp: tier_of_def insert_or_ignore_unique)
  qed simp_all
  then show "tier_of t i w' \<in> {tier_of t i w, min (tier_of t i w + 1) 5}" "(u, j) \<noteq> (t, i) \<Longrightarrow> tier_of u j w' = tier_of u j w"
    and "unique_by suppression_key (tw_suppressions w) \<Longrightarrow> unique_by suppression_key (tw_suppressions w')" "tw_events w' = tw_events w" by auto
qed

lemma fire_all_tier:
  fixes P c t w
  assumes "distinct (map ag_principal_id as)"
  defines "w' \<equiv> fst (fire_all P c t as w)"
  shows "tier_of t i w' \<in> {tier_of t i w, min (tier_of t i w + 1) 5} \<and> (i \<notin> set (map ag_principal_id as) \<longrightarrow> tier_of t i w' = tier_of t i w) \<and>
    (u \<noteq> t \<longrightarrow> tier_of u i w' = tier_of u i w) \<and>
    (unique_by suppression_key (tw_suppressions w) \<longrightarrow> unique_by suppression_key (tw_suppressions w')) \<and> tw_events w' = tw_events w"
  using assms(1) unfolding w'_def
proof (induction as arbitrary: w)
  case (Cons a as)
  show ?case
  proof (cases "ag_principal_id a = []")
    case True
    then show ?thesis using Cons by auto
  next
    case False
    obtain w1 res where r: "fireOne P c t (ag_principal_id a) a w = (w1, res)" by fastforce
    have f: "fst (fire_all P c t (a # as) w) = (case res of Inl e \<Rightarrow> w1 | Inr _ \<Rightarrow> fst (fire_all P c t as w1))"
      using r False by (cases res) (auto split: prod.splits sum.splits)
    note s = fireOne_tier [OF r]
    show ?thesis
    proof (cases res)
      case (Inl e)
      then show ?thesis unfolding f using s by (cases "i = ag_principal_id a") auto
    next
      case (Inr x)
      have "distinct (map ag_principal_id as)" "ag_principal_id a \<notin> set (map ag_principal_id as)" using Cons.prems by auto
      then show ?thesis unfolding f Inr using s Cons.IH [of w1] by (cases "i = ag_principal_id a") auto
    qed
  qed
qed simp

lemma aggregate_ids: "map ag_principal_id (aggregateRecent t k w) =
    sort (remdups (map (\<lambda>e. the (principalColumnFor t e)) (filter (\<lambda>e. principalColumnFor t e \<noteq> None \<and> k \<le> abe_reported_at e) (tw_events w))))"
  by (simp add: aggregateRecent_def Let_def aggregate_def o_def)

lemma fire_types_tier:
  fixes P c w
  assumes "distinct ts"
  defines "w' \<equiv> fst (fire_types P c ts w)"
  shows "tier_of t i w' \<in> {tier_of t i w, min (tier_of t i w + 1) 5} \<and> (t \<notin> set ts \<longrightarrow> tier_of t i w' = tier_of t i w) \<and>
    (unique_by suppression_key (tw_suppressions w) \<longrightarrow> unique_by suppression_key (tw_suppressions w'))"
  using assms(1) unfolding w'_def
proof (induction ts arbitrary: w)
  case (Cons u ts)
  let ?as = "aggregateRecent u (tk_iso c (tk_now c - DAY_MS)) w"
  obtain w1 res where r: "fire_all P c u ?as w = (w1, res)" by fastforce
  have f: "fst (fire_types P c (u # ts) w) = (if tk_fails c ''select events'' then w else case res of Inl e \<Rightarrow> w1 | Inr _ \<Rightarrow> fst (fire_types P c ts w1))"
    using r by (cases res) (auto simp: Let_def split: prod.splits sum.splits)
  have s: "tier_of u i w1 \<in> {tier_of u i w, min (tier_of u i w + 1) 5}" "t \<noteq> u \<Longrightarrow> tier_of t i w1 = tier_of t i w"
    "unique_by suppression_key (tw_suppressions w) \<Longrightarrow> unique_by suppression_key (tw_suppressions w1)"
    using fire_all_tier [of ?as u i P c w t] r by (auto simp: aggregate_ids)
  show ?case unfolding f using s Cons.IH [of w1] Cons.prems by (cases "t = u"; cases res) auto
qed simp

lemma run_tier:
  "tier_of t i (fst (senderAbuseThresholdRun P c w)) \<in> {tier_of t i w, min (tier_of t i w + 1) 5} \<and>
   (unique_by suppression_key (tw_suppressions w) \<longrightarrow> unique_by suppression_key (tw_suppressions (fst (senderAbuseThresholdRun P c w))))"
proof -
  have "fst (senderAbuseThresholdRun P c w) = fst (fire_types P c [PT_sender_address, PT_mailbox, PT_domain] w)"
    by (simp add: senderAbuseThresholdRun_def split: prod.splits sum.splits)
  then show ?thesis using fire_types_tier [of "[PT_sender_address, PT_mailbox, PT_domain]" t i] by simp
qed

text \<open>Tiers move one step at a time: a run of the job, also one that breaks off, leaves every principal's tier as it is or raises
  it by one, never above five and never back down, and it keeps the suppressions unique.\<close>
theorem tier_moves_one_step:
  "tier_of t i (fst (senderAbuseThresholdRun P c w)) \<in> {tier_of t i w, min (tier_of t i w + 1) 5} \<and>
   (unique_by suppression_key (tw_suppressions w) \<longrightarrow> unique_by suppression_key (tw_suppressions (fst (senderAbuseThresholdRun P c w))))"
  by (rule run_tier)

text \<open>A principal that breaches its threshold gets exactly the suppression of its tier: when no row for it stands in the way, the
  job adds a row that is active now and ends after the tier's duration, never for the last tier, and moves the tier up.\<close>
theorem breach_is_suppressed:
  assumes "would_fire c t i agg w" "clock_ok c" "\<not> tk_fails c ''select suppression''" "\<not> tk_fails c ''select profile''" "\<not> tk_fails c ''batch''"
    and "suppression_key (tier_row c t i None) \<notin> set (map suppression_key (tw_suppressions w))"
  shows "\<exists>r. tw_suppressions (fst (fireOne P c t i agg w)) = tw_suppressions w @ [r] \<and> sender_row_active t i (tk_iso c (tk_now c)) r \<and>
    sr_expires_at r = map_option (\<lambda>d. tk_iso c (tk_now c + d * 1000)) ([Some 86400, Some 604800, Some 2592000, Some 7776000, None] ! tier_of t i w) \<and>
    tier_of t i (fst (fireOne P c t i agg w)) = tier_of t i w + 1"
proof -
  obtain w' res where r: "fireOne P c t i agg w = (w', res)" by fastforce
  have tier: "tier_of t i w < 5" using assms(1) by (simp add: would_fire_def)
  from r show ?thesis
  proof (cases rule: fireOne_cases)
    case (failed e)
    then show ?thesis
      using r assms by (auto simp: fireOne_def Let_def would_fire_def breaches_def tier_loaded split: if_splits)
  next
    case (quiet reason)
    then show ?thesis using assms(1) by simp
  next
    case hit
    let ?r = "tier_row c t i (tc_durations (configFor t) ! tier_of t i w)"
    have "suppression_key ?r = suppression_key (tier_row c t i None)" by (simp add: suppression_key_def tier_row_def)
    then have "tw_suppressions w' = tw_suppressions w @ [?r]" using hit(3) assms(6) by (simp add: insert_or_ignore_def)
    moreover have "tier_of t i w' = tier_of t i w + 1" using tier_upsert [of agg t i w] hit(4) tier by (simp add: tier_of_def)
    moreover have "tc_durations (configFor t) = [Some 86400, Some 604800, Some 2592000, Some 7776000, None]"
      by (cases t) (simp_all add: MAILBOX_CONFIG_def DOMAIN_CONFIG_def BASE_def)
    moreover have "sr_expires_at ?r = map_option (\<lambda>d. tk_iso c (tk_now c + d * 1000)) (tc_durations (configFor t) ! tier_of t i w)"
      by (simp add: tier_row_def)
    ultimately show ?thesis using tier_row_active [OF assms(2) tier, of t i] r by auto
  qed
qed


text \<open>So however often the job runs, the suppressions stay unique.\<close>
interpretation tier_job: scheduled_job "\<lambda>c. fst \<circ> senderAbuseThresholdRun P c" "\<lambda>_. True" "\<lambda>w. unique_by suppression_key (tw_suppressions w)" for P
proof
  show "unique_by suppression_key (tw_suppressions ((fst \<circ> senderAbuseThresholdRun P c) s))" if "unique_by suppression_key (tw_suppressions s)" for c s
    using that run_tier [of PT_domain "[]" P c s] by simp
qed

section \<open>Escalation without effect\<close>

text \<open>The job's visits to one principal.\<close>
definition fire_times :: "tier_platform \<Rightarrow> tier_call list \<Rightarrow> PrincipalType \<Rightarrow> string \<Rightarrow> abuse_aggregate \<Rightarrow> tier_world \<Rightarrow> tier_world" where
  "fire_times P cs t i agg w = job_runs (\<lambda>c. fst \<circ> fireOne P c t i agg) cs w"

definition healthy :: "tier_call \<Rightarrow> bool" where
  "healthy c = (\<not> tk_fails c ''select suppression'' \<and> \<not> tk_fails c ''select profile'' \<and> \<not> tk_fails c ''batch'')"

lemma breaches_up: "breaches t agg n \<Longrightarrow> n < 4 \<Longrightarrow> breaches t agg (Suc n)"
  by (cases t) (auto simp: breaches_def less_Suc_eq numeral_eq_Suc MAILBOX_CONFIG_def DOMAIN_CONFIG_def BASE_def)

lemma stale_fire:
  assumes "healthy c" "suppression_key (tier_row c t i None) \<in> set (map suppression_key (tw_suppressions w))"
    and "\<not> activeSenderSuppressionExists t i (tk_iso c (tk_now c)) w" "tier_of t i w < 5" "breaches t agg (tier_of t i w)"
  shows "tw_suppressions (fst (fireOne P c t i agg w)) = tw_suppressions w \<and> tier_of t i (fst (fireOne P c t i agg w)) = tier_of t i w + 1"
proof -
  obtain w' res where r: "fireOne P c t i agg w = (w', res)" by fastforce
  from r have "tw_suppressions w' = tw_suppressions w \<and> tier_of t i w' = tier_of t i w + 1"
  proof (cases rule: fireOne_cases)
    case (failed e)
    then show ?thesis using r assms by (auto simp: fireOne_def Let_def breaches_def healthy_def tier_loaded split: if_splits)
  next
    case (quiet reason)
    then show ?thesis using assms by (simp add: would_fire_def)
  next
    case hit
    have k: "suppression_key (tier_row c t i (tc_durations (configFor t) ! tier_of t i w)) = suppression_key (tier_row c t i None)"
      by (simp add: suppression_key_def tier_row_def)
    have "suppression_key (tier_row c t i None) \<noteq> None" by (simp add: suppression_key_def tier_row_def)
    then have "tw_suppressions w' = tw_suppressions w" using hit(3) assms(2) by (simp add: insert_or_ignore_def k)
    moreover have "tier_of t i w' = tier_of t i w + 1" using hit(4) assms(4) tier_upsert [of agg t i w] by (simp add: tier_of_def)
    ultimately show ?thesis ..
  qed
  then show ?thesis using r by simp
qed

lemma top_tier_quiet:
  "tier_of t i w \<ge> 5 \<Longrightarrow> fst (fireOne P c t i agg w) = w"
  by (auto simp: fireOne_def Let_def tier_loaded split: if_splits)

lemma row_key: "suppression_key (tier_row c t i d) = suppression_key (tier_row c' t i d')"
  by (simp add: suppression_key_def tier_row_def)

interpretation any_job: scheduled_job "\<lambda>c. fst \<circ> fireOne P c t i agg" "\<lambda>_. True" "\<lambda>_. True" for P t i agg
  by unfold_locales simp

text \<open>C23. A suppression is never renewed. The unique index knows no expiry, so the row of a suppression that has run out still blocks the
  insert of the next one, which is silently dropped; the profile moves up a tier all the same. The next visits find no active
  suppression and fire again: within five visits the principal is at the last tier, marked as suppressed for ever, and the table
  of suppressions has not changed.\<close>
theorem expired_suppression_never_renewed:
  assumes "r \<in> set (tw_suppressions w)" "suppression_key r = suppression_key (tier_row c0 t i None)"
    and "\<forall>c \<in> set cs. healthy c \<and> \<not> activeSenderSuppressionExists t i (tk_iso c (tk_now c)) w"
    and "breaches t agg (tier_of t i w)" "tier_of t i w \<le> 5" "5 \<le> tier_of t i w + length cs"
  shows "tw_suppressions (fire_times P cs t i agg w) = tw_suppressions w \<and> tier_of t i (fire_times P cs t i agg w) = 5"
proof -
  let ?S = "\<lambda>k v. tw_suppressions v = tw_suppressions w \<and> tier_of t i v = min 5 (tier_of t i w + k) \<and> (tier_of t i v < 5 \<longrightarrow> breaches t agg (tier_of t i v))"
  have "?S (length cs) (job_runs (\<lambda>c. fst \<circ> fireOne P c t i agg) cs w)"
  proof (rule any_job.runs_indexed)
    fix k v
    assume k: "k < length cs" and v: "?S k v"
    let ?c = "cs ! k"
    have c: "healthy ?c" "\<not> activeSenderSuppressionExists t i (tk_iso ?c (tk_now ?c)) v"
      using assms(3) k v by (auto simp: activeSenderSuppressionExists_def)
    show "?S (Suc k) ((fst \<circ> fireOne P ?c t i agg) v)"
    proof (cases "tier_of t i v < 5")
      case True
      have "suppression_key (tier_row ?c t i None) \<in> set (map suppression_key (tw_suppressions v))"
        unfolding row_key [of ?c t i None c0 None] using v assms(1,2) by (metis image_eqI image_set)
      with stale_fire [OF c(1) _ c(2) True] v True
      show ?thesis using breaches_up [of t agg "tier_of t i v"] by auto
    next
      case False
      then show ?thesis using v top_tier_quiet [of t i v P ?c agg] by simp
    qed
  qed (use assms(4,5) in \<open>auto simp: list_all_iff\<close>)
  then show ?thesis using assms(5,6) by (simp add: fire_times_def)
qed

section \<open>Enforcement\<close>

lemma tier_row_no_match:
  assumes "t = PT_sender_address \<or> CHR ''@'' \<notin> set i" "CHR ''@'' \<in> set a" "ec_senderAddressId ctx = None"
  shows "\<not> suppression_match et a (senderScopeCandidates ctx) (tier_row c t i d)"
  using assms by (cases t) (auto simp: suppression_match_def tier_row_def senderScopeCandidates_def scope_candidate_def nonempty_opt_def
      list_ex_iff split: option.splits list.splits)

lemma normalized_has_at: "Suppressions.normalizeAddress h x = Some n \<Longrightarrow> CHR ''@'' \<in> set (sn_normalized n)"
  by (auto simp: Suppressions.normalizeAddress_def Let_def split: option.splits if_splits)

text \<open>C24. Automatic suppressions are never enforced. The row of a mailbox or a domain carries the principal's id where the look-up
  compares the sender's address; the row of an address has a scope the outbound consumer never asks for. So what the consumer
  finds for any message is the same before and after the job has fired.\<close>
theorem auto_suppression_never_enforced:
  assumes "fireOne P c t i agg w = (w', res)" "t = PT_sender_address \<or> CHR ''@'' \<notin> set i" "db_suppressions (ow_db ow) = tw_suppressions w"
  shows "sender_hit Q oc msg domainId (ow\<lparr>ow_db := (ow_db ow)\<lparr>db_suppressions := tw_suppressions w'\<rparr>\<rparr>) = sender_hit Q oc msg domainId ow"
proof -
  have "suppression_select Sender (sn_normalized n) (senderScopeCandidates (enforcementCtx msg domainId)) (tw_suppressions w') =
      suppression_select Sender (sn_normalized n) (senderScopeCandidates (enforcementCtx msg domainId)) (tw_suppressions w)"
    if "Suppressions.normalizeAddress h x = Some n" for h x n
    using assms(1)
  proof (cases rule: fireOne_cases)
    case hit
    have "\<not> suppression_match Sender (sn_normalized n) (senderScopeCandidates (enforcementCtx msg domainId)) (tier_row c t i d)" for d
      by (rule tier_row_no_match [OF assms(2) normalized_has_at [OF that]]) (simp add: enforcementCtx_def)
    then show ?thesis using hit(3) by (simp add: insert_or_ignore_def suppression_select_def)
  qed simp_all
  then show ?thesis using assms(3) by (auto simp: sender_hit_def checkSenderSuppression_def split: option.splits)
qed


section \<open>Demonstration\<close>

definition demo_event :: abuse_event where
  "demo_event = \<lparr> abe_id = ''e'', abe_sender_address = Some ''a@x.org'', abe_mailbox_id = None, abe_sender_id = None, abe_domain_id = None,
     abe_classification = ''phishing_report'', abe_source = ''arf_inbox'', abe_weight = 5, abe_reporter_address = None, abe_reporter_org = None,
     abe_original_message_id = None, abe_caused_suppression_id = None, abe_reported_at = ''c'' \<rparr>"

definition demo_tw :: tier_world where
  "demo_tw = \<lparr> tw_events = [demo_event], tw_profiles = Map.empty, tw_suppressions = [], tw_alerts = demo_alw \<rparr>"

definition demo_tk :: tier_call where
  "demo_tk = \<lparr> tk_now = 0, tk_iso = (\<lambda>n. if n \<le> 0 then ''b'' else ''d''), tk_ulid = (\<lambda>_ _. ''u''), tk_fails = (\<lambda>_. False), tk_others = (\<lambda>t. t),
     tk_alert = demo_alc 0 \<rparr>"

definition demo_tp :: tier_platform where
  "demo_tp = \<lparr> tp_alert = demo_alp, tp_json = (\<lambda>_. ''{}'') \<rparr>"

definition demo_agg :: abuse_aggregate where
  "demo_agg = aggregate ''a@x.org'' [demo_event]"

lemma demo_clock: "clock_ok demo_tk"
proof -
  have "''b'' < ''d''" by code_simp
  then show ?thesis by (simp add: clock_ok_def demo_tk_def)
qed

lemma demo_breach: "would_fire demo_tk PT_sender_address ''a@x.org'' demo_agg demo_tw"
  by (simp add: would_fire_def activeSenderSuppressionExists_def demo_tw_def tier_of_def breaches_def demo_agg_def aggregate_def demo_event_def)

lemma breach_is_suppressed_witness:
  "\<exists>r. tw_suppressions (fst (fireOne demo_tp demo_tk PT_sender_address ''a@x.org'' demo_agg demo_tw)) = [r] \<and> sr_expires_at r = Some ''d''"
  using breach_is_suppressed [OF demo_breach demo_clock, of demo_tp] by (auto simp: demo_tk_def demo_tw_def tier_of_def)

lemma fireOne_answers:
  "healthy c \<Longrightarrow> \<exists>x. snd (fireOne P c t i agg w) = Inr x"
  by (auto simp: fireOne_def healthy_def Let_def)

lemma fire_all_answers: "healthy c \<Longrightarrow> \<exists>ds. snd (fire_all P c t as w) = Inr ds"
proof (induction as arbitrary: w)
  case (Cons a as)
  obtain w1 x where "fireOne P c t (ag_principal_id a) a w = (w1, Inr x)" using fireOne_answers [OF Cons.prems] by (metis prod.collapse)
  moreover obtain w2 ds where "fire_all P c t as w1 = (w2, Inr ds)" using Cons by (metis prod.collapse)
  ultimately show ?case using Cons by (cases x) auto
qed simp

lemma fire_types_answers: "healthy c \<Longrightarrow> \<not> tk_fails c ''select events'' \<Longrightarrow> \<exists>x. snd (fire_types P c ts w) = Inr x"
proof (induction ts arbitrary: w)
  case (Cons t ts)
  obtain w1 ds where "fire_all P c t (aggregateRecent t (tk_iso c (tk_now c - DAY_MS)) w) w = (w1, Inr ds)"
    using fire_all_answers [OF Cons.prems(1)] by (metis prod.collapse)
  moreover obtain w2 x where "fire_types P c ts w1 = (w2, Inr x)" using Cons by (metis prod.collapse)
  ultimately show ?case using Cons.prems(2) by (cases x) (simp add: Let_def)
qed simp

lemma threshold_rerun_is_noop_witness:
  "\<exists>w' n k ds. senderAbuseThresholdRun demo_tp demo_tk demo_tw = (w', Inr (n, k, ds)) \<and> fst (senderAbuseThresholdRun demo_tp demo_tk w') = w'"
proof -
  have "healthy demo_tk" "\<not> tk_fails demo_tk ''select events''" by (simp_all add: healthy_def demo_tk_def)
  then obtain w' x where "fire_types demo_tp demo_tk [PT_sender_address, PT_mailbox, PT_domain] demo_tw = (w', Inr x)"
    using fire_types_answers by (metis prod.collapse)
  then have r: "senderAbuseThresholdRun demo_tp demo_tk demo_tw = (w', Inr (fst x, length (filter td_fired (snd x)), snd x))"
    by (simp add: senderAbuseThresholdRun_def split: prod.splits)
  have "no_stale (tk_iso demo_tk (tk_now demo_tk)) demo_tw" by (simp add: no_stale_def demo_tw_def)
  from threshold_rerun_is_noop [OF r demo_clock this] r show ?thesis by blast
qed

definition demo_stale :: tier_world where
  "demo_stale = demo_tw\<lparr>tw_suppressions := [(tier_row demo_tk PT_sender_address ''a@x.org'' None)\<lparr>sr_expires_at := Some ''a''\<rparr>]\<rparr>"

lemma demo_stale_facts:
  "healthy demo_tk" "\<not> activeSenderSuppressionExists PT_sender_address ''a@x.org'' (tk_iso demo_tk (tk_now demo_tk)) demo_stale"
  "breaches PT_sender_address demo_agg (tier_of PT_sender_address ''a@x.org'' demo_stale)" "tier_of PT_sender_address ''a@x.org'' demo_stale = 0"
proof -
  have "\<not> ''b'' < ''a''" by code_simp
  then show "\<not> activeSenderSuppressionExists PT_sender_address ''a@x.org'' (tk_iso demo_tk (tk_now demo_tk)) demo_stale"
    by (simp add: activeSenderSuppressionExists_def demo_stale_def sender_row_active_def demo_tk_def)
qed (simp_all add: healthy_def demo_tk_def breaches_def demo_agg_def aggregate_def demo_event_def tier_of_def demo_stale_def demo_tw_def)

lemma expired_suppression_never_renewed_witness:
  "tier_of PT_sender_address ''a@x.org'' (fire_times demo_tp (replicate 5 demo_tk) PT_sender_address ''a@x.org'' demo_agg demo_stale) = 5"
proof -
  let ?r = "(tier_row demo_tk PT_sender_address ''a@x.org'' None)\<lparr>sr_expires_at := Some ''a''\<rparr>"
  have "?r \<in> set (tw_suppressions demo_stale)" by (simp add: demo_stale_def)
  moreover have "suppression_key ?r = suppression_key (tier_row demo_tk PT_sender_address ''a@x.org'' None)" by (simp add: suppression_key_def)
  ultimately show ?thesis
    using expired_suppression_never_renewed [of ?r demo_stale demo_tk PT_sender_address "''a@x.org''" "replicate 5 demo_tk" demo_agg demo_tp] demo_stale_facts
    by auto
qed

lemma auto_suppression_never_enforced_witness:
  "\<exists>w' res. fireOne demo_tp demo_tk PT_sender_address ''a@x.org'' demo_agg demo_tw = (w', res) \<and>
     sender_hit demo_op (demo_oc 1 (\<lambda>_. False) (Send_threw [])) demo_om ''d'' (demo_ow\<lparr>ow_db := (ow_db demo_ow)\<lparr>db_suppressions := tw_suppressions w'\<rparr>\<rparr>) =
     sender_hit demo_op (demo_oc 1 (\<lambda>_. False) (Send_threw [])) demo_om ''d'' demo_ow"
proof -
  obtain w' res where "fireOne demo_tp demo_tk PT_sender_address ''a@x.org'' demo_agg demo_tw = (w', res)" by fastforce
  moreover have "db_suppressions (ow_db demo_ow) = tw_suppressions demo_tw" by (simp add: demo_ow_def demo_env_def demo_tw_def)
  ultimately show ?thesis using auto_suppression_never_enforced by blast
qed

lemma tier_moves_one_step_witness:
  "unique_by suppression_key (tw_suppressions (fst (senderAbuseThresholdRun demo_tp demo_tk demo_stale)))"
  using tier_moves_one_step [of PT_mailbox "''m''" demo_tp demo_tk demo_stale] by (simp add: demo_stale_def unique_by_def)

end
