(* ===== verification/Promotion.thy ===== *)
theory Promotion
  imports Alerts
begin

text \<open>
  The cron job \<^verbatim>\<open>services/api/src/scheduled/dmarc-promote.ts\<close>: a domain's DMARC policy is moved from none to quarantine to reject as
  its mail proves aligned, with a pause when it stops to be. A calendar day is its number since 1970, a time stamp its milliseconds:
  the ISO texts of the tables order and subtract like them. Percentages are exact quotients rounded as the code rounds them, to two
  decimals; the double precision of the source can differ from it only where a quotient lies exactly between two of them. The call of
  the Cloudflare API is an argument.
\<close>

section \<open>Data\<close>

record dmarc_domain =
  dd_id :: string
  dd_name :: string
  dd_policy :: "string option"
  dd_mode :: string
  dd_state :: string
  dd_last_at :: "int option" \<comment> \<open>\<^const>\<open>None\<close> also for a text that is no date\<close>
  dd_status :: string
  dd_zone_id :: "string option" \<comment> \<open>\<^verbatim>\<open>COALESCE(z.cf_zone_id, d.cf_zone_id)\<close>\<close>

record rollup_row =
  ro_domain :: string
  ro_day :: int
  ro_reports :: nat
  ro_total :: nat
  ro_pass :: nat

record WindowStats =
  ws_reports :: nat
  ws_total :: nat
  ws_pass :: nat
  ws_earliest_day :: "int option"
  ws_days_covered :: nat

record promo_world =
  pw_dmarc_domains :: "dmarc_domain list"
  pw_rollup :: "rollup_row list"
  pw_published :: "(string \<times> string) list" \<comment> \<open>zone and policy, in the order set\<close>
  pw_alert_log :: alert_world

text \<open>One run. \<open>pk_publish\<close> is the error of the remote call, \<^const>\<open>None\<close> when it succeeds.\<close>
record promo_call =
  pk_now :: int
  pk_has_credentials :: bool
  pk_publish :: "string \<Rightarrow> string \<Rightarrow> string option"
  pk_fails :: "string \<Rightarrow> bool"
  pk_others :: "audit_table \<Rightarrow> audit_table"
  pk_alert :: alert_call

datatype promo_reason = Rollback rat | Soak_passed nat rat | Cool_down_elapsed

text \<open>The object of the audit entry.\<close>
record promo_meta =
  mt_domain :: string
  mt_from_state :: string
  mt_to_state :: string
  mt_new_policy :: "string option"
  mt_reason :: promo_reason
  mt_dns_published :: bool
  mt_publish_note :: string
  mt_window :: WindowStats

record promo_platform =
  pl_alert :: alert_platform
  pl_json :: "promo_meta \<Rightarrow> string" \<comment> \<open>\<^verbatim>\<open>JSON.stringify\<close>, with the reason's text\<close>

section \<open>Constants\<close>

definition SOAK_QUARANTINE_DAYS :: nat where "SOAK_QUARANTINE_DAYS = 14"
definition SOAK_REJECT_DAYS :: nat where "SOAK_REJECT_DAYS = 30"
definition COOL_DOWN_DAYS :: int where "COOL_DOWN_DAYS = 7"
definition QUARANTINE_PASS_THRESHOLD_PCT :: rat where "QUARANTINE_PASS_THRESHOLD_PCT = 99"
definition REJECT_PASS_THRESHOLD_PCT :: rat where "REJECT_PASS_THRESHOLD_PCT = 199 / 2"
definition ROLLBACK_PASS_THRESHOLD_PCT :: rat where "ROLLBACK_PASS_THRESHOLD_PCT = 95"
definition MIN_DAILY_VOLUME :: nat where "MIN_DAILY_VOLUME = 100"
definition ROLLBACK_MIN_VOLUME :: nat where "ROLLBACK_MIN_VOLUME = 50"
definition MAX_SAFE_INTEGER :: int where "MAX_SAFE_INTEGER = 9007199254740991"
definition ms_per_day :: int where "ms_per_day = 24 * 3600000"

section \<open>Operations\<close>

text \<open>\<^verbatim>\<open>Math.round\<close>\<close>
definition js_round :: "rat \<Rightarrow> int" where
  "js_round x = \<lfloor>x + 1 / 2\<rfloor>"

definition pctOf :: "nat \<Rightarrow> nat \<Rightarrow> rat" where
  "pctOf pass tot = (if tot = 0 then 0 else of_int (js_round (of_nat pass / of_nat tot * 10000)) / 100)"

definition aggregateWindow :: "promo_call \<Rightarrow> string \<Rightarrow> nat \<Rightarrow> promo_world \<Rightarrow> WindowStats" where
  "aggregateWindow c domain days w =
     (let since = (pk_now c - int days * ms_per_day) div ms_per_day;
          rows = filter (\<lambda>r. ro_domain r = domain \<and> since \<le> ro_day r) (pw_rollup w)
      in \<lparr> ws_reports = sum_list (map ro_reports rows), ws_total = sum_list (map ro_total rows), ws_pass = sum_list (map ro_pass rows),
           ws_earliest_day = (if rows = [] then None else Some (foldr min (map ro_day (tl rows)) (ro_day (hd rows)))),
           ws_days_covered = length (remdups (map ro_day rows)) \<rparr>)"

definition daysSince :: "promo_call \<Rightarrow> int option \<Rightarrow> int" where
  "daysSince c at0 = (case at0 of None \<Rightarrow> MAX_SAFE_INTEGER | Some t \<Rightarrow> (pk_now c - t) div ms_per_day)"

text \<open>Whether the record was published and the note of the failure.\<close>
definition publishDmarcRecord :: "promo_call \<Rightarrow> dmarc_domain \<Rightarrow> string \<Rightarrow> promo_world \<Rightarrow> promo_world \<times> (bool \<times> string)" where
  "publishDmarcRecord c d newPolicy w =
     (case dd_zone_id d of
        None \<Rightarrow> (w, False, ''mail_domains.cf_zone_id resolves NULL'')
      | Some zone \<Rightarrow>
          if zone = [] then (w, False, ''mail_domains.cf_zone_id resolves NULL'')
          else if \<not> pk_has_credentials c then (w, False, ''CF credentials missing from env'')
          else case pk_publish c zone newPolicy of
            Some err \<Rightarrow> (w, False, err)
          | None \<Rightarrow> (w\<lparr>pw_published := pw_published w @ [(zone, newPolicy)]\<rparr>, True, []))"

definition promo_audit ::
  "promo_platform \<Rightarrow> promo_call \<Rightarrow> dmarc_domain \<Rightarrow> string \<Rightarrow> string option \<Rightarrow> promo_reason \<Rightarrow> bool \<Rightarrow> string \<Rightarrow> WindowStats \<Rightarrow> AuditArgs" where
  "promo_audit P c d newState policy reason published note s =
     \<lparr> aa_actor = ''system:dmarc-promote-cron'', aa_action = (if newState = ''paused'' then ''dmarc.pause'' else ''dmarc.promote''),
       aa_target = Some (dd_id d),
       aa_meta = pl_json P \<lparr> mt_domain = dd_name d, mt_from_state = dd_state d, mt_to_state = newState, mt_new_policy = policy,
         mt_reason = reason, mt_dns_published = published, mt_publish_note = note, mt_window = s \<rparr>,
       aa_at = pk_now c \<rparr>"

definition promo_alert :: "dmarc_domain \<Rightarrow> string \<Rightarrow> AdminAlertInput" where
  "promo_alert d newState =
     \<lparr> al_type = (if newState = ''paused'' then Dmarc_alignment_drop else Manual_alert),
       al_severity = (if newState = ''paused'' then Warn else Info), al_target = ''domain:'' @ dd_id d,
       al_subject = (if newState = ''paused'' then ''[POLARIS][WARN] DMARC promotion paused for '' @ dd_name d
                     else ''[POLARIS][INFO] DMARC '' @ newState @ '' for '' @ dd_name d) \<rparr>"

definition update_domain :: "dmarc_domain \<Rightarrow> string \<Rightarrow> int \<Rightarrow> string option \<Rightarrow> dmarc_domain list \<Rightarrow> dmarc_domain list" where
  "update_domain d newState now policy ds =
     map (\<lambda>x. if dd_id x = dd_id d
              then x\<lparr>dd_state := newState, dd_last_at := Some now, dd_policy := (case policy of None \<Rightarrow> dd_policy x | Some p \<Rightarrow> Some p)\<rparr>
              else x) ds"

text \<open>\<^const>\<open>Inl\<close>: the batch throws and with it the whole run, after a record may have been published.\<close>
definition transition ::
  "promo_platform \<Rightarrow> promo_call \<Rightarrow> dmarc_domain \<Rightarrow> string \<Rightarrow> string option \<Rightarrow> promo_reason \<Rightarrow> WindowStats \<Rightarrow> promo_world \<Rightarrow> promo_world \<times> (string + unit)" where
  "transition P c d newState newPolicy reason s w =
     (let (w1, published, note) = (if newPolicy \<noteq> None \<and> (newState = ''quarantine'' \<or> newState = ''reject'')
                                   then publishDmarcRecord c d newState w else (w, False, []));
          policy = (if published then newPolicy else None);
          ins = buildAuditInsert (alp_crypto (pl_alert P)) (alw_audit (pw_alert_log w1)) (promo_audit P c d newState policy reason published note s)
      in if pk_fails c (''batch '' @ dd_id d) then (w1, Inl ''batch'')
         else let w2 = w1\<lparr>pw_dmarc_domains := update_domain d newState (pk_now c) policy (pw_dmarc_domains w1),
                         pw_alert_log := (pw_alert_log w1)\<lparr>alw_audit := batch_insert ins (pk_others c (alw_audit (pw_alert_log w1)))\<rparr>\<rparr>
              in (w2\<lparr>pw_alert_log := fst (sendAlert (pl_alert P) (pk_alert c) (promo_alert d newState) (pw_alert_log w2))\<rparr>, Inr ()))"

definition rolled_back :: "WindowStats \<Rightarrow> bool" where
  "rolled_back day1 = (ws_total day1 \<ge> ROLLBACK_MIN_VOLUME \<and> pctOf (ws_pass day1) (ws_total day1) < ROLLBACK_PASS_THRESHOLD_PCT)"

text \<open>What is done with a domain: its next state, the policy to publish and the window reported.\<close>
definition next_state :: "promo_call \<Rightarrow> dmarc_domain \<Rightarrow> promo_world \<Rightarrow> (string \<times> string option \<times> promo_reason \<times> WindowStats) option" where
  "next_state c d w =
     (let day1 = aggregateWindow c (dd_name d) 1; w14 = aggregateWindow c (dd_name d) SOAK_QUARANTINE_DAYS;
          w30 = aggregateWindow c (dd_name d) SOAK_REJECT_DAYS
      in if dd_state d \<noteq> ''none'' \<and> rolled_back (day1 w) then Some (''paused'', None, Rollback (pctOf (ws_pass (day1 w)) (ws_total (day1 w))), day1 w)
         else if dd_state d = ''none'' then
           (if of_nat (ws_total (w14 w)) / of_nat (max SOAK_QUARANTINE_DAYS 1) \<ge> (of_nat MIN_DAILY_VOLUME :: rat) \<and>
               pctOf (ws_pass (w14 w)) (ws_total (w14 w)) \<ge> QUARANTINE_PASS_THRESHOLD_PCT \<and> ws_days_covered (w14 w) \<ge> SOAK_QUARANTINE_DAYS
            then Some (''quarantine_ready'', None, Soak_passed SOAK_QUARANTINE_DAYS (pctOf (ws_pass (w14 w)) (ws_total (w14 w))), w14 w) else None)
         else if dd_state d = ''quarantine_ready'' then
           (if daysSince c (dd_last_at d) \<ge> COOL_DOWN_DAYS then Some (''quarantine'', Some ''quarantine'', Cool_down_elapsed, w14 w) else None)
         else if dd_state d = ''quarantine'' then
           (if ws_days_covered (w30 w) \<ge> SOAK_REJECT_DAYS \<and> pctOf (ws_pass (w30 w)) (ws_total (w30 w)) \<ge> REJECT_PASS_THRESHOLD_PCT \<and>
               of_nat (ws_total (w30 w)) / of_nat SOAK_REJECT_DAYS \<ge> (of_nat MIN_DAILY_VOLUME :: rat)
            then Some (''reject_ready'', None, Soak_passed SOAK_REJECT_DAYS (pctOf (ws_pass (w30 w)) (ws_total (w30 w))), w30 w) else None)
         else if dd_state d = ''reject_ready'' then
           (if daysSince c (dd_last_at d) \<ge> COOL_DOWN_DAYS then Some (''reject'', Some ''reject'', Cool_down_elapsed, w14 w) else None)
         else None)"

primrec detail_reason :: "promo_reason \<Rightarrow> string" where
  "detail_reason (Rollback p) = ''rollback''"
| "detail_reason (Soak_passed n p) = ''soak passed''"
| "detail_reason Cool_down_elapsed = ''cool-down elapsed''"

record promo_result =
  px_candidates :: nat
  px_promoted :: nat
  px_paused :: nat
  px_no_op :: nat
  px_details :: "(string \<times> string \<times> string \<times> string) list"

text \<open>One turn of the loop.\<close>
definition promote_one :: "promo_platform \<Rightarrow> promo_call \<Rightarrow> dmarc_domain \<Rightarrow> promo_result \<Rightarrow> promo_world \<Rightarrow> promo_world \<times> (string + promo_result)" where
  "promote_one P c d acc w =
     (if pk_fails c (''select '' @ dd_id d) then (w, Inl ''select'')
      else case next_state c d w of
        None \<Rightarrow> (w, Inr (acc\<lparr>px_no_op := px_no_op acc + 1\<rparr>))
      | Some (st, policy, reason, s) \<Rightarrow>
          (case transition P c d st policy reason s w of
             (w1, Inl e) \<Rightarrow> (w1, Inl e)
           | (w1, Inr _) \<Rightarrow>
               (w1, Inr ((if st = ''paused'' then acc\<lparr>px_paused := px_paused acc + 1\<rparr> else acc\<lparr>px_promoted := px_promoted acc + 1\<rparr>)
                         \<lparr>px_details := px_details acc @ [(dd_name d, dd_state d, st, detail_reason reason)]\<rparr>))))"

fun promote_all :: "promo_platform \<Rightarrow> promo_call \<Rightarrow> dmarc_domain list \<Rightarrow> promo_result \<Rightarrow> promo_world \<Rightarrow> promo_world \<times> (string + promo_result)" where
  "promote_all P c [] acc w = (w, Inr acc)"
| "promote_all P c (d # ds) acc w =
     (case promote_one P c d acc w of
        (w1, Inl e) \<Rightarrow> (w1, Inl e)
      | (w1, Inr acc1) \<Rightarrow> promote_all P c ds acc1 w1)"

definition dmarcPromoteRun :: "promo_platform \<Rightarrow> promo_call \<Rightarrow> promo_world \<Rightarrow> promo_world \<times> (string + promo_result)" where
  "dmarcPromoteRun P c w =
     (let ds = filter (\<lambda>d. dd_mode d = ''auto'' \<and> dd_status d \<noteq> ''disabled'') (pw_dmarc_domains w)
      in promote_all P c ds \<lparr> px_candidates = length ds, px_promoted = 0, px_paused = 0, px_no_op = 0, px_details = [] \<rparr> w)"


section \<open>The state machine\<close>

text \<open>What a run may do to a row.\<close>
inductive promo_step :: "promo_call \<Rightarrow> promo_world \<Rightarrow> dmarc_domain \<Rightarrow> dmarc_domain \<Rightarrow> bool" for c w where
  stay: "promo_step c w d d"
| move: "dd_mode d = ''auto'' \<Longrightarrow> dd_status d \<noteq> ''disabled'' \<Longrightarrow> next_state c d w = Some (st, policy, reason, s) \<Longrightarrow> 
    p = dd_policy d \<or> p = policy \<and> policy \<noteq> None \<Longrightarrow> promo_step c w d (d\<lparr>dd_state := st, dd_last_at := Some (pk_now c), dd_policy := p\<rparr>)"

inductive_cases promo_stepE: "promo_step c w d d'"

lemma next_state_rollup: "pw_rollup w' = pw_rollup w \<Longrightarrow> next_state c d w' = next_state c d w"
  by (simp add: next_state_def aggregateWindow_def Let_def)

lemma publish_world:
  "publishDmarcRecord c d p w = (w', published, note) \<Longrightarrow> pw_dmarc_domains w' = pw_dmarc_domains w \<and> pw_rollup w' = pw_rollup w"
  by (auto simp: publishDmarcRecord_def split: option.splits if_splits)

lemma transition_world:
  assumes "transition P c d st policy reason s w = (w', res)"
  shows "pw_rollup w' = pw_rollup w \<and>
    (pw_dmarc_domains w' = pw_dmarc_domains w \<and> res \<noteq> Inr () \<or>
     (\<exists>p. (p = None \<or> p = policy) \<and> pw_dmarc_domains w' = update_domain d st (pk_now c) p (pw_dmarc_domains w)))"
  using assms by (auto simp: transition_def Let_def split: prod.splits if_splits dest!: publish_world)

text \<open>A row that is still the one the job has read, or the one it has made of it.\<close>
definition row_of_run :: "promo_call \<Rightarrow> promo_world \<Rightarrow> string set \<Rightarrow> dmarc_domain \<Rightarrow> dmarc_domain \<Rightarrow> bool" where
  "row_of_run c w todo d d' = (dd_id d' = dd_id d \<and> promo_step c w d d' \<and> (dd_id d \<in> todo \<longrightarrow> d' = d))"

lemma promote_one_rows:
  assumes "promote_one P c x acc v = (v', res)" "pw_rollup v = pw_rollup w" "dd_mode x = ''auto''" "dd_status x \<noteq> ''disabled''"
    and "list_all2 (row_of_run c w (insert (dd_id x) todo)) ds (pw_dmarc_domains v)" "\<forall>d \<in> set ds. dd_id d = dd_id x \<longrightarrow> d = x" "dd_id x \<notin> todo"
  shows "pw_rollup v' = pw_rollup w \<and> list_all2 (row_of_run c w todo) ds (pw_dmarc_domains v')"
proof -
  have weak: "list_all2 (row_of_run c w todo) ds (pw_dmarc_domains v)"
    using assms(5) by (rule list_all2_mono) (auto simp: row_of_run_def)
  show ?thesis
  proof (cases "next_state c x v")
    case None
    then show ?thesis using assms(1,2) weak by (auto simp: promote_one_def split: if_splits)
  next
    case (Some q)
    obtain st policy reason s where q: "q = (st, policy, reason, s)" by (cases q)
    have n: "next_state c x w = Some (st, policy, reason, s)" using Some q next_state_rollup [OF assms(2)] by simp
    have "v' = v \<or> (\<exists>r. transition P c x st policy reason s v = (v', r))"
      using assms(1) Some q by (auto simp: promote_one_def split: if_splits prod.splits sum.splits)
    then consider "pw_rollup v' = pw_rollup w" "pw_dmarc_domains v' = pw_dmarc_domains v"
      | p where "pw_rollup v' = pw_rollup w" "p = None \<or> p = policy" "pw_dmarc_domains v' = update_domain x st (pk_now c) p (pw_dmarc_domains v)"
      using transition_world assms(2) by metis
    then show ?thesis
    proof cases
      case 1
      then show ?thesis using weak by simp
    next
      case (2 p)
      have "row_of_run c w todo d (if dd_id d' = dd_id x then d'\<lparr>dd_state := st, dd_last_at := Some (pk_now c),
          dd_policy := (case p of None \<Rightarrow> dd_policy d' | Some p \<Rightarrow> Some p)\<rparr> else d')"
        if "d \<in> set ds" "row_of_run c w (insert (dd_id x) todo) d d'" for d d'
      proof (cases "dd_id d' = dd_id x")
        case True
        then have "d = x" "d' = x" using that assms(6) by (auto simp: row_of_run_def)
        then show ?thesis
          using 2(2) assms(7) promo_step.move [OF assms(3,4) n, of "dd_policy x"] promo_step.move [OF assms(3,4) n, of policy]
          by (auto simp: row_of_run_def split: option.splits)
      next
        case False
        then show ?thesis using that by (auto simp: row_of_run_def)
      qed
      then have "list_all2 (row_of_run c w todo) ds (update_domain x st (pk_now c) p (pw_dmarc_domains v))"
        using assms(5) unfolding update_domain_def list_all2_map2 by (auto simp: list_all2_conv_all_nth)
      then show ?thesis using 2 by simp
    qed
  qed
qed

lemma promote_all_rows:
  assumes "promote_all P c xs acc v = (v', res)" "pw_rollup v = pw_rollup w"
    and "list_all2 (row_of_run c w (dd_id ` set xs)) ds (pw_dmarc_domains v)" "distinct (map dd_id ds)" "distinct (map dd_id xs)"
    and "set xs \<subseteq> {d \<in> set ds. dd_mode d = ''auto'' \<and> dd_status d \<noteq> ''disabled''}"
  shows "list_all2 (row_of_run c w {}) ds (pw_dmarc_domains v')"
  using assms
proof (induction xs arbitrary: acc v)
  case (Cons x xs)
  obtain v1 r where r: "promote_one P c x acc v = (v1, r)" by fastforce
  have x: "x \<in> set ds" "dd_mode x = ''auto''" "dd_status x \<noteq> ''disabled''" "dd_id x \<notin> dd_id ` set xs" using Cons.prems(5,6) by auto
  have u: "\<forall>d \<in> set ds. dd_id d = dd_id x \<longrightarrow> d = x" using Cons.prems(4) x(1) by (metis distinct_map inj_onD)
  have s: "pw_rollup v1 = pw_rollup w \<and> list_all2 (row_of_run c w (dd_id ` set xs)) ds (pw_dmarc_domains v1)"
    by (rule promote_one_rows [OF r Cons.prems(2) x(2,3) _ u x(4)]) (use Cons.prems(3) in simp)
  show ?case
  proof (cases r)
    case (Inl e)
    then have "v' = v1" using Cons.prems(1) r by simp
    then show ?thesis using s by (auto intro: list_all2_mono simp: row_of_run_def)
  next
    case (Inr acc1)
    then have "promote_all P c xs acc1 v1 = (v', res)" using Cons.prems(1) r by simp
    then show ?thesis using Cons.IH [of acc1 v1] s Cons.prems(4-6) by simp
  qed
qed simp

lemma run_rows:
  assumes "distinct (map dd_id (pw_dmarc_domains w))"
  shows "list_all2 (\<lambda>d d'. dd_id d' = dd_id d \<and> promo_step c w d d') (pw_dmarc_domains w) (pw_dmarc_domains (fst (dmarcPromoteRun P c w)))"
proof -
  let ?ds = "filter (\<lambda>d. dd_mode d = ''auto'' \<and> dd_status d \<noteq> ''disabled'') (pw_dmarc_domains w)"
  obtain w' res where r: "dmarcPromoteRun P c w = (w', res)" by fastforce
  have "list_all2 (row_of_run c w (dd_id ` set ?ds)) (pw_dmarc_domains w) (pw_dmarc_domains w)"
    by (auto simp: row_of_run_def list_all2_conv_all_nth intro: stay)
  moreover have "distinct (map dd_id ?ds)" using assms by (rule distinct_map_filter)
  ultimately have "list_all2 (row_of_run c w {}) (pw_dmarc_domains w) (pw_dmarc_domains w')"
    using promote_all_rows [of P c ?ds _ w w' res w "pw_dmarc_domains w"] r assms by (auto simp: dmarcPromoteRun_def Let_def)
  then show ?thesis using r by (auto intro: list_all2_mono simp: row_of_run_def)
qed


definition promo_runs :: "promo_platform \<Rightarrow> promo_call list \<Rightarrow> promo_world \<Rightarrow> promo_world" where
  "promo_runs P cs w = job_runs (\<lambda>c. fst \<circ> dmarcPromoteRun P c) cs w"

lemma run_distinct:
  assumes "distinct (map dd_id (pw_dmarc_domains w))"
  shows "distinct (map dd_id (pw_dmarc_domains (fst (dmarcPromoteRun P c w))))" "length (pw_dmarc_domains (fst (dmarcPromoteRun P c w))) = length (pw_dmarc_domains w)"
proof -
  have a: "list_all2 (\<lambda>d d'. dd_id d' = dd_id d \<and> promo_step c w d d') (pw_dmarc_domains w) (pw_dmarc_domains (fst (dmarcPromoteRun P c w)))"
    by (rule run_rows [OF assms])
  then have "map dd_id (pw_dmarc_domains (fst (dmarcPromoteRun P c w))) = map dd_id (pw_dmarc_domains w)"
    by (auto simp: list_all2_conv_all_nth list_eq_iff_nth_eq)
  then show "distinct (map dd_id (pw_dmarc_domains (fst (dmarcPromoteRun P c w))))" using assms by simp
  show "length (pw_dmarc_domains (fst (dmarcPromoteRun P c w))) = length (pw_dmarc_domains w)" using a by (simp add: list_all2_lengthD)
qed

lemma run_step_at:
  "distinct (map dd_id (pw_dmarc_domains w)) \<Longrightarrow> n < length (pw_dmarc_domains w) \<Longrightarrow>
     promo_step c w (pw_dmarc_domains w ! n) (pw_dmarc_domains (fst (dmarcPromoteRun P c w)) ! n)"
  using run_rows [of w c P] by (auto simp: list_all2_conv_all_nth)

text \<open>The rows keep their number and their distinct ids.\<close>
interpretation promo_job: scheduled_job "\<lambda>c. fst \<circ> dmarcPromoteRun P c" "\<lambda>_. True"
    "\<lambda>w. distinct (map dd_id (pw_dmarc_domains w)) \<and> n < length (pw_dmarc_domains w)" for P n
  by unfold_locales (simp add: run_distinct)

text \<open>A property of one row that every step of a list of runs keeps holds after it; \<open>Q k\<close> is the property before the \<open>k\<close>-th run.\<close>
lemma runs_keep:
  assumes "distinct (map dd_id (pw_dmarc_domains w))" "n < length (pw_dmarc_domains w)" "Q 0 (pw_dmarc_domains w ! n)"
    and "\<And>k v d d'. k < length cs \<Longrightarrow> promo_step (cs ! k) v d d' \<Longrightarrow> Q k d \<Longrightarrow> Q (Suc k) d'"
  shows "Q (length cs) (pw_dmarc_domains (promo_runs P cs w) ! n)"
  unfolding promo_runs_def
proof (rule promo_job.runs_indexed [where Q = "\<lambda>k v. Q k (pw_dmarc_domains v ! n)" and n = n])
  show "Q (Suc k) (pw_dmarc_domains ((fst \<circ> dmarcPromoteRun P (cs ! k)) v) ! n)"
    if "k < length cs" "distinct (map dd_id (pw_dmarc_domains v)) \<and> n < length (pw_dmarc_domains v)" "Q k (pw_dmarc_domains v ! n)" for k v
    using assms(4) [OF that(1) run_step_at that(3)] that(2) by simp
qed (use assms(1-3) in \<open>simp_all add: list_all_iff\<close>)

text \<open>The steps of the machine, with what each needs.\<close>
lemma next_state_cases:
  assumes "next_state c d w = Some (st, policy, reason, s)"
  obtains (pause) "st = ''paused''" "policy = None" "dd_state d \<noteq> ''none''" "rolled_back (aggregateWindow c (dd_name d) 1 w)"
  | (soak1) "dd_state d = ''none''" "st = ''quarantine_ready''" "policy = None" "s = aggregateWindow c (dd_name d) SOAK_QUARANTINE_DAYS w"
      "pctOf (ws_pass s) (ws_total s) \<ge> QUARANTINE_PASS_THRESHOLD_PCT" "ws_days_covered s \<ge> SOAK_QUARANTINE_DAYS"
      "of_nat (ws_total s) / of_nat SOAK_QUARANTINE_DAYS \<ge> (of_nat MIN_DAILY_VOLUME :: rat)"
  | (cool1) "dd_state d = ''quarantine_ready''" "st = ''quarantine''" "policy = Some ''quarantine''" "daysSince c (dd_last_at d) \<ge> COOL_DOWN_DAYS"
  | (soak2) "dd_state d = ''quarantine''" "st = ''reject_ready''" "policy = None" "s = aggregateWindow c (dd_name d) SOAK_REJECT_DAYS w"
      "pctOf (ws_pass s) (ws_total s) \<ge> REJECT_PASS_THRESHOLD_PCT" "ws_days_covered s \<ge> SOAK_REJECT_DAYS"
      "of_nat (ws_total s) / of_nat SOAK_REJECT_DAYS \<ge> (of_nat MIN_DAILY_VOLUME :: rat)"
  | (cool2) "dd_state d = ''reject_ready''" "st = ''reject''" "policy = Some ''reject''" "daysSince c (dd_last_at d) \<ge> COOL_DOWN_DAYS"
proof (cases "dd_state d \<noteq> ''none'' \<and> rolled_back (aggregateWindow c (dd_name d) 1 w)")
  case True
  then show thesis using assms that(1) by (auto simp: next_state_def Let_def)
next
  case False
  have m: "max SOAK_QUARANTINE_DAYS 1 = SOAK_QUARANTINE_DAYS" by (simp add: SOAK_QUARANTINE_DAYS_def)
  show thesis using assms False that(2-5) unfolding next_state_def Let_def m by (auto split: if_splits)
qed

section \<open>Properties\<close>



text \<open>How far a domain can be at \<open>now\<close>, since an instant at which it was at none.\<close>
definition on_schedule :: "int \<Rightarrow> int \<Rightarrow> dmarc_domain \<Rightarrow> bool" where
  "on_schedule t0 now d =
     (t0 \<le> now \<and>
      (dd_state d = ''quarantine_ready'' \<longrightarrow> (\<exists>t. dd_last_at d = Some t \<and> t0 \<le> t)) \<and>
      (dd_state d = ''quarantine'' \<longrightarrow> t0 + 7 * ms_per_day \<le> now) \<and>
      (dd_state d = ''reject_ready'' \<longrightarrow> (\<exists>t. dd_last_at d = Some t \<and> t0 + 7 * ms_per_day \<le> t)) \<and>
      (dd_state d = ''reject'' \<longrightarrow> t0 + 14 * ms_per_day \<le> now))"

lemma cool_down_ms: "daysSince c (Some t) \<ge> COOL_DOWN_DAYS \<Longrightarrow> t + 7 * ms_per_day \<le> pk_now c"
proof -
  assume "daysSince c (Some t) \<ge> COOL_DOWN_DAYS"
  then have "7 \<le> (pk_now c - t) div 86400000" by (simp add: daysSince_def COOL_DOWN_DAYS_def ms_per_day_def)
  then show ?thesis unfolding ms_per_day_def by linarith
qed

lemma on_schedule_step:
  assumes "promo_step c w d d'" "on_schedule t0 now d" "now \<le> pk_now c"
  shows "on_schedule t0 (pk_now c) d'"
  using assms(1)
proof cases
  case stay
  then show ?thesis using assms(2,3) by (auto simp: on_schedule_def)
next
  case (move st policy reason s p)
  from move(4) show ?thesis
  proof (cases rule: next_state_cases)
    case cool1
    then obtain t where "dd_last_at d = Some t" "t0 \<le> t" using assms(2) by (auto simp: on_schedule_def)
    then show ?thesis using cool1 cool_down_ms [of c t] move(1) assms(2,3) by (simp add: on_schedule_def)
  next
    case cool2
    then obtain t where "dd_last_at d = Some t" "t0 + 7 * ms_per_day \<le> t" using assms(2) by (auto simp: on_schedule_def)
    then show ?thesis using cool2 cool_down_ms [of c t] move(1) assms(2,3) by (simp add: on_schedule_def)
  qed (use move(1) assms(2,3) in \<open>simp_all add: on_schedule_def\<close>)
qed


text \<open>A pause is for ever: a domain that is paused stays paused and keeps its policy, however well its mail passes afterwards; only
  its time stamp moves. There is no way back but by hand.\<close>
theorem paused_is_final:
  assumes "distinct (map dd_id (pw_dmarc_domains w))" "n < length (pw_dmarc_domains w)" "dd_state (pw_dmarc_domains w ! n) = ''paused''"
  shows "dd_state (pw_dmarc_domains (promo_runs P cs w) ! n) = ''paused'' \<and>
    dd_policy (pw_dmarc_domains (promo_runs P cs w) ! n) = dd_policy (pw_dmarc_domains w ! n)"
proof (rule runs_keep [OF assms(1,2), where Q = "\<lambda>_ d. dd_state d = ''paused'' \<and> dd_policy d = dd_policy (pw_dmarc_domains w ! n)"])
  show "dd_state d' = ''paused'' \<and> dd_policy d' = dd_policy (pw_dmarc_domains w ! n)"
    if "promo_step (cs ! k) v d d'" "dd_state d = ''paused'' \<and> dd_policy d = dd_policy (pw_dmarc_domains w ! n)" for k v d d'
    using that(1)
  proof cases
    case (move st policy reason s p)
    from move(4) show ?thesis by (cases rule: next_state_cases) (use move that(2) in auto)
  qed (use that(2) in simp)
qed (use assms(3) in simp)

text \<open>A failed publication is never made up for: a domain that reached quarantine without its policy being set never gets the quarantine
  policy from the job, in no later run; its policy stays what it was unless the job goes on to set reject.\<close>
theorem missed_publication_never_retried:
  assumes "distinct (map dd_id (pw_dmarc_domains w))" "n < length (pw_dmarc_domains w)" "dd_state (pw_dmarc_domains w ! n) = ''quarantine''"
  shows "dd_policy (pw_dmarc_domains (promo_runs P cs w) ! n) \<in> {dd_policy (pw_dmarc_domains w ! n), Some ''reject''}"
proof -
  let ?Q = "\<lambda>d. dd_state d \<in> {''quarantine'', ''reject_ready'', ''reject'', ''paused''} \<and> dd_policy d \<in> {dd_policy (pw_dmarc_domains w ! n), Some ''reject''}"
  have "?Q (pw_dmarc_domains (promo_runs P cs w) ! n)"
  proof (rule runs_keep [OF assms(1,2), where Q = "\<lambda>_. ?Q"])
    show "?Q d'" if "promo_step (cs ! k) v d d'" "?Q d" for k v d d'
      using that(1)
    proof cases
      case (move st policy reason s p)
      from move(4) show ?thesis by (cases rule: next_state_cases) (use move that(2) in auto)
    qed (use that(2) in simp)
  qed (use assms(3) in simp)
  then show ?thesis by simp
qed

text \<open>The step that leaves it so: a domain whose zone is unknown goes to quarantine with its policy as it was.\<close>
lemma unpublished_quarantine:
  assumes "dd_state d = ''quarantine_ready''" "daysSince c (dd_last_at d) \<ge> COOL_DOWN_DAYS" "\<not> rolled_back (aggregateWindow c (dd_name d) 1 w)"
    and "dd_zone_id d = None" "\<not> pk_fails c (''select '' @ dd_id d)" "\<not> pk_fails c (''batch '' @ dd_id d)"
  shows "\<exists>w' acc'. promote_one P c d acc w = (w', Inr acc') \<and> px_promoted acc' = px_promoted acc + 1 \<and> pw_published w' = pw_published w \<and>
    pw_dmarc_domains w' = update_domain d ''quarantine'' (pk_now c) None (pw_dmarc_domains w)"
  using assms by (auto simp: promote_one_def next_state_def transition_def publishDmarcRecord_def Let_def)

text \<open>Rounding to two decimals admits 98.995 per cent as 99.\<close>
lemma pct_threshold: "0 < t \<Longrightarrow> pctOf p t \<ge> QUARANTINE_PASS_THRESHOLD_PCT \<longleftrightarrow> 19799 * t \<le> 20000 * p"
proof -
  assume t: "0 < t"
  have "pctOf p t \<ge> QUARANTINE_PASS_THRESHOLD_PCT \<longleftrightarrow> 9900 \<le> js_round (of_nat p / of_nat t * 10000)"
    using t by (simp add: pctOf_def QUARANTINE_PASS_THRESHOLD_PCT_def pos_le_divide_eq)
  also have "\<dots> \<longleftrightarrow> 9900 \<le> of_nat p / of_nat t * 10000 + 1 / (2 :: rat)" unfolding js_round_def le_floor_iff by simp
  also have "\<dots> \<longleftrightarrow> 19799 * of_nat t \<le> 20000 * (of_nat p :: rat)" using t by (simp add: field_simps)
  also have "\<dots> \<longleftrightarrow> 19799 * t \<le> 20000 * p" by (metis of_nat_le_iff of_nat_mult of_nat_numeral)
  finally show ?thesis .
qed


section \<open>Demonstration\<close>

definition demo_dmarc :: "string \<Rightarrow> dmarc_domain" where
  "demo_dmarc st = \<lparr> dd_id = ''d'', dd_name = ''x.org'', dd_policy = Some ''none'', dd_mode = ''auto'', dd_state = st, dd_last_at = Some 0,
     dd_status = ''active'', dd_zone_id = None \<rparr>"

definition demo_pworld :: "string \<Rightarrow> promo_world" where
  "demo_pworld st = \<lparr> pw_dmarc_domains = [demo_dmarc st], pw_rollup = [], pw_published = [], pw_alert_log = demo_alw \<rparr>"

definition demo_pk :: "int \<Rightarrow> promo_call" where
  "demo_pk t = \<lparr> pk_now = t, pk_has_credentials = True, pk_publish = (\<lambda>_ _. None), pk_fails = (\<lambda>_. False), pk_others = (\<lambda>t. t),
     pk_alert = demo_alc t \<rparr>"

definition demo_pl :: promo_platform where
  "demo_pl = \<lparr> pl_alert = demo_alp, pl_json = (\<lambda>_. ''{}'') \<rparr>"

lemma demo_pworld_facts [simp]: "pw_dmarc_domains (demo_pworld st) = [demo_dmarc st]" "dd_state (demo_dmarc st) = st" "dd_policy (demo_dmarc st) = Some ''none''"
  by (simp_all add: demo_pworld_def demo_dmarc_def)



lemma paused_is_final_witness:
  "dd_state (pw_dmarc_domains (promo_runs demo_pl [demo_pk 5, demo_pk 6] (demo_pworld ''paused'')) ! 0) = ''paused''"
  using paused_is_final [of "demo_pworld ''paused''" 0 demo_pl "[demo_pk 5, demo_pk 6]"] by simp

lemma missed_publication_never_retried_witness:
  "dd_policy (pw_dmarc_domains (promo_runs demo_pl [demo_pk 5, demo_pk 6] (demo_pworld ''quarantine'')) ! 0) \<noteq> Some ''quarantine''"
  using missed_publication_never_retried [of "demo_pworld ''quarantine''" 0 demo_pl "[demo_pk 5, demo_pk 6]"] by auto

end
