(* ===== verification/Janitor.thy ===== *)
theory Janitor
  imports Pipeline PolicyEngine
begin

text \<open>
  The nightly clean-up \<^verbatim>\<open>services/api/src/scheduled/janitor.ts\<close> over the pipeline's world: expired idempotency keys, expunged mailbox
  states past the grace period, and then messages no mailbox state refers to, with their bodies. The bodies are shared between
  messages of equal content, so the job counts references. Foreign keys are enforced as the schema declares them: the state rows
  of a message go with it, a row of \<^verbatim>\<open>idempotency_keys\<close> or \<^verbatim>\<open>message_attempts\<close> that names it forbids its deletion.
\<close>

section \<open>Data\<close>

record janitor_world =
  jw_pipe :: pipe_world
  jw_expires :: "idem_row \<Rightarrow> string option" \<comment> \<open>column \<^verbatim>\<open>idempotency_keys.expires_at\<close>\<close>
  jw_attempts :: "string list" \<comment> \<open>column \<^verbatim>\<open>message_attempts.message_id\<close>\<close>

text \<open>One run: its time stamp, the cut-off \<^verbatim>\<open>graceDays\<close> earlier as a text, and failing accesses by statement and message.\<close>
record janitor_call =
  jc_now :: string
  jc_cutoff :: "int \<Rightarrow> string"
  jc_grace :: "string option" \<comment> \<open>\<^verbatim>\<open>BRIDGE_EXPUNGE_GRACE_DAYS\<close>\<close>
  jc_fails :: "string \<Rightarrow> string \<Rightarrow> bool"

section \<open>Operations\<close>

definition expungeGraceDays :: "string option \<Rightarrow> int" where
  "expungeGraceDays raw =
     (case nonempty_opt raw of
        None \<Rightarrow> 7
      | Some s \<Rightarrow> (case js_Number s of Some n \<Rightarrow> if n \<ge> 0 then n else 7 | None \<Rightarrow> 7))"

definition referenced :: "string \<Rightarrow> janitor_world \<Rightarrow> bool" where
  "referenced i w = (i \<in> set (jw_attempts w) \<or> list_ex (\<lambda>r. ik_message_id r = Some i) (pw_idem (jw_pipe w)))"

definition set_states :: "MailboxStateRow list \<Rightarrow> janitor_world \<Rightarrow> janitor_world" where
  "set_states rows w = w\<lparr>jw_pipe := (jw_pipe w)\<lparr>pw_state := (pw_state (jw_pipe w))\<lparr>sd_state := rows\<rparr>\<rparr>\<rparr>"

text \<open>The deletion takes the state rows along.\<close>
definition delete_message :: "string \<Rightarrow> janitor_world \<Rightarrow> janitor_world" where
  "delete_message i w =
     set_states (filter (\<lambda>s. ms_message_id s \<noteq> i) (sd_state (pw_state (jw_pipe w))))
       (w\<lparr>jw_pipe := (jw_pipe w)\<lparr>pw_messages := filter (\<lambda>m. pm_id m \<noteq> i) (pw_messages (jw_pipe w))\<rparr>\<rparr>)"

definition purgeMessage :: "janitor_call \<Rightarrow> pm_message \<Rightarrow> janitor_world \<Rightarrow> janitor_world \<times> (string + unit)" where
  "purgeMessage c row w =
     (let other = (\<not> jc_fails c ''select other'' (pm_id row) \<and> list_ex (\<lambda>m. pm_r2_key m = pm_r2_key row \<and> pm_id m \<noteq> pm_id row) (pw_messages (jw_pipe w)));
          w1 = (if other \<or> jc_fails c ''r2 delete'' (pm_id row) then w
                else w\<lparr>jw_pipe := (jw_pipe w)\<lparr>pw_r2 := (pw_r2 (jw_pipe w))(pm_r2_key row := None)\<rparr>\<rparr>)
      in if jc_fails c ''delete message'' (pm_id row) \<or> referenced (pm_id row) w1 then (w1, Inl ''delete message'')
         else (delete_message (pm_id row) w1, Inr ()))"

text \<open>One stale state row. A failed look-up of another state counts as none.\<close>
definition expunge_state :: "janitor_call \<Rightarrow> MailboxStateRow \<Rightarrow> janitor_world \<Rightarrow> janitor_world \<times> (string + unit)" where
  "expunge_state c s w =
     (let i = ms_message_id s in
      if jc_fails c ''delete state'' i then (w, Inl ''delete state'')
      else let w1 = set_states (filter (\<lambda>x. \<not> (ms_message_id x = i \<and> ms_mailbox_id x = ms_mailbox_id s)) (sd_state (pw_state (jw_pipe w)))) w in
        if \<not> jc_fails c ''select state'' i \<and> list_ex (\<lambda>x. ms_message_id x = i) (sd_state (pw_state (jw_pipe w1))) then (w1, Inr ())
        else if jc_fails c ''select message'' i then (w1, Inr ())
        else case find (\<lambda>m. pm_id m = i) (pw_messages (jw_pipe w1)) of
          None \<Rightarrow> (w1, Inr ())
        | Some m \<Rightarrow> purgeMessage c m w1)"

fun expunge_all :: "janitor_call \<Rightarrow> MailboxStateRow list \<Rightarrow> janitor_world \<Rightarrow> janitor_world \<times> (string + unit)" where
  "expunge_all c [] w = (w, Inr ())"
| "expunge_all c (s # ss) w =
     (case expunge_state c s w of (w1, Inl e) \<Rightarrow> (w1, Inl e) | (w1, Inr _) \<Rightarrow> expunge_all c ss w1)"

definition sweep_idem :: "janitor_call \<Rightarrow> janitor_world \<Rightarrow> janitor_world" where
  "sweep_idem c w =
     w\<lparr>jw_pipe := (jw_pipe w)\<lparr>pw_idem := filter (\<lambda>r. \<not> (case jw_expires w r of None \<Rightarrow> False | Some e \<Rightarrow> e < jc_now c)) (pw_idem (jw_pipe w))\<rparr>\<rparr>"

definition stale_state :: "janitor_call \<Rightarrow> MailboxStateRow \<Rightarrow> bool" where
  "stale_state c s = (case ms_expunged_at s of None \<Rightarrow> False | Some e \<Rightarrow> e < jc_cutoff c (expungeGraceDays (jc_grace c)))"

definition janitor :: "janitor_call \<Rightarrow> janitor_world \<Rightarrow> janitor_world \<times> (string + unit)" where
  "janitor c w =
     (if jc_fails c ''delete idem'' [] then (w, Inl ''delete idem'')
      else let w1 = sweep_idem c w in
        expunge_all c (if jc_fails c ''select stale'' [] then [] else filter (stale_state c) (sd_state (pw_state (jw_pipe w1)))) w1)"

section \<open>Lemmas\<close>

lemma state_wf_filter: "state_wf db \<Longrightarrow> state_wf (db\<lparr>sd_state := filter Q (sd_state db)\<rparr>)"
  by (auto simp: state_wf_def distinct_map_filter)

lemma wf_set_states:
  "pipe_wf P (jw_pipe w) \<Longrightarrow> pipe_wf P (jw_pipe (set_states (filter Q (sd_state (pw_state (jw_pipe w)))) w))"
  by (auto simp: pipe_wf_def set_states_def state_wf_filter)

text \<open>No look-up fails and no statement is refused.\<close>
definition smooth :: "janitor_call \<Rightarrow> bool" where
  "smooth c = (\<forall>i. \<not> jc_fails c ''select other'' i \<and> \<not> jc_fails c ''select state'' i \<and> \<not> jc_fails c ''delete message'' i)"

lemma bodies_forget: "bodies_ok P r2 \<Longrightarrow> bodies_ok P (r2(k := None))"
  by (auto simp: bodies_ok_def)

lemma purge_wf:
  assumes "pipe_wf P (jw_pipe w)" "smooth c" "\<not> referenced (pm_id m) w"
  shows "pipe_wf P (jw_pipe (fst (purgeMessage c m w)))" "\<exists>u. purgeMessage c m w = (u, Inr ())"
proof -
  let ?ms = "pw_messages (jw_pipe w)"
  have u: "referenced (pm_id m) (w\<lparr>jw_pipe := (jw_pipe w)\<lparr>pw_r2 := r\<rparr>\<rparr>) = referenced (pm_id m) w" for r by (simp add: referenced_def)
  show "\<exists>u. purgeMessage c m w = (u, Inr ())" using assms(2,3) by (auto simp: purgeMessage_def smooth_def u Let_def)
  have "list_all (has_body ((pw_r2 (jw_pipe w))(pm_r2_key m := None))) (filter (\<lambda>x. pm_id x \<noteq> pm_id m) ?ms)"
    if "\<not> list_ex (\<lambda>x. pm_r2_key x = pm_r2_key m \<and> pm_id x \<noteq> pm_id m) ?ms"
    using assms(1) that by (auto simp: pipe_wf_def has_body_def list_all_iff list_ex_iff)
  moreover have "list_all (has_body (pw_r2 (jw_pipe w))) (filter (\<lambda>x. pm_id x \<noteq> pm_id m) ?ms)"
    using assms(1) by (auto simp: pipe_wf_def list_all_iff)
  ultimately show "pipe_wf P (jw_pipe (fst (purgeMessage c m w)))"
    using assms by (auto simp: purgeMessage_def smooth_def u Let_def pipe_wf_def delete_message_def set_states_def state_wf_filter bodies_forget)
qed


lemma refs_kept:
  "pw_idem (jw_pipe (fst (expunge_state c s w))) = pw_idem (jw_pipe w)" "jw_attempts (fst (expunge_state c s w)) = jw_attempts w"
  by (auto simp: expunge_state_def purgeMessage_def delete_message_def set_states_def Let_def split: option.splits)

lemma expunge_state_wf:
  assumes "pipe_wf P (jw_pipe w)" "smooth c" "\<not> referenced (ms_message_id s) w"
  shows "pipe_wf P (jw_pipe (fst (expunge_state c s w)))"
proof -
  let ?w1 = "set_states (filter (\<lambda>x. \<not> (ms_message_id x = ms_message_id s \<and> ms_mailbox_id x = ms_mailbox_id s)) (sd_state (pw_state (jw_pipe w)))) w"
  have w1: "pipe_wf P (jw_pipe ?w1)" by (rule wf_set_states [OF assms(1)])
  have "pipe_wf P (jw_pipe (fst (purgeMessage c m ?w1)))" if "pm_id m = ms_message_id s" for m
    by (rule purge_wf(1) [OF w1 assms(2)]) (use assms(3) that in \<open>simp add: referenced_def set_states_def\<close>)
  then show ?thesis using assms(1) w1 by (auto simp: expunge_state_def Let_def find_Some_iff split: option.splits)
qed

lemma expunge_all_wf:
  assumes "pipe_wf P (jw_pipe w)" "smooth c" "\<forall>s \<in> set ss. \<not> referenced (ms_message_id s) w"
  shows "pipe_wf P (jw_pipe (fst (expunge_all c ss w)))"
  using assms(1,3)
proof (induction ss arbitrary: w)
  case (Cons s ss)
  obtain w1 r where r: "expunge_state c s w = (w1, r)" by fastforce
  have w1: "pipe_wf P (jw_pipe w1)" using expunge_state_wf [OF Cons.prems(1) assms(2), of s] Cons.prems(2) r by simp
  have "referenced i w1 = referenced i w" for i using refs_kept [of c s w] r by (simp add: referenced_def)
  then show ?case using Cons.IH [OF w1] Cons.prems(2) w1 r by (auto split: sum.splits)
qed simp

text \<open>A message the job has no reason to touch: it is not expunged, or another mailbox still has it.\<close>
definition spared :: "janitor_call \<Rightarrow> MailboxStateRow list \<Rightarrow> pm_message \<Rightarrow> bool" where
  "spared c states m =
     (list_all (\<lambda>s. ms_message_id s = pm_id m \<longrightarrow> \<not> stale_state c s) states \<or> list_ex (\<lambda>s. ms_message_id s = pm_id m \<and> \<not> stale_state c s) states)"

definition kept :: "pm_message \<Rightarrow> bytes option \<Rightarrow> MailboxStateRow list \<Rightarrow> janitor_world \<Rightarrow> bool" where
  "kept m body todo w =
     (m \<in> set (pw_messages (jw_pipe w)) \<and> pw_r2 (jw_pipe w) (pm_r2_key m) = body \<and>
      ((\<forall>s \<in> set todo. ms_message_id s \<noteq> pm_id m) \<or>
       (\<exists>s \<in> set (sd_state (pw_state (jw_pipe w))). ms_message_id s = pm_id m \<and> state_pk s \<notin> state_pk ` set todo)))"

lemma kept_purge:
  assumes "kept m body todo w" "smooth c" "pm_id x \<noteq> pm_id m"
  shows "kept m body todo (fst (purgeMessage c x w))"
proof -
  have "pm_r2_key x \<noteq> pm_r2_key m" if "\<not> list_ex (\<lambda>y. pm_r2_key y = pm_r2_key x \<and> pm_id y \<noteq> pm_id x) (pw_messages (jw_pipe w))"
    using that assms(1,3) by (auto simp: kept_def list_ex_iff)
  then show ?thesis
    using assms by (auto simp: purgeMessage_def kept_def smooth_def Let_def delete_message_def set_states_def)
qed

lemma kept_step:
  assumes "kept m body (s # todo) w" "smooth c"
  shows "kept m body todo (fst (expunge_state c s w))"
proof -
  let ?w1 = "set_states (filter (\<lambda>x. \<not> (ms_message_id x = ms_message_id s \<and> ms_mailbox_id x = ms_mailbox_id s)) (sd_state (pw_state (jw_pipe w)))) w"
  have k: "kept m body todo ?w1" "ms_message_id s = pm_id m \<Longrightarrow> list_ex (\<lambda>y. ms_message_id y = ms_message_id s) (sd_state (pw_state (jw_pipe ?w1)))"
    using assms(1) by (auto simp: kept_def set_states_def state_pk_def list_ex_iff)
  have "kept m body todo (fst (purgeMessage c x ?w1))" if "pm_id x = ms_message_id s" "ms_message_id s \<noteq> pm_id m" for x
    by (rule kept_purge [OF k(1) assms(2)]) (use that in simp)
  moreover have "kept m body todo w" using assms(1) by (auto simp: kept_def)
  ultimately show ?thesis
    using k assms(2) by (cases "ms_message_id s = pm_id m") (auto simp: expunge_state_def Let_def find_Some_iff smooth_def split: option.splits)
qed

lemma kept_all: "kept m body ss w \<Longrightarrow> smooth c \<Longrightarrow> kept m body [] (fst (expunge_all c ss w))"
proof (induction ss arbitrary: w)
  case (Cons s ss)
  obtain w1 r where r: "expunge_state c s w = (w1, r)" by fastforce
  have "kept m body ss w1" using kept_step [OF Cons.prems] r by simp
  then show ?case using Cons.IH [of w1] Cons.prems(2) r by (auto simp: kept_def split: sum.splits)
qed simp

lemma spared_kept:
  assumes "m \<in> set (pw_messages (jw_pipe w))" "spared c (sd_state (pw_state (jw_pipe w))) m" "state_wf (pw_state (jw_pipe w))"
  shows "kept m (pw_r2 (jw_pipe w) (pm_r2_key m)) (filter (stale_state c) (sd_state (pw_state (jw_pipe w)))) w"
proof -
  let ?states = "sd_state (pw_state (jw_pipe w))"
  have "state_pk x \<notin> state_pk ` set (filter (stale_state c) ?states)" if "x \<in> set ?states" "\<not> stale_state c x" for x
    using assms(3) that by (auto simp: state_wf_def distinct_map inj_on_def)
  then show ?thesis using assms(1,2) unfolding kept_def spared_def list_all_iff list_ex_iff by auto
qed

section \<open>Properties\<close>


text \<open>C40. A deleted message leaves its row behind without a body. When the row of an idempotency key names a message that is due, the body
  is deleted first and the deletion of the row is then refused; the run ends with an error, and the message is left pointing at
  nothing. No code ever gives a key an expiry, so the key is never swept.\<close>
theorem keyed_message_loses_body:
  assumes "r \<in> set (pw_idem (jw_pipe w))" "ik_message_id r = Some (pm_id m)" "smooth c" "\<not> jc_fails c ''r2 delete'' (pm_id m)"
    and "\<forall>x \<in> set (pw_messages (jw_pipe w)). pm_r2_key x = pm_r2_key m \<longrightarrow> x = m" "m \<in> set (pw_messages (jw_pipe w))"
  shows "\<exists>w' e. purgeMessage c m w = (w', Inl e) \<and> m \<in> set (pw_messages (jw_pipe w')) \<and> pw_r2 (jw_pipe w') (pm_r2_key m) = None"
proof -
  have "\<not> list_ex (\<lambda>x. pm_r2_key x = pm_r2_key m \<and> pm_id x \<noteq> pm_id m) (pw_messages (jw_pipe w))" using assms(5) by (auto simp: list_ex_iff)
  moreover have "referenced (pm_id m) (w\<lparr>jw_pipe := (jw_pipe w)\<lparr>pw_r2 := r2\<rparr>\<rparr>)" for r2
    using assms(1,2) by (auto simp: referenced_def list_ex_iff)
  ultimately show ?thesis using assms(3,4,6) by (auto simp: purgeMessage_def Let_def smooth_def)
qed

lemma keys_without_expiry_stay: "\<forall>r \<in> set (pw_idem (jw_pipe w)). jw_expires w r = None \<Longrightarrow> sweep_idem c w = w"
  by (simp add: sweep_idem_def filter_id_conv)

text \<open>A failed look-up counts as no other reference: the body goes although another message shares it.\<close>
lemma failed_lookup_deletes_shared_body:
  assumes "jc_fails c ''select other'' (pm_id m)" "\<not> jc_fails c ''r2 delete'' (pm_id m)" "pm_r2_key x = pm_r2_key m"
  shows "pw_r2 (jw_pipe (fst (purgeMessage c m w))) (pm_r2_key x) = None"
  using assms by (auto simp: purgeMessage_def Let_def delete_message_def set_states_def)


section \<open>Demonstration\<close>

definition demo_jc :: janitor_call where
  "demo_jc = \<lparr> jc_now = ''n'', jc_cutoff = (\<lambda>_. ''c''), jc_grace = None, jc_fails = (\<lambda>_ _. False) \<rparr>"

definition demo_jw :: janitor_world where
  "demo_jw = \<lparr> jw_pipe = fst (processMessage demo_pp (demo_pc (\<lambda>_. False) (\<lambda>_. False)) (demo_submission Dir_in) demo_w0), jw_expires = (\<lambda>_. None), jw_attempts = [] \<rparr>"

lemma demo_jw_wf: "pipe_wf demo_pp (jw_pipe demo_jw)"
proof -
  have "pipe_wf demo_pp demo_w0" by (simp add: pipe_wf_def bodies_ok_def demo_w0_def state_wf_def)
  moreover have "processMessage demo_pp pc (demo_submission Dir_in) demo_w0 =
      ingest demo_pp pc (demo_submission Dir_in) (sha256Hex (pp_crypto demo_pp) (pm_rawMime (demo_submission Dir_in)))
        (r2_key_of (sha256Hex (pp_crypto demo_pp) (pm_rawMime (demo_submission Dir_in)))) demo_w0" for pc
    by (simp add: processMessage_def Let_def demo_submission_def demo_w0_def)
  ultimately show ?thesis using ingest_wf by (simp add: demo_jw_def)
qed

lemma demo_jw_rows: "map ms_expunged_at (sd_state (pw_state (jw_pipe demo_jw))) = [None]" "length (pw_messages (jw_pipe demo_jw)) = 1"
  "map pm_id (pw_messages (jw_pipe demo_jw)) = [''00000000050000000000000000'']"
  by code_simp+


lemma keyed_message_loses_body_witness:
  "\<exists>m w w' e. purgeMessage demo_jc m w = (w', Inl e) \<and> m \<in> set (pw_messages (jw_pipe w')) \<and> pw_r2 (jw_pipe w') (pm_r2_key m) = None"
proof -
  obtain m where m: "pw_messages (jw_pipe demo_jw) = [m]" using demo_jw_rows(2) by (auto simp: length_Suc_conv)
  let ?r = "\<lparr> ik_principal_id = ''p'', ik_key = ''k'', ik_mailbox_id = ''mb'', ik_message_id = Some (pm_id m), ik_claim_locked = False, ik_created_at = ''t'' \<rparr>"
  let ?w = "demo_jw\<lparr>jw_pipe := (jw_pipe demo_jw)\<lparr>pw_idem := [?r]\<rparr>\<rparr>"
  have "smooth demo_jc" "\<not> jc_fails demo_jc ''r2 delete'' (pm_id m)" by (simp_all add: smooth_def demo_jc_def)
  from keyed_message_loses_body [of ?r ?w m demo_jc, OF _ _ this] m show ?thesis by auto
qed

end
