(* ===== verification/ChangeFeed.thy ===== *)
theory ChangeFeed
  imports Prelude
begin

text \<open>
  The contract of a change feed: rows carry a number drawn from a growing counter, every change of a row gives it a new number, and a
  client that remembers the last number it saw asks for the rows above it, a page at a time. What the client has copied stays right
  under every change of the rows, and a page brings it forward. The mailbox states of the IMAP bridge interpret it.
\<close>

section \<open>Copies\<close>

text \<open>A copy is right up to \<open>since\<close>: it has the value of every row numbered so far, and \<open>since\<close> lies below the numbers still to come.\<close>
definition in_sync :: "('k \<Rightarrow> (int \<times> 'v) option) \<Rightarrow> int \<Rightarrow> int \<Rightarrow> ('k \<Rightarrow> 'v option) \<Rightarrow> bool" where
  "in_sync rows mark since copy = (since < mark \<and> (\<forall>k n v. rows k = Some (n, v) \<longrightarrow> n \<le> since \<longrightarrow> copy k = Some v))"

text \<open>A page holds the rows numbered above \<open>since\<close> and up to \<open>hi\<close>.\<close>
definition page_of :: "('k \<Rightarrow> (int \<times> 'v) option) \<Rightarrow> int \<Rightarrow> int \<Rightarrow> ('k \<Rightarrow> 'v option) \<Rightarrow> bool" where
  "page_of rows since hi page = (\<forall>k v. page k = Some v \<longleftrightarrow> (\<exists>n. rows k = Some (n, v) \<and> since < n \<and> n \<le> hi))"

lemma page_brings_forward:
  assumes "in_sync rows mark since copy" "page_of rows since hi page" "since \<le> hi" "hi < mark"
  shows "in_sync rows mark hi (copy ++ page)"
proof -
  have "(copy ++ page) k = Some v" if r: "rows k = Some (n, v)" "n \<le> hi" for k n v
  proof (cases "n \<le> since")
    case True
    then have "page k = None" using assms(2) r(1) by (cases "page k") (auto simp: page_of_def)
    with True assms(1) r(1) show ?thesis by (simp add: in_sync_def map_add_def)
  next
    case False
    then have "page k = Some v" using assms(2) r by (auto simp: page_of_def)
    then show ?thesis by (simp add: map_add_def)
  qed
  with assms(4) show ?thesis by (simp add: in_sync_def)
qed

lemma caught_up: "in_sync rows mark since copy \<Longrightarrow> \<forall>k n v. rows k = Some (n, v) \<longrightarrow> n \<le> since \<Longrightarrow> rows k = Some (n, v) \<Longrightarrow> copy k = Some v"
  by (auto simp: in_sync_def)

locale change_feed =
  fixes rows :: "'w \<Rightarrow> 'k \<Rightarrow> (int \<times> 'v) option" and mark :: "'w \<Rightarrow> int" and inv :: "'w \<Rightarrow> bool" and step :: "'w \<Rightarrow> 'w \<Rightarrow> bool"
  assumes inv_step: "step w w' \<Longrightarrow> inv w \<Longrightarrow> inv w'"
    and mark_grows: "step w w' \<Longrightarrow> inv w \<Longrightarrow> mark w \<le> mark w'"
    and renumbered: "step w w' \<Longrightarrow> inv w \<Longrightarrow> rows w' k = Some (n, v) \<Longrightarrow> rows w k = Some (n, v) \<or> mark w \<le> n"
    and below_mark: "inv w \<Longrightarrow> rows w k = Some (n, v) \<Longrightarrow> n < mark w"
begin

lemma copy_stays_right:
  assumes "step w w'" "inv w" "in_sync (rows w) (mark w) since copy"
  shows "in_sync (rows w') (mark w') since copy"
proof -
  have "copy k = Some v" if "rows w' k = Some (n, v)" "n \<le> since" for k n v
    using renumbered [OF assms(1,2) that(1)] assms(3) that(2) by (auto simp: in_sync_def)
  then show ?thesis using assms(3) mark_grows [OF assms(1,2)] by (auto simp: in_sync_def)
qed

lemma steps_keep: "step\<^sup>*\<^sup>* w w' \<Longrightarrow> inv w \<Longrightarrow> inv w' \<and> mark w \<le> mark w'"
  by (induction rule: rtranclp_induct) (auto intro: inv_step dest: mark_grows)

lemma copy_stays_right_steps:
  "step\<^sup>*\<^sup>* w w' \<Longrightarrow> inv w \<Longrightarrow> in_sync (rows w) (mark w) since copy \<Longrightarrow> in_sync (rows w') (mark w') since copy"
  by (induction rule: rtranclp_induct) (auto intro: copy_stays_right dest: steps_keep)

text \<open>A row changed after the client looked is above what it saw.\<close>
lemma change_is_above:
  assumes "step\<^sup>*\<^sup>* w w'" "inv w" "in_sync (rows w) (mark w) since copy" "rows w' k = Some (n, v)" "copy k \<noteq> Some v"
  shows "since < n"
  using copy_stays_right_steps [OF assms(1-3)] assms(4,5) by (auto simp: in_sync_def not_le [symmetric])

end

section \<open>Pages of a sorted table\<close>

text \<open>\<^verbatim>\<open>ORDER BY key ASC LIMIT n\<close> over rows of distinct keys.\<close>
definition sorted_page :: "('r \<Rightarrow> int) \<Rightarrow> nat \<Rightarrow> 'r list \<Rightarrow> 'r list" where
  "sorted_page key n rs = take n (sort_key key rs)"

lemma sorted_page_subset: "r \<in> set (sorted_page key n rs) \<Longrightarrow> r \<in> set rs"
  by (metis in_set_takeD set_sort sorted_page_def)

lemma sorted_page_downward:
  assumes "distinct (map key rs)" "r \<in> set (sorted_page key n rs)" "s \<in> set rs" "key s \<le> key r"
  shows "s \<in> set (sorted_page key n rs)"
proof (rule ccontr)
  let ?ss = "sort_key key rs"
  assume "s \<notin> set (sorted_page key n rs)"
  then have d: "s \<in> set (drop n ?ss)" using assms(3) by (metis append_take_drop_id set_append set_sort sorted_page_def Un_iff)
  have t: "r \<in> set (take n ?ss)" using assms(2) by (simp add: sorted_page_def)
  have "sorted (map key (take n ?ss @ drop n ?ss))" by simp
  then have "key r \<le> key s" using d t by (auto simp only: map_append sorted_append set_map)
  then have "key r = key s" using assms(4) by simp
  moreover have "distinct (map key (take n ?ss @ drop n ?ss))" using assms(1) by (simp add: distinct_map)
  ultimately show False using d t by (auto simp only: map_append distinct_append set_map)
qed

lemma sorted_page_empty: "0 < n \<Longrightarrow> sorted_page key n rs = [] \<longleftrightarrow> rs = []"
  by (metis length_0_conv length_sort neq0_conv sorted_page_def take_eq_Nil)

end
