(* ===== verification/MessageState.thy ===== *)
theory MessageState
  imports BridgeAuth Fanout Janitor ChangeFeed
begin

text \<open>
  The message-state endpoints of the IMAP bridge, \<^verbatim>\<open>services/api/src/routes/messages-state.ts\<close>: setting flags, soft deletion, the purge of
  deleted messages, bulk reading, the delta of changes, and the first synchronisation. The callers are authenticated here and not
  by the middleware. The state is the one of the pipeline and of the nightly clean-up; each statement may fail, and the updates may
  also take effect and lose their answer.
\<close>

section \<open>Data\<close>

text \<open>The columns of \<^verbatim>\<open>messages\<close> the pipeline does not write when it stores a message.\<close>
record later_columns =
  lc_received_at_bridge :: "string option"
  lc_sending_at :: "string option"
  lc_sent_at :: "string option"
  lc_delivered_at :: "string option"
  lc_failed_at :: "string option"
  lc_bounce_metadata :: "string option"
  lc_last_error :: "string option"

record sync_world =
  sw_auth :: auth_world
  sw_store :: janitor_world
  sw_later :: "string \<Rightarrow> later_columns"

record sync_platform =
  sp_auth :: auth_platform
  sp_fan :: fan_platform
  sp_String :: "json \<Rightarrow> string" \<comment> \<open>\<^verbatim>\<open>String(x)\<close>\<close>

text \<open>A request: its path parameter and query, the clock, and faults by statement and message id. The two change counters are those
  of a first touch and of the change itself.\<close>
record sync_call =
  sc_ctx :: http_ctx
  sc_auth :: auth_call
  sc_id :: string
  sc_query :: "string \<Rightarrow> string option"
  sc_now :: string
  sc_nowMs :: int
  sc_inline_max :: "string option" \<comment> \<open>\<^verbatim>\<open>INLINE_BODY_BYTES_MAX\<close>\<close>
  sc_fails :: "string \<Rightarrow> string \<Rightarrow> bool"
  sc_uid_faults :: "string \<Rightarrow> nat \<Rightarrow> fault"
  sc_touch_faults :: "string \<Rightarrow> nat \<Rightarrow> fault"
  sc_change_faults :: "string \<Rightarrow> nat \<Rightarrow> fault"
  sc_update_fault :: "string \<Rightarrow> fault"
  sc_audit_others :: "nat \<Rightarrow> audit_table \<Rightarrow> audit_table"

record AuthenticatedCaller =
  cl_bridge :: bool
  cl_key_id :: string
  cl_mailbox_id :: "string option"
  cl_operator_id :: "string option"
  cl_scopes :: json
  cl_isBridge :: bool

section \<open>Callers\<close>

definition bridge_caller :: "string \<Rightarrow> AuthenticatedCaller" where
  "bridge_caller bridgeId =
     \<lparr> cl_bridge = True, cl_key_id = bridgeId, cl_mailbox_id = None, cl_operator_id = None,
       cl_scopes = JArr [JStr ''imap_bridge:read'', JStr ''messages:read''], cl_isBridge = True \<rparr>"

text \<open>Lines 70 to 106.\<close>
definition authenticate_bridge ::
  "auth_platform \<Rightarrow> http_ctx \<Rightarrow> auth_call \<Rightarrow> string \<Rightarrow> auth_world \<Rightarrow> auth_world \<times> AuthenticatedCaller outcome" where
  "authenticate_bridge P c pc bridgeId w =
     (if \<not> ULID_RE bridgeId then (w, Respond (buildError c Unauthorized ''invalid bridge_id format'' []))
      else case lookupBridgeSecret pc bridgeId w of
        Inl e \<Rightarrow> (w, outcome.Threw e)
      | Inr (Inl Bridge_key_propagating) \<Rightarrow>
          (w, Respond (buildError c Key_propagating ''bridge plaintext not in cache; rotate to repopulate'' [(''retry-after'', ''2'')]))
      | Inr (Inl e) \<Rightarrow> (w, Respond (buildError c Unauthorized (''bridge: '' @ bridge_err_code e) []))
      | Inr (Inr secret) \<Rightarrow>
          (case verify (ap_hmac P) (api_verify_input c pc secret) of
             VErr vc _ \<Rightarrow> (w, Respond (buildError c Unauthorized (''bridge HMAC: '' @ verify_code_name vc) []))
           | VOk _ _ \<Rightarrow> (touchBridgeLastSeen pc bridgeId w, Next (bridge_caller bridgeId))))"

text \<open>Lines 113 to 163: the row comes from D1, not from the cache. The status is tested before the operator is looked up; the rest is
  the middleware's.\<close>
definition caller_key ::
  "auth_platform \<Rightarrow> http_ctx \<Rightarrow> auth_call \<Rightarrow> string \<Rightarrow> auth_world \<Rightarrow> auth_world \<times> (RowShape \<times> string) outcome" where
  "caller_key P c pc keyId w =
     (if ac_fails pc ''select api_keys'' then (w, outcome.Threw ''select api_keys'')
      else case find (\<lambda>r. rs_id r = keyId) (aw_api_keys w) of
        None \<Rightarrow> (w, Respond (buildError c Key_propagating ''unknown key id'' [(''retry-after'', ''2'')]))
      | Some r \<Rightarrow>
          if rs_status r = Revoked \<or> rs_revoked_at r \<noteq> None then (w, Respond (buildError c Key_revoked ''key has been revoked'' []))
          else if ac_fails pc ''select operators'' then (w, outcome.Threw ''select operators'')
          else if (case find (\<lambda>oper. op_id oper = rs_operator_id r) (aw_operators w) of
                     None \<Rightarrow> True | Some oper \<Rightarrow> truthy_opt (op_disabled_at oper))
          then (w, Respond (buildError c Key_revoked ''operator disabled'' []))
          else verify_key P c pc keyId w (Some r))"

text \<open>The nonce is written in the background: the request goes on whether or not the write succeeds.\<close>
definition nonce_in_background :: "auth_call \<Rightarrow> string \<Rightarrow> string \<Rightarrow> auth_world \<Rightarrow> auth_world" where
  "nonce_in_background pc keyId nonce w = fst (nonce_record pc keyId nonce w)"

definition key_caller :: "auth_platform \<Rightarrow> http_ctx \<Rightarrow> RowShape \<Rightarrow> AuthenticatedCaller outcome" where
  "key_caller P c r =
     (case ap_parse P (rs_scopes r) of
        None \<Rightarrow> Respond (buildError c Forbidden ''scopes parse failed'' [])
      | Some j \<Rightarrow>
          (case scopes_include j ''imap_bridge:read'' of
             None \<Rightarrow> outcome.Threw ''TypeError''
           | Some b \<Rightarrow> Next \<lparr> cl_bridge = False, cl_key_id = rs_id r, cl_mailbox_id = None, cl_operator_id = Some (rs_operator_id r),
               cl_scopes = j, cl_isBridge = b \<rparr>))"

definition authenticate_key ::
  "auth_platform \<Rightarrow> http_ctx \<Rightarrow> auth_call \<Rightarrow> string \<Rightarrow> auth_world \<Rightarrow> auth_world \<times> AuthenticatedCaller outcome" where
  "authenticate_key P c pc keyId w =
     (if \<not> ULID_RE keyId then (w, Respond (buildError c Unauthorized ''X-Polaris-Key-Id format'' []))
      else and_then (caller_key P c pc keyId w) (\<lambda>w (r, nonce).
           and_then (nonce_check c pc keyId nonce w) (\<lambda>w _.
             (nonce_in_background pc keyId nonce w, key_caller P c r))))"

definition authenticateCaller ::
  "auth_platform \<Rightarrow> http_ctx \<Rightarrow> auth_call \<Rightarrow> auth_world \<Rightarrow> auth_world \<times> AuthenticatedCaller outcome" where
  "authenticateCaller P c pc w =
     (case (nonempty (hc_header c ''x-polaris-key-id''), nonempty (hc_header c ''x-polaris-bridge-id'')) of
        (None, Some bridgeId) \<Rightarrow> authenticate_bridge P c pc bridgeId w
      | (None, None) \<Rightarrow> (w, Respond (buildError c Unauthorized ''X-Polaris-Key-Id or X-Polaris-Bridge-Id required'' []))
      | (Some keyId, _) \<Rightarrow> authenticate_key P c pc keyId w)"

definition has_scope :: "AuthenticatedCaller \<Rightarrow> string \<Rightarrow> bool" where
  "has_scope cl s = (scopes_include (cl_scopes cl) s = Some True)"

definition hasReadScope :: "AuthenticatedCaller \<Rightarrow> bool" where
  "hasReadScope cl = (has_scope cl ''messages:read'' \<or> has_scope cl ''imap_bridge:read'' \<or> has_scope cl ''admin:read'')"

definition hasMutateScope :: "AuthenticatedCaller \<Rightarrow> bool" where
  "hasMutateScope cl = (has_scope cl ''messages:read'' \<or> has_scope cl ''imap_bridge:read'')"

section \<open>Flags\<close>

definition SEEN :: string where "SEEN = CHR 0x5C # ''Seen''"

definition SystemFlag :: "string list" where
  "SystemFlag = [SEEN, CHR 0x5C # ''Answered'', CHR 0x5C # ''Flagged'', CHR 0x5C # ''Deleted'']"

definition MessageFlag :: "json \<Rightarrow> string option" where
  "MessageFlag j =
     (case j of
        JStr s \<Rightarrow>
          if s \<in> set SystemFlag \<or>
             (1 \<le> length s \<and> length s \<le> 64 \<and> hd s \<noteq> CHR 0x5C \<and> list_all (\<lambda>ch. \<not> is_space ch) s)
          then Some s else None
      | _ \<Rightarrow> None)"

definition json_strings :: "json list \<Rightarrow> string list" where
  "json_strings xs = List.map_filter (\<lambda>j. case j of JStr s \<Rightarrow> Some s | _ \<Rightarrow> None) xs"

definition parseFlags :: "auth_platform \<Rightarrow> string \<Rightarrow> string list" where
  "parseFlags P s = (case ap_parse P s of Some (JArr xs) \<Rightarrow> json_strings xs | _ \<Rightarrow> [])"

definition flags_json :: "auth_platform \<Rightarrow> string list \<Rightarrow> string" where
  "flags_json P flags = ap_stringify P (JArr (map JStr flags))"

fun check_flags :: "json list \<Rightarrow> json + string list" where
  "check_flags [] = Inr []"
| "check_flags (j # js) =
     (case MessageFlag j of
        None \<Rightarrow> Inl j
      | Some f \<Rightarrow> (case check_flags js of Inl e \<Rightarrow> Inl e | Inr fs \<Rightarrow> Inr (f # fs)))"

text \<open>Lines 282 to 300; \<^const>\<open>None\<close> leaves the flags as they are.\<close>
definition patch_flags :: "sync_platform \<Rightarrow> http_ctx \<Rightarrow> string list option outcome" where
  "patch_flags P c =
     (if hc_body c = [] then Next None
      else case ap_parse (sp_auth P) (hc_body c) of
        None \<Rightarrow> Respond (buildError c Bad_request ''invalid JSON'' [])
      | Some JNull \<Rightarrow> outcome.Threw ''TypeError''
      | Some j \<Rightarrow>
          (case jfield j ''flags'' of
             None \<Rightarrow> Next None
           | Some (JArr xs) \<Rightarrow>
               (case check_flags xs of
                  Inl bad \<Rightarrow> Respond (buildError c Bad_request (''invalid flag: '' @ sp_String P bad) [])
                | Inr fs \<Rightarrow> Next (Some fs))
           | Some _ \<Rightarrow> Respond (buildError c Bad_request ''flags must be array'' [])))"

section \<open>Statements on the state\<close>

definition sw_db :: "sync_world \<Rightarrow> state_db" where
  "sw_db w = pw_state (jw_pipe (sw_store w))"

definition set_db :: "state_db \<Rightarrow> sync_world \<Rightarrow> sync_world" where
  "set_db db w = w\<lparr>sw_store := (sw_store w)\<lparr>jw_pipe := (jw_pipe (sw_store w))\<lparr>pw_state := db\<rparr>\<rparr>\<rparr>"

definition on_db :: "(state_db \<Rightarrow> state_db \<times> (string + 'a)) \<Rightarrow> sync_world \<Rightarrow> sync_world \<times> 'a outcome" where
  "on_db f w = (case f (sw_db w) of (db, r) \<Rightarrow> (set_db db w, case r of Inl e \<Rightarrow> outcome.Threw e | Inr x \<Rightarrow> Next x))"

definition on_auth :: "(auth_world \<Rightarrow> auth_world \<times> 'a outcome) \<Rightarrow> sync_world \<Rightarrow> sync_world \<times> 'a outcome" where
  "on_auth f w = (case f (sw_auth w) of (a, r) \<Rightarrow> (w\<lparr>sw_auth := a\<rparr>, r))"

definition ensure_state :: "sync_call \<Rightarrow> string \<Rightarrow> string \<Rightarrow> state_db \<Rightarrow> state_db \<times> (string + MailboxStateRow)" where
  "ensure_state c mb i db =
     (if sc_fails c ''select state'' i then (db, Inl ''select state'')
      else ensureMailboxState (sc_uid_faults c i) (sc_touch_faults c i) (sc_nowMs c) mb i db)"

definition alloc_change :: "sync_call \<Rightarrow> string \<Rightarrow> string \<Rightarrow> state_db \<Rightarrow> state_db \<times> (string + int)" where
  "alloc_change c mb i db =
     (case allocChangeId (sc_change_faults c i) mb (sd_change db) of (t, r) \<Rightarrow> (db\<lparr>sd_change := t\<rparr>, r))"

text \<open>\<^verbatim>\<open>UPDATE mailbox_messages_state SET ... WHERE mailbox_id = ? AND message_id = ?\<close>\<close>
definition update_row :: "string \<Rightarrow> string \<Rightarrow> (MailboxStateRow \<Rightarrow> MailboxStateRow) \<Rightarrow> state_db \<Rightarrow> state_db" where
  "update_row mb i f db =
     db\<lparr>sd_state := map (\<lambda>r. if ms_mailbox_id r = mb \<and> ms_message_id r = i then f r else r) (sd_state db)\<rparr>"

definition update_state ::
  "sync_call \<Rightarrow> string \<Rightarrow> string \<Rightarrow> (MailboxStateRow \<Rightarrow> MailboxStateRow) \<Rightarrow> state_db \<Rightarrow> state_db \<times> (string + unit)" where
  "update_state c mb i f db =
     (case exec (sc_update_fault c i) (\<lambda>d. (update_row mb i f d, Some ())) db of
        (db', None) \<Rightarrow> (db', Inl ''update state'')
      | (db', Some _) \<Rightarrow> (db', Inr ()))"

definition sync_audit :: "sync_platform \<Rightarrow> sync_call \<Rightarrow> AuthenticatedCaller \<Rightarrow> string \<Rightarrow> string \<Rightarrow> json \<Rightarrow> sync_world \<Rightarrow> sync_world \<times> unit outcome" where
  "sync_audit P c cl action target meta w =
     (let pipe = jw_pipe (sw_store w) in
      case audit (ap_hmac (sp_auth P))
             \<lparr> aa_actor = (case cl_operator_id cl of Some oper \<Rightarrow> oper | None \<Rightarrow> cl_key_id cl), aa_action = action, aa_target = Some target,
               aa_meta = ap_stringify (sp_auth P) meta, aa_at = sc_nowMs c \<rparr>
             (sc_audit_others c) (pw_audit pipe) of
        (a, r) \<Rightarrow> (w\<lparr>sw_store := (sw_store w)\<lparr>jw_pipe := pipe\<lparr>pw_audit := a\<rparr>\<rparr>\<rparr>,
                  case r of None \<Rightarrow> outcome.Threw ''audit'' | Some _ \<Rightarrow> Next ()))"

section \<open>Messages\<close>

definition loadMessage :: "sync_call \<Rightarrow> string \<Rightarrow> sync_world \<Rightarrow> pm_message option outcome" where
  "loadMessage c i w =
     (if sc_fails c ''select message'' i then outcome.Threw ''select message''
      else Next (find (\<lambda>m. pm_id m = i) (pw_messages (jw_pipe (sw_store w)))))"

text \<open>\<^verbatim>\<open>auth.mailbox_id && row.mailbox_id !== auth.mailbox_id\<close>\<close>
definition other_mailbox :: "AuthenticatedCaller \<Rightarrow> string \<Rightarrow> bool" where
  "other_mailbox cl mb = (truthy_opt (cl_mailbox_id cl) \<and> cl_mailbox_id cl \<noteq> Some mb)"

definition load_owned :: "sync_call \<Rightarrow> AuthenticatedCaller \<Rightarrow> string \<Rightarrow> sync_world \<Rightarrow> sync_world \<times> pm_message outcome" where
  "load_owned c cl i w =
     (w, case loadMessage c i w of
           outcome.Threw e \<Rightarrow> outcome.Threw e
         | Respond r \<Rightarrow> Respond r
         | Next None \<Rightarrow> Respond (buildError (sc_ctx c) Not_found ''message not found'' [])
         | Next (Some m) \<Rightarrow>
             if other_mailbox cl (pm_mailbox_id m) then Respond (buildError (sc_ctx c) Not_found ''message not found'' []) else Next m)"

text \<open>The row as \<^verbatim>\<open>SELECT *\<close> returns it.\<close>
definition full_row :: "later_columns \<Rightarrow> pm_message \<Rightarrow> MessageRowFull" where
  "full_row l m =
     \<lparr> rm_id = pm_id m, rm_mailbox_id = pm_mailbox_id m, rm_direction = (case pm_dir m of Dir_in \<Rightarrow> ''in'' | Dir_out \<Rightarrow> ''out''),
       rm_status = pm_status m, rm_thread_id = pm_thread_id m, rm_header_message_id = pm_header_message_id m,
       rm_auth_spf = pa_spf (pm_auth_row m), rm_auth_dkim = pa_dkim (pm_auth_row m), rm_auth_dmarc = pa_dmarc (pm_auth_row m),
       rm_auth_remote_ip = pa_remoteIp (pm_auth_row m), rm_body_bytes = Some (pm_body_bytes m),
       rm_attachments_total_bytes = Some (pm_attachments_total_bytes m), rm_received_at_bridge = lc_received_at_bridge l,
       rm_received_at_api = Some (pm_received_at_api m), rm_queued_at = pm_queued_at m, rm_sending_at = lc_sending_at l,
       rm_sent_at = lc_sent_at l, rm_delivered_at = lc_delivered_at l, rm_failed_at = lc_failed_at l,
       rm_bounce_metadata = lc_bounce_metadata l, rm_last_error = lc_last_error l, rm_created_at = pm_created_at m,
       mr_r2_key = pm_r2_key m \<rparr>"

definition rowMeta :: "MessageRowFull \<Rightarrow> MessageRowMeta" where
  "rowMeta row = MessageRowMeta.truncate row"

definition DEFAULT_INLINE_BODY_BYTES :: int where "DEFAULT_INLINE_BODY_BYTES = 65536"

definition inlineBodyMax :: "string option \<Rightarrow> int" where
  "inlineBodyMax env =
     (case nonempty env of
        None \<Rightarrow> DEFAULT_INLINE_BODY_BYTES
      | Some s \<Rightarrow> (case js_Number s of Some v \<Rightarrow> if v > 0 then v else DEFAULT_INLINE_BODY_BYTES | None \<Rightarrow> DEFAULT_INLINE_BODY_BYTES))"

definition strip_bodies :: "UnifiedMessage \<Rightarrow> UnifiedMessage" where
  "strip_bodies m = m\<lparr>um_text := None, um_html := None\<rparr>"

definition renderMessage :: "sync_platform \<Rightarrow> sync_call \<Rightarrow> bytes \<Rightarrow> MessageRowFull \<Rightarrow> bool \<Rightarrow> webhook_message outcome" where
  "renderMessage P c raw row stripBodies =
     (case mimeToMessage (fp_mime (sp_fan P)) (ap_parse (sp_auth P)) raw (rowMeta row) of
        Inl _ \<Rightarrow> outcome.Threw ''mime''
      | Inr msg \<Rightarrow>
          let bodyUrl = r2PublicUrl (fp_host (sp_fan P)) (mr_r2_key row) None;
              plain = map (\<lambda>a. \<lparr> wa_meta = a, wa_url = None \<rparr>) (um_attachments msg) in
          if stripBodies
          then Next \<lparr> wm_message = strip_bodies msg, wm_body_url = Some bodyUrl, wm_attachments = plain \<rparr>
          else (case extractAttachmentParts (fp_mime (sp_fan P)) raw of
                  Inl _ \<Rightarrow> outcome.Threw ''mime''
                | Inr parts \<Rightarrow>
                    let bodyTotal = (case um_body_bytes msg of Some n \<Rightarrow> n | None \<Rightarrow> int (length raw)) in
                    Next \<lparr> wm_message = (if bodyTotal > inlineBodyMax (sc_inline_max c) then strip_bodies msg else msg),
                      wm_body_url = Some bodyUrl, wm_attachments = link_attachments (sp_fan P) plain parts \<rparr>))"

definition loadR2Bytes :: "sync_call \<Rightarrow> pm_message \<Rightarrow> sync_world \<Rightarrow> bytes option outcome" where
  "loadR2Bytes c m w =
     (if sc_fails c ''r2 get'' (pm_id m) then outcome.Threw ''r2 get'' else Next (pw_r2 (jw_pipe (sw_store w)) (pm_r2_key m)))"

definition render_row :: "sync_platform \<Rightarrow> sync_call \<Rightarrow> bytes \<Rightarrow> pm_message \<Rightarrow> bool \<Rightarrow> sync_world \<Rightarrow> webhook_message outcome" where
  "render_row P c raw m stripBodies w = renderMessage P c raw (full_row (sw_later w (pm_id m)) m) stripBodies"

definition autoMarkRead :: "sync_platform \<Rightarrow> sync_call \<Rightarrow> string \<Rightarrow> string \<Rightarrow> sync_world \<Rightarrow> sync_world \<times> unit outcome" where
  "autoMarkRead P c mb i w =
     and_then (on_db (ensure_state c mb i) w) (\<lambda>w s.
       if truthy_opt (ms_read_at s) then (w, Next ())
       else let old = parseFlags (sp_auth P) (ms_flags_json s);
                flags = (if SEEN \<in> set old then old else old @ [SEEN]) in
         and_then (on_db (alloc_change c mb i) w) (\<lambda>w n.
         on_db (update_state c mb i (\<lambda>r. r\<lparr>ms_read_at := Some (sc_now c), ms_flags_json := flags_json (sp_auth P) flags, ms_change_id := n\<rparr>)) w))"

section \<open>Handlers\<close>

definition with_caller ::
  "sync_platform \<Rightarrow> sync_call \<Rightarrow> string \<Rightarrow> (AuthenticatedCaller \<Rightarrow> bool) \<Rightarrow> string \<Rightarrow> (AuthenticatedCaller \<Rightarrow> sync_world \<Rightarrow> sync_world \<times> 'a outcome)
     \<Rightarrow> sync_world \<Rightarrow> sync_world \<times> 'a outcome" where
  "with_caller P c body allowed scope handler w =
     and_then (on_auth (authenticateCaller (sp_auth P) ((sc_ctx c)\<lparr>hc_body := body\<rparr>) (sc_auth c)) w) (\<lambda>w cl.
       if \<not> allowed cl then (w, Respond (buildError (sc_ctx c) Scope_violation (''missing scope '' @ scope) []))
       else handler cl w)"

record flag_change =
  fg_flags :: "string list"
  fg_read_at :: "string option"
  fg_change_id :: int
  fg_newly_seen :: bool

text \<open>Lines 308 to 322.\<close>
definition set_flags :: "sync_platform \<Rightarrow> sync_call \<Rightarrow> string list option \<Rightarrow> pm_message \<Rightarrow> sync_world \<Rightarrow> sync_world \<times> flag_change outcome" where
  "set_flags P c flags m w =
     (let mb = pm_mailbox_id m; i = pm_id m in
      and_then (on_db (ensure_state c mb i) w) (\<lambda>w s.
      let oldFlags = parseFlags (sp_auth P) (ms_flags_json s);
          newFlags = (case flags of Some fs \<Rightarrow> fs | None \<Rightarrow> oldFlags);
          newly = (SEEN \<notin> set oldFlags \<and> SEEN \<in> set newFlags);
          readAt = (if newly then Some (sc_now c) else ms_read_at s) in
      and_then (on_db (alloc_change c mb i) w) (\<lambda>w n.
      and_then (on_db (update_state c mb i
          (\<lambda>r. r\<lparr>ms_flags_json := flags_json (sp_auth P) newFlags, ms_read_at := readAt, ms_change_id := n\<rparr>)) w) (\<lambda>w _.
        (w, Next \<lparr> fg_flags = newFlags, fg_read_at = readAt, fg_change_id = n, fg_newly_seen = newly \<rparr>)))))"

record patch_reply =
  pt_message :: webhook_message
  pt_change :: flag_change

definition patch_message :: "sync_platform \<Rightarrow> sync_call \<Rightarrow> sync_world \<Rightarrow> sync_world \<times> patch_reply outcome" where
  "patch_message P c w =
     (if \<not> ULID_RE (sc_id c) then (w, Respond (buildError (sc_ctx c) Bad_request ''invalid message id'' []))
      else with_caller P c (hc_body (sc_ctx c)) hasMutateScope ''messages:read'' (\<lambda>cl w.
        and_then (w, patch_flags P (sc_ctx c)) (\<lambda>w flags.
        and_then (load_owned c cl (sc_id c) w) (\<lambda>w m.
        and_then (set_flags P c flags m w) (\<lambda>w chg.
        and_then (if fg_newly_seen chg
                  then sync_audit P c cl ''message.marked_read'' (sc_id c) (JObj [(''mailbox_id'', JStr (pm_mailbox_id m))]) w
                  else (w, Next ())) (\<lambda>w _.
        and_then (w, loadR2Bytes c m w) (\<lambda>w raw.
          case raw of
            None \<Rightarrow> (w, Respond (buildError (sc_ctx c) Degraded ''message body missing from R2'' []))
          | Some bs \<Rightarrow> and_then (w, render_row P c bs m False w) (\<lambda>w msg. (w, Next \<lparr> pt_message = msg, pt_change = chg \<rparr>)))))))) w)"

definition delete_route :: "sync_platform \<Rightarrow> sync_call \<Rightarrow> sync_world \<Rightarrow> sync_world \<times> unit outcome" where
  "delete_route P c w =
     (if \<not> ULID_RE (sc_id c) then (w, Respond (buildError (sc_ctx c) Bad_request ''invalid message id'' []))
      else with_caller P c [] hasMutateScope ''messages:read'' (\<lambda>cl w.
        and_then (load_owned c cl (sc_id c) w) (\<lambda>w m.
        let mb = pm_mailbox_id m; i = pm_id m in
        and_then (on_db (ensure_state c mb i) w) (\<lambda>w _.
        and_then (on_db (alloc_change c mb i) w) (\<lambda>w n.
        and_then (on_db (update_state c mb i (\<lambda>r. r\<lparr>ms_expunged_at := Some (sc_now c), ms_change_id := n\<rparr>)) w) (\<lambda>w _.
        sync_audit P c cl ''message.expunged'' (sc_id c) (JObj [(''mailbox_id'', JStr mb), (''soft'', JBool True)]) w))))) w)"

text \<open>\<^verbatim>\<open>purgeMessageRow\<close> of \<^verbatim>\<open>lib/state.ts\<close> on the whole store; the foreign keys are those of the clean-up. The result says whether
  the body was deleted.\<close>
definition purge_row :: "sync_call \<Rightarrow> pm_message \<Rightarrow> janitor_world \<Rightarrow> janitor_world \<times> (string + bool)" where
  "purge_row c row w =
     (let other = (\<not> sc_fails c ''select other'' (pm_id row) \<and>
                   list_ex (\<lambda>m. pm_r2_key m = pm_r2_key row \<and> pm_id m \<noteq> pm_id row) (pw_messages (jw_pipe w)));
          r2Deleted = (\<not> other \<and> \<not> sc_fails c ''r2 delete'' (pm_id row));
          w1 = (if r2Deleted then w\<lparr>jw_pipe := (jw_pipe w)\<lparr>pw_r2 := (pw_r2 (jw_pipe w))(pm_r2_key row := None)\<rparr>\<rparr> else w)
      in if sc_fails c ''delete message'' (pm_id row) \<or> referenced (pm_id row) w1 then (w1, Inl ''delete message'')
         else (delete_message (pm_id row) w1, Inr r2Deleted))"

text \<open>Lines 402 to 421: one row.\<close>
definition expunge_row :: "sync_call \<Rightarrow> string \<Rightarrow> string \<Rightarrow> janitor_world \<Rightarrow> janitor_world \<times> (string + bool)" where
  "expunge_row c mb i w =
     (if sc_fails c ''delete state'' i then (w, Inl ''delete state'')
      else let w1 = set_states (filter (\<lambda>x. \<not> (ms_message_id x = i \<and> ms_mailbox_id x = mb)) (sd_state (pw_state (jw_pipe w)))) w in
        if \<not> sc_fails c ''select other state'' i \<and> list_ex (\<lambda>x. ms_message_id x = i) (sd_state (pw_state (jw_pipe w1))) then (w1, Inr False)
        else if sc_fails c ''select message'' i then (w1, Inl ''select message'')
        else case find (\<lambda>m. pm_id m = i) (pw_messages (jw_pipe w1)) of
          None \<Rightarrow> (w1, Inr False)
        | Some m \<Rightarrow> purge_row c m w1)"

fun expunge_rows :: "sync_call \<Rightarrow> string \<Rightarrow> string list \<Rightarrow> nat \<times> nat \<Rightarrow> janitor_world \<Rightarrow> janitor_world \<times> (string + nat \<times> nat)" where
  "expunge_rows c mb [] counts w = (w, Inr counts)"
| "expunge_rows c mb (i # is) counts w =
     (case expunge_row c mb i w of
        (w1, Inl e) \<Rightarrow> (w1, Inl e)
      | (w1, Inr freed) \<Rightarrow> expunge_rows c mb is (fst counts + 1, snd counts + (if freed then 1 else 0)) w1)"

definition expunged_ids :: "string \<Rightarrow> state_db \<Rightarrow> string list" where
  "expunged_ids mb db = map ms_message_id (filter (\<lambda>r. ms_mailbox_id r = mb \<and> ms_expunged_at r \<noteq> None) (sd_state db))"

definition expunge_route :: "sync_platform \<Rightarrow> sync_call \<Rightarrow> sync_world \<Rightarrow> sync_world \<times> (nat \<times> nat) outcome" where
  "expunge_route P c w =
     (if \<not> ULID_RE (sc_id c) then (w, Respond (buildError (sc_ctx c) Bad_request ''invalid mailbox id'' []))
      else with_caller P c (hc_body (sc_ctx c)) (\<lambda>cl. has_scope cl ''admin:rotate'') ''admin:rotate'' (\<lambda>cl w.
        if sc_fails c ''select expunged'' [] then (w, outcome.Threw ''select expunged'')
        else case expunge_rows c (sc_id c) (expunged_ids (sc_id c) (sw_db w)) (0, 0) (sw_store w) of
          (j, Inl e) \<Rightarrow> (w\<lparr>sw_store := j\<rparr>, outcome.Threw e)
        | (j, Inr (removed, r2Freed)) \<Rightarrow>
            and_then (sync_audit P c cl ''mailbox.expunge'' (sc_id c)
                (JObj [(''removed'', JNum (of_nat removed)), (''r2_freed'', JNum (of_nat r2Freed))]) (w\<lparr>sw_store := j\<rparr>)) (\<lambda>w _.
              (w, Next (removed, r2Freed)))) w)"

text \<open>Lines 452 to 474: one id of the bulk request; the second component is the id when it is not found.\<close>
definition get_one ::
  "sync_platform \<Rightarrow> sync_call \<Rightarrow> AuthenticatedCaller \<Rightarrow> string \<Rightarrow> sync_world \<Rightarrow> sync_world \<times> (webhook_message list \<times> string list) outcome" where
  "get_one P c cl i w =
     (if \<not> ULID_RE i then (w, Next ([], [i]))
      else and_then (w, loadMessage c i w) (\<lambda>w row.
        case row of
          None \<Rightarrow> (w, Next ([], [i]))
        | Some m \<Rightarrow>
            if other_mailbox cl (pm_mailbox_id m) then (w, Next ([], [i]))
            else and_then (w, loadR2Bytes c m w) (\<lambda>w raw.
              case raw of
                None \<Rightarrow> (w, Next ([], [i]))
              | Some bs \<Rightarrow> and_then (w, render_row P c bs m False w) (\<lambda>w msg.
                  and_then (if cl_isBridge cl then autoMarkRead P c (pm_mailbox_id m) i w else (w, Next ())) (\<lambda>w _.
                    (w, Next ([msg], [])))))))"

fun get_each ::
  "sync_platform \<Rightarrow> sync_call \<Rightarrow> AuthenticatedCaller \<Rightarrow> string list \<Rightarrow> webhook_message list \<times> string list \<Rightarrow> sync_world
     \<Rightarrow> sync_world \<times> (webhook_message list \<times> string list) outcome" where
  "get_each P c cl [] acc w = (w, Next acc)"
| "get_each P c cl (i # is) acc w =
     and_then (get_one P c cl i w) (\<lambda>w (d, nf). get_each P c cl is (fst acc @ d, snd acc @ nf) w)"

definition get_ids :: "sync_platform \<Rightarrow> http_ctx \<Rightarrow> string list outcome" where
  "get_ids P c =
     (case ap_parse (sp_auth P) (hc_body c) of
        None \<Rightarrow> Respond (buildError c Bad_request ''invalid JSON'' [])
      | Some JNull \<Rightarrow> outcome.Threw ''TypeError''
      | Some j \<Rightarrow>
          (case jfield j ''ids'' of
             Some (JArr xs) \<Rightarrow> Next (take 200 (json_strings xs))
           | _ \<Rightarrow> Respond (buildError c Bad_request ''ids must be array'' [])))"

definition get_messages :: "sync_platform \<Rightarrow> sync_call \<Rightarrow> sync_world \<Rightarrow> sync_world \<times> (webhook_message list \<times> string list) outcome" where
  "get_messages P c w =
     with_caller P c (hc_body (sc_ctx c)) hasReadScope ''messages:read'' (\<lambda>cl w.
       and_then (w, get_ids P (sc_ctx c)) (\<lambda>w ids. get_each P c cl ids ([], []) w)) w"

text \<open>\<^verbatim>\<open>Math.min(500, Math.max(1, Number.parseInt(q ?? '100', 10) || 100))\<close>\<close>
definition page_limit :: "string option \<Rightarrow> nat" where
  "page_limit q =
     (let n = (case js_parseInt 10 (case q of Some s \<Rightarrow> s | None \<Rightarrow> ''100'') of None \<Rightarrow> 100 | Some v \<Rightarrow> if v = 0 then 100 else v)
      in nat (min 500 (max 1 n)))"

definition since_state :: "string option \<Rightarrow> int option" where
  "since_state q = (case nonempty q of None \<Rightarrow> Some 0 | Some s \<Rightarrow> (case js_parseInt 10 s of Some n \<Rightarrow> if n < 0 then None else Some n | None \<Rightarrow> None))"

record changes_reply =
  cg_updated :: "string list"
  cg_deleted :: "string list"
  cg_state :: int

definition changed_rows :: "string \<Rightarrow> int \<Rightarrow> nat \<Rightarrow> state_db \<Rightarrow> MailboxStateRow list" where
  "changed_rows mb since limit db =
     sorted_page ms_change_id limit (filter (\<lambda>r. ms_mailbox_id r = mb \<and> since < ms_change_id r) (sd_state db))"

definition collect_one :: "MailboxStateRow \<Rightarrow> changes_reply \<Rightarrow> changes_reply" where
  "collect_one r g =
     (let g1 = (if ms_change_id r > cg_state g then g\<lparr>cg_state := ms_change_id r\<rparr> else g) in
      if truthy_opt (ms_expunged_at r) then g1\<lparr>cg_deleted := cg_deleted g1 @ [ms_message_id r]\<rparr>
      else g1\<lparr>cg_updated := cg_updated g1 @ [ms_message_id r]\<rparr>)"

fun collect_changes :: "MailboxStateRow list \<Rightarrow> changes_reply \<Rightarrow> changes_reply" where
  "collect_changes [] g = g"
| "collect_changes (r # rs) g = collect_changes rs (collect_one r g)"

definition changes_since :: "string \<Rightarrow> int \<Rightarrow> nat \<Rightarrow> state_db \<Rightarrow> changes_reply" where
  "changes_since mb since limit db =
     collect_changes (changed_rows mb since limit db) \<lparr> cg_updated = [], cg_deleted = [], cg_state = since \<rparr>"

definition changes_route :: "sync_platform \<Rightarrow> sync_call \<Rightarrow> sync_world \<Rightarrow> sync_world \<times> changes_reply outcome" where
  "changes_route P c w =
     (if \<not> ULID_RE (sc_id c) then (w, Respond (buildError (sc_ctx c) Bad_request ''invalid mailbox id'' []))
      else with_caller P c [] hasReadScope ''messages:read'' (\<lambda>cl w.
        if other_mailbox cl (sc_id c) then (w, Respond (buildError (sc_ctx c) Not_found ''mailbox not found'' []))
        else case since_state (sc_query c ''since_state'') of
          None \<Rightarrow> (w, Respond (buildError (sc_ctx c) Bad_request ''since_state must be non-negative integer'' []))
        | Some since \<Rightarrow>
            if sc_fails c ''select changes'' [] then (w, outcome.Threw ''select changes'')
            else (w, Next (changes_since (sc_id c) since (page_limit (sc_query c ''limit'')) (sw_db w)))) w)"

text \<open>\<^verbatim>\<open>ORDER BY created_at DESC LIMIT .. OFFSET ..\<close>\<close>
definition listed_messages :: "string \<Rightarrow> nat \<Rightarrow> nat \<Rightarrow> pm_message list \<Rightarrow> pm_message list" where
  "listed_messages mb limit offset ms = take limit (drop offset (rev (sort_key pm_created_at (filter (\<lambda>m. pm_mailbox_id m = mb) ms))))"

definition page_offset :: "string option \<Rightarrow> nat" where
  "page_offset q = (case js_parseInt 10 (case q of Some s \<Rightarrow> s | None \<Rightarrow> ''0'') of None \<Rightarrow> 0 | Some n \<Rightarrow> nat (max 0 n))"

fun render_all :: "sync_platform \<Rightarrow> sync_call \<Rightarrow> pm_message list \<Rightarrow> sync_world \<Rightarrow> webhook_message list outcome" where
  "render_all P c [] w = Next []"
| "render_all P c (m # ms) w =
     (case loadR2Bytes c m w of
        Next None \<Rightarrow> render_all P c ms w
      | Next (Some raw) \<Rightarrow>
          (case render_row P c raw m True w of
             Next x \<Rightarrow> (case render_all P c ms w of Next xs \<Rightarrow> Next (x # xs) | r \<Rightarrow> r)
           | Respond r \<Rightarrow> Respond r
           | outcome.Threw e \<Rightarrow> outcome.Threw e)
      | Respond r \<Rightarrow> Respond r
      | outcome.Threw e \<Rightarrow> outcome.Threw e)"

definition list_route :: "sync_platform \<Rightarrow> sync_call \<Rightarrow> sync_world \<Rightarrow> sync_world \<times> webhook_message list outcome" where
  "list_route P c w =
     (if \<not> ULID_RE (sc_id c) then (w, Respond (buildError (sc_ctx c) Bad_request ''invalid mailbox id'' []))
      else if sc_query c ''fields'' \<noteq> Some ''metadata''
      then (w, Respond (buildError (sc_ctx c) Bad_request ''fields=metadata required for bridge sync'' []))
      else with_caller P c [] hasReadScope ''messages:read'' (\<lambda>cl w.
        if other_mailbox cl (sc_id c) then (w, Respond (buildError (sc_ctx c) Not_found ''mailbox not found'' []))
        else if sc_fails c ''select messages'' [] then (w, outcome.Threw ''select messages'')
        else (w, render_all P c (listed_messages (sc_id c) (page_limit (sc_query c ''limit'')) (page_offset (sc_query c ''offset''))
               (pw_messages (jw_pipe (sw_store w)))) w)) w)"

end
