(* ===== verification/MessageSync.thy ===== *)
theory MessageSync
  imports MessageState
begin

text \<open>
  What an IMAP bridge can rely on when it keeps its copy of a mailbox up to date with \<open>changes_route\<close>. Requests that run one after the
  other give every row they change a number above all earlier ones, so the mailbox states are a change feed. Requests that run at
  the same time do not.
\<close>

section \<open>The mailbox states as a feed\<close>

definition state_row :: "string \<Rightarrow> string \<Rightarrow> state_db \<Rightarrow> MailboxStateRow option" where
  "state_row mb i db = find (\<lambda>r. ms_mailbox_id r = mb \<and> ms_message_id r = i) (sd_state db)"

definition feed_rows :: "string \<Rightarrow> state_db \<Rightarrow> string \<Rightarrow> (int \<times> bool) option" where
  "feed_rows mb db i = map_option (\<lambda>r. (ms_change_id r, truthy_opt (ms_expunged_at r))) (state_row mb i db)"

definition feed_mark :: "string \<Rightarrow> state_db \<Rightarrow> int" where
  "feed_mark mb db = (case sd_change db mb of None \<Rightarrow> 1 | Some (c, _) \<Rightarrow> c)"

text \<open>One row per message, and every number lies below the counter of its mailbox and is used once in it.\<close>
definition change_wf :: "state_db \<Rightarrow> bool" where
  "change_wf db =
     (distinct (map state_pk (sd_state db)) \<and>
      distinct (map (\<lambda>r. (ms_mailbox_id r, ms_change_id r)) (sd_state db)) \<and>
      (\<forall>r \<in> set (sd_state db). ms_change_id r < feed_mark (ms_mailbox_id r) db) \<and>
      (\<forall>m c v. sd_change db m = Some (c, v) \<longrightarrow> 1 \<le> c))"

text \<open>What a request does to the feed.\<close>
definition advances :: "state_db \<Rightarrow> state_db \<Rightarrow> bool" where
  "advances db db' =
     (change_wf db \<longrightarrow> change_wf db' \<and> (\<forall>mb. feed_mark mb db \<le> feed_mark mb db') \<and>
        (\<forall>mb i n v. feed_rows mb db' i = Some (n, v) \<longrightarrow> feed_rows mb db i = Some (n, v) \<or> feed_mark mb db \<le> n))"

lemma advances_refl [simp]: "advances db db"
  by (simp add: advances_def)

lemma advances_trans: "advances a b \<Longrightarrow> advances b c \<Longrightarrow> advances a c"
  unfolding advances_def by (meson order_trans)

lemma same_row: "change_wf db \<Longrightarrow> r \<in> set (sd_state db) \<Longrightarrow> x \<in> set (sd_state db) \<Longrightarrow> ms_mailbox_id r = ms_mailbox_id x \<Longrightarrow>
    ms_message_id r = ms_message_id x \<Longrightarrow> r = x"
  unfolding change_wf_def distinct_map inj_on_def state_pk_def by blast

lemma state_row_iff:
  assumes "change_wf db"
  shows "state_row mb i db = Some r \<longleftrightarrow> r \<in> set (sd_state db) \<and> ms_mailbox_id r = mb \<and> ms_message_id r = i"
proof (cases "state_row mb i db")
  case None
  then have "\<not> (\<exists>x. x \<in> set (sd_state db) \<and> ms_mailbox_id x = mb \<and> ms_message_id x = i)" unfolding state_row_def find_None_iff .
  with None show ?thesis by simp
next
  case (Some x)
  then have "x \<in> set (sd_state db)" "ms_mailbox_id x = mb" "ms_message_id x = i"
    unfolding state_row_def find_Some_iff by auto
  then show ?thesis using Some same_row [OF assms] by (metis option.inject)
qed

lemma find_map_where: "(\<And>r. Q r \<Longrightarrow> Q (h r)) \<Longrightarrow> find Q (map (\<lambda>r. if Q r then h r else r) xs) = map_option h (find Q xs)"
  by (induction xs) auto

lemma state_row_update:
  assumes "\<And>r. ms_mailbox_id (f r) = ms_mailbox_id r \<and> ms_message_id (f r) = ms_message_id r"
  shows "state_row mb i (update_row mb i f db) = map_option f (state_row mb i db)"
  unfolding state_row_def update_row_def using assms by (simp add: find_map_where)

lemma feed_mark_pos: "change_wf db \<Longrightarrow> 1 \<le> feed_mark mb db"
  by (cases "sd_change db mb") (auto simp: change_wf_def feed_mark_def)

lemma feed_rows_iff:
  "change_wf db \<Longrightarrow> feed_rows mb db i = Some (n, v) \<longleftrightarrow>
     (\<exists>r \<in> set (sd_state db). ms_mailbox_id r = mb \<and> ms_message_id r = i \<and> ms_change_id r = n \<and> truthy_opt (ms_expunged_at r) = v)"
  by (auto simp: feed_rows_def state_row_iff)

section \<open>Statements\<close>

lemma alloc_change_advances:
  assumes "allocChangeId fs mb t = (t', res)" "\<forall>m c v. t m = Some (c, v) \<longrightarrow> 1 \<le> c"
  shows "\<And>m c v. t m = Some (c, v) \<Longrightarrow> \<exists>c'. t' m = Some (c', v) \<and> c \<le> c'"
    and "\<forall>m c v. t' m = Some (c, v) \<longrightarrow> 1 \<le> c"
    and "res = Inr n \<Longrightarrow> (\<exists>c. t' mb = Some (c, ()) \<and> n < c) \<and> (\<forall>c v. t mb = Some (c, v) \<longrightarrow> c \<le> n) \<and> 1 \<le> n"
proof -
  obtain t1 ph where a: "allocate (\<lambda>_ t. t) fs mb () t = (t1, ph)" by fastforce
  have adv: "alloc_advances mb t (t1, ph)" using allocate_advances [OF assms(2), of mb fs "()"] a by simp
  have "(\<forall>m c v. fst (t1, ph) m = Some (c, v) \<longrightarrow> 1 \<le> c) \<and> (\<forall>n v. snd (t1, ph) = Allocated n v \<longrightarrow> 1 \<le> n)"
    unfolding a [symmetric]
  proof (rule allocate_keeps)
    fix f and u :: "unit counters" and p :: "unit alloc_phase" assume h: "(\<forall>m c v. fst (u, p) m = Some (c, v) \<longrightarrow> 1 \<le> c) \<and> (\<forall>n v. snd (u, p) = Allocated n v \<longrightarrow> (1::int) \<le> n)"
    obtain u' p' where n: "alloc_next f mb () p u = (u', p')" by fastforce
    show "(\<forall>m c v. fst (alloc_next f mb () p u) m = Some (c, v) \<longrightarrow> 1 \<le> c) \<and> (\<forall>n v. snd (alloc_next f mb () p u) = Allocated n v \<longrightarrow> 1 \<le> n)"
      using alloc_next_table(2,3) [OF n] h by (auto simp: n)
  qed (use assms(2) in simp)
  then have pos: "ph = Allocated n v \<Longrightarrow> 1 \<le> n" for n v by simp
  have t: "t' = t1" and r: "res = Inr n \<Longrightarrow> ph = Allocated n ()"
    using assms(1) a by (cases ph; auto simp: allocChangeId_def allocateChangeId_def)+
  show "\<And>m c v. t m = Some (c, v) \<Longrightarrow> \<exists>c'. t' m = Some (c', v) \<and> c \<le> c'" "\<forall>m c v. t' m = Some (c, v) \<longrightarrow> 1 \<le> c"
    using adv unfolding alloc_advances_def t by simp_all
  show "res = Inr n \<Longrightarrow> (\<exists>c. t' mb = Some (c, ()) \<and> n < c) \<and> (\<forall>c v. t mb = Some (c, v) \<longrightarrow> c \<le> n) \<and> 1 \<le> n"
    using adv r pos unfolding alloc_advances_def t by simp
qed

text \<open>Counters that move on, with the rows as they are.\<close>
lemma counter_advances:
  assumes "allocChangeId fs mb (sd_change db) = (t, res)"
  shows "advances db (db\<lparr>sd_uid := u, sd_change := t\<rparr>)"
    and "change_wf db \<Longrightarrow> res = Inr n \<Longrightarrow> feed_mark mb db \<le> n \<and> n < feed_mark mb (db\<lparr>sd_uid := u, sd_change := t\<rparr>)"
proof -
  have pos: "\<forall>m c v. sd_change db m = Some (c, v) \<longrightarrow> 1 \<le> c" if "change_wf db" using that by (simp add: change_wf_def)
  note a = alloc_change_advances [OF assms]
  have up: "feed_mark m db \<le> feed_mark m (db\<lparr>sd_uid := u, sd_change := t\<rparr>)" if "change_wf db" for m
  proof (cases "sd_change db m")
    case None
    then show ?thesis using a(2) [OF pos [OF that]] by (auto simp: feed_mark_def split: option.split)
  next
    case (Some x)
    then show ?thesis using a(1) [OF pos [OF that], of m "fst x" "snd x"] by (cases x) (auto simp: feed_mark_def)
  qed
  have rows: "feed_rows m (db\<lparr>sd_uid := u, sd_change := t\<rparr>) i = feed_rows m db i" for m i by (simp add: feed_rows_def state_row_def)
  have "change_wf (db\<lparr>sd_uid := u, sd_change := t\<rparr>)" if wf: "change_wf db"
    using wf a(2) [OF pos [OF wf]] up [OF wf] unfolding change_wf_def by simp (meson less_le_trans)
  with up rows show "advances db (db\<lparr>sd_uid := u, sd_change := t\<rparr>)" unfolding advances_def by simp
  show "feed_mark mb db \<le> n \<and> n < feed_mark mb (db\<lparr>sd_uid := u, sd_change := t\<rparr>)" if "change_wf db" "res = Inr n"
    using a(3) [OF pos [OF that(1)] that(2)] by (auto simp: feed_mark_def split: option.split)
qed

text \<open>A change: the rows \<open>f\<close> touches get a number from between the two marks.\<close>
lemma renumber_advances:
  assumes "advances db db1" "sd_state db1 = sd_state db" "feed_mark mb db \<le> n" "n < feed_mark mb db1"
    and "\<And>r. ms_mailbox_id (f r) = ms_mailbox_id r \<and> ms_message_id (f r) = ms_message_id r \<and> ms_change_id (f r) = n"
  shows "advances db (update_row mb i f db1)"
  unfolding advances_def
proof (intro impI)
  let ?g = "\<lambda>r. if ms_mailbox_id r = mb \<and> ms_message_id r = i then f r else r"
  assume wf: "change_wf db"
  have wf1: "change_wf db1" and up: "feed_mark m db \<le> feed_mark m db1" for m using assms(1) wf by (auto simp: advances_def)
  have m: "feed_mark m (update_row mb i f db1) = feed_mark m db1" for m by (simp add: feed_mark_def update_row_def)
  have low: "ms_change_id r \<noteq> n" if "r \<in> set (sd_state db)" "ms_mailbox_id r = mb" for r
    using wf that assms(3) by (fastforce simp: change_wf_def)
  have pk: "map state_pk (sd_state (update_row mb i f db1)) = map state_pk (sd_state db)" using assms(2,5) by (simp add: state_pk_def update_row_def)
  have "inj_on (\<lambda>r. (ms_mailbox_id (?g r), ms_change_id (?g r))) (set (sd_state db))"
  proof (rule inj_onI)
    fix r x assume h: "r \<in> set (sd_state db)" "x \<in> set (sd_state db)" "(ms_mailbox_id (?g r), ms_change_id (?g r)) = (ms_mailbox_id (?g x), ms_change_id (?g x))"
    have "r = x" if "ms_mailbox_id r = ms_mailbox_id x" "ms_change_id r = ms_change_id x"
      using wf h(1,2) that by (simp add: change_wf_def distinct_map inj_on_def)
    then show "r = x" using h low [of r] low [of x] same_row [OF wf h(1,2)] assms(5) by (auto split: if_splits)
  qed
  then have d: "distinct (map (\<lambda>r. (ms_mailbox_id (?g r), ms_change_id (?g r))) (sd_state db))"
    using wf by (simp add: change_wf_def distinct_map)
  have b: "ms_change_id (?g r) < feed_mark (ms_mailbox_id (?g r)) db1" if "r \<in> set (sd_state db)" for r
    using wf1 that assms(2,4,5) by (auto simp: change_wf_def)
  have wf2: "change_wf (update_row mb i f db1)"
    unfolding change_wf_def m
  proof (intro conjI)
    show "distinct (map state_pk (sd_state (update_row mb i f db1)))" unfolding pk using wf by (simp add: change_wf_def)
    show "distinct (map (\<lambda>r. (ms_mailbox_id r, ms_change_id r)) (sd_state (update_row mb i f db1)))"
      using d assms(2) by (simp add: update_row_def comp_def)
    show "\<forall>r \<in> set (sd_state (update_row mb i f db1)). ms_change_id r < feed_mark (ms_mailbox_id r) db1"
    proof
      fix r assume "r \<in> set (sd_state (update_row mb i f db1))"
      then obtain x where "x \<in> set (sd_state db)" "r = ?g x" using assms(2) unfolding update_row_def by auto
      then show "ms_change_id r < feed_mark (ms_mailbox_id r) db1" using b [of x] by simp
    qed
    show "\<forall>m c v. sd_change (update_row mb i f db1) m = Some (c, v) \<longrightarrow> 1 \<le> c" using wf1 by (simp add: change_wf_def update_row_def)
  qed
  have "feed_rows q db j = Some (k, v) \<or> feed_mark q db \<le> k" if "feed_rows q (update_row mb i f db1) j = Some (k, v)" for q j k v
    using that assms(2,3,5) unfolding feed_rows_iff [OF wf2] feed_rows_iff [OF wf] by (auto simp: update_row_def split: if_splits)
  with wf2 up show "change_wf (update_row mb i f db1) \<and> (\<forall>q. feed_mark q db \<le> feed_mark q (update_row mb i f db1)) \<and>
      (\<forall>q j k v. feed_rows q (update_row mb i f db1) j = Some (k, v) \<longrightarrow> feed_rows q db j = Some (k, v) \<or> feed_mark q db \<le> k)"
    unfolding m by blast
qed

lemma insert_advances:
  assumes "advances db db1" "sd_state db1 = sd_state db" "feed_mark (ms_mailbox_id r) db \<le> ms_change_id r" "ms_change_id r < feed_mark (ms_mailbox_id r) db1"
  shows "advances db (fst (insert_state r db1))"
proof (cases "state_pk r \<in> set (map state_pk (sd_state db1))")
  case True
  then show ?thesis using assms(1) by (simp add: insert_state_def)
next
  case False
  let ?d = "db1\<lparr>sd_state := sd_state db1 @ [r]\<rparr>"
  have m: "feed_mark q ?d = feed_mark q db1" for q by (simp add: feed_mark_def)
  have "advances db ?d" unfolding advances_def
  proof (intro impI)
    assume wf: "change_wf db"
    have wf1: "change_wf db1" using assms(1) wf by (simp add: advances_def)
    have "ms_change_id x < ms_change_id r" if "x \<in> set (sd_state db)" "ms_mailbox_id x = ms_mailbox_id r" for x
      using wf that assms(3) unfolding change_wf_def by (metis less_le_trans)
    then have "(ms_mailbox_id r, ms_change_id r) \<notin> (\<lambda>x. (ms_mailbox_id x, ms_change_id x)) ` set (sd_state db)" by fastforce
    then have wf2: "change_wf ?d" using wf1 False assms(2,4) unfolding change_wf_def m by auto
    have "feed_rows q db j = Some (k, v) \<or> feed_mark q db \<le> k" if "feed_rows q ?d j = Some (k, v)" for q j k v
      using that assms(2,3) unfolding feed_rows_iff [OF wf2] feed_rows_iff [OF wf] by auto
    with wf2 assms(1) wf show "change_wf ?d \<and> (\<forall>q. feed_mark q db \<le> feed_mark q ?d) \<and>
        (\<forall>q j k v. feed_rows q ?d j = Some (k, v) \<longrightarrow> feed_rows q db j = Some (k, v) \<or> feed_mark q db \<le> k)"
      unfolding m by (simp add: advances_def)
  qed
  with False show ?thesis by (simp add: insert_state_def)
qed

lemma filter_advances: "advances db (db\<lparr>sd_state := filter Q (sd_state db)\<rparr>)"
  unfolding advances_def
proof (intro impI)
  let ?d = "db\<lparr>sd_state := filter Q (sd_state db)\<rparr>"
  assume wf: "change_wf db"
  have m: "feed_mark q ?d = feed_mark q db" for q by (simp add: feed_mark_def)
  have wf2: "change_wf ?d" using wf unfolding change_wf_def m by (simp add: distinct_map_filter)
  have "feed_rows q db j = Some (k, v)" if "feed_rows q ?d j = Some (k, v)" for q j k v
    using that unfolding feed_rows_iff [OF wf2] feed_rows_iff [OF wf] by auto
  with wf2 show "change_wf ?d \<and> (\<forall>q. feed_mark q db \<le> feed_mark q ?d) \<and>
      (\<forall>q j k v. feed_rows q ?d j = Some (k, v) \<longrightarrow> feed_rows q db j = Some (k, v) \<or> feed_mark q db \<le> k)"
    unfolding m by blast
qed

lemma inbound_advances: "advances db (fst (allocateInboundState fs gs nowMs mb i db))"
proof -
  obtain u ur where u: "allocateUid (\<lambda>_ t. t) fs mb nowMs (sd_uid db) = (u, ur)" by fastforce
  obtain t res where t: "allocChangeId gs mb (sd_change db) = (t, res)" by fastforce
  note adv = counter_advances [OF t, where u = u]
  have u0: "advances db (db\<lparr>sd_uid := u\<rparr>)"
    by (auto simp: advances_def change_wf_def feed_mark_def feed_rows_def state_row_def)
  have ins: "advances db (fst (insert_state (new_state_row mb i uid uv n) (db\<lparr>sd_uid := u, sd_change := t\<rparr>)))" if "res = Inr n" for uid uv n
  proof (cases "change_wf db")
    case True
    from adv(2) [OF this that] show ?thesis by (intro insert_advances [OF adv(1)]) (simp_all add: new_state_row_def)
  qed (simp add: advances_def)
  show ?thesis using u t u0 ins adv(1)
    by (cases ur; cases res; auto simp: allocateInboundState_def Let_def split: prod.splits sum.splits) (metis fst_conv)+
qed

section \<open>Requests\<close>

definition adv :: "sync_world \<Rightarrow> sync_world \<Rightarrow> bool" where
  "adv w w' = advances (sw_db w) (sw_db w')"

lemma adv_refl [simp]: "adv w w"
  by (simp add: adv_def)

lemma adv_trans: "adv a b \<Longrightarrow> adv b c \<Longrightarrow> adv a c"
  unfolding adv_def by (rule advances_trans)

lemma sw_db_simps [simp]:
  "sw_db (set_db db w) = db" "sw_db (w\<lparr>sw_auth := a\<rparr>) = sw_db w" "sw_db (fst (sync_audit P c cl act tgt meta w)) = sw_db w"
  "sw_db (fst (on_auth f w)) = sw_db w"
  by (simp_all add: sw_db_def set_db_def sync_audit_def on_auth_def Let_def split: prod.splits)

lemma on_db_adv: "(\<And>db. advances db (fst (f db))) \<Longrightarrow> adv w (fst (on_db f w))"
  unfolding adv_def on_db_def by (metis (mono_tags, lifting) case_prod_beta fst_conv sw_db_simps(1))

lemma and_then_adv:
  assumes "adv w (fst x)" "\<And>w1 a. x = (w1, Next a) \<Longrightarrow> adv w (fst (f w1 a))"
  shows "adv w (fst (and_then x f))"
  using assms by (cases x; cases "snd x") auto

lemma and_then_last [simp]: "fst (and_then x (\<lambda>w a. (w, g w a))) = fst x"
  by (cases x; cases "snd x") auto

text \<open>The steps a handler is made of.\<close>
lemma and_then_step:
  assumes "adv w (fst x)" "\<And>w1 a. adv w1 (fst (f w1 a))"
  shows "adv w (fst (and_then x f))"
  by (rule and_then_adv [OF assms(1)]) (metis adv_trans assms fst_conv)

lemma ensure_adv: "adv w (fst (on_db (ensure_state c mb i) w))"
  by (rule on_db_adv) (auto simp: ensure_state_def ensureMailboxState_def inbound_advances split: option.split)

lemma alloc_adv: "adv w (fst (on_db (alloc_change c mb i) w))"
proof (rule on_db_adv)
  fix db :: state_db
  obtain t r where t: "allocChangeId (sc_change_faults c i) mb (sd_change db) = (t, r)" by fastforce
  show "advances db (fst (alloc_change c mb i db))"
    using counter_advances(1) [OF t, where u = "sd_uid db"] by (simp add: alloc_change_def t)
qed

lemma stamp_adv:
  assumes "on_db (alloc_change c mb i) w = (w1, Next n)"
    and "\<And>r. ms_mailbox_id (f r) = ms_mailbox_id r \<and> ms_message_id (f r) = ms_message_id r \<and> ms_change_id (f r) = n"
  shows "adv w (fst (on_db (update_state c mb i f) w1))"
proof -
  obtain t r where t: "allocChangeId (sc_change_faults c i) mb (sd_change (sw_db w)) = (t, r)" by fastforce
  have r: "r = Inr n" and w1: "sw_db w1 = (sw_db w)\<lparr>sd_change := t\<rparr>"
    using assms(1) by (auto simp: on_db_def alloc_change_def t split: sum.splits)
  note a = counter_advances [OF t, where u = "sd_uid (sw_db w)"]
  have "advances (sw_db w) (update_row mb i f (sw_db w1))"
  proof (cases "change_wf (sw_db w)")
    case True
    show ?thesis using a(1) a(2) [OF True r] by (intro renumber_advances [OF _ _ _ _ assms(2)]) (simp_all add: w1)
  qed (simp add: advances_def)
  then show ?thesis using a(1)
    by (auto simp: adv_def on_db_def update_state_def exec_def w1 split: fault.splits)
qed

lemma change_step:
  assumes "\<And>n r. ms_mailbox_id (f n r) = ms_mailbox_id r \<and> ms_message_id (f n r) = ms_message_id r \<and> ms_change_id (f n r) = n"
    and "\<And>n w u. adv w (fst (k n w u))"
  shows "adv w (fst (and_then (on_db (alloc_change c mb i) w) (\<lambda>w n. and_then (on_db (update_state c mb i (f n)) w) (k n))))"
proof (rule and_then_adv [OF alloc_adv])
  fix w1 n assume a: "on_db (alloc_change c mb i) w = (w1, Next n)"
  note st = stamp_adv [OF a, of "f n", OF assms(1)]
  show "adv w (fst (and_then (on_db (update_state c mb i (f n)) w1) (k n)))"
    by (rule and_then_adv [OF st]) (use st assms(2) adv_trans in fastforce)
qed

lemma autoMarkRead_adv: "adv w (fst (autoMarkRead P c mb i w))"
  unfolding autoMarkRead_def
  by (intro and_then_step ensure_adv) (auto simp: Let_def intro!: and_then_adv alloc_adv stamp_adv)

lemma set_flags_adv: "adv w (fst (set_flags P c flags m w))"
  unfolding set_flags_def Let_def
  by (rule and_then_step [OF ensure_adv], rule change_step) auto

lemma audit_adv: "adv w (fst (sync_audit P c cl act tgt meta w))"
  by (simp add: adv_def)

lemma load_adv: "adv w (fst (load_owned c cl i w))"
  by (simp add: load_owned_def)

lemma with_caller_adv:
  assumes "\<And>cl w1. adv w1 (fst (h cl w1))"
  shows "adv w (fst (with_caller P c body ok scope h w))"
  unfolding with_caller_def by (rule and_then_step) (auto simp: adv_def assms [unfolded adv_def])

text \<open>The purge and the clean-up only remove rows.\<close>
definition removes :: "janitor_world \<Rightarrow> janitor_world \<Rightarrow> bool" where
  "removes j j' = (\<exists>Q. pw_state (jw_pipe j') = (pw_state (jw_pipe j))\<lparr>sd_state := filter Q (sd_state (pw_state (jw_pipe j)))\<rparr>)"

lemma removes_refl: "pw_state (jw_pipe j') = pw_state (jw_pipe j) \<Longrightarrow> removes j j'"
  unfolding removes_def by (rule exI [of _ "\<lambda>_. True"]) simp

lemma removes_trans: "removes a b \<Longrightarrow> removes b c \<Longrightarrow> removes a c"
proof -
  assume "removes a b" "removes b c"
  then obtain Q R where "pw_state (jw_pipe b) = (pw_state (jw_pipe a))\<lparr>sd_state := filter Q (sd_state (pw_state (jw_pipe a)))\<rparr>"
      "pw_state (jw_pipe c) = (pw_state (jw_pipe b))\<lparr>sd_state := filter R (sd_state (pw_state (jw_pipe b)))\<rparr>"
    by (auto simp: removes_def)
  then show ?thesis unfolding removes_def by (intro exI [of _ "\<lambda>x. Q x \<and> R x"]) simp
qed

lemma removes_advances: "removes j j' \<Longrightarrow> advances (pw_state (jw_pipe j)) (pw_state (jw_pipe j'))"
  by (auto simp: removes_def filter_advances)

lemma removes_filter: "removes j (set_states (filter Q (sd_state (pw_state (jw_pipe j)))) j)"
  unfolding removes_def set_states_def by (rule exI [of _ Q]) simp

lemma removes_delete: "removes j (delete_message i j)"
  unfolding removes_def delete_message_def set_states_def by (rule exI [of _ "\<lambda>s. ms_message_id s \<noteq> i"]) simp

lemma purge_row_removes: "removes j (fst (purge_row c m j))"
  by (auto simp: purge_row_def Let_def removes_refl intro!: removes_trans [OF removes_refl removes_delete])

lemma expunge_row_removes: "removes j (fst (expunge_row c mb i j))"
  by (auto simp: expunge_row_def Let_def removes_refl removes_filter split: option.split intro!: removes_trans [OF removes_filter purge_row_removes])

lemma expunge_rows_removes: "removes j (fst (expunge_rows c mb is counts j))"
proof (induction "is" arbitrary: counts j)
  case (Cons i "is")
  show ?case using expunge_row_removes [of j c mb i] Cons.IH by (auto split: prod.splits sum.splits intro: removes_trans)
qed (simp add: removes_refl)

lemma purgeMessage_removes: "removes j (fst (purgeMessage c m j))"
  by (auto simp: purgeMessage_def Let_def removes_refl intro!: removes_trans [OF removes_refl removes_delete])

lemma expunge_state_removes: "removes j (fst (expunge_state c s j))"
  by (auto simp: expunge_state_def Let_def removes_refl removes_filter split: option.split intro!: removes_trans [OF removes_filter purgeMessage_removes])

lemma expunge_all_removes: "removes j (fst (expunge_all c ss j))"
proof (induction ss arbitrary: j)
  case (Cons s ss)
  show ?case using expunge_state_removes [of j c s] Cons.IH by (auto split: prod.splits sum.splits intro: removes_trans)
qed (simp add: removes_refl)

lemma janitor_removes: "removes j (fst (janitor c j))"
  using removes_trans [OF removes_refl [of "sweep_idem c j" j] expunge_all_removes] by (auto simp: janitor_def Let_def removes_refl sweep_idem_def)

lemma patch_adv: "adv w (fst (patch_message P c w))"
  unfolding patch_message_def
  by (auto intro!: with_caller_adv and_then_step set_flags_adv load_adv audit_adv split: option.split)

lemma delete_adv: "adv w (fst (delete_route P c w))"
  unfolding delete_route_def Let_def
  by (auto intro!: with_caller_adv and_then_step [OF load_adv] and_then_step [OF ensure_adv] change_step audit_adv)

lemma expunge_adv: "adv w (fst (expunge_route P c w))"
proof -
  have e: "adv v (v\<lparr>sw_store := j\<rparr>)" if "expunge_rows c mb is counts (sw_store v) = (j, r)" for v j mb "is" counts r
    using removes_advances [OF expunge_rows_removes [of "sw_store v" c mb "is" counts]] that by (simp add: adv_def sw_db_def)
  show ?thesis unfolding expunge_route_def
    by (auto intro!: with_caller_adv adv_trans [OF e audit_adv] split: prod.splits sum.splits intro: e)
qed

lemma get_one_adv: "adv w (fst (get_one P c cl i w))"
  unfolding get_one_def by (auto intro!: and_then_step autoMarkRead_adv split: option.split)

lemma get_each_adv: "adv w (fst (get_each P c cl is acc w))"
  by (induction "is" arbitrary: acc w) (auto intro!: and_then_step get_one_adv split: prod.splits)

lemma get_adv: "adv w (fst (get_messages P c w))"
  unfolding get_messages_def by (auto intro!: with_caller_adv and_then_step get_each_adv)

lemma reading_adv: "adv w (fst (changes_route P c w))" "adv w (fst (list_route P c w))"
  unfolding changes_route_def list_route_def by (auto intro!: with_caller_adv split: option.split)

text \<open>The pipeline touches the states only when it allocates the row of an arrival.\<close>
lemma tails_state:
  "pw_state (fst (run_audit P pc a w res)) = pw_state w"
  "pw_state (fst (outbound_tail P pc args sm mid frm sha key w)) = pw_state w"
  "pw_state (insert_message P pc args sm mid frm sha key w) = pw_state w"
  by (auto simp: run_audit_def outbound_tail_def insert_message_def Let_def split: prod.splits option.splits sum.splits)

lemma ingest_advances: "advances (pw_state w) (pw_state (fst (ingest P pc args sha key w)))"
  by (auto simp: ingest_def tails_state inbound_tail_def Let_def inbound_advances split: sum.split option.split prod.split bool.split pm_direction.split)

lemma pipeline_advances: "advances (pw_state w) (pw_state (fst (processMessage P pc args w)))"
proof -
  have "advances (pw_state w) (pw_state (fst (ingest P pc args sha key (w\<lparr>pw_idem := t\<rparr>))))" for sha key t
    using ingest_advances [of "w\<lparr>pw_idem := t\<rparr>"] by simp
  then show ?thesis
    by (auto simp: processMessage_def Let_def ingest_advances split: pm_direction.split option.split list.split prod.split sum.split)
qed

section \<open>Runs\<close>

text \<open>Whatever changes the states: the handlers, the pipeline and the nightly clean-up, one request after the other.\<close>
inductive server_step :: "sync_platform \<Rightarrow> sync_world \<Rightarrow> sync_world \<Rightarrow> bool" for P where
  Srv_patch: "server_step P w (fst (patch_message P c w))"
| Srv_delete: "server_step P w (fst (delete_route P c w))"
| Srv_get: "server_step P w (fst (get_messages P c w))"
| Srv_expunge: "server_step P w (fst (expunge_route P c w))"
| Srv_changes: "server_step P w (fst (changes_route P c w))"
| Srv_list: "server_step P w (fst (list_route P c w))"
| Srv_pipeline: "server_step P w (w\<lparr>sw_store := (sw_store w)\<lparr>jw_pipe := fst (processMessage PP pc args (jw_pipe (sw_store w)))\<rparr>\<rparr>)"
| Srv_janitor: "server_step P w (w\<lparr>sw_store := fst (janitor jc (sw_store w))\<rparr>)"

lemma server_step_adv: "server_step P w w' \<Longrightarrow> adv w w'"
proof (induction rule: server_step.induct)
  case (Srv_pipeline w PP pc args)
  show ?case using pipeline_advances by (simp add: adv_def sw_db_def)
next
  case (Srv_janitor w jc)
  show ?case using removes_advances [OF janitor_removes] by (simp add: adv_def sw_db_def)
qed (simp_all add: patch_adv delete_adv get_adv expunge_adv reading_adv)

interpretation mailbox_feed: change_feed "\<lambda>w. feed_rows mb (sw_db w)" "\<lambda>w. feed_mark mb (sw_db w)" "\<lambda>w. change_wf (sw_db w)" "server_step P"
  for mb P
proof
  fix w w' assume "server_step P w w'" "change_wf (sw_db w)"
  then have a: "advances (sw_db w) (sw_db w')" "change_wf (sw_db w)" using server_step_adv by (auto simp: adv_def)
  then show "change_wf (sw_db w')" "feed_mark mb (sw_db w) \<le> feed_mark mb (sw_db w')"
    "feed_rows mb (sw_db w') k = Some (n, v) \<Longrightarrow> feed_rows mb (sw_db w) k = Some (n, v) \<or> feed_mark mb (sw_db w) \<le> n" for k n v
    by (auto simp: advances_def)
next
  fix w k n v assume "change_wf (sw_db w)" "feed_rows mb (sw_db w) k = Some (n, v)"
  then show "n < feed_mark mb (sw_db w)" by (auto simp: feed_rows_iff change_wf_def)
qed

section \<open>Pages\<close>

lemma collect_facts:
  "set (cg_updated (collect_changes rs g)) = set (cg_updated g) \<union> ms_message_id ` {r \<in> set rs. \<not> truthy_opt (ms_expunged_at r)}"
  "set (cg_deleted (collect_changes rs g)) = set (cg_deleted g) \<union> ms_message_id ` {r \<in> set rs. truthy_opt (ms_expunged_at r)}"
  "cg_state g \<le> cg_state (collect_changes rs g)"
  "r \<in> set rs \<Longrightarrow> ms_change_id r \<le> cg_state (collect_changes rs g)"
  "cg_state (collect_changes rs g) = cg_state g \<or> (\<exists>r \<in> set rs. cg_state (collect_changes rs g) = ms_change_id r)"
proof (induction rs arbitrary: g)
  case (Cons x rs)
  have st: "cg_state (collect_one x g) = max (cg_state g) (ms_change_id x)" for g by (auto simp: collect_one_def Let_def)
  { case 1 show ?case by (auto simp: Cons.IH collect_one_def Let_def) }
  { case 2 show ?case by (auto simp: Cons.IH collect_one_def Let_def) }
  { case 3 show ?case using Cons.IH(3) [of "collect_one x g"] by (simp add: st) }
  { case 4 then show ?case using Cons.IH(3) [of "collect_one x g"] Cons.IH(4) [of "collect_one x g"] by (auto simp: st) }
  { case 5 show ?case using Cons.IH(5) [of "collect_one x g"] by (auto simp: st max_def split: if_splits) }
qed simp_all

text \<open>What the client reads from an answer.\<close>
definition changes_page :: "changes_reply \<Rightarrow> string \<Rightarrow> bool option" where
  "changes_page g i = (if i \<in> set (cg_deleted g) then Some True else if i \<in> set (cg_updated g) then Some False else None)"

lemma page_limit_pos: "0 < page_limit q"
  by (simp add: page_limit_def Let_def)

lemma changed_rows_sub: "r \<in> set (changed_rows mb since limit db) \<Longrightarrow> r \<in> set (sd_state db) \<and> ms_mailbox_id r = mb \<and> since < ms_change_id r"
  unfolding changed_rows_def by (drule sorted_page_subset) simp

lemma changes_since_state:
  "since \<le> cg_state (changes_since mb since limit db)"
  "r \<in> set (changed_rows mb since limit db) \<Longrightarrow> ms_change_id r \<le> cg_state (changes_since mb since limit db)"
  "cg_state (changes_since mb since limit db) = since \<or> (\<exists>r \<in> set (changed_rows mb since limit db). cg_state (changes_since mb since limit db) = ms_change_id r)"
  using collect_facts(3-5) [where rs = "changed_rows mb since limit db" and g = "\<lparr> cg_updated = [], cg_deleted = [], cg_state = since \<rparr>"]
  by (simp_all add: changes_since_def)

lemma changed_rows_iff:
  assumes "change_wf db"
  shows "r \<in> set (changed_rows mb since limit db) \<longleftrightarrow>
    r \<in> set (sd_state db) \<and> ms_mailbox_id r = mb \<and> since < ms_change_id r \<and> ms_change_id r \<le> cg_state (changes_since mb since limit db)"
proof
  assume r: "r \<in> set (sd_state db) \<and> ms_mailbox_id r = mb \<and> since < ms_change_id r \<and> ms_change_id r \<le> cg_state (changes_since mb since limit db)"
  then obtain x where x: "x \<in> set (changed_rows mb since limit db)" "cg_state (changes_since mb since limit db) = ms_change_id x"
    using changes_since_state(3) [of mb since limit db] by auto
  have "distinct (map ms_change_id (filter (\<lambda>r. ms_mailbox_id r = mb \<and> since < ms_change_id r) (sd_state db)))"
    using assms by (auto simp: change_wf_def distinct_map inj_on_def)
  from sorted_page_downward [OF this, of x limit r] show "r \<in> set (changed_rows mb since limit db)"
    using x r by (simp add: changed_rows_def)
qed (use changed_rows_sub changes_since_state(2) in blast)

lemma changes_page_iff:
  assumes "change_wf db"
  shows "changes_page (changes_since mb since limit db) i = Some v \<longleftrightarrow>
    (\<exists>r \<in> set (changed_rows mb since limit db). ms_message_id r = i \<and> truthy_opt (ms_expunged_at r) = v)"
proof -
  let ?rs = "set (changed_rows mb since limit db)"
  have same: "r = x" if "r \<in> ?rs" "x \<in> ?rs" "ms_message_id r = ms_message_id x" for r x
    using same_row [OF assms, of r x] changed_rows_sub [OF that(1)] changed_rows_sub [OF that(2)] that(3) by simp
  have u: "i \<in> set (cg_updated (changes_since mb since limit db)) \<longleftrightarrow> (\<exists>r \<in> ?rs. ms_message_id r = i \<and> \<not> truthy_opt (ms_expunged_at r))"
    and d: "i \<in> set (cg_deleted (changes_since mb since limit db)) \<longleftrightarrow> (\<exists>r \<in> ?rs. ms_message_id r = i \<and> truthy_opt (ms_expunged_at r))"
    unfolding changes_since_def collect_facts(1,2) by auto
  show ?thesis
  proof (cases "\<exists>r \<in> ?rs. ms_message_id r = i")
    case True
    then obtain r where r: "r \<in> ?rs" "ms_message_id r = i" by blast
    then have "(\<exists>x \<in> ?rs. ms_message_id x = i \<and> Q x) \<longleftrightarrow> Q r" for Q using same by blast
    then show ?thesis unfolding changes_page_def u d by simp
  next
    case False
    then show ?thesis unfolding changes_page_def u d by simp
  qed
qed

lemma changes_are_a_page:
  assumes wf: "change_wf db"
  shows "page_of (feed_rows mb db) since (cg_state (changes_since mb since limit db)) (changes_page (changes_since mb since limit db))"
    and "since < feed_mark mb db \<Longrightarrow> cg_state (changes_since mb since limit db) < feed_mark mb db"
proof -
  show "page_of (feed_rows mb db) since (cg_state (changes_since mb since limit db)) (changes_page (changes_since mb since limit db))"
    unfolding page_of_def feed_rows_iff [OF wf] changes_page_iff [OF wf] Bex_def changed_rows_iff [OF wf] by blast
  show "cg_state (changes_since mb since limit db) < feed_mark mb db" if "since < feed_mark mb db"
    using changes_since_state(3) [of mb since limit db] changed_rows_sub wf that by (fastforce simp: change_wf_def)
qed

lemma no_changes_iff:
  assumes "0 < limit"
  shows "cg_state (changes_since mb since limit db) = since \<longleftrightarrow> (\<forall>r \<in> set (sd_state db). ms_mailbox_id r = mb \<longrightarrow> ms_change_id r \<le> since)"
proof -
  have "changed_rows mb since limit db = [] \<longleftrightarrow> (\<forall>r \<in> set (sd_state db). ms_mailbox_id r = mb \<longrightarrow> ms_change_id r \<le> since)"
    unfolding changed_rows_def sorted_page_empty [OF assms] by (auto simp: filter_empty_conv)
  moreover have "cg_state (changes_since mb since limit db) = since \<longleftrightarrow> changed_rows mb since limit db = []"
    using changes_since_state(2) [of "hd (changed_rows mb since limit db)" mb since limit db] changes_since_state(3) [of mb since limit db]
      changed_rows_sub [of "hd (changed_rows mb since limit db)" mb since limit db] by (cases "changed_rows mb since limit db") auto
  ultimately show ?thesis by simp
qed

section \<open>A bridge and its copy\<close>

text \<open>A bridge keeps, for every message it has seen, whether it is deleted, and the state of the last answer. It polls whenever it likes.\<close>
type_synonym bridge_copy = "(string \<Rightarrow> bool option) \<times> int"

inductive sync_step :: "sync_platform \<Rightarrow> string \<Rightarrow> sync_world \<times> bridge_copy \<Rightarrow> sync_world \<times> bridge_copy \<Rightarrow> bool" for P mb where
  Sync_server: "server_step P w w' \<Longrightarrow> sync_step P mb (w, copy, since) (w', copy, since)"
| Sync_poll: "changes_route P c w = (w', Next g) \<Longrightarrow> sc_id c = mb \<Longrightarrow> sc_query c ''since_state'' = Some (int_to_string since) \<Longrightarrow>
    sync_step P mb (w, copy, since) (w', copy ++ changes_page g, cg_state g)"

lemma changes_route_Next:
  assumes "changes_route P c w = (w', Next g)" "sc_query c ''since_state'' = Some (int_to_string since)" "0 \<le> since"
  shows "g = changes_since (sc_id c) since (page_limit (sc_query c ''limit'')) (sw_db w)" "sw_db w' = sw_db w"
proof -
  have "nonempty (Some (int_to_string since)) = Some (int_to_string since)"
    using assms(3) by (auto simp: nonempty_def is_set_def int_to_string_def)
  then have s: "since_state (sc_query c ''since_state'') = Some since" using assms(2,3) by (simp add: since_state_def)
  obtain a cl where "authenticateCaller (sp_auth P) ((sc_ctx c)\<lparr>hc_body := []\<rparr>) (sc_auth c) (sw_auth w) = (a, Next cl)"
    using assms(1) by (auto simp: changes_route_def with_caller_def on_auth_def and_then_Next split: if_splits prod.splits)
  then have "g = changes_since (sc_id c) since (page_limit (sc_query c ''limit'')) (sw_db w) \<and> sw_db w' = sw_db w"
    using assms(1) s by (auto simp: changes_route_def with_caller_def on_auth_def split: if_splits)
  then show "g = changes_since (sc_id c) since (page_limit (sc_query c ''limit'')) (sw_db w)" "sw_db w' = sw_db w" by simp_all
qed

definition right_copy :: "string \<Rightarrow> sync_world \<times> bridge_copy \<Rightarrow> bool" where
  "right_copy mb z = (case z of (w, copy, since) \<Rightarrow>
     change_wf (sw_db w) \<and> 0 \<le> since \<and> in_sync (feed_rows mb (sw_db w)) (feed_mark mb (sw_db w)) since copy)"

lemma poll_forward:
  assumes "change_wf db" "in_sync (feed_rows mb db) (feed_mark mb db) since copy"
  shows "in_sync (feed_rows mb db) (feed_mark mb db) (cg_state (changes_since mb since limit db)) (copy ++ changes_page (changes_since mb since limit db))"
  by (rule page_brings_forward [OF assms(2) changes_are_a_page(1) [OF assms(1)] changes_since_state(1) changes_are_a_page(2) [OF assms(1)]])
    (use assms(2) in \<open>simp add: in_sync_def\<close>)

lemma sync_step_right: "sync_step P mb z z' \<Longrightarrow> right_copy mb z \<Longrightarrow> right_copy mb z'"
proof (induction rule: sync_step.induct)
  case (Sync_server w w' copy since)
  then show ?case
    using mailbox_feed.inv_step [of P w w'] mailbox_feed.copy_stays_right [of P w w' mb since copy] by (simp add: right_copy_def)
next
  case (Sync_poll c w w' g since copy)
  then have s: "0 \<le> since" "change_wf (sw_db w)" "in_sync (feed_rows mb (sw_db w)) (feed_mark mb (sw_db w)) since copy" by (simp_all add: right_copy_def)
  note g = changes_route_Next [OF Sync_poll(1,3) s(1)]
  have "0 \<le> cg_state g" using changes_since_state(1) [of since mb "page_limit (sc_query c ''limit'')" "sw_db w"] s(1) g(1) Sync_poll(2) by simp
  then show ?case using poll_forward [OF s(2,3), of "page_limit (sc_query c ''limit'')"] g s(2) Sync_poll(2) by (simp add: right_copy_def)
qed

lemma sync_run_right: "(sync_step P mb)\<^sup>*\<^sup>* z z' \<Longrightarrow> right_copy mb z \<Longrightarrow> right_copy mb z'"
  by (induction rule: rtranclp_induct) (auto intro: sync_step_right)

text \<open>Polling until an answer is empty, on a server that rests; \<open>None\<close> when the given number of polls is not enough.\<close>
fun catch_up :: "nat \<Rightarrow> string \<Rightarrow> nat \<Rightarrow> state_db \<Rightarrow> bridge_copy \<Rightarrow> bridge_copy option" where
  "catch_up 0 mb limit db b = None"
| "catch_up (Suc k) mb limit db (copy, since) =
     (let g = changes_since mb since limit db in
      if cg_updated g = [] \<and> cg_deleted g = [] then Some (copy, since)
      else catch_up k mb limit db (copy ++ changes_page g, cg_state g))"

lemma empty_answer_iff:
  assumes "0 < limit"
  shows "cg_updated (changes_since mb since limit db) = [] \<and> cg_deleted (changes_since mb since limit db) = [] \<longleftrightarrow>
    cg_state (changes_since mb since limit db) = since"
proof -
  have e: "changed_rows mb since limit db = [] \<longleftrightarrow> cg_state (changes_since mb since limit db) = since"
    unfolding no_changes_iff [OF assms] changed_rows_def sorted_page_empty [OF assms] by (auto simp: filter_empty_conv)
  have "set (cg_updated (changes_since mb since limit db)) \<union> set (cg_deleted (changes_since mb since limit db)) = ms_message_id ` set (changed_rows mb since limit db)"
    unfolding changes_since_def collect_facts(1,2) by auto
  then have "cg_updated (changes_since mb since limit db) = [] \<and> cg_deleted (changes_since mb since limit db) = [] \<longleftrightarrow> changed_rows mb since limit db = []"
    by (metis image_is_empty set_empty Un_empty)
  with e show ?thesis by simp
qed

text \<open>Rows still to come, and that a poll which is not empty takes some of them.\<close>
definition ahead :: "string \<Rightarrow> int \<Rightarrow> state_db \<Rightarrow> nat" where
  "ahead mb since db = length (filter (\<lambda>r. ms_mailbox_id r = mb \<and> since < ms_change_id r) (sd_state db))"

lemma poll_shrinks:
  assumes "cg_state (changes_since mb since limit db) \<noteq> since"
  shows "ahead mb (cg_state (changes_since mb since limit db)) db < ahead mb since db"
proof -
  let ?s = "cg_state (changes_since mb since limit db)"
  obtain r where r: "r \<in> set (changed_rows mb since limit db)" "?s = ms_change_id r" using assms changes_since_state(3) by blast
  have "filter (\<lambda>r. ms_mailbox_id r = mb \<and> ?s < ms_change_id r) (sd_state db) =
      filter (\<lambda>r. ?s < ms_change_id r) (filter (\<lambda>r. ms_mailbox_id r = mb \<and> since < ms_change_id r) (sd_state db))"
    using changes_since_state(1) [of since mb limit db] by (auto intro!: filter_cong)
  moreover have "length (filter (\<lambda>r. ?s < ms_change_id r) (filter (\<lambda>r. ms_mailbox_id r = mb \<and> since < ms_change_id r) (sd_state db)))
      < length (filter (\<lambda>r. ms_mailbox_id r = mb \<and> since < ms_change_id r) (sd_state db))"
    by (rule length_filter_less [of r]) (use changed_rows_sub [OF r(1)] r(2) in auto)
  ultimately show ?thesis unfolding ahead_def by simp
qed

lemma catch_up_ends:
  assumes "change_wf db" "0 < limit" "in_sync (feed_rows mb db) (feed_mark mb db) since copy" "ahead mb since db < k"
  shows "\<exists>copy' since'. catch_up k mb limit db (copy, since) = Some (copy', since') \<and>
    (\<forall>i r. state_row mb i db = Some r \<longrightarrow> copy' i = Some (truthy_opt (ms_expunged_at r)))"
  using assms(3,4)
proof (induction k arbitrary: copy since)
  case (Suc k)
  let ?g = "changes_since mb since limit db"
  show ?case
  proof (cases "cg_state ?g = since")
    case True
    then have "\<forall>i n v. feed_rows mb db i = Some (n, v) \<longrightarrow> n \<le> since"
      unfolding no_changes_iff [OF assms(2)] feed_rows_iff [OF assms(1)] by blast
    from caught_up [OF Suc.prems(1) this] have "copy i = Some (truthy_opt (ms_expunged_at r))" if "state_row mb i db = Some r" for i r
      using that by (simp add: feed_rows_def)
    then show ?thesis using True by (simp add: Let_def empty_answer_iff [OF assms(2)])
  next
    case False
    then show ?thesis using Suc.IH [OF poll_forward [OF assms(1) Suc.prems(1), of limit]] poll_shrinks [OF False] Suc.prems(2)
      by (simp add: Let_def empty_answer_iff [OF assms(2)])
  qed
qed simp

lemma catch_up_rests:
  assumes "catch_up k mb limit db (copy, since) = Some (copy', since')" "0 < limit" "r \<in> set (sd_state db)" "ms_mailbox_id r = mb"
  shows "ms_change_id r \<le> since'"
  using assms(1)
proof (induction k arbitrary: copy since)
  case (Suc k)
  show ?case
  proof (cases "cg_state (changes_since mb since limit db) = since")
    case True
    then have "since' = since" using Suc.prems by (simp add: Let_def empty_answer_iff [OF assms(2)])
    with True show ?thesis using assms(3,4) unfolding no_changes_iff [OF assms(2)] by simp
  next
    case False
    then show ?thesis using Suc by (auto simp: Let_def empty_answer_iff [OF assms(2)])
  qed
qed simp

section \<open>Properties\<close>

text \<open>C13. A bridge that follows the feed of a mailbox misses nothing. Let it start empty and poll at any moments, with any page size, between
  the requests of clients, arrivals, purges and clean-ups, of which any statement may fail: polling at most once more than there
  are rows brings it to an empty answer, and then its copy has every message of the mailbox, deleted or not as the server has it.\<close>
theorem bridge_copy_complete:
  assumes "(sync_step P mb)\<^sup>*\<^sup>* (w0, Map.empty, 0) (w, copy, since)" "change_wf (sw_db w0)" "\<forall>r \<in> set (sd_state (sw_db w0)). 1 \<le> ms_change_id r"
    and "0 < limit"
  shows "\<exists>copy' since'. catch_up (Suc (length (sd_state (sw_db w)))) mb limit (sw_db w) (copy, since) = Some (copy', since') \<and>
    (\<forall>i r. state_row mb i (sw_db w) = Some r \<longrightarrow> copy' i = Some (truthy_opt (ms_expunged_at r)))"
proof -
  have "0 < feed_mark mb (sw_db w0)" using feed_mark_pos [OF assms(2), of mb] by simp
  moreover have "\<not> n \<le> 0" if "feed_rows mb (sw_db w0) i = Some (n, v)" for i n v
    using that assms(3) unfolding feed_rows_iff [OF assms(2)] by auto
  ultimately have "right_copy mb (w0, Map.empty, 0)" using assms(2) by (auto simp: right_copy_def in_sync_def)
  from sync_run_right [OF assms(1) this] have "change_wf (sw_db w)" "in_sync (feed_rows mb (sw_db w)) (feed_mark mb (sw_db w)) since copy"
    by (simp_all add: right_copy_def)
  from catch_up_ends [OF this(1) assms(4) this(2), of "Suc (length (sd_state (sw_db w)))"] show ?thesis
    by (simp add: ahead_def less_Suc_eq_le)
qed

text \<open>C25. Two requests at the same time can hide a change from the feed. A request draws its number and writes its row in two statements; if
  another request on the mailbox draws the next number and writes first, and the bridge polls in between, then the bridge has
  passed the number of the first: its row is changed, and no later poll ever reports it.\<close>
theorem late_write_missed:
  assumes "change_wf db" "alloc_change c mb a db = (db1, Inr n)" "alloc_change c' mb b db1 = (db2, Inr k)" "state_row mb b db \<noteq> None"
    and "update_state c' mb b g db2 = (db3, Inr ())" "\<forall>r. ms_mailbox_id (g r) = ms_mailbox_id r \<and> ms_message_id (g r) = ms_message_id r \<and> ms_change_id (g r) = k"
    and "catch_up fuel mb limit db3 (copy, since) = Some (copy', since')" "0 < limit"
    and "update_state c mb a f db3 = (db4, Inr ())" "\<forall>r. ms_mailbox_id (f r) = ms_mailbox_id r \<and> ms_message_id (f r) = ms_message_id r \<and> ms_change_id (f r) = n"
  shows "n < since' \<and> state_row mb a db4 = map_option f (state_row mb a db3) \<and>
    (\<forall>later lim. since' \<le> later \<longrightarrow> changes_page (changes_since mb later lim db4) a = None)"
proof -
  obtain t1 where t1: "allocChangeId (sc_change_faults c a) mb (sd_change db) = (t1, Inr n)" "db1 = db\<lparr>sd_change := t1\<rparr>"
    using assms(2) by (auto simp: alloc_change_def split: prod.splits)
  obtain t2 where t2: "allocChangeId (sc_change_faults c' b) mb t1 = (t2, Inr k)" "db2 = db\<lparr>sd_change := t2\<rparr>"
    using assms(3) t1(2) by (auto simp: alloc_change_def split: prod.splits)
  have p: "\<forall>m c v. sd_change db m = Some (c, v) \<longrightarrow> 1 \<le> c" using assms(1) by (simp add: change_wf_def)
  have "n < k" using alloc_change_advances(3) [OF t1(1) p refl] alloc_change_advances(3) [OF t2(1) alloc_change_advances(2) [OF t1(1) p] refl] by force
  have db3: "db3 = update_row mb b g db2" and db4: "db4 = update_row mb a f db3"
    using assms(5,9) by (auto simp: update_state_def exec_def split: fault.splits)
  obtain r where r: "r \<in> set (sd_state db)" "ms_mailbox_id r = mb" "ms_message_id r = b"
    using assms(4) state_row_iff [OF assms(1), of mb b] by fastforce
  then have "g r \<in> set (sd_state db3)" by (auto simp: db3 update_row_def t2(2))
  then have since: "n < since'" using catch_up_rests [OF assms(7,8)] assms(6) r(2) \<open>n < k\<close> by fastforce
  have "ms_change_id x = n" if "x \<in> set (sd_state db4)" "ms_mailbox_id x = mb" "ms_message_id x = a" for x
    using that assms(10) by (auto simp: db4 update_row_def split: if_splits)
  then have "a \<notin> ms_message_id ` set (changed_rows mb later lim db4)" if "since' \<le> later" for later lim
    using changed_rows_sub [of _ mb later lim db4] since that by fastforce
  then have "changes_page (changes_since mb later lim db4) a = None" if "since' \<le> later" for later lim
    using that unfolding changes_page_def changes_since_def collect_facts(1,2) by auto
  moreover have "state_row mb a db4 = map_option f (state_row mb a db3)" unfolding db4 by (rule state_row_update) (use assms(10) in simp)
  ultimately show ?thesis using since by blast
qed

text \<open>A row that is purged before the bridge has polled is never reported as deleted.\<close>
lemma purged_never_reported:
  assumes "state_row mb i db = None"
  shows "changes_page (changes_since mb since limit db) i = None"
proof -
  have "i \<notin> ms_message_id ` set (changed_rows mb since limit db)"
    using assms changed_rows_sub [of _ mb since limit db] by (auto simp: state_row_def find_None_iff)
  then show ?thesis unfolding changes_page_def changes_since_def collect_facts(1,2) by auto
qed

text \<open>Flags round-trip through the column.\<close>
lemma parse_flags_json:
  assumes "ap_parse P (ap_stringify P (JArr (map JStr fs))) = Some (JArr (map JStr fs))"
  shows "parseFlags P (flags_json P fs) = fs"
proof -
  have "json_strings (map JStr fs) = fs" by (induction fs) (simp_all add: json_strings_def List.map_filter_simps)
  with assms show ?thesis by (simp add: parseFlags_def flags_json_def)
qed

lemma ensure_row: "ensure_state c mb i db = (db', Inr s) \<Longrightarrow> change_wf db \<Longrightarrow> state_row mb i db' = Some s \<and> change_wf db'"
proof -
  assume e: "ensure_state c mb i db = (db', Inr s)" and wf: "change_wf db"
  have f: "\<not> sc_fails c ''select state'' i" using e by (auto simp: ensure_state_def split: if_splits)
  have "advances db db'" using inbound_advances e f by (auto simp: ensure_state_def ensureMailboxState_def split: option.splits) (metis fst_conv)
  moreover have "state_row mb i db' = Some s"
    using e f by (auto simp: ensure_state_def ensureMailboxState_def state_row_def allocateInboundState_def insert_state_def new_state_row_def Let_def
      find_append_eq split: option.splits prod.splits sum.splits if_splits)
  ultimately show ?thesis using wf by (simp add: advances_def)
qed

text \<open>C34. A flag change that is answered has happened. The row holds exactly the flags of the answer, which are those of the request where
  it names any, and the change number of the answer, which is above every number the mailbox had before; the time of reading is
  set when \<^verbatim>\<open>Seen\<close> appears and kept otherwise.\<close>
theorem set_flags_takes_effect:
  assumes "set_flags P c flags m w = (w', Next chg)" "change_wf (sw_db w)"
    and "ap_parse (sp_auth P) (ap_stringify (sp_auth P) (JArr (map JStr (fg_flags chg)))) = Some (JArr (map JStr (fg_flags chg)))"
  shows "\<exists>r. state_row (pm_mailbox_id m) (pm_id m) (sw_db w') = Some r \<and> parseFlags (sp_auth P) (ms_flags_json r) = fg_flags chg \<and>
    ms_change_id r = fg_change_id chg \<and> ms_read_at r = fg_read_at chg \<and> (\<forall>fs. flags = Some fs \<longrightarrow> fg_flags chg = fs) \<and>
    feed_mark (pm_mailbox_id m) (sw_db w) \<le> fg_change_id chg \<and> (fg_newly_seen chg \<longrightarrow> SEEN \<in> set (fg_flags chg) \<and> fg_read_at chg = Some (sc_now c))"
proof -
  let ?mb = "pm_mailbox_id m" and ?i = "pm_id m"
  obtain w1 s where e: "on_db (ensure_state c ?mb ?i) w = (w1, Next s)" using assms(1) by (auto simp: set_flags_def Let_def and_then_Next)
  then have s: "state_row ?mb ?i (sw_db w1) = Some s" "change_wf (sw_db w1)" "feed_mark ?mb (sw_db w) \<le> feed_mark ?mb (sw_db w1)"
    using ensure_row [OF _ assms(2)] ensure_adv [of w c ?mb ?i] assms(2)
    by (auto simp: on_db_def adv_def advances_def split: prod.splits sum.splits)
  obtain w2 n where a: "on_db (alloc_change c ?mb ?i) w1 = (w2, Next n)" using assms(1) e by (auto simp: set_flags_def Let_def and_then_Next)
  obtain t where t: "allocChangeId (sc_change_faults c ?i) ?mb (sd_change (sw_db w1)) = (t, Inr n)" "sw_db w2 = (sw_db w1)\<lparr>sd_change := t\<rparr>"
    using a by (auto simp: on_db_def alloc_change_def split: prod.splits sum.splits)
  have n: "feed_mark ?mb (sw_db w1) \<le> n" using counter_advances(2) [OF t(1) s(2) refl] by simp
  have s2: "state_row ?mb ?i (sw_db w2) = Some s" using s(1) t(2) by (simp add: state_row_def)
  have u: "sw_db w' = update_row ?mb ?i (\<lambda>r. r\<lparr>ms_flags_json := flags_json (sp_auth P) (fg_flags chg), ms_read_at := fg_read_at chg, ms_change_id := n\<rparr>) (sw_db w2)"
    "fg_change_id chg = n" "\<forall>fs. flags = Some fs \<longrightarrow> fg_flags chg = fs" "fg_newly_seen chg \<longrightarrow> SEEN \<in> set (fg_flags chg) \<and> fg_read_at chg = Some (sc_now c)"
    using assms(1) e a by (auto simp: set_flags_def Let_def and_then_Next on_db_def update_state_def exec_def split: prod.splits sum.splits fault.splits option.splits if_splits)
  have "state_row ?mb ?i (sw_db w') = Some (s\<lparr>ms_flags_json := flags_json (sp_auth P) (fg_flags chg), ms_read_at := fg_read_at chg, ms_change_id := n\<rparr>)"
    unfolding u(1) by (subst state_row_update) (simp_all add: s2)
  then show ?thesis using u(2-4) n s(3) parse_flags_json [OF assms(3)] by auto
qed

text \<open>Clearing \<^verbatim>\<open>Seen\<close> leaves the time of reading, and reading the message again does not set the flag again.\<close>
lemma cleared_seen_stays_cleared:
  assumes "state_row mb i (sw_db w) = Some s" "truthy_opt (ms_read_at s)" "\<not> sc_fails c ''select state'' i"
  shows "autoMarkRead P c mb i w = (w, Next ())"
proof -
  have "ensure_state c mb i (sw_db w) = (sw_db w, Inr s)"
    using assms(1,3) by (simp add: ensure_state_def ensureMailboxState_def state_row_def)
  moreover have "set_db (sw_db w) w = w" by (simp add: set_db_def sw_db_def)
  ultimately show ?thesis using assms(2) by (simp add: autoMarkRead_def on_db_def)
qed

text \<open>A nonce whose background write fails is not recorded, and the request is served all the same.\<close>
lemma nonce_write_not_awaited:
  assumes "ac_fails pc ''put nonce''"
  shows "nonce_in_background pc keyId nonce w = w"
  using assms by (simp add: nonce_in_background_def nonce_record_def)

text \<open>No caller is bound to a mailbox, so the mailbox of a message is never compared with the caller's.\<close>
lemma callers_have_no_mailbox:
  assumes "authenticateCaller P c pc w = (w', Next cl)"
  shows "cl_mailbox_id cl = None" "\<not> other_mailbox cl mb"
proof -
  have k: "key_caller P c r = Next cl \<Longrightarrow> cl_mailbox_id cl = None" for r by (auto simp: key_caller_def split: option.splits)
  show "cl_mailbox_id cl = None"
    using assms by (auto simp: authenticateCaller_def authenticate_bridge_def authenticate_key_def bridge_caller_def and_then_Next k
      split: option.splits if_splits sum.splits bridge_err.splits verify_result.splits)
  then show "\<not> other_mailbox cl mb" by (simp add: other_mailbox_def truthy_opt_def)
qed

text \<open>The purge as the nightly clean-up does it, statement by statement.\<close>
definition as_janitor :: "sync_call \<Rightarrow> janitor_call" where
  "as_janitor c = \<lparr> jc_now = [], jc_cutoff = (\<lambda>_. []), jc_grace = None,
     jc_fails = (\<lambda>s i. if s = ''select state'' then sc_fails c ''select other state'' i else sc_fails c s i) \<rparr>"

lemma purge_row_janitor: "fst (purge_row c m j) = fst (purgeMessage (as_janitor c) m j)"
  by (auto simp: purge_row_def purgeMessage_def as_janitor_def Let_def)

lemma expunge_row_janitor: "fst (expunge_row c (ms_mailbox_id s) (ms_message_id s) j) = fst (expunge_state (as_janitor c) s j)"
  by (auto simp: expunge_row_def expunge_state_def purge_row_janitor Let_def as_janitor_def split: option.split)

lemma expunge_rows_wf:
  fixes ss :: "MailboxStateRow list"
  assumes "pipe_wf PP (jw_pipe j)" "smooth (as_janitor c)" "\<forall>s \<in> set ss. \<not> referenced (ms_message_id s) j \<and> ms_mailbox_id s = mb"
  shows "pipe_wf PP (jw_pipe (fst (expunge_rows c mb (map ms_message_id ss) counts j)))"
  using assms(1,3)
proof (induction ss arbitrary: j counts)
  case (Cons s ss)
  obtain j1 r where r: "expunge_row c mb (ms_message_id s) j = (j1, r)" by fastforce
  then have j1: "j1 = fst (expunge_state (as_janitor c) s j)" using expunge_row_janitor [of c s j] Cons.prems(2) by simp
  have "pipe_wf PP (jw_pipe j1)" unfolding j1 using expunge_state_wf [OF Cons.prems(1) assms(2)] Cons.prems(2) by simp
  moreover have "referenced i j1 = referenced i j" for i unfolding j1 referenced_def by (simp add: refs_kept)
  ultimately show ?case using Cons.IH [of j1] Cons.prems(2) r by (auto split: sum.splits)
qed simp

lemma expunge_rows_kept:
  assumes "kept m body ss j" "smooth (as_janitor c)" "\<forall>s \<in> set ss. ms_mailbox_id s = mb"
  shows "kept m body [] (fst (expunge_rows c mb (map ms_message_id ss) counts j))"
  using assms(1,3)
proof (induction ss arbitrary: j counts)
  case (Cons s ss)
  obtain j1 r where r: "expunge_row c mb (ms_message_id s) j = (j1, r)" by fastforce
  then have "j1 = fst (expunge_state (as_janitor c) s j)" using expunge_row_janitor [of c s j] Cons.prems(2) by simp
  then have "kept m body ss j1" using kept_step [OF Cons.prems(1) assms(2)] by simp
  then show ?case using Cons.IH [of j1] Cons.prems(2) r by (auto simp: kept_def split: sum.splits)
qed simp

definition purgeable :: "string \<Rightarrow> MailboxStateRow \<Rightarrow> bool" where
  "purgeable mb s = (ms_mailbox_id s = mb \<and> ms_expunged_at s \<noteq> None)"

definition same_store :: "janitor_world \<Rightarrow> janitor_world \<Rightarrow> bool" where
  "same_store j j' = (pw_messages (jw_pipe j) = pw_messages (jw_pipe j') \<and> pw_r2 (jw_pipe j) = pw_r2 (jw_pipe j') \<and> pw_state (jw_pipe j) = pw_state (jw_pipe j'))"

lemma expunge_route_store:
  "same_store (sw_store (fst (expunge_route P c w))) (sw_store w) \<or>
   same_store (sw_store (fst (expunge_route P c w)))
     (fst (expunge_rows c (sc_id c) (map ms_message_id (filter (purgeable (sc_id c)) (sd_state (sw_db w)))) (0, 0) (sw_store w)))"
proof -
  let ?rows = "expunge_rows c (sc_id c) (map ms_message_id (filter (purgeable (sc_id c)) (sd_state (sw_db w)))) (0, 0) (sw_store w)"
  have ids: "expunged_ids (sc_id c) (sw_db v) = map ms_message_id (filter (purgeable (sc_id c)) (sd_state (sw_db v)))" for v
    by (simp add: expunged_ids_def purgeable_def [abs_def])
  have aud: "same_store (sw_store (fst (sync_audit P c cl act tgt meta v))) (sw_store v)" for cl act tgt meta v
    by (simp add: sync_audit_def same_store_def Let_def split: prod.splits)
  obtain a x where x: "authenticateCaller (sp_auth P) (sc_ctx c) (sc_auth c) (sw_auth w) = (a, x)" by fastforce
  obtain j r where j: "?rows = (j, r)" by fastforce
  show ?thesis
    using aud by (cases x; cases r) (auto simp: expunge_route_def with_caller_def on_auth_def x j ids same_store_def)
qed

text \<open>The purge of a mailbox takes only what was deleted in it. When no look-up fails and nothing refers to the purged messages, every
  message left has its body, and a message that is not deleted in this mailbox, or that another mailbox has, keeps row and body.\<close>
theorem purge_keeps_store:
  assumes "pipe_wf PP (jw_pipe (sw_store w))" "smooth (as_janitor c)"
    and "\<forall>s \<in> set (sd_state (sw_db w)). purgeable (sc_id c) s \<longrightarrow> \<not> referenced (ms_message_id s) (sw_store w)"
  shows "pipe_wf PP (jw_pipe (sw_store (fst (expunge_route P c w)))) \<and>
    (\<forall>m \<in> set (pw_messages (jw_pipe (sw_store w))).
       (\<forall>s \<in> set (sd_state (sw_db w)). ms_message_id s = pm_id m \<longrightarrow> \<not> purgeable (sc_id c) s) \<or>
       (\<exists>s \<in> set (sd_state (sw_db w)). ms_message_id s = pm_id m \<and> \<not> purgeable (sc_id c) s) \<longrightarrow>
       m \<in> set (pw_messages (jw_pipe (sw_store (fst (expunge_route P c w))))) \<and>
       pw_r2 (jw_pipe (sw_store (fst (expunge_route P c w)))) (pm_r2_key m) = pw_r2 (jw_pipe (sw_store w)) (pm_r2_key m))"
proof -
  let ?j = "sw_store w" and ?st = "sd_state (sw_db w)" and ?Q = "purgeable (sc_id c)"
  let ?j' = "fst (expunge_rows c (sc_id c) (map ms_message_id (filter ?Q ?st)) (0, 0) ?j)"
  have mb: "\<forall>s \<in> set (filter ?Q ?st). ms_mailbox_id s = sc_id c" by (simp add: purgeable_def)
  have wf: "pipe_wf PP (jw_pipe ?j')" using expunge_rows_wf [OF assms(1,2), of "filter ?Q ?st"] mb assms(3) by auto
  have pk: "state_pk x \<notin> state_pk ` set (filter ?Q ?st)" if "x \<in> set ?st" "\<not> ?Q x" for x
    using assms(1) that by (auto simp: pipe_wf_def state_wf_def sw_db_def distinct_map inj_on_def)
  have "kept m (pw_r2 (jw_pipe ?j) (pm_r2_key m)) (filter ?Q ?st) ?j"
    if "m \<in> set (pw_messages (jw_pipe ?j))" "(\<forall>s \<in> set ?st. ms_message_id s = pm_id m \<longrightarrow> \<not> ?Q s) \<or> (\<exists>s \<in> set ?st. ms_message_id s = pm_id m \<and> \<not> ?Q s)" for m
    using that pk unfolding kept_def sw_db_def by auto
  from expunge_rows_kept [OF this assms(2) mb, where counts = "(0, 0)"]
  have k: "m \<in> set (pw_messages (jw_pipe ?j')) \<and> pw_r2 (jw_pipe ?j') (pm_r2_key m) = pw_r2 (jw_pipe ?j) (pm_r2_key m)"
    if "m \<in> set (pw_messages (jw_pipe ?j))" "(\<forall>s \<in> set ?st. ms_message_id s = pm_id m \<longrightarrow> \<not> ?Q s) \<or> (\<exists>s \<in> set ?st. ms_message_id s = pm_id m \<and> \<not> ?Q s)" for m
    using that by (simp add: kept_def)
  show ?thesis
    using expunge_route_store [of P c w]
  proof
    assume "same_store (sw_store (fst (expunge_route P c w))) ?j"
    then show ?thesis using assms(1) by (simp add: same_store_def pipe_wf_def)
  next
    assume "same_store (sw_store (fst (expunge_route P c w))) ?j'"
    then have e: "pw_messages (jw_pipe (sw_store (fst (expunge_route P c w)))) = pw_messages (jw_pipe ?j')"
      "pw_r2 (jw_pipe (sw_store (fst (expunge_route P c w)))) = pw_r2 (jw_pipe ?j')"
      "pw_state (jw_pipe (sw_store (fst (expunge_route P c w)))) = pw_state (jw_pipe ?j')" by (simp_all add: same_store_def)
    then have "pipe_wf PP (jw_pipe (sw_store (fst (expunge_route P c w))))" using wf by (simp add: pipe_wf_def)
    with k show ?thesis unfolding e by blast
  qed
qed

section \<open>Demonstration\<close>

definition demo_sp :: sync_platform where
  "demo_sp = \<lparr> sp_auth = demo_ap\<lparr>
       ap_parse := (\<lambda>s. if s = ''hi'' then Some (JObj [(''flags'', JArr [JStr SEEN])]) else if s = ''F'' then Some (JArr [JStr SEEN]) else None),
       ap_stringify := (\<lambda>j. if j = JArr [JStr SEEN] then ''F'' else ''J'') \<rparr>,
     sp_fan = \<lparr> fp_crypto = demo_platform, fp_iso = (\<lambda>_. []), fp_mime = demo_runtime, fp_stringify = (\<lambda>_. []), fp_parse = (\<lambda>_. None), fp_host = ''h'' \<rparr>,
     sp_String = (\<lambda>_. []) \<rparr>"

definition demo_sc :: "string \<Rightarrow> sync_call" where
  "demo_sc i = \<lparr> sc_ctx = demo_http\<lparr>hc_header := (hc_header demo_http)(''x-polaris-key-id'' := None, ''x-polaris-bridge-id'' := Some demo_kid)\<rparr>,
     sc_auth = demo_call 0, sc_id = i, sc_query = (\<lambda>q. if q = ''since_state'' then Some ''0'' else None), sc_now = ''t'', sc_nowMs = 5, sc_inline_max = None,
     sc_fails = (\<lambda>_ _. False), sc_uid_faults = (\<lambda>_ _. No_fault), sc_touch_faults = (\<lambda>_ _. No_fault), sc_change_faults = (\<lambda>_ _. No_fault),
     sc_update_fault = (\<lambda>_. No_fault), sc_audit_others = (\<lambda>_ t. t) \<rparr>"

definition demo_stored :: pm_message where
  "demo_stored = \<lparr> pm_id = demo_kid, pm_mailbox_id = demo_oid, pm_bridge_id = None, pm_dir = Dir_in, pm_status = ''received'', pm_from_addr = ''a'',
     pm_to_addrs = ''[]'', pm_subject = [], pm_r2_key = r2_key_of ''0d0a0d0a'', pm_content_sha256 = ''0d0a0d0a'', pm_body_bytes = 0, pm_attachments_total_bytes = 0,
     pm_idempotency_key = None, pm_header_message_id = None, pm_thread_id = None, pm_received_at_api = ''t'', pm_auth_row = no_auth,
     pm_send_attempt_id = None, pm_queued_at = None, pm_created_at = ''t'' \<rparr>"

definition demo_sw :: sync_world where
  "demo_sw = \<lparr> sw_auth = demo_bridge_world,
     sw_store = \<lparr> jw_pipe = demo_w0\<lparr>pw_messages := [demo_stored], pw_r2 := [r2_key_of ''0d0a0d0a'' \<mapsto> [13, 10, 13, 10]]\<rparr>, jw_expires = (\<lambda>_. None), jw_attempts = [] \<rparr>,
     sw_later = (\<lambda>_. \<lparr> lc_received_at_bridge = None, lc_sending_at = None, lc_sent_at = None, lc_delivered_at = None, lc_failed_at = None,
       lc_bounce_metadata = None, lc_last_error = None \<rparr>) \<rparr>"

lemma demo_patch: "sd_state (sw_db (fst (patch_message demo_sp (demo_sc demo_kid) demo_sw))) =
   [(new_state_row demo_oid demo_kid 1 0 2)\<lparr>ms_read_at := Some ''t'', ms_flags_json := ''F''\<rparr>]"
  by code_simp

lemma demo_poll: "case snd (changes_route demo_sp (demo_sc demo_oid) (fst (patch_message demo_sp (demo_sc demo_kid) demo_sw))) of
   Next g \<Rightarrow> g = \<lparr> cg_updated = [demo_kid], cg_deleted = [], cg_state = 2 \<rparr> | _ \<Rightarrow> False"
  by code_simp

lemma bridge_copy_complete_witness:
  "\<exists>w copy' since'. (sync_step demo_sp demo_oid)\<^sup>*\<^sup>* (demo_sw, Map.empty, 0) (w, [demo_kid \<mapsto> False], 2) \<and>
     catch_up (Suc (length (sd_state (sw_db w)))) demo_oid 100 (sw_db w) ([demo_kid \<mapsto> False], 2) = Some (copy', since') \<and> copy' demo_kid = Some False"
proof -
  let ?w1 = "fst (patch_message demo_sp (demo_sc demo_kid) demo_sw)"
  obtain w g where p: "changes_route demo_sp (demo_sc demo_oid) ?w1 = (w, Next g)" and g: "g = \<lparr> cg_updated = [demo_kid], cg_deleted = [], cg_state = 2 \<rparr>"
    using demo_poll by (cases "changes_route demo_sp (demo_sc demo_oid) ?w1") (auto split: outcome.splits)
  have q: "sc_id (demo_sc demo_oid) = demo_oid" "sc_query (demo_sc demo_oid) ''since_state'' = Some (int_to_string 0)"
    by (simp add: demo_sc_def) code_simp
  have "sync_step demo_sp demo_oid (?w1, Map.empty, 0) (w, Map.empty ++ changes_page g, cg_state g)" by (rule Sync_poll [OF p q])
  moreover have "Map.empty ++ changes_page g = [demo_kid \<mapsto> False]" by (auto simp: g changes_page_def map_add_def)
  moreover have "sync_step demo_sp demo_oid (demo_sw, Map.empty, 0) (?w1, Map.empty, 0)" by (rule Sync_server [OF Srv_patch])
  ultimately have run: "(sync_step demo_sp demo_oid)\<^sup>*\<^sup>* (demo_sw, Map.empty, 0) (w, [demo_kid \<mapsto> False], 2)"
    by (simp add: g)
  have w: "sw_db w = sw_db ?w1" by (rule changes_route_Next(2) [OF p q(2)]) simp
  have wf: "change_wf (sw_db demo_sw)" "\<forall>r \<in> set (sd_state (sw_db demo_sw)). 1 \<le> ms_change_id r"
    by (simp_all add: demo_sw_def sw_db_def demo_w0_def change_wf_def)
  have "state_row demo_oid demo_kid (sw_db w) = Some ((new_state_row demo_oid demo_kid 1 0 2)\<lparr>ms_read_at := Some ''t'', ms_flags_json := ''F''\<rparr>)"
    unfolding w state_row_def demo_patch by (simp add: new_state_row_def)
  then show ?thesis using bridge_copy_complete [OF run wf, of 100] run by (fastforce simp: new_state_row_def truthy_opt_def)
qed

definition demo_feed :: state_db where
  "demo_feed = \<lparr> sd_state = [new_state_row ''mb'' ''a'' 1 7 1, new_state_row ''mb'' ''b'' 2 7 2], sd_uid = [''mb'' \<mapsto> (3, 7)], sd_change = [''mb'' \<mapsto> (3, ())] \<rparr>"

lemma late_write_missed_witness:
  "\<exists>copy'. catch_up 9 ''mb'' 100 (update_row ''mb'' ''b'' (\<lambda>r. r\<lparr>ms_expunged_at := Some ''t'', ms_change_id := 4\<rparr>) (demo_feed\<lparr>sd_change := [''mb'' \<mapsto> (5, ())]\<rparr>)) (Map.empty, 0) = Some (copy', 4) \<and>
     changes_page (changes_since ''mb'' 4 100 (update_row ''mb'' ''a'' (\<lambda>r. r\<lparr>ms_expunged_at := Some ''t'', ms_change_id := 3\<rparr>)
       (update_row ''mb'' ''b'' (\<lambda>r. r\<lparr>ms_expunged_at := Some ''t'', ms_change_id := 4\<rparr>) (demo_feed\<lparr>sd_change := [''mb'' \<mapsto> (5, ())]\<rparr>)))) ''a'' = None"
proof -
  let ?f = "\<lambda>n r. r\<lparr>ms_expunged_at := Some ''t'', ms_change_id := n\<rparr>" and ?c = "demo_sc []"
  let ?d2 = "demo_feed\<lparr>sd_change := [''mb'' \<mapsto> (5, ())]\<rparr>"
  let ?d3 = "update_row ''mb'' ''b'' (?f 4) ?d2"
  have al: "alloc_change ?c ''mb'' ''a'' demo_feed = (demo_feed\<lparr>sd_change := [''mb'' \<mapsto> (4, ())]\<rparr>, Inr 3)"
    "alloc_change ?c ''mb'' ''b'' (demo_feed\<lparr>sd_change := [''mb'' \<mapsto> (4, ())]\<rparr>) = (?d2, Inr 4)"
    by (simp_all add: alloc_change_def demo_sc_def demo_feed_def allocChangeId_def allocateChangeId_def allocate_def exec_def bump_def)
  have up: "update_state ?c ''mb'' i f db = (update_row ''mb'' i f db, Inr ())" for i f db
    by (simp add: update_state_def demo_sc_def exec_def)
  have wf: "change_wf demo_feed" by (simp add: change_wf_def demo_feed_def new_state_row_def feed_mark_def state_pk_def)
  have b: "state_row ''mb'' ''b'' demo_feed \<noteq> None" by (simp add: state_row_def demo_feed_def new_state_row_def)
  have "map_option snd (catch_up 9 ''mb'' 100 ?d3 (Map.empty, 0)) = Some 4" by code_simp
  then obtain copy' where cu: "catch_up 9 ''mb'' 100 ?d3 (Map.empty, 0) = Some (copy', 4)" by (cases "catch_up 9 ''mb'' 100 ?d3 (Map.empty, 0)") auto
  have k: "\<forall>r. ms_mailbox_id (?f n r) = ms_mailbox_id r \<and> ms_message_id (?f n r) = ms_message_id r \<and> ms_change_id (?f n r) = n" for n by simp
  have "changes_page (changes_since ''mb'' 4 100 (update_row ''mb'' ''a'' (?f 3) ?d3)) ''a'' = None"
    using late_write_missed [OF wf al b up k cu _ up k] by simp
  with cu show ?thesis by blast
qed

lemma set_flags_takes_effect_witness:
  "\<exists>w' chg r. set_flags demo_sp (demo_sc demo_kid) (Some [SEEN]) demo_stored demo_sw = (w', Next chg) \<and>
     state_row demo_oid demo_kid (sw_db w') = Some r \<and> parseFlags (sp_auth demo_sp) (ms_flags_json r) = [SEEN]"
proof -
  have "case snd (set_flags demo_sp (demo_sc demo_kid) (Some [SEEN]) demo_stored demo_sw) of Next chg \<Rightarrow> fg_flags chg = [SEEN] | _ \<Rightarrow> False" by code_simp
  then obtain w' chg where s: "set_flags demo_sp (demo_sc demo_kid) (Some [SEEN]) demo_stored demo_sw = (w', Next chg)" "fg_flags chg = [SEEN]"
    by (cases "set_flags demo_sp (demo_sc demo_kid) (Some [SEEN]) demo_stored demo_sw") (auto split: outcome.splits)
  have wf: "change_wf (sw_db demo_sw)" by (simp add: demo_sw_def sw_db_def demo_w0_def change_wf_def)
  have j: "ap_parse (sp_auth demo_sp) (ap_stringify (sp_auth demo_sp) (JArr (map JStr (fg_flags chg)))) = Some (JArr (map JStr (fg_flags chg)))"
    unfolding s(2) by code_simp
  have m: "pm_mailbox_id demo_stored = demo_oid" "pm_id demo_stored = demo_kid" by (simp_all add: demo_stored_def)
  show ?thesis using set_flags_takes_effect [OF s(1) wf j] s unfolding m by auto
qed

definition demo_purge :: sync_call where
  "demo_purge = (demo_sc demo_oid)\<lparr>sc_ctx := demo_http\<rparr>"

definition demo_sp2 :: sync_platform where
  "demo_sp2 = demo_sp\<lparr>sp_auth := (sp_auth demo_sp)\<lparr>ap_parse := (\<lambda>_. Some (JArr [JStr ''admin:rotate'']))\<rparr>\<rparr>"

definition demo_sw2 :: sync_world where
  "demo_sw2 = demo_sw\<lparr>sw_auth := demo_world, sw_store := (sw_store demo_sw)\<lparr>jw_pipe := (jw_pipe (sw_store demo_sw))
     \<lparr>pw_messages := [demo_stored, demo_stored\<lparr>pm_id := ''other''\<rparr>],
      pw_state := \<lparr> sd_state = [(new_state_row demo_oid demo_kid 1 7 1)\<lparr>ms_expunged_at := Some ''t''\<rparr>, new_state_row demo_oid ''other'' 2 7 2],
        sd_uid = [demo_oid \<mapsto> (3, 7)], sd_change = [demo_oid \<mapsto> (3, ())] \<rparr>\<rparr>\<rparr>\<rparr>"

text \<open>One of two messages with the same body is purged, the other keeps it.\<close>
lemma purge_keeps_store_witness:
  "map pm_id (pw_messages (jw_pipe (sw_store (fst (expunge_route demo_sp2 demo_purge demo_sw2))))) = [''other''] \<and>
   pipe_wf demo_pp (jw_pipe (sw_store (fst (expunge_route demo_sp2 demo_purge demo_sw2))))"
proof -
  have r: "map pm_id (pw_messages (jw_pipe (sw_store (fst (expunge_route demo_sp2 demo_purge demo_sw2))))) = [''other'']" by code_simp
  have ne: "demo_kid \<noteq> ''other''" by code_simp
  have h: "sha256Hex (pp_crypto demo_pp) [13, 10, 13, 10] = ''0d0a0d0a''" by code_simp
  have "pipe_wf demo_pp (jw_pipe (sw_store demo_sw2))"
    unfolding pipe_wf_def
  proof (intro conjI)
    show "bodies_ok demo_pp (pw_r2 (jw_pipe (sw_store demo_sw2)))"
      using h by (auto simp: bodies_ok_def demo_sw2_def demo_sw_def r2_key_of_inject split: if_splits)
    show "list_all (has_body (pw_r2 (jw_pipe (sw_store demo_sw2)))) (pw_messages (jw_pipe (sw_store demo_sw2)))"
      by (simp add: demo_sw2_def demo_sw_def demo_stored_def has_body_def)
    show "state_wf (pw_state (jw_pipe (sw_store demo_sw2)))"
      using ne by (simp add: demo_sw2_def state_wf_def new_state_row_def state_pk_def)
  qed
  moreover have "smooth (as_janitor demo_purge)" by (simp add: smooth_def as_janitor_def demo_purge_def demo_sc_def)
  moreover have "\<not> referenced i (sw_store demo_sw2)" for i by (simp add: referenced_def demo_sw2_def demo_sw_def demo_w0_def)
  ultimately show ?thesis using purge_keeps_store [of demo_pp demo_sw2 demo_purge demo_sp2] r by blast
qed

end
