(* ===== verification/Spec2Isabelle.thy ===== *)
theory Spec2Isabelle
  imports Hmac Ids AuditLog Mime Suppressions Policy Heuristics PolicyEngine Guards MailState Pipeline Secrets
    ApiAuth BridgeAuth BearerAuth OutConsumer Ssrf Fanout Unsub MimeJson MimeCompose InWorker
    Jobs Alerts AbuseTiers Promotion Janitor ChangeFeed MessageState MessageSync
begin

text \<open>
  A verification library for the core of polaris-email, a mail gateway in TypeScript that runs as Cloudflare workers.

  \<^bold>\<open>The program.\<close> Mail enters over HTTP (\<^verbatim>\<open>services/api\<close>), from self-hosted bridges, and from the mail routing of the platform
  (\<^verbatim>\<open>services/in\<close>). All three call one pipeline (\<^verbatim>\<open>packages/pipeline\<close>), which stores the message once by the hash of its bytes, gives it
  a place in its mailbox, writes an audit entry, and hands outbound mail to a queue. The outbound consumer (\<^verbatim>\<open>services/out\<close>) checks
  suppressions and policy and sends; the webhook consumer (\<^verbatim>\<open>services/api/src/queue\<close>) tells the customer. Scheduled jobs suppress
  abusive senders, promote DMARC policies and clean up. The state is in D1 tables, an R2 bucket, KV namespaces and queues.

  \<^bold>\<open>How it is modelled.\<close> Every function of the source is a HOL function of the same name where HOL allows it. Tables are lists of
  records with the unique indexes of the schema (\<open>insert_or_ignore\<close>), KV namespaces and the bucket are maps, queues and remote
  effects are lists that grow. A handler takes the world and returns the new one with its answer; errors and exceptions are values
  of a sum type. What a call meets is an argument: clocks, random bytes, answers of remote services, and a predicate that says which
  accesses fail, so that theorems quantify over all of them. Code that is not in the repository is a parameter with named hypotheses
  where a theorem relies on it: SHA-256 and HMAC, URL and date parsing, \<^verbatim>\<open>JSON.stringify\<close>, text decoding, the language model. Strings
  are Latin-1 character lists with the operations of the language they need (\<open>Prelude\<close>); machine words are used where width matters
  (hashes, base64, IP addresses), unbounded integers for the safe range of numbers, rationals for fractions.

  \<^bold>\<open>Shared.\<close> \<open>Prelude\<close>: strings, numbers, JSON, tables, and the locale \<open>keyed_store\<close> (what a look-up finds after a write), interpreted by
  headers, KV namespaces and budgets. \<open>Jobs\<close>: the locale \<open>scheduled_job\<close> (what every run keeps holds after any number of runs),
  interpreted by the jobs. \<open>ChangeFeed\<close>: the locale \<open>change_feed\<close> (rows numbered from a growing counter, and copies that follow them),
  interpreted by the mailbox states. \<open>AuditLog\<close> has the locale \<open>cas_log\<close> (a log appended by compare-and-swap), interpreted by the audit chain.

  \<^bold>\<open>Identity.\<close> \<open>Hmac\<close> is \<^verbatim>\<open>packages/hmac\<close>: canonical requests, signer, verifier; a request is accepted exactly when its signature is the
  one of its own canonical form within the skew, and two signed requests that differ have different forms. \<open>Ids\<close>: identifiers and
  bearers. \<open>Secrets\<close>: base64, PBKDF2 records, unsubscribe tokens. \<open>ApiAuth\<close>, \<open>BridgeAuth\<close>, \<open>BearerAuth\<close>: the three
  authentications of the API with caches, nonces, impersonation and staged secrets. \<open>Guards\<close>: revocation, sender scopes, rate limits.

  \<^bold>\<open>Mail.\<close> \<open>Mime\<close>: the strict parser and serializer, sender policy, addresses. \<open>MimeJson\<close>: the part walker that reads a message for
  the API, with its depth bound of ten levels. \<open>MimeCompose\<close>: the composer, and that the walker reads back what it wrote. \<open>Suppressions\<close>,
  \<open>Policy\<close>, \<open>Heuristics\<close>, \<open>PolicyEngine\<close>: the suppression list and the policy engine with its heuristics, bands and daily budget.

  \<^bold>\<open>Services.\<close> \<open>MailState\<close>: idempotency keys and mailbox counters under concurrent requests. \<open>Pipeline\<close>: \<open>processMessage\<close>; every stored
  message keeps a body with its hash. \<open>OutConsumer\<close>: the outbound consumer, which refines an abstract life cycle of a message and sends
  at most once. \<open>Fanout\<close> and \<open>Ssrf\<close>: signed webhook deliveries, their retries up to six attempts, and the guard on where they go.
  \<open>InWorker\<close>: the e-mail handler, which composes all of these; what it accepts is kept, what it stores has passed. \<open>Unsub\<close>: the two forms
  of unsubscribing. \<open>MessageState\<close>: the message-state endpoints of the IMAP bridges with their own authentication. \<open>MessageSync\<close>: a bridge
  that follows the changes of a mailbox ends with a complete copy, in every order of requests, arrivals, purges and polls; requests
  that overlap can hide a change from it.

  \<^bold>\<open>Jobs.\<close> \<open>Alerts\<close>: operator alerts, one page an hour. \<open>AbuseTiers\<close>: the thresholds and tiers of abusive senders. \<open>Promotion\<close>: the
  DMARC state machine as a step relation with its timing. \<open>Janitor\<close>: the clean-up that counts references to shared bodies.

  \<^bold>\<open>Errors found.\<close> Some theorems state what the code does against its intention: an expired suppression blocks its renewal, automatic
  suppressions and unsubscriptions are never enforced, relayed mail is always held, a failed submission burns its key, a failed
  DNS publication is never repeated, a message named by an idempotency key loses its body, a change
  written late is never reported.

  \<^bold>\<open>Bounds and fuel.\<close> All functions are total. Loops of the source that retry have the source's own bounds (eight audit attempts, five
  polls of a claim, six webhook attempts, depth ten of nested parts); the other loops run over lists.

  \<^bold>\<open>Not modelled.\<close> The ingestion of complaints and TLS reports and their parsers; the HTTP routes that submit and list messages
  and those over bridges and administration, which are queries and updates behind the authentication modelled here; the jobs that probe, mirror or back up
  external services; the client of the Cloudflare API; the schemas (declarations for a validation library), the SDKs, the panel
  (user interface), the tail worker, the installer and the documentation. Double-precision rounding, characters beyond Latin-1 and the
  texts of log lines and alert bodies are outside the model.
\<close>

end
